(* ===== verification/Prelude.thy ===== *)
theory Prelude
  imports Complex_Main "HOL-Library.Word"
begin

unbundle bit_operations_syntax

text \<open>
  Shared vocabulary of the development: bytes, times, results, Go's \<open>encoding/hex\<close> and
  \<open>encoding/binary\<close> as far as the signer uses them, and the generic facts on lists and
  partial maps that the component theories rely on.

  Conventions. A Go byte slice is a \<open>byte list\<close>, a Go string is an Isabelle \<open>string\<close>
  (Go strings are byte sequences, and so are these), a Go \<open>time.Time\<close> or
  \<open>time.Duration\<close> is an \<open>int\<close> counting nanoseconds, and a call that returns
  \<open>(value, error)\<close> has a result in \<open>'e + 'a\<close> with the error on the left. A Go map is a
  partial function; where the iteration order of a map matters, the order is an explicit
  argument of the definition.
\<close>

named_theorems ops "definitions of the operations a proof unfolds"
named_theorems wf_simps "characterisations of the well-formedness predicates"

type_synonym byte = "8 word"
type_synonym bytes = "byte list"
type_synonym time = int

abbreviation seconds :: "int \<Rightarrow> int" where
  "seconds n \<equiv> n * 1000000000"

subsection \<open>Results\<close>

fun rbind :: "'e + 'a \<Rightarrow> ('a \<Rightarrow> 'e + 'b) \<Rightarrow> 'e + 'b" where
  "rbind (Inl e) f = Inl e"
| "rbind (Inr x) f = f x"

fun ok :: "'e + 'a \<Rightarrow> bool" where
  "ok (Inl e) = False"
| "ok (Inr x) = True"

definition or_err :: "'e \<Rightarrow> 'a option \<Rightarrow> 'e + 'a" where
  "or_err e x = (case x of None \<Rightarrow> Inl e | Some v \<Rightarrow> Inr v)"

lemma rbind_Inr_iff [simp]: "rbind r f = Inr y \<longleftrightarrow> (\<exists>x. r = Inr x \<and> f x = Inr y)"
  by (cases r) auto

lemma or_err_Inr_iff [simp]: "or_err e x = Inr v \<longleftrightarrow> x = Some v"
  by (auto simp: or_err_def split: option.splits)

lemma or_err_simps [simp]: "or_err e (Some v) = Inr v" "or_err e None = Inl e"
  by (simp_all add: or_err_def)

lemma ok_iff: "ok r \<longleftrightarrow> (\<exists>x. r = Inr x)"
  by (cases r) auto

text \<open>Applying a fallible function to every element, stopping at the first failure.\<close>

fun omap :: "('a \<Rightarrow> 'b option) \<Rightarrow> 'a list \<Rightarrow> 'b list option" where
  "omap f [] = Some []"
| "omap f (x # xs) =
     (case f x of None \<Rightarrow> None
      | Some y \<Rightarrow> (case omap f xs of None \<Rightarrow> None | Some ys \<Rightarrow> Some (y # ys)))"

lemma omap_map_Some: "(\<And>x. x \<in> set xs \<Longrightarrow> f (g x) = Some (h x)) \<Longrightarrow> omap f (map g xs) = Some (map h xs)"
  by (induction xs) auto

lemma omap_length: "omap f xs = Some ys \<Longrightarrow> length ys = length xs"
  by (induction xs arbitrary: ys) (auto split: option.splits)

subsection \<open>Hexadecimal text (encoding/hex)\<close>

definition hex_digit :: "byte \<Rightarrow> char" where
  "hex_digit n = (''0123456789abcdef'') ! unat n"

definition hex_byte :: "byte \<Rightarrow> string" where
  "hex_byte b = [hex_digit (drop_bit 4 b), hex_digit (b AND 15)]"

definition hex_encode :: "bytes \<Rightarrow> string" where
  "hex_encode bs = concat (map hex_byte bs)"

text \<open>\<open>fromHexChar\<close>: digits, and letters of either case.\<close>

definition from_hex_char :: "char \<Rightarrow> byte option" where
  "from_hex_char c =
     (let n = of_char c :: nat in
      if 48 \<le> n \<and> n \<le> 57 then Some (of_nat (n - 48))
      else if 97 \<le> n \<and> n \<le> 102 then Some (of_nat (n - 97 + 10))
      else if 65 \<le> n \<and> n \<le> 70 then Some (of_nat (n - 65 + 10))
      else None)"

fun hex_decode :: "string \<Rightarrow> bytes option" where
  "hex_decode [] = Some []"
| "hex_decode [c] = None"
| "hex_decode (a # b # cs) =
     (case from_hex_char a of None \<Rightarrow> None
      | Some x \<Rightarrow> (case from_hex_char b of None \<Rightarrow> None
        | Some y \<Rightarrow> (case hex_decode cs of None \<Rightarrow> None
          | Some bs \<Rightarrow> Some ((push_bit 4 x OR y) # bs))))"

lemma from_hex_digit_nat:
  "n < 16 \<Longrightarrow> from_hex_char ((''0123456789abcdef'') ! n) = Some (of_nat n)"
proof -
  assume "n < 16"
  moreover have "\<forall>n \<in> set [0..<16]. from_hex_char ((''0123456789abcdef'') ! n) = Some (of_nat n)"
    by code_simp
  ultimately show ?thesis by simp
qed

lemma from_hex_char_digit: "unat n < 16 \<Longrightarrow> from_hex_char (hex_digit n) = Some n"
  by (simp add: hex_digit_def from_hex_digit_nat)

lemma unat_and_15: "unat (b AND 15 :: byte) < 16"
proof -
  have "b AND 15 \<le> (15 :: byte)" by (rule word_and_le1)
  then have "unat (b AND 15) \<le> unat (15 :: byte)" by (simp add: word_le_nat_alt)
  then show ?thesis by simp
qed

lemma unat_drop_4: "unat (drop_bit 4 b :: byte) < 16"
proof -
  have "unat (drop_bit 4 b) = unat b div 16"
    by (simp add: unat_drop_bit_eq drop_bit_eq_div [of 4 "unat b"])
  with unsigned_less [of b, where ?'a = nat] show ?thesis by simp
qed

lemma join_nibbles: "push_bit 4 (drop_bit 4 b) OR (b AND 15) = (b :: byte)"
proof (rule bit_word_eqI)
  fix n assume n: "n < LENGTH(8)"
  have "bit (15 :: byte) n \<longleftrightarrow> n < 4"
  proof -
    have "(15 :: byte) = mask 4" by (simp add: mask_eq_exp_minus_1)
    then have "bit (15 :: byte) n = bit (mask 4 :: byte) n" by (rule arg_cong)
    with n show ?thesis by (simp only: bit_mask_iff) auto
  qed
  with n show "bit (push_bit 4 (drop_bit 4 b) OR (b AND 15)) n \<longleftrightarrow> bit b n"
    by (auto simp: bit_or_iff bit_and_iff bit_push_bit_iff bit_drop_bit_eq)
qed

lemma hex_decode_encode [simp]: "hex_decode (hex_encode bs) = Some bs"
  by (induction bs)
     (simp_all add: hex_encode_def hex_byte_def from_hex_char_digit unat_and_15 unat_drop_4 join_nibbles)

lemma length_hex_encode [simp]: "length (hex_encode bs) = 2 * length bs"
  by (induction bs) (simp_all add: hex_encode_def hex_byte_def)

lemma hex_encode_inj: "hex_encode a = hex_encode b \<Longrightarrow> a = b"
  by (metis hex_decode_encode option.inject)

subsection \<open>Strings as bytes\<close>

definition str_bytes :: "string \<Rightarrow> bytes" where
  "str_bytes s = map (\<lambda>c. of_nat (of_char c)) s"

lemma length_str_bytes [simp]: "length (str_bytes s) = length s"
  by (simp add: str_bytes_def)

subsection \<open>Big-endian integers (encoding/binary)\<close>

definition be16 :: "16 word \<Rightarrow> bytes" where
  "be16 w = [ucast (drop_bit 8 w), ucast w]"

definition be32 :: "32 word \<Rightarrow> bytes" where
  "be32 w = [ucast (drop_bit 24 w), ucast (drop_bit 16 w), ucast (drop_bit 8 w), ucast w]"

lemma length_be [simp]: "length (be16 w) = 2" "length (be32 v) = 4"
  by (simp_all add: be16_def be32_def)

lemma bit_ucast_drop: "n < 8 \<Longrightarrow> bit (ucast (drop_bit k w) :: byte) n \<longleftrightarrow> bit (w :: 'a::len word) (k + n)"
  by (auto simp: bit_ucast_iff bit_drop_bit_eq dest: bit_imp_le_length)

lemma be32_inj: "be32 v = be32 w \<Longrightarrow> v = w"
proof (rule bit_word_eqI)
  fix n assume eq: "be32 v = be32 w" and n: "n < LENGTH(32)"
  have *: "bit v (k + i) \<longleftrightarrow> bit w (k + i)" if "k \<in> {0, 8, 16, 24}" "i < 8" for k i
    using that eq bit_ucast_drop [of i k v] bit_ucast_drop [of i k w]
    by (auto simp: be32_def)
  have "\<exists>k i. k \<in> {0, 8, 16, 24} \<and> i < 8 \<and> n = k + i"
  proof -
    have "n = 8 * (n div 8) + n mod 8" by simp
    moreover have "n div 8 \<in> {0, 1, 2, 3}" using n by auto
    ultimately show ?thesis
      by (intro exI [of _ "8 * (n div 8)"] exI [of _ "n mod 8"]) auto
  qed
  with * show "bit v n \<longleftrightarrow> bit w n" by blast
qed

subsection \<open>Lists and maps\<close>

definition sweep :: "('v \<Rightarrow> bool) \<Rightarrow> ('k \<rightharpoonup> 'v) \<Rightarrow> ('k \<rightharpoonup> 'v)" where
  \<comment> \<open>the loop \<open>for k, v := range m { if stale(v) { delete(m, k) } }\<close>\<close>
  "sweep stale m = (\<lambda>k. case m k of None \<Rightarrow> None | Some v \<Rightarrow> if stale v then None else Some v)"

lemma sweep_Some_iff [simp]: "sweep stale m k = Some v \<longleftrightarrow> m k = Some v \<and> \<not> stale v"
  by (auto simp: sweep_def split: option.splits)

lemma sweep_None_iff [simp]: "sweep stale m k = None \<longleftrightarrow> (\<forall>v. m k = Some v \<longrightarrow> stale v)"
  by (auto simp: sweep_def split: option.splits)

lemma dom_sweep: "dom (sweep stale m) \<subseteq> dom m"
  by (auto simp: dom_def)

lemma foldl_plus_eq: "foldl (+) (a :: 'a::monoid_add) xs = a + sum_list xs"
  by (induction xs arbitrary: a) (simp_all add: add.assoc)

lemma sum_list_neg: "sum_list (map (\<lambda>x. - f x) xs) = - sum_list (map f xs :: 'a::ab_group_add list)"
  by (induction xs) simp_all

end
