(* ===== verification/Curve.thy ===== *)
theory Curve
  imports Prelude
begin

text \<open>
  The elliptic-curve library the signer calls (\<open>bytemare/ecc\<close> for the group,
  \<open>btcec/schnorr\<close> for the BIP-340 verifier, \<open>chainhash\<close> for tagged hashes) is not part
  of the repository: it is a parameter of the model, a record of the functions the code calls.
  Scalars are any field (the integers modulo the prime group order form one), group elements
  any abelian group.

  \<open>suite_laws\<close> collects what the signer relies on, as the libraries document it: the
  element and scalar encodings, the reduction of a digest, and the BIP-340 equation the
  verifier checks. No theorem about the signer's own arithmetic is among them.
\<close>

record ('s, 'g) suite =
  base_pt :: 'g                                \<comment> \<open>\<open>group.Base()\<close>\<close>
  smul :: "'s \<Rightarrow> 'g \<Rightarrow> 'g"                     \<comment> \<open>\<open>Element.Multiply\<close>\<close>
  enc_el :: "'g \<Rightarrow> bytes"                     \<comment> \<open>\<open>Element.Encode\<close>, compressed SEC1\<close>
  dec_el :: "bytes \<Rightarrow> 'g option"              \<comment> \<open>\<open>Element.Decode\<close>\<close>
  el_len :: nat                                \<comment> \<open>\<open>group.ElementLength()\<close>\<close>
  enc_sc :: "'s \<Rightarrow> bytes"                     \<comment> \<open>\<open>Scalar.Encode\<close>, 32 bytes big-endian\<close>
  dec_sc :: "bytes \<Rightarrow> 's option"              \<comment> \<open>\<open>Scalar.Decode\<close>\<close>
  sha256 :: "bytes \<Rightarrow> bytes"                  \<comment> \<open>\<open>sha256.Sum256\<close>\<close>
  challenge_hash :: "bytes \<Rightarrow> bytes"          \<comment> \<open>\<open>chainhash.TaggedHash(TagBIP0340Challenge, ...)\<close>\<close>
  mod_n :: "bytes \<Rightarrow> bytes"                   \<comment> \<open>\<open>ModNScalar.SetByteSlice\<close> then \<open>PutBytesUnchecked\<close>\<close>
  parse_sig :: "bytes \<Rightarrow> bool"                \<comment> \<open>\<open>schnorr.ParseSignature\<close> returns no error\<close>
  parse_pk :: "bytes \<Rightarrow> bool"                 \<comment> \<open>\<open>schnorr.ParsePubKey\<close> returns no error\<close>
  sig_verify :: "bytes \<Rightarrow> bytes \<Rightarrow> bytes \<Rightarrow> bool" \<comment> \<open>\<open>sig.Verify(msg, pk)\<close>\<close>

text \<open>The \<open>int(digest) mod n\<close> bridge: reduce, then decode.\<close>

definition scalar_of_digest :: "('s, 'g) suite \<Rightarrow> bytes \<Rightarrow> 's option" where
  "scalar_of_digest S d = dec_sc S (mod_n S d)"

text \<open>\<open>Element.DecodeHex\<close> and \<open>Element.Hex\<close>: hexadecimal text of the encoding.\<close>

definition dec_el_hex :: "('s, 'g) suite \<Rightarrow> string \<Rightarrow> 'g option" where
  "dec_el_hex S h = (case hex_decode h of None \<Rightarrow> None | Some bs \<Rightarrow> dec_el S bs)"

definition el_hex :: "('s, 'g) suite \<Rightarrow> 'g \<Rightarrow> string" where
  "el_hex S P = hex_encode (enc_el S P)"

abbreviation even_prefix :: byte where "even_prefix \<equiv> 2"
abbreviation odd_prefix :: byte where "odd_prefix \<equiv> 3"

text \<open>
  The element encoding: 33 bytes with a parity byte, a decoder that inverts it, and negation
  changing the parity byte only. The identity has no SEC1 compressed form, so nothing is
  assumed of its encoding.
\<close>

definition element_laws :: "('s, 'g::ab_group_add) suite \<Rightarrow> bool" where
  "element_laws S \<longleftrightarrow>
     el_len S = 33 \<and>
     (\<forall>P. P \<noteq> 0 \<longrightarrow>
        length (enc_el S P) = 33 \<and> hd (enc_el S P) \<in> {even_prefix, odd_prefix} \<and>
        dec_el S (enc_el S P) = Some P \<and>
        hd (enc_el S (- P)) \<noteq> hd (enc_el S P) \<and> tl (enc_el S (- P)) = tl (enc_el S P))"

definition scalar_laws :: "('s::field, 'g) suite \<Rightarrow> bool" where
  "scalar_laws S \<longleftrightarrow>
     (\<forall>s. length (enc_sc S s) = 32 \<and> dec_sc S (enc_sc S s) = Some s) \<and>
     (\<forall>b :: byte. dec_sc S (replicate 31 0 @ [b]) = Some (of_nat (unat b))) \<and>
     (\<forall>d. scalar_of_digest S d \<noteq> None)"

text \<open>
  BIP-340 verification of a signature \<open>r || z\<close> under the x-only key \<open>p\<close>, for points that
  encode with even Y: \<open>z G = R + c P\<close> with the challenge \<open>c\<close> hashed from \<open>r || p || m\<close>.
\<close>

definition bip340_laws :: "('s::field, 'g::ab_group_add) suite \<Rightarrow> bool" where
  "bip340_laws S \<longleftrightarrow>
     (\<forall>R P z c m. R \<noteq> 0 \<and> P \<noteq> 0 \<and> length m = 32 \<and>
        hd (enc_el S R) = even_prefix \<and> hd (enc_el S P) = even_prefix \<and>
        scalar_of_digest S (challenge_hash S (tl (enc_el S R) @ tl (enc_el S P) @ m)) = Some c \<longrightarrow>
        parse_sig S (tl (enc_el S R) @ enc_sc S z) \<and> parse_pk S (tl (enc_el S P)) \<and>
        (sig_verify S (tl (enc_el S R) @ enc_sc S z) m (tl (enc_el S P)) \<longleftrightarrow>
           smul S z (base_pt S) = R + smul S c P))"

definition suite_laws :: "('s::field, 'g::ab_group_add) suite \<Rightarrow> bool" where
  "suite_laws S \<longleftrightarrow>
     vector_space (smul S) \<and> base_pt S \<noteq> 0 \<and> element_laws S \<and> scalar_laws S \<and> bip340_laws S"

subsection \<open>Consequences of the laws\<close>

lemma suite_vs: "suite_laws S \<Longrightarrow> vector_space (smul S)"
  by (simp add: suite_laws_def)

lemma suite_module: "suite_laws S \<Longrightarrow> module (smul S)"
  by (simp add: module_iff_vector_space suite_vs)

lemma suite_base: "suite_laws S \<Longrightarrow> base_pt S \<noteq> 0"
  by (simp add: suite_laws_def)

lemma suite_parts:
  assumes "suite_laws S"
  shows "element_laws S" "scalar_laws S" "bip340_laws S"
  using assms by (simp_all add: suite_laws_def)

lemma smul_simps:
  assumes "suite_laws S"
  shows "smul S (a + b) P = smul S a P + smul S b P"
    and "smul S a (P + Q) = smul S a P + smul S a Q"
    and "smul S a (smul S b P) = smul S (a * b) P"
    and "smul S 0 P = 0" "smul S a 0 = 0" "smul S 1 P = P"
    and "smul S (- a) P = - smul S a P" "smul S a (- P) = - smul S a P"
    and "smul S (a - b) P = smul S a P - smul S b P"
    and "smul S a (P - Q) = smul S a P - smul S a Q"
proof -
  note m = suite_module [OF assms]
  show "smul S (a + b) P = smul S a P + smul S b P" by (rule module.scale_left_distrib [OF m])
  show "smul S a (P + Q) = smul S a P + smul S a Q" by (rule module.scale_right_distrib [OF m])
  show "smul S a (smul S b P) = smul S (a * b) P" by (rule module.scale_scale [OF m])
  show "smul S 0 P = 0" by (rule module.scale_zero_left [OF m])
  show "smul S a 0 = 0" by (rule module.scale_zero_right [OF m])
  show "smul S 1 P = P" by (rule module.scale_one [OF m])
  show "smul S (- a) P = - smul S a P" by (rule module.scale_minus_left [OF m])
  show "smul S a (- P) = - smul S a P" by (rule module.scale_minus_right [OF m])
  show "smul S (a - b) P = smul S a P - smul S b P" by (rule module.scale_left_diff_distrib [OF m])
  show "smul S a (P - Q) = smul S a P - smul S a Q" by (rule module.scale_right_diff_distrib [OF m])
qed

lemma smul_eq_0:
  assumes "suite_laws S" shows "smul S a P = 0 \<longleftrightarrow> a = 0 \<or> P = 0"
  by (rule vector_space.scale_eq_0_iff [OF suite_vs [OF assms]])

lemma smul_base_inj:
  assumes "suite_laws S" shows "smul S a (base_pt S) = smul S b (base_pt S) \<longleftrightarrow> a = b"
proof
  assume "smul S a (base_pt S) = smul S b (base_pt S)"
  then have "smul S (a - b) (base_pt S) = 0" by (simp add: smul_simps [OF assms])
  with assms show "a = b" by (auto simp: smul_eq_0 suite_base)
qed simp

lemma smul_sum_list:
  assumes "suite_laws S"
  shows "smul S (sum_list (map f xs)) P = sum_list (map (\<lambda>x. smul S (f x) P) xs)"
    and "smul S c (sum_list (map g xs)) = sum_list (map (\<lambda>x. smul S c (g x)) xs)"
  by (induction xs) (simp_all add: smul_simps [OF assms])

lemma enc_el_facts:
  assumes "suite_laws S" "P \<noteq> 0"
  shows "length (enc_el S P) = 33"
    and "hd (enc_el S P) = even_prefix \<or> hd (enc_el S P) = odd_prefix"
    and "dec_el S (enc_el S P) = Some P"
    and "hd (enc_el S (- P)) = (if hd (enc_el S P) = even_prefix then odd_prefix else even_prefix)"
    and "tl (enc_el S (- P)) = tl (enc_el S P)"
    and "hd (enc_el S P) # tl (enc_el S P) = enc_el S P"
proof -
  have e: "\<And>Q. Q \<noteq> 0 \<Longrightarrow> length (enc_el S Q) = 33 \<and> hd (enc_el S Q) \<in> {even_prefix, odd_prefix} \<and>
        dec_el S (enc_el S Q) = Some Q \<and>
        hd (enc_el S (- Q)) \<noteq> hd (enc_el S Q) \<and> tl (enc_el S (- Q)) = tl (enc_el S Q)"
    using suite_parts(1) [OF assms(1)] unfolding element_laws_def by blast
  from e [OF assms(2)] show "length (enc_el S P) = 33"
    and "hd (enc_el S P) = even_prefix \<or> hd (enc_el S P) = odd_prefix"
    and "dec_el S (enc_el S P) = Some P"
    and "tl (enc_el S (- P)) = tl (enc_el S P)" by simp_all
  from assms(2) have "- P \<noteq> 0" by simp
  with e [OF this] e [OF assms(2)]
  show "hd (enc_el S (- P)) = (if hd (enc_el S P) = even_prefix then odd_prefix else even_prefix)"
    by auto
  from e [OF assms(2)] have "enc_el S P \<noteq> []" by auto
  then show "hd (enc_el S P) # tl (enc_el S P) = enc_el S P" by simp
qed

lemma enc_el_inj:
  assumes "suite_laws S" "P \<noteq> 0" "Q \<noteq> 0" "enc_el S P = enc_el S Q" shows "P = Q"
  using assms by (metis enc_el_facts(3) option.inject)

lemma enc_sc_facts:
  assumes "suite_laws S"
  shows "length (enc_sc S s) = 32" "dec_sc S (enc_sc S s) = Some s"
    "dec_sc S (replicate 31 0 @ [b]) = Some (of_nat (unat b))"
    "\<exists>c. scalar_of_digest S d = Some c"
  using suite_parts(2) [OF assms] by (simp_all add: scalar_laws_def)

lemma sig_verify_iff:
  assumes "suite_laws S" "R \<noteq> 0" "P \<noteq> 0" "length m = 32"
    "hd (enc_el S R) = even_prefix" "hd (enc_el S P) = even_prefix"
    "scalar_of_digest S (challenge_hash S (tl (enc_el S R) @ tl (enc_el S P) @ m)) = Some c"
  shows "parse_sig S (tl (enc_el S R) @ enc_sc S z)" "parse_pk S (tl (enc_el S P))"
    "sig_verify S (tl (enc_el S R) @ enc_sc S z) m (tl (enc_el S P)) \<longleftrightarrow>
       smul S z (base_pt S) = R + smul S c P"
  using suite_parts(3) [OF assms(1)] assms(2-) unfolding bip340_laws_def by blast+

text \<open>
  The even-Y representative of a point: what lifting its x-only encoding (\<open>"02" || x\<close>)
  gives back.
\<close>

definition lift_even :: "('s, 'g::ab_group_add) suite \<Rightarrow> 'g \<Rightarrow> 'g" where
  "lift_even S P = (if hd (enc_el S P) = even_prefix then P else - P)"

lemma lift_even_facts:
  assumes "suite_laws S" "P \<noteq> 0"
  shows "lift_even S P \<noteq> 0" "hd (enc_el S (lift_even S P)) = even_prefix"
    "tl (enc_el S (lift_even S P)) = tl (enc_el S P)"
    "dec_el S (even_prefix # tl (enc_el S P)) = Some (lift_even S P)"
proof -
  show 1: "lift_even S P \<noteq> 0" using assms by (simp add: lift_even_def)
  show 2: "hd (enc_el S (lift_even S P)) = even_prefix"
    using enc_el_facts(2,4) [OF assms] by (auto simp: lift_even_def)
  show 3: "tl (enc_el S (lift_even S P)) = tl (enc_el S P)"
    using enc_el_facts(5) [OF assms] by (simp add: lift_even_def)
  from enc_el_facts(6) [OF assms(1) 1] 2 3
  have "even_prefix # tl (enc_el S P) = enc_el S (lift_even S P)" by simp
  with enc_el_facts(3) [OF assms(1) 1]
  show "dec_el S (even_prefix # tl (enc_el S P)) = Some (lift_even S P)" by simp
qed

end
