(* ===== verification/Sharing.thy ===== *)
theory Sharing
  imports Curve
begin

text \<open>
  Secret sharing arithmetic of \<open>internal/frost\<close>: evaluation of a sharing polynomial, the
  check of a share against a coefficient commitment, the public share a commitment implies
  (\<open>dkg_distributed.go\<close>), and the Lagrange coefficients at zero (\<open>bip340_frost.go\<close>).

  The abstract counterparts are Horner evaluation \<open>poly\<close> and interpolation at zero. The
  theory proves Lagrange interpolation over any field from scratch (a polynomial with more
  roots than its degree vanishes).
\<close>

subsection \<open>The code\<close>

text \<open>
  \<open>xBytes := make([]byte, 32); xBytes[31] = byte(x); xScalar.Decode(xBytes)\<close>: the index is
  truncated to a byte, and an error of \<open>Decode\<close> leaves the fresh scalar zero.
\<close>

definition byte_scalar :: "('s::field, 'g) suite \<Rightarrow> int \<Rightarrow> 's" where
  "byte_scalar S x =
     (case dec_sc S (replicate 31 0 @ [of_int x]) of None \<Rightarrow> 0 | Some s \<Rightarrow> s)"

fun eval_loop :: "'s::field list \<Rightarrow> 's \<Rightarrow> 's \<Rightarrow> 's \<Rightarrow> 's" where
  "eval_loop [] x xp result = result"
| "eval_loop (c # cs) x xp result = eval_loop cs x (xp * x) (result + c * xp)"

definition evaluatePolynomial :: "('s::field, 'g) suite \<Rightarrow> 's list \<Rightarrow> int \<Rightarrow> 's" where
  "evaluatePolynomial S coeffs x = eval_loop coeffs (byte_scalar S x) (byte_scalar S 1) 0"

fun commit_loop :: "('s::field, 'g::ab_group_add) suite \<Rightarrow> 'g list \<Rightarrow> 's \<Rightarrow> 's \<Rightarrow> 'g \<Rightarrow> 'g" where
  "commit_loop S [] x xp result = result"
| "commit_loop S (C # Cs) x xp result = commit_loop S Cs x (xp * x) (result + smul S xp C)"

definition verifyShareAgainstCommitment ::
    "('s::field, 'g::ab_group_add) suite \<Rightarrow> 's \<Rightarrow> int \<Rightarrow> 'g list \<Rightarrow> bool" where
  "verifyShareAgainstCommitment S share index commitment \<longleftrightarrow>
     smul S share (base_pt S) =
       commit_loop S commitment (byte_scalar S index) (byte_scalar S 1) 0"

definition computePublicShareContribution ::
    "('s::field, 'g::ab_group_add) suite \<Rightarrow> int \<Rightarrow> 'g list \<Rightarrow> 'g" where
  "computePublicShareContribution S index commitment =
     commit_loop S commitment (byte_scalar S index) (byte_scalar S 1) 0"

text \<open>\<open>group.NewScalar().SetUInt64(uint64(id))\<close>\<close>

definition id_scalar :: "16 word \<Rightarrow> 's::field" where
  "id_scalar i = of_nat (unat i)"

fun lagrange_loop :: "16 word \<Rightarrow> 16 word list \<Rightarrow> 's::field \<Rightarrow> 's \<Rightarrow> 's \<times> 's" where
  "lagrange_loop t [] num den = (num, den)"
| "lagrange_loop t (j # js) num den =
     (if j = t then lagrange_loop t js num den
      else lagrange_loop t js (num * id_scalar j) (den * (id_scalar j - id_scalar t)))"

definition LagrangeCoefficient :: "16 word \<Rightarrow> 16 word list \<Rightarrow> 's::field" where
  "LagrangeCoefficient targetID allIDs =
     (let (num, den) = lagrange_loop targetID allIDs 1 1 in num * inverse den)"

subsection \<open>Polynomials as coefficient lists\<close>

fun poly :: "'s::field list \<Rightarrow> 's \<Rightarrow> 's" where
  "poly [] x = 0"
| "poly (c # cs) x = c + x * poly cs x"

lemma poly_zero: "poly cs 0 = (case cs of [] \<Rightarrow> 0 | c # _ \<Rightarrow> c)"
  by (cases cs) simp_all

lemma eval_loop_poly: "eval_loop cs x xp r = r + xp * poly cs x"
  by (induction cs arbitrary: xp r) (simp_all add: algebra_simps)

lemma byte_scalar_eq: "suite_laws S \<Longrightarrow> byte_scalar S x = of_nat (unat (of_int x :: byte))"
  by (simp add: byte_scalar_def enc_sc_facts(3))

lemma byte_scalar_small:
  assumes "suite_laws S" "0 \<le> x" "x < 256"
  shows "byte_scalar S x = of_int x"
proof -
  have "unat (of_int x :: byte) = nat x"
    using assms(2,3) by (simp add: unat_eq_nat_uint uint_word_of_int)
  with assms show ?thesis by (simp add: byte_scalar_eq of_nat_nat)
qed

lemma byte_scalar_1: "suite_laws S \<Longrightarrow> byte_scalar S 1 = 1"
  by (simp add: byte_scalar_small)

lemma evaluatePolynomial_poly:
  "suite_laws S \<Longrightarrow> evaluatePolynomial S cs x = poly cs (byte_scalar S x)"
  by (simp add: evaluatePolynomial_def eval_loop_poly byte_scalar_1)

subsection \<open>Commitments: the code's check is the polynomial relation\<close>

lemma commit_loop_commitment:
  assumes "suite_laws S"
  shows "commit_loop S (map (\<lambda>a. smul S a (base_pt S)) cs) x xp R =
           R + smul S (xp * poly cs x) (base_pt S)"
  by (induction cs arbitrary: xp R) (simp_all add: smul_simps [OF assms] algebra_simps)

lemma computePublicShareContribution_eq:
  assumes "suite_laws S"
  shows "computePublicShareContribution S i (map (\<lambda>a. smul S a (base_pt S)) cs) =
           smul S (evaluatePolynomial S cs i) (base_pt S)"
  using assms
  by (simp add: computePublicShareContribution_def commit_loop_commitment byte_scalar_1
      evaluatePolynomial_poly)

lemma verifyShare_iff:
  assumes "suite_laws S"
  shows "verifyShareAgainstCommitment S s i (map (\<lambda>a. smul S a (base_pt S)) cs) \<longleftrightarrow>
           s = evaluatePolynomial S cs i"
  using assms
  by (simp add: verifyShareAgainstCommitment_def commit_loop_commitment byte_scalar_1
      evaluatePolynomial_poly smul_base_inj)

subsection \<open>Few roots\<close>

lemma poly_factor:
  "\<exists>qs. length qs = length cs - 1 \<and> (\<forall>x. poly cs x - poly cs a = (x - a) * poly qs x)"
proof (induction cs)
  case Nil
  show ?case by (intro exI [of _ "[]"]) simp
next
  case (Cons c cs)
  show ?case
  proof (cases cs)
    case Nil
    then show ?thesis by (intro exI [of _ "[]"]) simp
  next
    case (Cons d ds)
    from Cons.IH obtain qs where qs: "length qs = length cs - 1"
      and eq: "\<And>x. poly cs x - poly cs a = (x - a) * poly qs x" by blast
    have "poly (c # cs) x - poly (c # cs) a = (x - a) * poly (poly cs a # qs) x" for x
    proof -
      have "poly (c # cs) x - poly (c # cs) a = x * (poly cs x - poly cs a) + (x - a) * poly cs a"
        unfolding poly.simps by (simp only: algebra_simps)
      also have "\<dots> = x * ((x - a) * poly qs x) + (x - a) * poly cs a"
        by (simp only: eq)
      also have "\<dots> = (x - a) * poly (poly cs a # qs) x"
        unfolding poly.simps by (simp only: algebra_simps)
      finally show ?thesis .
    qed
    moreover have "length (poly cs a # qs) = length (c # cs) - 1"
      using qs Cons by simp
    ultimately show ?thesis by (intro exI [of _ "poly cs a # qs"]) simp
  qed
qed

lemma poly_few_roots:
  assumes "distinct xs" "length cs \<le> length xs" "\<And>x. x \<in> set xs \<Longrightarrow> poly cs x = 0"
  shows "poly cs y = 0"
  using assms
proof (induction xs arbitrary: cs y)
  case Nil
  then show ?case by simp
next
  case (Cons a xs)
  obtain qs where qs: "length qs = length cs - 1"
    and eq: "\<And>x. poly cs x - poly cs a = (x - a) * poly qs x"
    using poly_factor [of cs a] by blast
  have root: "poly cs a = 0" by (rule Cons.prems(3)) simp
  have roots: "poly qs x = 0" if "x \<in> set xs" for x
  proof -
    have "poly cs x = 0" and "x \<noteq> a" using Cons.prems that by auto
    with eq [of x] root show ?thesis by simp
  qed
  have "distinct xs" "length qs \<le> length xs"
    using Cons.prems(1,2) qs by simp_all
  from Cons.IH [OF this roots] have "poly qs y = 0" .
  with eq [of y] root show ?case by simp
qed

subsection \<open>Polynomial functions of bounded degree\<close>

definition is_poly :: "nat \<Rightarrow> ('s::field \<Rightarrow> 's) \<Rightarrow> bool" where
  "is_poly n f \<longleftrightarrow> (\<exists>cs. length cs \<le> n \<and> f = poly cs)"

fun padd :: "'s::field list \<Rightarrow> 's list \<Rightarrow> 's list" where
  "padd [] ys = ys"
| "padd xs [] = xs"
| "padd (x # xs) (y # ys) = (x + y) # padd xs ys"

lemma poly_padd: "poly (padd xs ys) z = poly xs z + poly ys z"
  by (induction xs ys rule: padd.induct) (simp_all add: algebra_simps)

lemma length_padd: "length (padd xs ys) = max (length xs) (length ys)"
  by (induction xs ys rule: padd.induct) simp_all

lemma poly_smult: "poly (map ((*) c) xs) z = c * poly xs z"
  by (induction xs) (simp_all add: algebra_simps)

lemma is_poly_add: "is_poly n f \<Longrightarrow> is_poly n g \<Longrightarrow> is_poly n (\<lambda>x. f x + g x)"
proof -
  assume "is_poly n f" "is_poly n g"
  then obtain xs ys where "length xs \<le> n" "f = poly xs" "length ys \<le> n" "g = poly ys"
    unfolding is_poly_def by blast
  then show ?thesis unfolding is_poly_def
    by (intro exI [of _ "padd xs ys"]) (auto simp: poly_padd length_padd)
qed

lemma is_poly_smult: "is_poly n f \<Longrightarrow> is_poly n (\<lambda>x. c * f x)"
proof -
  assume "is_poly n f"
  then obtain xs where "length xs \<le> n" "f = poly xs" unfolding is_poly_def by blast
  then show ?thesis unfolding is_poly_def
    by (intro exI [of _ "map ((*) c) xs"]) (auto simp: poly_smult)
qed

lemma is_poly_linear: "is_poly n f \<Longrightarrow> is_poly (Suc n) (\<lambda>x. (x - a) * f x)"
proof -
  assume "is_poly n f"
  then obtain xs where "length xs \<le> n" "f = poly xs" unfolding is_poly_def by blast
  then show ?thesis unfolding is_poly_def
    by (intro exI [of _ "padd (0 # xs) (map ((*) (- a)) xs)"])
       (auto simp: poly_padd poly_smult length_padd algebra_simps)
qed

lemma is_poly_sum:
  "finite A \<Longrightarrow> (\<And>a. a \<in> A \<Longrightarrow> is_poly n (f a)) \<Longrightarrow> is_poly n (\<lambda>x. \<Sum>a\<in>A. f a x)"
proof (induction A rule: finite_induct)
  case empty
  show ?case unfolding is_poly_def by (intro exI [of _ "[]"]) auto
next
  case (insert a A)
  then show ?case by (simp add: is_poly_add)
qed

lemma is_poly_prod: "finite A \<Longrightarrow> is_poly (Suc (card A)) (\<lambda>x. \<Prod>a\<in>A. x - a)"
proof (induction A rule: finite_induct)
  case empty
  show ?case unfolding is_poly_def by (intro exI [of _ "[1]"]) auto
next
  case (insert a A)
  then show ?case using is_poly_linear [of "Suc (card A)" "\<lambda>x. \<Prod>a\<in>A. x - a" a] by simp
qed

subsection \<open>Interpolation at zero\<close>

lemma lagrange_interpolation:
  fixes A :: "'s::field set"
  assumes fin: "finite A" and len: "length cs \<le> card A"
  shows "(\<Sum>a\<in>A. poly cs a * (\<Prod>x\<in>A - {a}. (y - x) / (a - x))) = poly cs y"
proof -
  define F where "F z = (\<Sum>a\<in>A. poly cs a * (\<Prod>x\<in>A - {a}. (z - x) / (a - x)))" for z
  have split: "(\<Prod>x\<in>A - {a}. (z - x) / (a - x)) =
      inverse (\<Prod>x\<in>A - {a}. a - x) * (\<Prod>x\<in>A - {a}. z - x)" for a z
  proof -
    have "(\<Prod>x\<in>A - {a}. (z - x) / (a - x)) = (\<Prod>x\<in>A - {a}. z - x) / (\<Prod>x\<in>A - {a}. a - x)"
      by (rule prod_dividef)
    then show ?thesis by (simp only: divide_inverse mult.commute)
  qed
  have term_poly: "is_poly (card A) (\<lambda>z. poly cs a * (\<Prod>x\<in>A - {a}. (z - x) / (a - x)))"
    if "a \<in> A" for a
  proof -
    have "Suc (card (A - {a})) = card A" using fin that by (rule card_Suc_Diff1)
    with is_poly_prod [of "A - {a}"] fin have "is_poly (card A) (\<lambda>z. \<Prod>x\<in>A - {a}. z - x)" by simp
    from is_poly_smult [OF is_poly_smult [OF this]] show ?thesis by (simp only: split)
  qed
  have "is_poly (card A) F" unfolding F_def by (rule is_poly_sum [OF fin term_poly])
  moreover have "is_poly (card A) (poly cs)" using len by (auto simp: is_poly_def)
  ultimately have "is_poly (card A) (\<lambda>z. F z + (-1) * poly cs z)"
    by (rule is_poly_add [OF _ is_poly_smult])
  then obtain ds where ds: "length ds \<le> card A" and F_ds: "\<And>z. F z - poly cs z = poly ds z"
    unfolding is_poly_def by (metis add_uminus_conv_diff mult_minus1)
  have F_at: "F a = poly cs a" if a: "a \<in> A" for a
  proof -
    have "(\<Prod>x\<in>A - {b}. (a - x) / (b - x)) = (if b = a then 1 else 0)" if "b \<in> A" for b
    proof (cases "b = a")
      case True
      have "(\<Prod>x\<in>A - {b}. (a - x) / (b - x)) = 1"
        using True by (intro prod.neutral) auto
      with True show ?thesis by simp
    next
      case False
      with a fin have "a \<in> A - {b}" "finite (A - {b})" by auto
      with False show ?thesis by (auto intro!: prod_zero)
    qed
    then have "F a = (\<Sum>b\<in>A. poly cs b * (if b = a then 1 else 0))"
      unfolding F_def by (intro sum.cong) auto
    also have "\<dots> = poly cs a" using fin a by (simp add: if_distrib [of "(*) _"] cong: if_cong)
    finally show ?thesis .
  qed
  obtain xs where xs: "set xs = A" "distinct xs" using finite_distinct_list [OF fin] by blast
  have roots: "poly ds x = 0" if "x \<in> set xs" for x
    using F_ds [of x] F_at [of x] that xs by simp
  have "length ds \<le> length xs"
    using ds xs distinct_card [OF xs(2)] by simp
  from poly_few_roots [OF xs(2) this roots] have "poly ds y = 0" .
  with F_ds [of y] show ?thesis by (simp add: F_def)
qed

lemma lagrange_loop_eq:
  "lagrange_loop t js num den =
     (num * prod_list (map id_scalar (filter (\<lambda>j. j \<noteq> t) js)),
      den * prod_list (map (\<lambda>j. id_scalar j - id_scalar t) (filter (\<lambda>j. j \<noteq> t) js)))"
  by (induction js arbitrary: num den) (simp_all add: mult.assoc)

lemma LagrangeCoefficient_prod:
  assumes "distinct ids" and inj: "inj_on (id_scalar :: 16 word \<Rightarrow> 's::field) (set ids)" and "t \<in> set ids"
  shows "(LagrangeCoefficient t ids :: 's) =
           (\<Prod>x\<in>id_scalar ` set ids - {id_scalar t}. (0 - x) / (id_scalar t - x))"
proof -
  let ?js = "filter (\<lambda>j. j \<noteq> t) ids"
  have js: "distinct ?js" "set ?js = set ids - {t}" using assms(1) by auto
  have inj': "inj_on (id_scalar :: _ \<Rightarrow> 's) (set ids - {t})" using inj by (rule inj_on_subset) auto
  have img: "id_scalar ` set ids - {id_scalar t} = (id_scalar :: _ \<Rightarrow> 's) ` (set ids - {t})"
    using inj assms(3) by (auto simp: inj_on_def)
  have flip: "(0 - x) / (c - x) = x * inverse (x - c)" for x c :: 's
  proof -
    have "(0 - x) / (c - x) = (- x) / (- (x - c))" by simp
    also have "\<dots> = x / (x - c)" by (simp only: minus_divide_left [symmetric] minus_divide_right [symmetric] minus_minus)
    finally show ?thesis by (simp add: divide_inverse)
  qed
  have "(LagrangeCoefficient t ids :: 's) =
      prod_list (map id_scalar ?js) * inverse (prod_list (map (\<lambda>j. id_scalar j - id_scalar t) ?js))"
    by (simp add: LagrangeCoefficient_def lagrange_loop_eq)
  also have "\<dots> = (\<Prod>j\<in>set ids - {t}. id_scalar j * inverse (id_scalar j - id_scalar t))"
    using js by (simp add: prod.distinct_set_conv_list [symmetric] prod.distrib prod_inversef [symmetric] o_def)
  also have "\<dots> = (\<Prod>j\<in>set ids - {t}. (0 - id_scalar j) / (id_scalar t - id_scalar j))"
    by (simp only: flip)
  also have "\<dots> = (\<Prod>x\<in>id_scalar ` (set ids - {t}). (0 - x) / (id_scalar t - x))"
    by (simp add: prod.reindex [OF inj'] o_def)
  finally show ?thesis by (simp only: img)
qed

lemma lagrange_reconstructs:
  fixes cs :: "'s::field list"
  assumes "distinct ids" "inj_on (id_scalar :: 16 word \<Rightarrow> 's) (set ids)" "length cs \<le> length ids"
  shows "(\<Sum>i\<leftarrow>ids. LagrangeCoefficient i ids * poly cs (id_scalar i)) = poly cs 0"
proof -
  let ?A = "(id_scalar :: 16 word \<Rightarrow> 's) ` set ids"
  have "(\<Sum>i\<leftarrow>ids. LagrangeCoefficient i ids * poly cs (id_scalar i)) =
      (\<Sum>i\<in>set ids. LagrangeCoefficient i ids * poly cs (id_scalar i))"
    using assms(1) by (simp add: sum_list_distinct_conv_sum_set)
  also have "\<dots> = (\<Sum>i\<in>set ids. poly cs (id_scalar i) *
      (\<Prod>x\<in>?A - {id_scalar i}. (0 - x) / (id_scalar i - x)))"
    using assms by (intro sum.cong) (simp_all add: LagrangeCoefficient_prod mult.commute)
  also have "\<dots> = (\<Sum>a\<in>?A. poly cs a * (\<Prod>x\<in>?A - {a}. (0 - x) / (a - x)))"
    by (simp add: sum.reindex [OF assms(2)] o_def)
  also have "\<dots> = poly cs 0"
    using assms by (intro lagrange_interpolation) (simp_all add: card_image distinct_card)
  finally show ?thesis .
qed

end
