(* ===== verification/Bip340.thy ===== *)
theory Bip340
  imports Sharing
begin

text \<open>
  \<open>internal/frost/bip340_frost.go\<close>: the hand-written BIP-340 mode of FROST. Every function of
  the file is here under its own name; the curve and the hashes come from the \<open>suite\<close>.

  The main results: what \<open>PrepareSignable\<close> computes, the equation the final self-check
  decides, and that partial signatures made from shares of one polynomial always aggregate to a
  signature that verifies, whatever the parities of \<open>R\<close> and of the joint key.
\<close>

datatype frost_error =
    MessageLength nat | Unsorted | PubkeyLength nat | DecodeBindingFactor
  | MissingBindingFactor "16 word" | NonceEncodingLength nat | ROddEncoding | PEncoding
  | DecodeChallenge | ZLength nat | SigLength nat | MsgLength nat | ParseSig | ParsePubkey
  | VerificationFailed | NilScalar

record 'g commitment_pair =
  participant_id :: "16 word"
  hiding :: 'g
  binding :: 'g

record ('s, 'g) signing_session =
  ss_participant :: "16 word"
  ss_all_ids :: "16 word list"
  ss_commitments :: "'g commitment_pair list"
  ss_joint_pubkey :: 'g
  ss_message :: bytes
  ss_nonce_hiding :: 's
  ss_nonce_binding :: 's
  ss_share :: 's

record ('s, 'g) signable =
  sg_factors :: "16 word \<rightharpoonup> 's"
  sg_R :: 'g
  sg_R_even :: bool
  sg_challenge :: 's
  sg_lambda :: 's
  sg_pubkey_even :: bool

definition bip340FrostBindingDomain :: bytes where
  "bip340FrostBindingDomain = str_bytes ''cloistr-frost-v1/binding''"

definition xOnlyPubkey :: "bytes \<Rightarrow> frost_error + bytes \<times> bool" where
  "xOnlyPubkey compressed =
     (if length compressed \<noteq> 33 then Inl (PubkeyLength (length compressed))
      else Inr (tl compressed, hd compressed = even_prefix))"

fun ids_ascending :: "'g commitment_pair list \<Rightarrow> bool" where
  "ids_ascending (a # b # cs) =
     (if participant_id a \<ge> participant_id b then False else ids_ascending (b # cs))"
| "ids_ascending cs = True"

fun commitment_bytes :: "('s, 'g) suite \<Rightarrow> 'g commitment_pair list \<Rightarrow> bytes" where
  "commitment_bytes S [] = []"
| "commitment_bytes S (c # cs) =
     be16 (participant_id c) @ enc_el S (hiding c) @ enc_el S (binding c) @ commitment_bytes S cs"

fun binding_loop :: "('s, 'g) suite \<Rightarrow> bytes \<Rightarrow> 'g commitment_pair list \<Rightarrow> (16 word \<rightharpoonup> 's)
    \<Rightarrow> frost_error + (16 word \<rightharpoonup> 's)" where
  "binding_loop S prefix [] out = Inr out"
| "binding_loop S prefix (c # cs) out =
     (case scalar_of_digest S (sha256 S (prefix @ be16 (participant_id c))) of
        None \<Rightarrow> Inl DecodeBindingFactor
      | Some s \<Rightarrow> binding_loop S prefix cs (out(participant_id c \<mapsto> s)))"

definition ComputeBindingFactors ::
    "('s, 'g) suite \<Rightarrow> 'g \<Rightarrow> bytes \<Rightarrow> 'g commitment_pair list \<Rightarrow> frost_error + (16 word \<rightharpoonup> 's)" where
  "ComputeBindingFactors S jointPubkey message commitments =
     (if length message \<noteq> 32 then Inl (MessageLength (length message))
      else if \<not> ids_ascending commitments then Inl Unsorted
      else case xOnlyPubkey (enc_el S jointPubkey) of
        Inl e \<Rightarrow> Inl e
      | Inr (pubkeyXOnly, _) \<Rightarrow>
          binding_loop S
            (bip340FrostBindingDomain @ pubkeyXOnly @ message @ commitment_bytes S commitments)
            commitments Map.empty)"

fun nonce_loop :: "('s, 'g::ab_group_add) suite \<Rightarrow> (16 word \<rightharpoonup> 's) \<Rightarrow> 'g commitment_pair list \<Rightarrow> 'g
    \<Rightarrow> frost_error + 'g" where
  "nonce_loop S bf [] R = Inr R"
| "nonce_loop S bf (c # cs) R =
     (case bf (participant_id c) of
        None \<Rightarrow> Inl (MissingBindingFactor (participant_id c))
      | Some rho \<Rightarrow> nonce_loop S bf cs (R + (hiding c + smul S rho (binding c))))"

definition AggregateNonceCommitment ::
    "('s, 'g::ab_group_add) suite \<Rightarrow> 'g commitment_pair list \<Rightarrow> (16 word \<rightharpoonup> 's)
      \<Rightarrow> frost_error + 'g \<times> bool" where
  "AggregateNonceCommitment S commitments bindingFactors =
     (case nonce_loop S bindingFactors commitments 0 of
        Inl e \<Rightarrow> Inl e
      | Inr R \<Rightarrow>
          if length (enc_el S R) \<noteq> 33 then Inl (NonceEncodingLength (length (enc_el S R)))
          else let yEven = (hd (enc_el S R) = even_prefix)
               in Inr (if \<not> yEven then - R else R, yEven))"

definition even_encoding :: "bytes \<Rightarrow> bool" where
  "even_encoding enc \<longleftrightarrow> length enc = 33 \<and> hd enc = even_prefix"

definition ComputeBIP340Challenge ::
    "('s, 'g) suite \<Rightarrow> 'g \<Rightarrow> 'g \<Rightarrow> bytes \<Rightarrow> frost_error + 's" where
  "ComputeBIP340Challenge S rEvenY jointPubkey message =
     (let rEncoded = enc_el S rEvenY; pEncoded = enc_el S jointPubkey in
      if \<not> even_encoding rEncoded then Inl ROddEncoding
      else if length pEncoded \<noteq> 33 then Inl PEncoding
      else or_err DecodeChallenge
             (scalar_of_digest S (challenge_hash S (tl rEncoded @ tl pEncoded @ message))))"

definition negateScalar :: "'s::field \<Rightarrow> 's" where
  "negateScalar s = 0 - s"

definition ComputePartialSignature ::
    "'s::field \<Rightarrow> 's \<Rightarrow> 's \<Rightarrow> bool \<Rightarrow> 's \<Rightarrow> bool \<Rightarrow> 's \<Rightarrow> 's \<Rightarrow> 's" where
  "ComputePartialSignature nonceHiding nonceBinding rho rEvenY share pubkeyEvenY lambda challenge =
     (let nonceContrib = nonceHiding + rho * nonceBinding;
          nonceContrib = (if \<not> rEvenY then negateScalar nonceContrib else nonceContrib);
          shareEff = (if \<not> pubkeyEvenY then negateScalar share else share)
      in nonceContrib + lambda * shareEff * challenge)"

definition AggregatePartialSignatures :: "('s::field, 'g) suite \<Rightarrow> 's list \<Rightarrow> bytes" where
  "AggregatePartialSignatures S partials = enc_sc S (foldl (+) 0 partials)"

definition EncodeBIP340Signature :: "('s, 'g) suite \<Rightarrow> 'g \<Rightarrow> bytes \<Rightarrow> frost_error + bytes" where
  "EncodeBIP340Signature S rEvenY zBytes =
     (let rEncoded = enc_el S rEvenY in
      if \<not> even_encoding rEncoded then Inl ROddEncoding
      else if length zBytes \<noteq> 32 then Inl (ZLength (length zBytes))
      else Inr (tl rEncoded @ zBytes))"

definition VerifyBIP340 :: "('s, 'g) suite \<Rightarrow> bytes \<Rightarrow> bytes \<Rightarrow> 'g \<Rightarrow> frost_error + unit" where
  "VerifyBIP340 S sigBytes msgHash jointPubkey =
     (if length sigBytes \<noteq> 64 then Inl (SigLength (length sigBytes))
      else if length msgHash \<noteq> 32 then Inl (MsgLength (length msgHash))
      else if \<not> parse_sig S sigBytes then Inl ParseSig
      else if length (enc_el S jointPubkey) \<noteq> 33 then Inl PEncoding
      else if \<not> parse_pk S (tl (enc_el S jointPubkey)) then Inl ParsePubkey
      else if \<not> sig_verify S sigBytes msgHash (tl (enc_el S jointPubkey)) then Inl VerificationFailed
      else Inr ())"

definition PrepareSignable ::
    "('s::field, 'g::ab_group_add) suite \<Rightarrow> ('s, 'g) signing_session \<Rightarrow> frost_error + ('s, 'g) signable" where
  "PrepareSignable S s =
     rbind (ComputeBindingFactors S (ss_joint_pubkey s) (ss_message s) (ss_commitments s)) (\<lambda>bf.
     rbind (AggregateNonceCommitment S (ss_commitments s) bf) (\<lambda>(R, rEvenY).
     rbind (ComputeBIP340Challenge S R (ss_joint_pubkey s) (ss_message s)) (\<lambda>c.
     Inr \<lparr>sg_factors = bf, sg_R = R, sg_R_even = rEvenY, sg_challenge = c,
          sg_lambda = LagrangeCoefficient (ss_participant s) (ss_all_ids s),
          sg_pubkey_even = (hd (enc_el S (ss_joint_pubkey s)) = even_prefix)\<rparr>)))"

text \<open>\<open>Sign\<close>: a missing binding factor is a nil scalar, whose use panics.\<close>

definition Sign :: "('s::field, 'g) signing_session \<Rightarrow> ('s, 'g) signable \<Rightarrow> frost_error + 's" where
  "Sign s sg =
     (case sg_factors sg (ss_participant s) of
        None \<Rightarrow> Inl NilScalar
      | Some rho \<Rightarrow> Inr (ComputePartialSignature (ss_nonce_hiding s) (ss_nonce_binding s) rho
          (sg_R_even sg) (ss_share s) (sg_pubkey_even sg) (sg_lambda sg) (sg_challenge sg)))"

definition AggregateFullSignature ::
    "('s::field, 'g) suite \<Rightarrow> ('s, 'g) signable \<Rightarrow> 's list \<Rightarrow> frost_error + bytes" where
  "AggregateFullSignature S sg partials =
     EncodeBIP340Signature S (sg_R sg) (AggregatePartialSignatures S partials)"

definition HelperEncodeCompressed :: "('s, 'g) suite \<Rightarrow> 'g \<Rightarrow> string" where
  "HelperEncodeCompressed S P = hex_encode (enc_el S P)"

subsection \<open>What the steps compute\<close>

lemma ids_ascending_sorted:
  "ids_ascending cs \<longleftrightarrow> sorted_wrt (<) (map participant_id cs)"
proof (induction cs rule: ids_ascending.induct)
  case (1 a b cs)
  then show ?case by (auto simp: not_le intro: less_trans)
qed simp_all

lemma ids_ascending_distinct: "ids_ascending cs \<Longrightarrow> distinct (map participant_id cs)"
  by (simp add: ids_ascending_sorted strict_sorted_iff)

lemma binding_loop_eq:
  assumes "suite_laws S"
  shows "binding_loop S pre cs out = Inr (\<lambda>i. if i \<in> participant_id ` set cs
       then scalar_of_digest S (sha256 S (pre @ be16 i)) else out i)"
proof (induction cs arbitrary: out)
  case Nil
  then show ?case by simp
next
  case (Cons c cs)
  obtain s where "scalar_of_digest S (sha256 S (pre @ be16 (participant_id c))) = Some s"
    using enc_sc_facts(4) [OF assms] by blast
  then show ?case by (auto simp: Cons.IH fun_eq_iff)
qed

lemma ComputeBindingFactors_dom:
  assumes "suite_laws S" "ComputeBindingFactors S P m cs = Inr bf"
  shows "dom bf = participant_id ` set cs"
proof -
  from assms(2) obtain pre where "binding_loop S pre cs Map.empty = Inr bf"
    by (auto simp: ComputeBindingFactors_def split: if_splits sum.splits)
  then have "bf = (\<lambda>i. if i \<in> participant_id ` set cs
       then scalar_of_digest S (sha256 S (pre @ be16 i)) else None)"
    by (simp add: binding_loop_eq [OF assms(1)])
  then show ?thesis using enc_sc_facts(4) [OF assms(1)] by (force simp: dom_def)
qed

lemma ComputeBindingFactors_ok:
  assumes "suite_laws S" "P \<noteq> 0" "length m = 32" "ids_ascending cs"
  shows "\<exists>bf. ComputeBindingFactors S P m cs = Inr bf"
  using assms enc_el_facts(1) [OF assms(1,2)]
  by (simp add: ComputeBindingFactors_def xOnlyPubkey_def binding_loop_eq [OF assms(1)])

text \<open>The nonce point before normalisation.\<close>

definition nonce_point :: "('s, 'g::ab_group_add) suite \<Rightarrow> (16 word \<rightharpoonup> 's) \<Rightarrow> 'g commitment_pair list \<Rightarrow> 'g" where
  "nonce_point S bf cs =
     (\<Sum>c\<leftarrow>cs. hiding c + smul S (the (bf (participant_id c))) (binding c))"

lemma nonce_loop_eq:
  "participant_id ` set cs \<subseteq> dom bf \<Longrightarrow> nonce_loop S bf cs R = Inr (R + nonce_point S bf cs)"
  by (induction cs arbitrary: R) (auto simp: nonce_point_def add.assoc)

lemma AggregateNonceCommitment_eq:
  assumes "suite_laws S" "participant_id ` set cs \<subseteq> dom bf" "nonce_point S bf cs \<noteq> 0"
  shows "AggregateNonceCommitment S cs bf =
    Inr (lift_even S (nonce_point S bf cs), hd (enc_el S (nonce_point S bf cs)) = even_prefix)"
  using assms by (simp add: AggregateNonceCommitment_def nonce_loop_eq enc_el_facts(1) lift_even_def)

lemma even_encoding_lift:
  assumes "suite_laws S" "P \<noteq> 0" shows "even_encoding (enc_el S (lift_even S P))"
  using lift_even_facts [OF assms] enc_el_facts(1) [OF assms(1)] by (simp add: even_encoding_def)

text \<open>
  \<open>PrepareSignable\<close> succeeds on a sorted commitment list, a 32-byte message and proper points,
  and this is what it returns.
\<close>

lemma PrepareSignable_ok:
  assumes laws: "suite_laws S" and P: "ss_joint_pubkey s \<noteq> 0" and m: "length (ss_message s) = 32"
    and asc: "ids_ascending (ss_commitments s)"
    and bf: "ComputeBindingFactors S (ss_joint_pubkey s) (ss_message s) (ss_commitments s) = Inr bf"
    and R: "nonce_point S bf (ss_commitments s) \<noteq> 0"
  shows "\<exists>sg. PrepareSignable S s = Inr sg \<and> sg_factors sg = bf \<and>
    sg_R sg = lift_even S (nonce_point S bf (ss_commitments s)) \<and>
    sg_R_even sg = (hd (enc_el S (nonce_point S bf (ss_commitments s))) = even_prefix) \<and>
    sg_pubkey_even sg = (hd (enc_el S (ss_joint_pubkey s)) = even_prefix) \<and>
    sg_lambda sg = LagrangeCoefficient (ss_participant s) (ss_all_ids s) \<and>
    scalar_of_digest S (challenge_hash S (tl (enc_el S (sg_R sg)) @
      tl (enc_el S (ss_joint_pubkey s)) @ ss_message s)) = Some (sg_challenge sg)"
proof -
  let ?R = "lift_even S (nonce_point S bf (ss_commitments s))"
  obtain c where c: "scalar_of_digest S (challenge_hash S (tl (enc_el S ?R) @
      tl (enc_el S (ss_joint_pubkey s)) @ ss_message s)) = Some c"
    using enc_sc_facts(4) [OF laws] by blast
  have "ComputeBIP340Challenge S ?R (ss_joint_pubkey s) (ss_message s) = Inr c"
    using even_encoding_lift [OF laws R] enc_el_facts(1) [OF laws P] c
    by (simp add: ComputeBIP340Challenge_def)
  with AggregateNonceCommitment_eq [OF laws _ R] ComputeBindingFactors_dom [OF laws bf] bf c
  show ?thesis by (simp add: PrepareSignable_def)
qed

subsection \<open>The self-check\<close>

text \<open>
  For an even \<open>R\<close> and the challenge hashed from it, \<open>VerifyBIP340\<close> accepts \<open>R || z\<close> exactly
  when \<open>z G = R + c P'\<close>, where \<open>P'\<close> is the even-Y representative of the joint key.
\<close>

lemma VerifyBIP340_eq:
  assumes laws: "suite_laws S" and R: "R \<noteq> 0" "hd (enc_el S R) = even_prefix" and P: "P \<noteq> 0"
    and m: "length m = 32"
    and c: "scalar_of_digest S (challenge_hash S (tl (enc_el S R) @ tl (enc_el S P) @ m)) = Some c"
  shows "VerifyBIP340 S (tl (enc_el S R) @ enc_sc S z) m P =
    (if smul S z (base_pt S) = R + smul S c (lift_even S P) then Inr () else Inl VerificationFailed)"
proof -
  note l = lift_even_facts [OF laws P]
  have "length (tl (enc_el S R) @ enc_sc S z) = 64"
    using enc_el_facts(1) [OF laws R(1)] enc_sc_facts(1) [OF laws, of z] by simp
  moreover have "length (enc_el S P) = 33" by (rule enc_el_facts(1) [OF laws P])
  ultimately show ?thesis
    using sig_verify_iff(1,3) [OF laws R(1) l(1) m R(2) l(2), of c z]
      sig_verify_iff(2) [OF laws R(1) l(1) m R(2) l(2), of c] c m
    by (simp add: VerifyBIP340_def l(3))
qed

lemma AggregateFullSignature_eq:
  assumes "suite_laws S" "even_encoding (enc_el S (sg_R sg))"
  shows "AggregateFullSignature S sg zs = Inr (tl (enc_el S (sg_R sg)) @ enc_sc S (sum_list zs))"
  using assms enc_sc_facts(1) [OF assms(1)]
  by (simp add: AggregateFullSignature_def EncodeBIP340Signature_def AggregatePartialSignatures_def
      foldl_plus_eq)

subsection \<open>Partial signatures\<close>

lemma ComputePartialSignature_eq:
  "ComputePartialSignature d e rho re s pe l c =
     (if re then d + rho * e else - (d + rho * e)) + l * (if pe then s else - s) * c"
  by (simp add: ComputePartialSignature_def negateScalar_def)

text \<open>
  The sum of the partials, as a point, is the normalised nonce plus the challenge times the
  (parity-adjusted) interpolated key.
\<close>

lemma partials_sum_point:
  assumes laws: "suite_laws S"
    and nonces: "\<And>c. c \<in> set cs \<Longrightarrow> hiding c = smul S (d (participant_id c)) (base_pt S) \<and>
                   binding c = smul S (e (participant_id c)) (base_pt S)"
  shows "smul S (\<Sum>c\<leftarrow>cs. ComputePartialSignature (d (participant_id c)) (e (participant_id c))
            (the (bf (participant_id c))) re (s (participant_id c)) pe (l (participant_id c)) ch) (base_pt S) =
    (if re then nonce_point S bf cs else - nonce_point S bf cs) +
    smul S ch (if pe then (\<Sum>c\<leftarrow>cs. smul S (l (participant_id c) * s (participant_id c)) (base_pt S))
               else - (\<Sum>c\<leftarrow>cs. smul S (l (participant_id c) * s (participant_id c)) (base_pt S)))"
  using nonces
proof (induction cs)
  case Nil
  then show ?case by (simp add: nonce_point_def smul_simps [OF laws])
next
  case (Cons c cs)
  have IH: "smul S (\<Sum>c\<leftarrow>cs. ComputePartialSignature (d (participant_id c)) (e (participant_id c))
            (the (bf (participant_id c))) re (s (participant_id c)) pe (l (participant_id c)) ch) (base_pt S) =
    (if re then nonce_point S bf cs else - nonce_point S bf cs) +
    smul S ch (if pe then (\<Sum>c\<leftarrow>cs. smul S (l (participant_id c) * s (participant_id c)) (base_pt S))
               else - (\<Sum>c\<leftarrow>cs. smul S (l (participant_id c) * s (participant_id c)) (base_pt S)))"
    by (rule Cons.IH) (simp add: Cons.prems)
  have c: "hiding c = smul S (d (participant_id c)) (base_pt S)"
    "binding c = smul S (e (participant_id c)) (base_pt S)" using Cons.prems by simp_all
  have np: "nonce_point S bf (c # cs) =
      smul S (d (participant_id c) + the (bf (participant_id c)) * e (participant_id c)) (base_pt S)
      + nonce_point S bf cs"
    by (simp add: nonce_point_def c smul_simps [OF laws])
  show ?case
    unfolding list.map sum_list.Cons smul_simps(1) [OF laws] IH np
    unfolding ComputePartialSignature_eq
    by (cases re; cases pe) (simp_all add: smul_simps [OF laws] algebra_simps)
qed

text \<open>
  Threshold signing is correct: shares of one polynomial of degree below the number of signers,
  nonces matching their commitments, and the aggregate verifies under the polynomial's constant
  term times the base point.
\<close>

lemma threshold_aggregate_verifies:
  fixes S :: "('s::field, 'g::ab_group_add) suite"
  assumes laws: "suite_laws S" and m: "length m = 32"
    and sorted: "ids_ascending cs" and ids: "ids = map participant_id cs"
    and inj: "inj_on (id_scalar :: 16 word \<Rightarrow> 's) (set ids)"
    and poly: "length f \<le> length ids" and P: "P = smul S (poly f 0) (base_pt S)" "P \<noteq> 0"
    and nonces: "\<And>c. c \<in> set cs \<Longrightarrow> hiding c = smul S (d (participant_id c)) (base_pt S) \<and>
                   binding c = smul S (e (participant_id c)) (base_pt S)"
    and bf: "ComputeBindingFactors S P m cs = Inr bf" and R: "nonce_point S bf cs \<noteq> 0"
    and sg: "PrepareSignable S (s\<lparr>ss_all_ids := ids, ss_commitments := cs, ss_joint_pubkey := P,
               ss_message := m\<rparr>) = Inr sg"
    and partials: "zs = map (\<lambda>i. ComputePartialSignature (d i) (e i) (the (sg_factors sg i))
       (sg_R_even sg) (poly f (id_scalar i)) (sg_pubkey_even sg) (LagrangeCoefficient i ids)
       (sg_challenge sg)) ids"
  shows "\<exists>sig. AggregateFullSignature S sg zs = Inr sig \<and> VerifyBIP340 S sig m P = Inr ()"
proof -
  let ?sess = "s\<lparr>ss_all_ids := ids, ss_commitments := cs, ss_joint_pubkey := P, ss_message := m\<rparr>"
  let ?N = "nonce_point S bf cs"
  have "\<exists>sg'. PrepareSignable S ?sess = Inr sg' \<and> sg_factors sg' = bf \<and>
    sg_R sg' = lift_even S ?N \<and> sg_R_even sg' = (hd (enc_el S ?N) = even_prefix) \<and>
    sg_pubkey_even sg' = (hd (enc_el S P) = even_prefix) \<and>
    scalar_of_digest S (challenge_hash S (tl (enc_el S (sg_R sg')) @ tl (enc_el S P) @ m))
      = Some (sg_challenge sg')"
    using PrepareSignable_ok [OF laws, of ?sess bf] P(2) m sorted bf R by auto
  with sg have sgf: "sg_factors sg = bf" "sg_R sg = lift_even S ?N"
    "sg_R_even sg = (hd (enc_el S ?N) = even_prefix)" "sg_pubkey_even sg = (hd (enc_el S P) = even_prefix)"
    and ch: "scalar_of_digest S (challenge_hash S (tl (enc_el S (sg_R sg)) @ tl (enc_el S P) @ m))
      = Some (sg_challenge sg)" by auto
  note l = lift_even_facts [OF laws R]
  have dist: "distinct ids" using ids_ascending_distinct [OF sorted] ids by simp
  have key: "(\<Sum>c\<leftarrow>cs. smul S (LagrangeCoefficient (participant_id c) ids * poly f (id_scalar (participant_id c)))
      (base_pt S)) = P"
    using lagrange_reconstructs [OF dist inj poly] P(1)
    by (simp add: smul_sum_list(1) [OF laws, symmetric] ids o_def)
  have "smul S (sum_list zs) (base_pt S) = sg_R sg + smul S (sg_challenge sg) (lift_even S P)"
  proof -
    have "zs = map (\<lambda>c. ComputePartialSignature (d (participant_id c)) (e (participant_id c))
         (the (bf (participant_id c))) (sg_R_even sg) (poly f (id_scalar (participant_id c)))
         (sg_pubkey_even sg) (LagrangeCoefficient (participant_id c) ids) (sg_challenge sg)) cs"
      by (simp add: partials ids sgf(1))
    with partials_sum_point [OF laws nonces, where cs = cs and bf = bf and re = "sg_R_even sg"
        and pe = "sg_pubkey_even sg" and s = "\<lambda>i. poly f (id_scalar i)"
        and l = "\<lambda>i. LagrangeCoefficient i ids" and ch = "sg_challenge sg"]
    show ?thesis by (simp add: key sgf(2-4) lift_even_def)
  qed
  with VerifyBIP340_eq [OF laws _ _ P(2) m ch, of "sum_list zs"] l sgf(2)
    AggregateFullSignature_eq [OF laws, of sg zs] even_encoding_lift [OF laws R]
  show ?thesis by simp
qed

end
