(* ===== verification/FrostStore.thy ===== *)
theory FrostStore
  imports Prelude "HOL-Library.AList"
begin

text \<open>
  The FROST tables of the in-memory store (\<open>internal/storage/storage.go\<close>): threshold keys, their
  shares, and the signer's shares of user-cosigned keys. No caller writes through the pointers
  these methods hand out, so the records are stored by value. The inner map of the shares of a
  key is an association list: its order is the (arbitrary) order of Go's loops over it.
\<close>

record frost_key =
  fk_id :: string
  fk_name :: string
  fk_pubkey :: string
  fk_threshold :: int
  fk_total_shares :: int
  fk_group_public_key :: bytes
  fk_verification_shares :: bytes
  fk_created_at :: time
  fk_created_by :: string
  fk_owner_id :: string

record frost_share =
  sh_id :: string
  sh_frost_key_id :: string
  sh_index :: int
  sh_encrypted_share :: bytes
  sh_holder_pubkey :: string
  sh_holder_bunker_uri :: string
  sh_is_local :: bool
  sh_public_share :: bytes
  sh_created_at :: time

record frost_user_share =
  fu_id :: string
  fu_key_id :: string
  fu_owner_id :: string
  fu_share_index :: int
  fu_encrypted_share :: bytes
  fu_verification_share :: bytes
  fu_threshold :: int
  fu_total_shares :: int
  fu_rotation_generation :: int
  fu_created_at :: "time option"
  fu_updated_at :: "time option"
  fu_encrypted_user_share_at_dkg :: bytes
  fu_user_verification_share_hex :: string

record frost_store =
  fo_keys :: "(string \<times> frost_key) list"
  fo_by_pubkey :: "string \<rightharpoonup> frost_key"
  fo_shares :: "string \<rightharpoonup> frost_share"
  fo_by_key :: "string \<rightharpoonup> (int \<times> frost_share) list"
  fo_user_shares :: "(string \<times> frost_user_share) list"
  fo_user_by_key :: "string \<rightharpoonup> frost_user_share"

datatype frost_store_error =
    FrostKeyIDExists | FrostPubkeyExists | ErrFrostKeyNotFound | FrostShareIDExists | FrostIndexExists
  | ErrFrostShareNotFound | ErrFrostUserShareNotFound | ErrFrostUserShareExists

definition empty_frost_store :: frost_store where
  "empty_frost_store = \<lparr>fo_keys = [], fo_by_pubkey = Map.empty, fo_shares = Map.empty, fo_by_key = Map.empty,
     fo_user_shares = [], fo_user_by_key = Map.empty\<rparr>"

subsection \<open>Keys\<close>

definition CreateFrostKey :: "frost_key \<Rightarrow> frost_store \<Rightarrow> frost_store \<times> (frost_store_error + unit)" where
  "CreateFrostKey key st =
     (if map_of (fo_keys st) (fk_id key) \<noteq> None then (st, Inl FrostKeyIDExists)
      else if fo_by_pubkey st (fk_pubkey key) \<noteq> None then (st, Inl FrostPubkeyExists)
      else (st\<lparr>fo_keys := AList.update (fk_id key) key (fo_keys st),
               fo_by_pubkey := (fo_by_pubkey st)(fk_pubkey key \<mapsto> key)\<rparr>, Inr ()))"

definition GetFrostKey :: "string \<Rightarrow> frost_store \<Rightarrow> frost_store_error + frost_key" where
  "GetFrostKey i st = or_err ErrFrostKeyNotFound (map_of (fo_keys st) i)"

definition GetFrostKeyByPubkey :: "string \<Rightarrow> frost_store \<Rightarrow> frost_store_error + frost_key" where
  "GetFrostKeyByPubkey pubkey st = or_err ErrFrostKeyNotFound (fo_by_pubkey st pubkey)"

definition ListFrostKeys :: "frost_store \<Rightarrow> frost_key list" where
  "ListFrostKeys st = map snd (fo_keys st)"

definition ListFrostKeysByOwner :: "string \<Rightarrow> frost_store \<Rightarrow> frost_key list" where
  "ListFrostKeysByOwner ownerID st = filter (\<lambda>k. fk_owner_id k = ownerID) (map snd (fo_keys st))"

definition DeleteFrostKey :: "string \<Rightarrow> frost_store \<Rightarrow> frost_store \<times> (frost_store_error + unit)" where
  "DeleteFrostKey i st =
     (case map_of (fo_keys st) i of
        None \<Rightarrow> (st, Inl ErrFrostKeyNotFound)
      | Some key \<Rightarrow>
          (st\<lparr>fo_keys := AList.delete i (fo_keys st), fo_by_pubkey := (fo_by_pubkey st)(fk_pubkey key := None),
              fo_by_key := (fo_by_key st)(i := None)\<rparr>, Inr ()))"

subsection \<open>Shares\<close>

definition shares_of :: "string \<Rightarrow> frost_store \<Rightarrow> (int \<times> frost_share) list" where
  \<comment> \<open>\<open>m.frostSharesByKey[keyID]\<close>, where a missing inner map reads as empty\<close>
  "shares_of keyID st = (case fo_by_key st keyID of None \<Rightarrow> [] | Some ss \<Rightarrow> ss)"

definition CreateFrostShare :: "frost_share \<Rightarrow> frost_store \<Rightarrow> frost_store \<times> (frost_store_error + unit)" where
  "CreateFrostShare share st =
     (if fo_shares st (sh_id share) \<noteq> None then (st, Inl FrostShareIDExists)
      else if map_of (shares_of (sh_frost_key_id share) st) (sh_index share) \<noteq> None then (st, Inl FrostIndexExists)
      else (st\<lparr>fo_shares := (fo_shares st)(sh_id share \<mapsto> share),
               fo_by_key := (fo_by_key st)(sh_frost_key_id share \<mapsto>
                 AList.update (sh_index share) share (shares_of (sh_frost_key_id share) st))\<rparr>, Inr ()))"

definition GetFrostShare :: "string \<Rightarrow> frost_store \<Rightarrow> frost_store_error + frost_share" where
  "GetFrostShare i st = or_err ErrFrostShareNotFound (fo_shares st i)"

definition GetFrostShareByKeyAndIndex :: "string \<Rightarrow> int \<Rightarrow> frost_store \<Rightarrow> frost_store_error + frost_share" where
  "GetFrostShareByKeyAndIndex keyID index st =
     (case fo_by_key st keyID of
        None \<Rightarrow> Inl ErrFrostShareNotFound
      | Some shares \<Rightarrow> or_err ErrFrostShareNotFound (map_of shares index))"

definition ListFrostShares :: "string \<Rightarrow> frost_store \<Rightarrow> frost_share list" where
  "ListFrostShares keyID st =
     (case fo_by_key st keyID of None \<Rightarrow> [] | Some shares \<Rightarrow> map snd shares)"

definition ListLocalFrostShares :: "string \<Rightarrow> frost_store \<Rightarrow> frost_share list" where
  "ListLocalFrostShares keyID st =
     (case fo_by_key st keyID of None \<Rightarrow> [] | Some shares \<Rightarrow> filter sh_is_local (map snd shares))"

definition DeleteFrostShare :: "string \<Rightarrow> frost_store \<Rightarrow> frost_store \<times> (frost_store_error + unit)" where
  "DeleteFrostShare i st =
     (case fo_shares st i of
        None \<Rightarrow> (st, Inl ErrFrostShareNotFound)
      | Some share \<Rightarrow>
          (let st = st\<lparr>fo_shares := (fo_shares st)(i := None)\<rparr>
           in (case fo_by_key st (sh_frost_key_id share) of
                 None \<Rightarrow> st
               | Some shares \<Rightarrow> st\<lparr>fo_by_key := (fo_by_key st)(sh_frost_key_id share \<mapsto>
                   AList.delete (sh_index share) shares)\<rparr>, Inr ())))"

subsection \<open>The signer's shares of user-cosigned keys\<close>

definition CreateFrostUserShare ::
    "time \<Rightarrow> frost_user_share \<Rightarrow> frost_store \<Rightarrow> frost_store \<times> (frost_store_error + unit)" where
  "CreateFrostUserShare now share st =
     (if map_of (fo_user_shares st) (fu_id share) \<noteq> None then (st, Inl ErrFrostUserShareExists)
      else if fo_user_by_key st (fu_key_id share) \<noteq> None then (st, Inl ErrFrostUserShareExists)
      else (let share = (if fu_created_at share = None then share\<lparr>fu_created_at := Some now\<rparr> else share);
                share = share\<lparr>fu_updated_at := Some now\<rparr>
            in (st\<lparr>fo_user_shares := AList.update (fu_id share) share (fo_user_shares st),
                   fo_user_by_key := (fo_user_by_key st)(fu_key_id share \<mapsto> share)\<rparr>, Inr ())))"

definition GetFrostUserShare :: "string \<Rightarrow> frost_store \<Rightarrow> frost_store_error + frost_user_share" where
  "GetFrostUserShare i st = or_err ErrFrostUserShareNotFound (map_of (fo_user_shares st) i)"

definition GetFrostUserShareByKeyID :: "string \<Rightarrow> frost_store \<Rightarrow> frost_store_error + frost_user_share" where
  "GetFrostUserShareByKeyID keyID st = or_err ErrFrostUserShareNotFound (fo_user_by_key st keyID)"

definition ListFrostUserSharesByOwner :: "string \<Rightarrow> frost_store \<Rightarrow> frost_user_share list" where
  "ListFrostUserSharesByOwner ownerID st =
     filter (\<lambda>s. fu_owner_id s = ownerID) (map snd (fo_user_shares st))"

definition UpdateFrostUserShare ::
    "time \<Rightarrow> frost_user_share \<Rightarrow> frost_store \<Rightarrow> frost_store \<times> (frost_store_error + unit)" where
  "UpdateFrostUserShare now share st =
     (case map_of (fo_user_shares st) (fu_id share) of
        None \<Rightarrow> (st, Inl ErrFrostUserShareNotFound)
      | Some existing \<Rightarrow>
          (let share = share\<lparr>fu_created_at := fu_created_at existing, fu_updated_at := Some now\<rparr>
           in (st\<lparr>fo_user_shares := AList.update (fu_id share) share (fo_user_shares st),
                  fo_user_by_key := (fo_user_by_key st)(fu_key_id share \<mapsto> share)\<rparr>, Inr ())))"

definition DeleteFrostUserShare :: "string \<Rightarrow> frost_store \<Rightarrow> frost_store \<times> (frost_store_error + unit)" where
  "DeleteFrostUserShare i st =
     (case map_of (fo_user_shares st) i of
        None \<Rightarrow> (st, Inl ErrFrostUserShareNotFound)
      | Some share \<Rightarrow>
          (st\<lparr>fo_user_shares := AList.delete i (fo_user_shares st),
              fo_user_by_key := (fo_user_by_key st)(fu_key_id share := None)\<rparr>, Inr ()))"

subsection \<open>Facts\<close>

lemma CreateFrostKey_ok:
  "CreateFrostKey key st = (st', Inr ()) \<longleftrightarrow>
     map_of (fo_keys st) (fk_id key) = None \<and> fo_by_pubkey st (fk_pubkey key) = None \<and>
     st' = st\<lparr>fo_keys := AList.update (fk_id key) key (fo_keys st),
               fo_by_pubkey := (fo_by_pubkey st)(fk_pubkey key \<mapsto> key)\<rparr>"
  by (auto simp: CreateFrostKey_def)

lemma CreateFrostShare_keeps:
  assumes "CreateFrostShare share st = (st', res)"
  shows "fo_keys st' = fo_keys st"
    and "k \<noteq> sh_frost_key_id share \<Longrightarrow> shares_of k st' = shares_of k st"
    and "res = Inr () \<Longrightarrow> shares_of (sh_frost_key_id share) st' =
           AList.update (sh_index share) share (shares_of (sh_frost_key_id share) st)"
  using assms by (auto simp: CreateFrostShare_def shares_of_def split: if_splits)

lemma ListLocalFrostShares_eq: "ListLocalFrostShares k st = filter sh_is_local (map snd (shares_of k st))"
  by (simp add: ListLocalFrostShares_def shares_of_def split: option.splits)

text \<open>
  Deleting a FROST key unlists its shares and leaves them in the table of shares, secret and all:
  \<open>GetFrostShare\<close> still returns each of them.
\<close>

lemma deleted_frost_key_leaves_shares:
  assumes "DeleteFrostKey i st = (st', Inr ())" "GetFrostShare j st = Inr share"
  shows "ListFrostShares i st' = []" "GetFrostShare j st' = Inr share"
  using assms by (auto simp: DeleteFrostKey_def ListFrostShares_def GetFrostShare_def split: option.splits)

lemma AList_update_new: "k \<notin> fst ` set xs \<Longrightarrow> AList.update k v xs = xs @ [(k, v)]"
  by (induction xs) auto

end
