(* ===== verification/ToyCurve.thy ===== *)
theory ToyCurve
  imports Curve
begin

text \<open>
  A concrete instance of the curve parameter, used only in the witnesses: the field with seven
  elements, which is also its own group (base point one, multiplication as scalar
  multiplication). A nonzero point and its negative share an x-coordinate and differ in the
  parity byte, as on the real curve, and the verifier decides the BIP-340 equation. A digest is
  reduced to its last byte.
\<close>

datatype gf7 = N0 | N1 | N2 | N3 | N4 | N5 | N6

primrec to_n :: "gf7 \<Rightarrow> nat" where
  "to_n N0 = 0" | "to_n N1 = 1" | "to_n N2 = 2" | "to_n N3 = 3"
| "to_n N4 = 4" | "to_n N5 = 5" | "to_n N6 = 6"

definition of_n :: "nat \<Rightarrow> gf7" where
  "of_n n = [N0, N1, N2, N3, N4, N5, N6] ! (n mod 7)"

lemma gf7_less: "to_n a < 7"
  by (cases a) simp_all

lemma of_to_n [simp]: "of_n (to_n a) = a"
  by (cases a) (simp_all add: of_n_def)

lemma to_of_n [simp]: "to_n (of_n n) = n mod 7"
proof -
  have "\<forall>k\<in>{0, 1, 2, 3, 4, 5, 6}. to_n ([N0, N1, N2, N3, N4, N5, N6] ! k) = k" by simp
  moreover have "n mod 7 \<in> {0, 1, 2, 3, 4, 5, 6}" by auto
  ultimately have "to_n ([N0, N1, N2, N3, N4, N5, N6] ! (n mod 7)) = n mod 7" by (rule bspec)
  then show ?thesis by (simp only: of_n_def)
qed

lemma gf7_eqI: "to_n a mod 7 = to_n b mod 7 \<Longrightarrow> a = b"
  by (metis gf7_less mod_less of_to_n)

instantiation gf7 :: field
begin

definition zero_gf7 :: gf7 where "0 = N0"
definition one_gf7 :: gf7 where "1 = N1"
definition plus_gf7 :: "gf7 \<Rightarrow> gf7 \<Rightarrow> gf7" where "a + b = of_n (to_n a + to_n b)"
definition uminus_gf7 :: "gf7 \<Rightarrow> gf7" where "- a = of_n (7 - to_n a)"
definition minus_gf7 :: "gf7 \<Rightarrow> gf7 \<Rightarrow> gf7" where "a - b = of_n (to_n a + (7 - to_n b))"
definition times_gf7 :: "gf7 \<Rightarrow> gf7 \<Rightarrow> gf7" where "a * b = of_n (to_n a * to_n b)"
definition inverse_gf7 :: "gf7 \<Rightarrow> gf7" where "inverse a = of_n (to_n a ^ 5)"
definition divide_gf7 :: "gf7 \<Rightarrow> gf7 \<Rightarrow> gf7" where "a div b = of_n (to_n a * to_n b ^ 5)"

lemmas gf7_defs = zero_gf7_def one_gf7_def plus_gf7_def uminus_gf7_def minus_gf7_def
  times_gf7_def inverse_gf7_def divide_gf7_def

instance
proof
  fix a b c :: gf7
  show "a * b * c = a * (b * c)" "a + b + c = a + (b + c)" "(a + b) * c = a * c + b * c"
    by (rule gf7_eqI; simp add: gf7_defs mod_simps algebra_simps)+
  show "a * b = b * a" "a + b = b + a"
    by (simp_all add: gf7_defs mult.commute add.commute)
  show "1 * a = a" "0 + a = a" "inverse (0 :: gf7) = 0"
    by (simp_all add: gf7_defs of_n_def) (cases a; simp)+
  show "- a + a = 0" "a - b = a + - b" "a div b = a * inverse b"
    using gf7_less [of a] by (auto intro!: gf7_eqI simp: gf7_defs mod_simps)
  show "a \<noteq> 0 \<Longrightarrow> inverse a * a = 1"
    by (cases a) (simp_all add: gf7_defs of_n_def)
  show "(0 :: gf7) \<noteq> 1" by (simp add: gf7_defs)
qed

end

lemma of_nat_gf7: "of_nat n = of_n n"
proof (induction n)
  case 0
  show ?case by (simp add: zero_gf7_def of_n_def)
next
  case (Suc n)
  then show ?case by (simp add: one_gf7_def plus_gf7_def) (rule gf7_eqI, simp add: mod_simps)
qed

subsection \<open>The suite\<close>

definition x_bytes :: "nat \<Rightarrow> bytes" where
  "x_bytes n = replicate 31 0 @ [of_nat n]"

definition toy_enc_el :: "gf7 \<Rightarrow> bytes" where
  "toy_enc_el a = (if a = N0 then [0] else
     (if to_n a \<le> 3 then 2 else 3) # x_bytes (if to_n a \<le> 3 then to_n a else 7 - to_n a))"

definition toy_lift :: "bytes \<Rightarrow> gf7 option" where
  "toy_lift x = (if x = x_bytes 1 then Some N1 else if x = x_bytes 2 then Some N2
     else if x = x_bytes 3 then Some N3 else None)"

fun toy_dec_el :: "bytes \<Rightarrow> gf7 option" where
  "toy_dec_el [] = None"
| "toy_dec_el (p # x) = (case toy_lift x of None \<Rightarrow> None
     | Some a \<Rightarrow> if p = 2 then Some a else if p = 3 then Some (- a) else None)"

definition toy_dec_sc :: "bytes \<Rightarrow> gf7 option" where
  "toy_dec_sc bs = (if length bs = 32 \<and> butlast bs = replicate 31 0 then Some (of_n (unat (last bs))) else None)"

definition toy_mod_n :: "bytes \<Rightarrow> bytes" where
  "toy_mod_n d = replicate 31 0 @ [if d = [] then 0 else last d]"

text \<open>
  The hashes append one byte: the binding hash mixes its last byte with the x-coordinate of the
  first hiding commitment, the challenge hash its last byte with the x-coordinate of \<open>R\<close>.
\<close>

definition toy_sha :: "bytes \<Rightarrow> bytes" where
  "toy_sha d = d @ [d ! 122 + last d]"

definition toy_challenge :: "bytes \<Rightarrow> bytes" where
  "toy_challenge d = d @ [d ! 31 + last d]"

definition toy_verify :: "bytes \<Rightarrow> bytes \<Rightarrow> bytes \<Rightarrow> bool" where
  "toy_verify sig m pk =
     (case (toy_lift (take 32 sig), toy_dec_sc (drop 32 sig), toy_lift pk,
            toy_dec_sc (toy_mod_n (toy_challenge (take 32 sig @ pk @ m)))) of
        (Some R, Some z, Some P, Some c) \<Rightarrow> z = R + c * P
      | _ \<Rightarrow> False)"

definition toy :: "(gf7, gf7) suite" where
  "toy = \<lparr>base_pt = N1, smul = (*), enc_el = toy_enc_el, dec_el = toy_dec_el, el_len = 33,
          enc_sc = (\<lambda>a. x_bytes (to_n a)), dec_sc = toy_dec_sc, sha256 = toy_sha,
          challenge_hash = toy_challenge, mod_n = toy_mod_n,
          parse_sig = (\<lambda>sig. length sig = 64), parse_pk = (\<lambda>pk. toy_lift pk \<noteq> None),
          sig_verify = toy_verify\<rparr>"

lemma toy_simps [simp]:
  "base_pt toy = N1" "smul toy = (*)" "enc_el toy = toy_enc_el" "dec_el toy = toy_dec_el"
  "el_len toy = 33" "enc_sc toy = (\<lambda>a. x_bytes (to_n a))" "dec_sc toy = toy_dec_sc"
  "sha256 toy = toy_sha" "challenge_hash toy = toy_challenge" "mod_n toy = toy_mod_n"
  "parse_sig toy = (\<lambda>sig. length sig = 64)" "parse_pk toy = (\<lambda>pk. toy_lift pk \<noteq> None)"
  "sig_verify toy = toy_verify"
  by (simp_all add: toy_def)

lemma x_bytes_inj: "m < 256 \<Longrightarrow> n < 256 \<Longrightarrow> x_bytes m = x_bytes n \<longleftrightarrow> m = n"
  by (simp add: x_bytes_def word_of_nat_eq_iff take_bit_eq_mod)

lemma toy_lift_x: "toy_lift (x_bytes 1) = Some N1" "toy_lift (x_bytes 2) = Some N2"
  "toy_lift (x_bytes 3) = Some N3"
  by (simp_all add: toy_lift_def x_bytes_inj)

lemma toy_dec_sc_x: "toy_dec_sc (replicate 31 0 @ [b]) = Some (of_n (unat b))"
  by (simp add: toy_dec_sc_def)

lemma gf7_neg: "- N0 = N0" "- N1 = N6" "- N2 = N5" "- N3 = N4" "- N4 = N3" "- N5 = N2" "- N6 = N1"
  by (simp_all add: gf7_defs of_n_def)

lemma toy_laws: "suite_laws toy"
proof -
  have "element_laws toy"
    unfolding element_laws_def
  proof (intro conjI allI impI)
    show "el_len toy = 33" by simp
  next
    fix P :: gf7 assume P: "P \<noteq> 0"
    show "length (enc_el toy P) = 33" "hd (enc_el toy P) \<in> {even_prefix, odd_prefix}"
      using P by (cases P; simp add: gf7_defs toy_enc_el_def x_bytes_def)+
    show "dec_el toy (enc_el toy P) = Some P"
      using P toy_lift_x by (cases P) (simp_all add: gf7_defs(1) toy_enc_el_def gf7_neg)
    show "hd (enc_el toy (- P)) \<noteq> hd (enc_el toy P)" "tl (enc_el toy (- P)) = tl (enc_el toy P)"
      using P by (cases P; simp add: gf7_defs(1) gf7_neg toy_enc_el_def)+
  qed
  moreover have "scalar_laws toy"
    unfolding scalar_laws_def
  proof (intro conjI allI)
    fix s :: gf7 and b :: byte and d
    show "length (enc_sc toy s) = 32" by (simp add: x_bytes_def)
    have "unat (of_nat (to_n s) :: byte) = to_n s" using gf7_less [of s] by (simp add: unat_of_nat)
    then show "dec_sc toy (enc_sc toy s) = Some s" by (simp add: x_bytes_def toy_dec_sc_x)
    show "dec_sc toy (replicate 31 0 @ [b]) = Some (of_nat (unat b))"
      by (simp add: toy_dec_sc_x of_nat_gf7)
    show "scalar_of_digest toy d \<noteq> None"
      by (simp add: scalar_of_digest_def toy_mod_n_def toy_dec_sc_x)
  qed
  moreover have "bip340_laws toy"
    unfolding bip340_laws_def
  proof (intro allI impI)
    fix R P z c :: gf7 and m :: bytes
    assume h: "R \<noteq> 0 \<and> P \<noteq> 0 \<and> length m = 32 \<and> hd (enc_el toy R) = even_prefix \<and>
      hd (enc_el toy P) = even_prefix \<and>
      scalar_of_digest toy (challenge_hash toy (tl (enc_el toy R) @ tl (enc_el toy P) @ m)) = Some c"
    have lift: "toy_lift (tl (toy_enc_el Q)) = Some Q \<and> length (tl (toy_enc_el Q)) = 32"
      if "Q \<noteq> 0" "hd (toy_enc_el Q) = even_prefix" for Q
      using that toy_lift_x by (cases Q) (simp_all add: gf7_defs(1) toy_enc_el_def x_bytes_def)
    have z: "toy_dec_sc (x_bytes (to_n z)) = Some z"
      using gf7_less [of z] by (simp add: x_bytes_def toy_dec_sc_x unat_of_nat)
    from h lift [of R] lift [of P]
    show "parse_sig toy (tl (enc_el toy R) @ enc_sc toy z) \<and> parse_pk toy (tl (enc_el toy P)) \<and>
        (sig_verify toy (tl (enc_el toy R) @ enc_sc toy z) m (tl (enc_el toy P)) \<longleftrightarrow>
           smul toy z (base_pt toy) = R + smul toy c P)"
      using z by (simp add: toy_verify_def scalar_of_digest_def toy_mod_n_def)
        (simp add: x_bytes_def gf7_defs)
  qed
  moreover have "vector_space (smul toy)"
    by unfold_locales (simp_all add: algebra_simps)
  ultimately show ?thesis by (simp add: suite_laws_def gf7_defs)
qed

end
