(* ===== verification/KeyGen.thy ===== *)
theory KeyGen
  imports Bip340 FrostStore ToyCurve
begin

text \<open>
  \<open>internal/frost/dkg.go\<close> and the configuration check of \<open>internal/frost/frost.go\<close>: key generation
  by a trusted dealer, the records it produces, and the byte format of verification shares; and
  the part of the create-key endpoint (\<open>internal/api/handler.go\<close>) that stores the result.

  Two third-party parts are parameters: the share codec and the dealer of \<open>bytemare\<close>
  (\<open>keys.KeyShare\<close>, \<open>debug.TrustedDealerKeygen\<close>), and the encryptor of shares at rest. Random ids
  come from a function of the call's number.
\<close>

record ('s, 'g) key_share =
  kv_id :: "16 word"
  kv_secret :: 's
  kv_public :: 'g

record ('s, 'g) share_lib =
  fl_encode :: "('s, 'g) key_share \<Rightarrow> bytes"                \<comment> \<open>\<open>KeyShare.Encode\<close>\<close>
  fl_decode :: "bytes \<Rightarrow> ('s, 'g) key_share option"         \<comment> \<open>\<open>KeyShare.Decode\<close>\<close>
  fl_keygen :: "'s \<Rightarrow> 16 word \<Rightarrow> 16 word \<Rightarrow> ('s, 'g) key_share list \<times> 'g"  \<comment> \<open>\<open>TrustedDealerKeygen\<close>\<close>

record encryptor =
  en_encrypt :: "bytes \<Rightarrow> bytes option"
  en_decrypt :: "bytes \<Rightarrow> bytes option"

datatype keygen_error =
    ThresholdTooSmall | TotalBelowThreshold | ThresholdTooLarge | DecodeExistingSecret
  | TooManyKeys | EncryptShareFailed nat | DecodeShareFailed | DecryptShareFailed
  | VerificationTooShort | VerificationSize nat nat | DecodePubkeyFailed nat

record keygen_config =
  kc_name :: string
  kc_threshold :: int
  kc_total_shares :: int
  kc_existing_secret :: bytes

record keygen_result =
  kr_key :: frost_key
  kr_shares :: "frost_share list"
  kr_secret_data :: "bytes list"

definition Validate :: "keygen_config \<Rightarrow> keygen_error + unit" where
  "Validate c =
     (if kc_threshold c < 1 then Inl ThresholdTooSmall
      else if kc_total_shares c < kc_threshold c then Inl TotalBelowThreshold
      else if kc_threshold c > 255 \<or> kc_total_shares c > 255 then Inl ThresholdTooLarge
      else Inr ())"

definition pubkeyToHex :: "bytes \<Rightarrow> string" where
  "pubkeyToHex pubkeyBytes =
     (if length pubkeyBytes = 33 then hex_encode (tl pubkeyBytes)
      else if length pubkeyBytes = 65 then hex_encode (take 32 (tl pubkeyBytes))
      else if length pubkeyBytes = 32 then hex_encode pubkeyBytes
      else hex_encode pubkeyBytes)"

subsection \<open>Verification shares\<close>

text \<open>\<open>copy\<close> into a zeroed slot of fixed size: too long is cut off, too short is padded.\<close>

definition fit :: "nat \<Rightarrow> bytes \<Rightarrow> bytes" where
  "fit n bs = take n bs @ replicate (n - length bs) 0"

definition encodeVerificationShares :: "('s, 'g) suite \<Rightarrow> 'g list \<Rightarrow> keygen_error + bytes" where
  "encodeVerificationShares S pubKeys =
     (if length pubKeys > 65535 then Inl TooManyKeys
      else Inr (of_nat (length pubKeys div 256) # of_nat (length pubKeys) #
                concat (map (\<lambda>pk. fit (el_len S) (enc_el S pk)) pubKeys)))"

text \<open>The loop of both element decoders of the package: \<open>n\<close> elements, the first with number \<open>i\<close>.\<close>

fun decode_elements :: "('s, 'g) suite \<Rightarrow> nat \<Rightarrow> nat \<Rightarrow> bytes \<Rightarrow> nat + 'g list" where
  "decode_elements S 0 i data = Inr []"
| "decode_elements S (Suc n) i data =
     (case dec_el S (take (el_len S) data) of
        None \<Rightarrow> Inl i
      | Some P \<Rightarrow> (case decode_elements S n (Suc i) (drop (el_len S) data) of
          Inl e \<Rightarrow> Inl e | Inr Ps \<Rightarrow> Inr (P # Ps)))"

definition decodeVerificationShares :: "('s, 'g) suite \<Rightarrow> bytes \<Rightarrow> keygen_error + 'g list" where
  "decodeVerificationShares S data =
     (case data of
        hi # lo # rest \<Rightarrow>
          (let count = unat hi * 256 + unat lo; expectedSize = 2 + count * el_len S in
           if length data \<noteq> expectedSize then Inl (VerificationSize (length data) expectedSize)
           else (case decode_elements S count 0 rest of
                   Inl i \<Rightarrow> Inl (DecodePubkeyFailed i) | Inr pubKeys \<Rightarrow> Inr pubKeys))
      | _ \<Rightarrow> Inl VerificationTooShort)"

subsection \<open>Key generation\<close>

definition encrypt_share :: "encryptor option \<Rightarrow> bytes \<Rightarrow> bytes option" where
  "encrypt_share enc bs = (case enc of None \<Rightarrow> Some bs | Some E \<Rightarrow> en_encrypt E bs)"

fun share_records ::
    "('s, 'g) suite \<Rightarrow> ('s, 'g) share_lib \<Rightarrow> encryptor option \<Rightarrow> time \<Rightarrow> string \<Rightarrow> (nat \<Rightarrow> string) \<Rightarrow> nat \<Rightarrow>
     ('s, 'g) key_share list \<Rightarrow> keygen_error + frost_share list" where
  "share_records S L enc now keyID newID i [] = Inr []"
| "share_records S L enc now keyID newID i (ks # kss) =
     (case encrypt_share enc (fl_encode L ks) of
        None \<Rightarrow> Inl (EncryptShareFailed (i + 1))
      | Some encrypted \<Rightarrow>
          (case share_records S L enc now keyID newID (Suc i) kss of
             Inl e \<Rightarrow> Inl e
           | Inr rest \<Rightarrow>
               Inr (\<lparr>sh_id = newID (Suc i), sh_frost_key_id = keyID, sh_index = int i + 1,
                     sh_encrypted_share = encrypted, sh_holder_pubkey = '''', sh_holder_bunker_uri = '''',
                     sh_is_local = True, sh_public_share = enc_el S (kv_public ks), sh_created_at = now\<rparr> # rest)))"

definition GenerateKey ::
    "('s, 'g) suite \<Rightarrow> ('s, 'g) share_lib \<Rightarrow> encryptor option \<Rightarrow> time \<Rightarrow> 's \<Rightarrow> (nat \<Rightarrow> string) \<Rightarrow> keygen_config \<Rightarrow>
     keygen_error + keygen_result" where
  "GenerateKey S L enc now random newID config =
     (case Validate config of
        Inl e \<Rightarrow> Inl e
      | Inr _ \<Rightarrow>
     (case (if length (kc_existing_secret config) > 0 then dec_sc S (kc_existing_secret config) else Some random) of
        None \<Rightarrow> Inl DecodeExistingSecret
      | Some secret \<Rightarrow>
     (let (keyShares, groupPubKey) =
            fl_keygen L secret (of_int (kc_threshold config)) (of_int (kc_total_shares config));
          keyID = newID 0; groupPubKeyBytes = enc_el S groupPubKey in
      case encodeVerificationShares S (map kv_public keyShares) of
        Inl e \<Rightarrow> Inl e
      | Inr verification \<Rightarrow>
     (case share_records S L enc now keyID newID 0 keyShares of
        Inl e \<Rightarrow> Inl e
      | Inr shares \<Rightarrow>
          Inr \<lparr>kr_key = \<lparr>fk_id = keyID, fk_name = kc_name config, fk_pubkey = pubkeyToHex groupPubKeyBytes,
                 fk_threshold = kc_threshold config, fk_total_shares = kc_total_shares config,
                 fk_group_public_key = groupPubKeyBytes, fk_verification_shares = verification,
                 fk_created_at = now, fk_created_by = '''', fk_owner_id = ''''\<rparr>,
               kr_shares = shares, kr_secret_data = map (fl_encode L) keyShares\<rparr>))))"

definition ImportShare ::
    "('s, 'g) suite \<Rightarrow> ('s, 'g) share_lib \<Rightarrow> encryptor option \<Rightarrow> time \<Rightarrow> string \<Rightarrow> string \<Rightarrow> int \<Rightarrow> bytes \<Rightarrow> bool \<Rightarrow>
     keygen_error + frost_share" where
  "ImportShare S L enc now newID frostKeyID shareIndex shareData isLocal =
     (let record = (\<lambda>encrypted pub. \<lparr>sh_id = newID, sh_frost_key_id = frostKeyID, sh_index = shareIndex,
            sh_encrypted_share = encrypted, sh_holder_pubkey = '''', sh_holder_bunker_uri = '''',
            sh_is_local = isLocal, sh_public_share = pub, sh_created_at = now\<rparr>) in
      if \<not> isLocal then Inr (record [] [])
      else case fl_decode L shareData of
        None \<Rightarrow> Inl DecodeShareFailed
      | Some ks \<Rightarrow>
          (case encrypt_share enc shareData of
             None \<Rightarrow> Inl (EncryptShareFailed 0)
           | Some encrypted \<Rightarrow> Inr (record encrypted (enc_el S (kv_public ks)))))"

record share_bundle =
  sb_frost_key_id :: string
  sb_share_index :: int
  sb_share_data :: string
  sb_group_public_key :: string
  sb_threshold :: int
  sb_total_shares :: int
  sb_verification_shares :: string

definition CreateShareBundle :: "encryptor option \<Rightarrow> frost_key \<Rightarrow> frost_share \<Rightarrow> keygen_error + share_bundle" where
  "CreateShareBundle enc key share =
     (case (case enc of
              None \<Rightarrow> Some (sh_encrypted_share share)
            | Some E \<Rightarrow> if sh_is_local share \<and> length (sh_encrypted_share share) > 0
                then en_decrypt E (sh_encrypted_share share) else Some (sh_encrypted_share share)) of
        None \<Rightarrow> Inl DecryptShareFailed
      | Some shareData \<Rightarrow>
          Inr \<lparr>sb_frost_key_id = fk_id key, sb_share_index = sh_index share, sb_share_data = hex_encode shareData,
               sb_group_public_key = hex_encode (fk_group_public_key key), sb_threshold = fk_threshold key,
               sb_total_shares = fk_total_shares key,
               sb_verification_shares = hex_encode (fk_verification_shares key)\<rparr>)"

text \<open>
  The create-key endpoint after \<open>GenerateKey\<close>: the owner is set, the key is stored, then every
  share; a share that cannot be stored is logged and skipped.
\<close>

definition store_generated :: "string \<Rightarrow> keygen_result \<Rightarrow> frost_store \<Rightarrow> frost_store \<times> (frost_store_error + unit)" where
  "store_generated userID res st =
     (case CreateFrostKey ((kr_key res)\<lparr>fk_owner_id := userID\<rparr>) st of
        (st, Inl e) \<Rightarrow> (st, Inl e)
      | (st, Inr _) \<Rightarrow> (foldl (\<lambda>st share. fst (CreateFrostShare share st)) st (kr_shares res), Inr ()))"

subsection \<open>What the third-party parts promise\<close>

definition share_codec_laws :: "('s, 'g) share_lib \<Rightarrow> bool" where
  "share_codec_laws L \<longleftrightarrow> (\<forall>ks. fl_decode L (fl_encode L ks) = Some ks)"

text \<open>
  The dealer shares \<open>secret\<close> with a polynomial of degree \<open>t - 1\<close> and gives participant \<open>i\<close> the value at
  \<open>i\<close>, its public point, and the public key of the secret.
\<close>

definition dealt :: "('s::field, 'g::ab_group_add) suite \<Rightarrow> 's list \<Rightarrow> nat \<Rightarrow> ('s, 'g) key_share" where
  "dealt S f i = \<lparr>kv_id = of_nat i, kv_secret = poly f (of_nat i), kv_public = smul S (poly f (of_nat i)) (base_pt S)\<rparr>"

definition dealer_laws :: "('s::field, 'g::ab_group_add) suite \<Rightarrow> ('s, 'g) share_lib \<Rightarrow> bool" where
  "dealer_laws S L \<longleftrightarrow>
     (\<forall>secret t n. 1 \<le> t \<and> t \<le> n \<longrightarrow>
        (\<exists>f. length f = unat t \<and> poly f 0 = secret \<and>
           fl_keygen L secret t n = (map (dealt S f) [1..<Suc (unat n)], smul S secret (base_pt S))))"

definition encryptor_laws :: "encryptor option \<Rightarrow> bool" where
  "encryptor_laws enc \<longleftrightarrow>
     (\<forall>E. enc = Some E \<longrightarrow> (\<forall>bs. \<exists>c. en_encrypt E bs = Some c \<and> c \<noteq> [] \<and> en_decrypt E c = Some bs))"

subsection \<open>Round trips\<close>

lemma fit_exact [simp]: "length bs = n \<Longrightarrow> fit n bs = bs"
  by (simp add: fit_def)

lemma decode_elements_concat:
  assumes "\<forall>P \<in> set Ps. length (enc_el S P) = el_len S \<and> dec_el S (enc_el S P) = Some P"
  shows "decode_elements S (length Ps) i (concat (map (enc_el S) Ps)) = Inr Ps"
  using assms by (induction Ps arbitrary: i) auto

lemma decode_elements_length: "decode_elements S n i data = Inr Ps \<Longrightarrow> length Ps = n"
  by (induction n arbitrary: i data Ps) (auto split: option.splits sum.splits)

lemma count_bytes:
  assumes "n \<le> 65535"
  shows "unat (of_nat (n div 256) :: byte) * 256 + unat (of_nat n :: byte) = n"
proof -
  have "unat (of_nat (n div 256) :: byte) = n div 256"
    using assms by (simp add: unat_of_nat take_bit_nat_eq_self)
  moreover have "unat (of_nat n :: byte) = n mod 256"
    by (simp add: unat_of_nat take_bit_eq_mod)
  ultimately show ?thesis by simp
qed

lemma proper_elements:
  assumes "suite_laws S" "0 \<notin> set Ps"
  shows "\<forall>P \<in> set Ps. length (enc_el S P) = el_len S \<and> dec_el S (enc_el S P) = Some P"
proof
  fix P assume "P \<in> set Ps"
  with assms(2) have "P \<noteq> 0" by auto
  with suite_parts(1) [OF assms(1)] show "length (enc_el S P) = el_len S \<and> dec_el S (enc_el S P) = Some P"
    by (simp add: element_laws_def)
qed

lemma encodeVerificationShares_eq:
  assumes "suite_laws S" "0 \<notin> set Ps" "length Ps \<le> 65535"
  shows "encodeVerificationShares S Ps =
    Inr (of_nat (length Ps div 256) # of_nat (length Ps) # concat (map (enc_el S) Ps))"
proof -
  have "map (\<lambda>P. fit (el_len S) (enc_el S P)) Ps = map (enc_el S) Ps"
    using proper_elements [OF assms(1,2)] by auto
  then show ?thesis using assms(3) by (simp only: encodeVerificationShares_def) simp
qed

lemma length_concat_elements:
  assumes "suite_laws S" "0 \<notin> set Ps"
  shows "length (concat (map (enc_el S) Ps)) = length Ps * el_len S"
  using proper_elements [OF assms] by (induction Ps) auto

lemma decode_encoded_shares:
  assumes "suite_laws S" "0 \<notin> set Ps" "encodeVerificationShares S Ps = Inr data"
  shows "decodeVerificationShares S data = Inr Ps"
proof -
  have len: "length Ps \<le> 65535" using assms(3) by (auto simp: encodeVerificationShares_def split: if_splits)
  have data: "data = of_nat (length Ps div 256) # of_nat (length Ps) # concat (map (enc_el S) Ps)"
    using assms(3) encodeVerificationShares_eq [OF assms(1,2) len] by simp
  have "decode_elements S (length Ps) 0 (concat (map (enc_el S) Ps)) = Inr Ps"
    by (rule decode_elements_concat [OF proper_elements [OF assms(1,2)]])
  then show ?thesis
    by (simp add: data decodeVerificationShares_def count_bytes [OF len] length_concat_elements [OF assms(1,2)])
qed

text \<open>
  The stored verification shares decode to the points that were encoded, for any number of proper
  points up to 65535 (more are refused), and no two lists of points have the same encoding.
\<close>

theorem verification_shares_roundtrip:
  assumes "suite_laws S" "0 \<notin> set Ps"
  shows "if length Ps > 65535 then encodeVerificationShares S Ps = Inl TooManyKeys
    else \<exists>data. encodeVerificationShares S Ps = Inr data \<and> length data = 2 + length Ps * el_len S \<and>
      decodeVerificationShares S data = Inr Ps \<and>
      (\<forall>Qs. 0 \<notin> set Qs \<and> encodeVerificationShares S Qs = Inr data \<longrightarrow> Qs = Ps)"
proof (cases "length Ps > 65535")
  case True
  then show ?thesis by (simp add: encodeVerificationShares_def)
next
  case False
  then have e: "encodeVerificationShares S Ps =
      Inr (of_nat (length Ps div 256) # of_nat (length Ps) # concat (map (enc_el S) Ps))"
    using encodeVerificationShares_eq [OF assms] by simp
  with decode_encoded_shares [OF assms e] decode_encoded_shares [OF assms(1)]
    length_concat_elements [OF assms] False
  show ?thesis by fastforce
qed

theorem verification_shares_roundtrip_witness:
  "\<exists>data. encodeVerificationShares toy [N1, N3, N5] = Inr data \<and> length data = 101 \<and>
     decodeVerificationShares toy data = Inr [N1, N3, N5]"
proof -
  have z: "0 \<notin> set [N1, N3, N5]" by (simp add: zero_gf7_def)
  have "el_len toy = 33" using toy_laws by (simp add: suite_laws_def element_laws_def)
  with verification_shares_roundtrip [OF toy_laws z] show ?thesis by auto
qed

subsection \<open>What key generation stores\<close>

lemma encrypt_share_ok:
  assumes "encryptor_laws enc"
  shows "\<exists>c. encrypt_share enc bs = Some c \<and>
    (case enc of None \<Rightarrow> c = bs | Some E \<Rightarrow> c \<noteq> [] \<and> en_decrypt E c = Some bs)"
  using assms by (auto simp: encryptor_laws_def encrypt_share_def split: option.splits)

text \<open>The share that a stored record holds.\<close>

definition holds_share :: "('s, 'g) share_lib \<Rightarrow> encryptor option \<Rightarrow> frost_share \<Rightarrow> ('s, 'g) key_share \<Rightarrow> bool" where
  "holds_share L enc share ks \<longleftrightarrow>
     (case enc of None \<Rightarrow> sh_encrypted_share share = fl_encode L ks
      | Some E \<Rightarrow> sh_encrypted_share share \<noteq> [] \<and> en_decrypt E (sh_encrypted_share share) = Some (fl_encode L ks))"

lemma share_records_ok:
  assumes "encryptor_laws enc"
  shows "\<exists>shares. share_records S L enc now keyID newID i kss = Inr shares \<and>
    list_all2 (holds_share L enc) shares kss \<and>
    map sh_id shares = map (\<lambda>j. newID (Suc (i + j))) [0..<length kss] \<and>
    map sh_index shares = map (\<lambda>j. int (i + j) + 1) [0..<length kss] \<and>
    list_all (\<lambda>s. sh_frost_key_id s = keyID \<and> sh_is_local s) shares"
proof (induction kss arbitrary: i)
  case Nil
  show ?case by simp
next
  case (Cons ks kss)
  obtain c where c: "encrypt_share enc (fl_encode L ks) = Some c"
    "case enc of None \<Rightarrow> c = fl_encode L ks | Some E \<Rightarrow> c \<noteq> [] \<and> en_decrypt E c = Some (fl_encode L ks)"
    using encrypt_share_ok [OF assms] by blast
  obtain shares where s: "share_records S L enc now keyID newID (Suc i) kss = Inr shares"
    "list_all2 (holds_share L enc) shares kss"
    "map sh_id shares = map (\<lambda>j. newID (Suc (Suc i + j))) [0..<length kss]"
    "map sh_index shares = map (\<lambda>j. int (Suc i + j) + 1) [0..<length kss]"
    "list_all (\<lambda>s. sh_frost_key_id s = keyID \<and> sh_is_local s) shares"
    using Cons.IH by blast
  let ?r = "\<lparr>sh_id = newID (Suc i), sh_frost_key_id = keyID, sh_index = int i + 1,
    sh_encrypted_share = c, sh_holder_pubkey = '''', sh_holder_bunker_uri = '''',
    sh_is_local = True, sh_public_share = enc_el S (kv_public ks), sh_created_at = now\<rparr>"
  have h: "holds_share L enc ?r ks" using c(2) by (simp add: holds_share_def split: option.splits)
  have r: "share_records S L enc now keyID newID i (ks # kss) = Inr (?r # shares)" using c(1) s(1) by simp
  show ?case
    by (rule exI [of _ "?r # shares"]) (use r h s(2-5) in \<open>simp add: map_upt_Suc del: upt_Suc\<close>)
qed

lemma fresh_shares_stored:
  assumes "distinct (map sh_id ss)" "distinct (map sh_index ss)" "\<forall>s \<in> set ss. sh_frost_key_id s = k"
    "\<forall>s \<in> set ss. fo_shares st (sh_id s) = None" "\<forall>s \<in> set ss. sh_index s \<notin> fst ` set (shares_of k st)"
  shows "fo_keys (foldl (\<lambda>st share. fst (CreateFrostShare share st)) st ss) = fo_keys st"
    "shares_of k (foldl (\<lambda>st share. fst (CreateFrostShare share st)) st ss) =
       shares_of k st @ map (\<lambda>s. (sh_index s, s)) ss"
proof -
  have "fo_keys (foldl (\<lambda>st share. fst (CreateFrostShare share st)) st ss) = fo_keys st \<and>
    shares_of k (foldl (\<lambda>st share. fst (CreateFrostShare share st)) st ss) =
      shares_of k st @ map (\<lambda>s. (sh_index s, s)) ss"
    using assms
  proof (induction ss arbitrary: st)
    case (Cons s ss)
    let ?st = "fst (CreateFrostShare s st)"
    have new: "fo_shares st (sh_id s) = None" "sh_index s \<notin> fst ` set (shares_of k st)" "sh_frost_key_id s = k"
      using Cons.prems by auto
    have c: "CreateFrostShare s st = (?st, Inr ())"
      using new by (simp add: CreateFrostShare_def map_of_eq_None_iff)
    have keys: "fo_keys ?st = fo_keys st" and list: "shares_of k ?st = shares_of k st @ [(sh_index s, s)]"
      using CreateFrostShare_keeps(1) [OF c] CreateFrostShare_keeps(3) [OF c] new by (simp_all add: AList_update_new)
    have ids: "fo_shares ?st = (fo_shares st)(sh_id s \<mapsto> s)"
      using new by (simp add: CreateFrostShare_def map_of_eq_None_iff)
    have apart: "sh_id s' \<noteq> sh_id s \<and> sh_index s' \<noteq> sh_index s" if "s' \<in> set ss" for s'
      using Cons.prems(1,2) that by (metis image_eqI distinct.simps(2) list.simps(9) set_map)
    have rest: "\<forall>s' \<in> set ss. fo_shares ?st (sh_id s') = None"
      "\<forall>s' \<in> set ss. sh_index s' \<notin> fst ` set (shares_of k ?st)"
      using Cons.prems(4,5) apart unfolding ids list by simp_all
    from Cons.IH [of ?st] Cons.prems rest keys list show ?case by simp
  qed simp
  then show "fo_keys (foldl (\<lambda>st share. fst (CreateFrostShare share st)) st ss) = fo_keys st"
    "shares_of k (foldl (\<lambda>st share. fst (CreateFrostShare share st)) st ss) =
       shares_of k st @ map (\<lambda>s. (sh_index s, s)) ss" by simp_all
qed

text \<open>The nonces of fresh records: every id the generator draws is new to the store.\<close>

definition fresh_ids :: "(nat \<Rightarrow> string) \<Rightarrow> nat \<Rightarrow> frost_store \<Rightarrow> bool" where
  "fresh_ids newID n st \<longleftrightarrow>
     inj newID \<and> map_of (fo_keys st) (newID 0) = None \<and> fo_by_key st (newID 0) = None \<and>
     (\<forall>i\<in>{1..n}. fo_shares st (newID i) = None)"

lemma GenerateKey_ok:
  fixes S :: "('s::field, 'g::ab_group_add) suite"
  assumes laws: "suite_laws S" "dealer_laws S L" "encryptor_laws enc"
    and valid: "Validate config = Inr ()"
    and secret: "(if kc_existing_secret config = [] then Some random else dec_sc S (kc_existing_secret config)) = Some secret"
    and proper: "0 \<notin> kv_public ` set (fst (fl_keygen L secret (of_int (kc_threshold config)) (of_int (kc_total_shares config))))"
  shows "\<exists>f res. length f = nat (kc_threshold config) \<and> poly f 0 = secret \<and>
    GenerateKey S L enc now random newID config = Inr res \<and>
    fk_id (kr_key res) = newID 0 \<and> fk_threshold (kr_key res) = kc_threshold config \<and>
    fk_group_public_key (kr_key res) = enc_el S (smul S secret (base_pt S)) \<and>
    ok (decodeVerificationShares S (fk_verification_shares (kr_key res))) \<and>
    list_all2 (holds_share L enc) (kr_shares res) (map (dealt S f) [1..<Suc (nat (kc_total_shares config))]) \<and>
    map sh_id (kr_shares res) = map (\<lambda>j. newID (Suc j)) [0..<nat (kc_total_shares config)] \<and>
    map sh_index (kr_shares res) = map (\<lambda>j. int j + 1) [0..<nat (kc_total_shares config)] \<and>
    list_all (\<lambda>s. sh_frost_key_id s = newID 0 \<and> sh_is_local s) (kr_shares res)"
proof -
  let ?t = "kc_threshold config" and ?n = "kc_total_shares config"
  have bounds: "1 \<le> ?t" "?t \<le> ?n" "?n \<le> 255"
    using valid by (auto simp: Validate_def split: if_splits)
  have ut: "unat (of_int ?t :: 16 word) = nat ?t" "unat (of_int ?n :: 16 word) = nat ?n"
    using bounds by (simp_all add: unat_eq_nat_uint uint_word_of_int)
  have le: "(1 :: 16 word) \<le> of_int ?t" "(of_int ?t :: 16 word) \<le> of_int ?n"
    using bounds ut by (simp_all add: word_le_nat_alt)
  obtain f where f: "length f = nat ?t" "poly f 0 = secret"
    and gen: "fl_keygen L secret (of_int ?t) (of_int ?n) =
      (map (dealt S f) [1..<Suc (nat ?n)], smul S secret (base_pt S))"
    using laws(2) le unfolding dealer_laws_def ut [symmetric] by metis
  let ?kss = "map (dealt S f) [1..<Suc (nat ?n)]"
  let ?pks = "map kv_public ?kss"
  have z: "0 \<notin> set ?pks" using proper unfolding gen fst_conv set_map .
  have len: "length ?pks \<le> 65535" using bounds(3) by auto
  obtain data where data: "encodeVerificationShares S ?pks = Inr data" "decodeVerificationShares S data = Inr ?pks"
    using encodeVerificationShares_eq [OF laws(1) z len] decode_encoded_shares [OF laws(1) z] by blast
  obtain shares where sh: "share_records S L enc now (newID 0) newID 0 ?kss = Inr shares"
    "list_all2 (holds_share L enc) shares ?kss"
    "map sh_id shares = map (\<lambda>j. newID (Suc (0 + j))) [0..<length ?kss]"
    "map sh_index shares = map (\<lambda>j. int (0 + j) + 1) [0..<length ?kss]"
    "list_all (\<lambda>s. sh_frost_key_id s = newID 0 \<and> sh_is_local s) shares"
    using share_records_ok [OF laws(3)] by blast
  have lk: "length ?kss = nat ?n" by simp
  have ids: "map sh_id shares = map (\<lambda>j. newID (Suc j)) [0..<nat ?n]"
    "map sh_index shares = map (\<lambda>j. int j + 1) [0..<nat ?n]"
    using sh(3,4) unfolding lk by simp_all
  have sec: "(if length (kc_existing_secret config) > 0 then dec_sc S (kc_existing_secret config) else Some random) = Some secret"
    using secret by (simp split: if_splits)
  have run: "GenerateKey S L enc now random newID config =
      Inr \<lparr>kr_key = \<lparr>fk_id = newID 0, fk_name = kc_name config,
             fk_pubkey = pubkeyToHex (enc_el S (smul S secret (base_pt S))), fk_threshold = ?t, fk_total_shares = ?n,
             fk_group_public_key = enc_el S (smul S secret (base_pt S)), fk_verification_shares = data,
             fk_created_at = now, fk_created_by = '''', fk_owner_id = ''''\<rparr>,
           kr_shares = shares, kr_secret_data = map (fl_encode L) ?kss\<rparr>"
    unfolding GenerateKey_def valid sum.case sec option.case gen Let_def split data(1) sh(1) ..
  show ?thesis
    unfolding run
    by (rule exI [of _ f], rule exI, rule conjI [OF f(1)], rule conjI [OF f(2)], rule conjI [OF refl])
       (use sh(2) ids sh(5) data(2) in \<open>simp del: upt_Suc\<close>)
qed

lemma store_generated_ok:
  assumes fresh: "fresh_ids newID n st" and pk: "fo_by_pubkey st (fk_pubkey (kr_key res)) = None"
    and key: "fk_id (kr_key res) = newID 0"
    and ids: "map sh_id (kr_shares res) = map (\<lambda>j. newID (Suc j)) [0..<n]"
    and ix: "map sh_index (kr_shares res) = map (\<lambda>j. int j + 1) [0..<n]"
    and kid: "list_all (\<lambda>s. sh_frost_key_id s = newID 0 \<and> sh_is_local s) (kr_shares res)"
  shows "\<exists>st'. store_generated userID res st = (st', Inr ()) \<and>
    GetFrostKey (newID 0) st' = Inr ((kr_key res)\<lparr>fk_owner_id := userID\<rparr>) \<and>
    ListLocalFrostShares (newID 0) st' = kr_shares res"
proof -
  let ?key = "(kr_key res)\<lparr>fk_owner_id := userID\<rparr>"
  let ?st1 = "st\<lparr>fo_keys := AList.update (newID 0) ?key (fo_keys st),
    fo_by_pubkey := (fo_by_pubkey st)(fk_pubkey (kr_key res) \<mapsto> ?key)\<rparr>"
  have c: "CreateFrostKey ?key st = (?st1, Inr ())"
    using fresh pk key by (simp add: CreateFrostKey_ok fresh_ids_def)
  have d: "distinct (map sh_id (kr_shares res))" "distinct (map sh_index (kr_shares res))"
    using fresh unfolding ids ix by (auto simp: fresh_ids_def distinct_map inj_on_def)
  have new: "fo_shares st (sh_id s) = None" if "s \<in> set (kr_shares res)" for s
  proof -
    have "sh_id s \<in> set (map (\<lambda>j. newID (Suc j)) [0..<n])" unfolding ids [symmetric] using that by simp
    then show ?thesis using fresh by (auto simp: fresh_ids_def)
  qed
  have none: "shares_of (newID 0) ?st1 = []" using fresh by (simp add: shares_of_def fresh_ids_def)
  let ?st2 = "foldl (\<lambda>st share. fst (CreateFrostShare share st)) ?st1 (kr_shares res)"
  have st2: "fo_keys ?st2 = fo_keys ?st1"
    "shares_of (newID 0) ?st2 = map (\<lambda>s. (sh_index s, s)) (kr_shares res)"
    using fresh_shares_stored [OF d, of "newID 0" ?st1] kid new none by (auto simp: list_all_iff)
  have "filter sh_is_local (kr_shares res) = kr_shares res" using kid by (auto simp: list_all_iff filter_id_conv)
  with st2 c show ?thesis
    by (intro exI [of _ ?st2])
       (simp add: store_generated_def ListLocalFrostShares_eq GetFrostKey_def update_conv' o_def)
qed

end
