(* ===== verification/SessionTable.thy ===== *)
theory SessionTable
  imports Prelude
begin

text \<open>
  The contract of an in-memory session table with expiry. The signer keeps three of them with
  the same shape: DKG sessions (\<open>UserDKG\<close>), cosigning sessions (\<open>UserSignerCoordinator\<close>) and
  the Path B migration sessions. Each provides removal of one session and a collector that
  removes every session whose deadline has passed; the component theories interpret this locale
  on their own operations.
\<close>

locale session_table =
  fixes table :: "'t \<Rightarrow> (string \<rightharpoonup> 'v)"
    and deadline :: "'v \<Rightarrow> time"
    and remove :: "string \<Rightarrow> 't \<Rightarrow> 't"
    and collect :: "time \<Rightarrow> 't \<Rightarrow> 't"
  assumes table_remove: "table (remove sid t) = (table t)(sid := None)"
    and table_collect: "table (collect now t) = sweep (\<lambda>v. now > deadline v) (table t)"
begin

lemma remove_gone: "table (remove sid t) sid = None"
  by (simp add: table_remove)

lemma remove_other: "sid' \<noteq> sid \<Longrightarrow> table (remove sid t) sid' = table t sid'"
  by (simp add: table_remove)

lemma collect_keeps_live:
  "table t sid = Some v \<Longrightarrow> now \<le> deadline v \<Longrightarrow> table (collect now t) sid = Some v"
  by (simp add: table_collect)

lemma collect_no_expired: "table (collect now t) sid = Some v \<Longrightarrow> now \<le> deadline v"
  by (simp add: table_collect)

lemma collect_from: "table (collect now t) sid = Some v \<Longrightarrow> table t sid = Some v"
  by (simp add: table_collect)

lemma collect_later:
  assumes "now \<le> now'"
  shows "table (collect now' (collect now t)) = table (collect now' t)"
proof
  fix sid
  show "table (collect now' (collect now t)) sid = table (collect now' t) sid"
    using assms by (cases "table t sid") (auto simp: table_collect sweep_def)
qed

lemma collect_remove:
  "table (collect now (remove sid t)) = table (remove sid (collect now t))"
  by (auto simp: table_collect table_remove sweep_def)

end

end
