(* ===== verification/UserDKG.thy ===== *)
theory UserDKG
  imports Sharing SessionTable ToyCurve
begin

text \<open>
  \<open>internal/frost/user_dkg.go\<close>: the signer's side of the two-party key generation with a user
  device. A session moves from awaiting round 2 to awaiting the confirmation and is then
  dropped; it also lapses after \<open>DKGSessionTTL\<close>.

  The clock, the random scalars and the random session id of a call are arguments. Requests are
  handled one at a time, each with the table before and after it.
\<close>

definition UserIndex :: int where "UserIndex = 1"
definition SignerIndex :: int where "SignerIndex = 2"

definition DKGSessionTTL :: time where "DKGSessionTTL = seconds 60"

datatype user_dkg_phase = AwaitingRound1 | AwaitingRound2 | AwaitingFinalize | PhaseComplete

datatype dkg_error =
    UserIDRequired | WrongCommitCount nat | DecodeUserCommit nat | SessionID
  | DKGSessionNotFound | DKGWrongPhase | DecodeShareHex | DecodeShareScalar | DKGVerificationFail
  | DecodeConfirmPubkey | DKGPubkeyMismatch | NilDeref

record ('s, 'g) dkg_state =
  dk_session_id :: string
  dk_user_id :: string
  dk_phase :: user_dkg_phase
  dk_signer_coeffs :: "'s list"
  dk_signer_commits :: "'g list"
  dk_user_commits :: "'g list"
  dk_signer_share :: "'s option"
  dk_share_for_user :: "'s option"
  dk_joint_pubkey :: "'g option"
  dk_created_at :: time
  dk_expires_at :: time

type_synonym ('s, 'g) dkg_table = "string \<rightharpoonup> ('s, 'g) dkg_state"

definition NewUserDKG :: "('s, 'g) dkg_table" where
  "NewUserDKG = Map.empty"

record round1_response =
  r1_session_id :: string
  r1_signer_commits :: "string list"

record finalize_request =
  fq_session_id :: string
  fq_confirm_pubkey :: string
  fq_user_verification_share :: string

record finalize_result =
  fr_session_id :: string
  fr_user_id :: string
  fr_joint_pubkey :: bytes
  fr_signer_share :: bytes
  fr_verification_share :: bytes
  fr_share_for_user :: bytes
  fr_user_verification_share :: string
  fr_threshold :: nat
  fr_total_shares :: nat

fun decode_commits :: "('s, 'g) suite \<Rightarrow> nat \<Rightarrow> string list \<Rightarrow> dkg_error + 'g list" where
  "decode_commits S i [] = Inr []"
| "decode_commits S i (h # hs) =
     (case dec_el_hex S h of
        None \<Rightarrow> Inl (DecodeUserCommit i)
      | Some el \<Rightarrow> rbind (decode_commits S (Suc i) hs) (\<lambda>els. Inr (el # els)))"

definition Round1 ::
    "('s::field, 'g::ab_group_add) suite \<Rightarrow> time \<Rightarrow> string option \<Rightarrow> 's \<Rightarrow> 's \<Rightarrow>
     string \<Rightarrow> string list \<Rightarrow> ('s, 'g) dkg_table \<Rightarrow>
     ('s, 'g) dkg_table \<times> (dkg_error + round1_response)" where
  "Round1 S now sid b0 b1 userID userCommitsHex d =
     (if userID = '''' then (d, Inl UserIDRequired)
      else if length userCommitsHex \<noteq> 2 then (d, Inl (WrongCommitCount (length userCommitsHex)))
      else case decode_commits S 0 userCommitsHex of
        Inl e \<Rightarrow> (d, Inl e)
      | Inr userCommits \<Rightarrow>
          (let B0 = smul S b0 (base_pt S); B1 = smul S b1 (base_pt S) in
           case sid of
             None \<Rightarrow> (d, Inl SessionID)
           | Some sessionID \<Rightarrow>
               (d(sessionID \<mapsto>
                   \<lparr>dk_session_id = sessionID, dk_user_id = userID, dk_phase = AwaitingRound2,
                    dk_signer_coeffs = [b0, b1], dk_signer_commits = [B0, B1],
                    dk_user_commits = userCommits, dk_signer_share = None,
                    dk_share_for_user = None, dk_joint_pubkey = None,
                    dk_created_at = now, dk_expires_at = now + DKGSessionTTL\<rparr>),
                Inr \<lparr>r1_session_id = sessionID, r1_signer_commits = [el_hex S B0, el_hex S B1]\<rparr>)))"

definition getSession ::
    "time \<Rightarrow> string \<Rightarrow> user_dkg_phase \<Rightarrow> ('s, 'g) dkg_table \<Rightarrow>
     ('s, 'g) dkg_table \<times> (dkg_error + ('s, 'g) dkg_state)" where
  "getSession now sessionID expectedPhase d =
     (case d sessionID of
        None \<Rightarrow> (d, Inl DKGSessionNotFound)
      | Some st \<Rightarrow>
          if now > dk_expires_at st then (d(sessionID := None), Inl DKGSessionNotFound)
          else if dk_phase st \<noteq> expectedPhase then (d, Inl DKGWrongPhase)
          else (d, Inr st))"

definition dropSession :: "string \<Rightarrow> ('s, 'g) dkg_table \<Rightarrow> ('s, 'g) dkg_table" where
  "dropSession sessionID d = d(sessionID := None)"

definition Round2 ::
    "('s::field, 'g::ab_group_add) suite \<Rightarrow> time \<Rightarrow> string \<Rightarrow> string \<Rightarrow> ('s, 'g) dkg_table \<Rightarrow>
     ('s, 'g) dkg_table \<times> (dkg_error + string)" where
  "Round2 S now sessionID userShareHex d =
     (case getSession now sessionID AwaitingRound2 d of
        (d, Inl e) \<Rightarrow> (d, Inl e)
      | (d, Inr st) \<Rightarrow>
          (case hex_decode userShareHex of
             None \<Rightarrow> (d, Inl DecodeShareHex)
           | Some rawShare \<Rightarrow>
               (case dec_sc S rawShare of
                  None \<Rightarrow> (d, Inl DecodeShareScalar)
                | Some userShare \<Rightarrow>
                    if \<not> verifyShareAgainstCommitment S userShare SignerIndex (dk_user_commits st)
                    then (dropSession (dk_session_id st) d, Inl DKGVerificationFail)
                    else
                      (let selfShare = evaluatePolynomial S (dk_signer_coeffs st) SignerIndex;
                           forUser = evaluatePolynomial S (dk_signer_coeffs st) UserIndex;
                           joint = dk_user_commits st ! 0 + dk_signer_commits st ! 0
                       in (d(sessionID \<mapsto> st\<lparr>dk_signer_share := Some (userShare + selfShare),
                              dk_share_for_user := Some forUser, dk_joint_pubkey := Some joint,
                              dk_phase := AwaitingFinalize\<rparr>),
                           Inr (hex_encode (enc_sc S forUser)))))))"

definition Finalize ::
    "('s::field, 'g::ab_group_add) suite \<Rightarrow> time \<Rightarrow> finalize_request \<Rightarrow> ('s, 'g) dkg_table \<Rightarrow>
     ('s, 'g) dkg_table \<times> (dkg_error + finalize_result)" where
  "Finalize S now req d =
     (case getSession now (fq_session_id req) AwaitingFinalize d of
        (d, Inl e) \<Rightarrow> (d, Inl e)
      | (d, Inr st) \<Rightarrow>
          (case dec_el_hex S (fq_confirm_pubkey req) of
             None \<Rightarrow> (d, Inl DecodeConfirmPubkey)
           | Some confirm \<Rightarrow>
               (case (dk_joint_pubkey st, dk_signer_share st, dk_share_for_user st) of
                  (Some joint, Some share, Some forUser) \<Rightarrow>
                    if confirm \<noteq> joint then (dropSession (dk_session_id st) d, Inl DKGPubkeyMismatch)
                    else (dropSession (dk_session_id st) d,
                          Inr \<lparr>fr_session_id = dk_session_id st, fr_user_id = dk_user_id st,
                               fr_joint_pubkey = enc_el S joint,
                               fr_signer_share = enc_sc S share,
                               fr_verification_share = enc_el S (smul S share (base_pt S)),
                               fr_share_for_user = enc_sc S forUser,
                               fr_user_verification_share = fq_user_verification_share req,
                               fr_threshold = 2, fr_total_shares = 2\<rparr>)
                | _ \<Rightarrow> (d, Inl NilDeref))))"

text \<open>The collector also returns how many sessions it dropped.\<close>

definition GC :: "time \<Rightarrow> ('s, 'g) dkg_table \<Rightarrow> ('s, 'g) dkg_table \<times> nat" where
  "GC now d = (let d' = sweep (\<lambda>st. now > dk_expires_at st) d in (d', card (dom d - dom d')))"

definition SessionCount :: "('s, 'g) dkg_table \<Rightarrow> nat" where
  "SessionCount d = card (dom d)"

interpretation dkg_tab: session_table "\<lambda>d. d" dk_expires_at dropSession "\<lambda>now d. fst (GC now d)"
  by unfold_locales (simp_all add: dropSession_def GC_def Let_def)

subsection \<open>Frame facts\<close>

lemma getSession_Inr:
  "getSession now sid ph d = (d', Inr st) \<longleftrightarrow>
     d' = d \<and> d sid = Some st \<and> now \<le> dk_expires_at st \<and> dk_phase st = ph"
  by (auto simp: getSession_def split: option.splits if_splits)

lemma getSession_table:
  "getSession now sid ph d = (d', r) \<Longrightarrow> d' = d \<or> d' = d(sid := None)"
  by (auto simp: getSession_def split: option.splits if_splits)

lemma decode_commits_length: "decode_commits S i hs = Inr els \<Longrightarrow> length els = length hs"
  by (induction hs arbitrary: i els) (auto split: option.splits)

lemma decode_commits_hex:
  "(\<And>P. P \<in> set Ps \<Longrightarrow> dec_el S (enc_el S P) = Some P) \<Longrightarrow>
     decode_commits S i (map (el_hex S) Ps) = Inr Ps"
  by (induction Ps arbitrary: i) (simp_all add: dec_el_hex_def el_hex_def)

subsection \<open>The session invariant\<close>

text \<open>
  A session's commitments match its coefficients, and once round 2 is over its share lies on the
  sum of the two committed polynomials and its joint key is the sum of the constant terms.
\<close>

definition state_wf :: "('s::field, 'g::ab_group_add) suite \<Rightarrow> ('s, 'g) dkg_state \<Rightarrow> bool" where
  "state_wf S st \<longleftrightarrow>
     length (dk_user_commits st) = 2 \<and> length (dk_signer_coeffs st) = 2 \<and>
     dk_signer_commits st = map (\<lambda>b. smul S b (base_pt S)) (dk_signer_coeffs st) \<and>
     (dk_phase st = AwaitingRound2 \<or>
      dk_phase st = AwaitingFinalize \<and>
      (\<exists>share forUser.
         dk_signer_share st = Some share \<and> dk_share_for_user st = Some forUser \<and>
         dk_joint_pubkey st = Some (dk_user_commits st ! 0 + dk_signer_commits st ! 0) \<and>
         smul S share (base_pt S) =
           computePublicShareContribution S SignerIndex (dk_user_commits st) +
           computePublicShareContribution S SignerIndex (dk_signer_commits st) \<and>
         forUser = evaluatePolynomial S (dk_signer_coeffs st) UserIndex))"

definition table_wf :: "('s::field, 'g::ab_group_add) suite \<Rightarrow> ('s, 'g) dkg_table \<Rightarrow> bool" where
  "table_wf S d \<longleftrightarrow> (\<forall>sid st. d sid = Some st \<longrightarrow> dk_session_id st = sid \<and> state_wf S st)"

lemma table_wf_empty: "table_wf S NewUserDKG"
  by (simp add: table_wf_def NewUserDKG_def)

lemma table_wf_delete: "table_wf S d \<Longrightarrow> table_wf S (d(sid := None))"
  by (simp add: table_wf_def)

lemma table_wf_upd: "table_wf S d \<Longrightarrow> dk_session_id st = sid \<Longrightarrow> state_wf S st \<Longrightarrow> table_wf S (d(sid \<mapsto> st))"
  by (simp add: table_wf_def)

lemma table_wf_GC: "table_wf S d \<Longrightarrow> table_wf S (fst (GC now d))"
  by (auto simp: table_wf_def GC_def Let_def)

lemma table_wfD:
  assumes "table_wf S d" "d sid = Some st" shows "dk_session_id st = sid" "state_wf S st"
  using assms by (simp_all add: table_wf_def)

lemma Round1_wf: "table_wf S d \<Longrightarrow> Round1 S now sid b0 b1 u hs d = (d', r) \<Longrightarrow> table_wf S d'"
  by (auto simp: Round1_def Let_def state_wf_def dest: decode_commits_length intro!: table_wf_upd
      split: if_splits sum.splits option.splits)

lemma state_wf_round2:
  assumes laws: "suite_laws S" and wf: "state_wf S st"
    and v: "verifyShareAgainstCommitment S us SignerIndex (dk_user_commits st)"
  shows "state_wf S (st\<lparr>dk_signer_share := Some (us + evaluatePolynomial S (dk_signer_coeffs st) SignerIndex),
           dk_share_for_user := Some (evaluatePolynomial S (dk_signer_coeffs st) UserIndex),
           dk_joint_pubkey := Some (dk_user_commits st ! 0 + dk_signer_commits st ! 0),
           dk_phase := AwaitingFinalize\<rparr>)"
proof -
  from v have "smul S us (base_pt S) = computePublicShareContribution S SignerIndex (dk_user_commits st)"
    by (simp add: verifyShareAgainstCommitment_def computePublicShareContribution_def)
  with wf computePublicShareContribution_eq [OF laws, of SignerIndex "dk_signer_coeffs st"]
  show ?thesis by (simp add: state_wf_def smul_simps(1) [OF laws])
qed

lemma Round2_wf:
  assumes "suite_laws S" "table_wf S d" "Round2 S now sid h d = (d', r)"
  shows "table_wf S d'"
proof (cases "getSession now sid AwaitingRound2 d")
  case (Pair d1 r1)
  with getSession_table have d1: "d1 = d \<or> d1 = d(sid := None)" by blast
  show ?thesis
  proof (cases r1)
    case (Inl e)
    with Pair assms d1 show ?thesis by (auto simp: Round2_def intro: table_wf_delete)
  next
    case (Inr st)
    with Pair getSession_Inr [of now sid AwaitingRound2 d d1 st] have st: "d1 = d" "d sid = Some st"
      by simp_all
    note wf = table_wfD [OF assms(2) st(2)]
    show ?thesis
      using assms Pair Inr st wf state_wf_round2 [OF assms(1) wf(2)]
      by (auto simp: Round2_def Let_def dropSession_def intro: table_wf_delete table_wf_upd
          split: option.splits if_splits)
  qed
qed

lemma Finalize_wf:
  assumes "table_wf S d" "Finalize S now req d = (d', r)"
  shows "table_wf S d'"
  using assms getSession_table [of now "fq_session_id req" AwaitingFinalize d]
  by (fastforce simp: Finalize_def dropSession_def intro: table_wf_delete
      split: prod.splits sum.splits option.splits if_splits)

text \<open>A finalize that returns material removes the session, so it cannot be replayed.\<close>

lemma Finalize_Inr:
  assumes "Finalize S now req d = (d', Inr res)"
  shows "\<exists>st joint share forUser.
    d (fq_session_id req) = Some st \<and> now \<le> dk_expires_at st \<and> dk_phase st = AwaitingFinalize \<and>
    dk_joint_pubkey st = Some joint \<and> dk_signer_share st = Some share \<and>
    dk_share_for_user st = Some forUser \<and> dec_el_hex S (fq_confirm_pubkey req) = Some joint \<and>
    d' = dropSession (dk_session_id st) d \<and>
    res = \<lparr>fr_session_id = dk_session_id st, fr_user_id = dk_user_id st,
            fr_joint_pubkey = enc_el S joint, fr_signer_share = enc_sc S share,
            fr_verification_share = enc_el S (smul S share (base_pt S)),
            fr_share_for_user = enc_sc S forUser,
            fr_user_verification_share = fq_user_verification_share req,
            fr_threshold = 2, fr_total_shares = 2\<rparr>"
proof (cases "getSession now (fq_session_id req) AwaitingFinalize d")
  case (Pair d1 r1)
  with assms obtain st where r1: "r1 = Inr st" by (cases r1) (simp_all add: Finalize_def)
  with Pair getSession_Inr [of now "fq_session_id req" AwaitingFinalize d d1 st]
  have "d1 = d" "d (fq_session_id req) = Some st" "now \<le> dk_expires_at st"
    "dk_phase st = AwaitingFinalize" by simp_all
  with assms Pair r1 show ?thesis
    by (auto simp: Finalize_def split: option.splits if_splits)
qed

subsection \<open>Runs of the table\<close>

text \<open>
  Any sequence of requests, clock readings and collections. The random values of a call are
  unconstrained, except that a new session id is not one in use.
\<close>

inductive dkg_step ::
    "('s::field, 'g::ab_group_add) suite \<Rightarrow> ('s, 'g) dkg_table \<Rightarrow> ('s, 'g) dkg_table \<Rightarrow> bool"
  for S where
  step_round1: "d sid = None \<Longrightarrow> Round1 S now (Some sid) b0 b1 u hs d = (d', r) \<Longrightarrow> dkg_step S d d'"
| step_round2: "Round2 S now sid h d = (d', r) \<Longrightarrow> dkg_step S d d'"
| step_finalize: "Finalize S now req d = (d', r) \<Longrightarrow> dkg_step S d d'"
| step_gc: "dkg_step S d (fst (GC now d))"

inductive dkg_reachable :: "('s::field, 'g::ab_group_add) suite \<Rightarrow> ('s, 'g) dkg_table \<Rightarrow> bool"
  for S where
  reach_start: "dkg_reachable S NewUserDKG"
| reach_step: "dkg_reachable S d \<Longrightarrow> dkg_step S d d' \<Longrightarrow> dkg_reachable S d'"

lemma dkg_step_wf: "suite_laws S \<Longrightarrow> dkg_step S d d' \<Longrightarrow> table_wf S d \<Longrightarrow> table_wf S d'"
  by (erule dkg_step.cases) (auto intro: Round1_wf Round2_wf Finalize_wf table_wf_GC)

lemma dkg_reachable_wf: "dkg_reachable S d \<Longrightarrow> suite_laws S \<Longrightarrow> table_wf S d"
  by (induction rule: dkg_reachable.induct) (auto intro: table_wf_empty dkg_step_wf)

subsection \<open>Properties\<close>

lemma two_of_two_lagrange:
  "LagrangeCoefficient 1 [1, 2] = (2 :: 's::field)" "LagrangeCoefficient 2 [1, 2] = (-1 :: 's)"
  by (simp_all add: LagrangeCoefficient_def id_scalar_def)

lemma honest_share:
  "suite_laws S \<Longrightarrow> evaluatePolynomial S [a, b] UserIndex = a + b"
  "suite_laws S \<Longrightarrow> evaluatePolynomial S [a, b] SignerIndex = a + 2 * b"
  by (simp_all add: evaluatePolynomial_poly byte_scalar_small UserIndex_def SignerIndex_def)

text \<open>A concrete table, for the witnesses.\<close>

definition toy_d1 :: "(gf7, gf7) dkg_table" where
  "toy_d1 = fst (Round1 toy 0 (Some ''s'') N2 N5 ''u'' (map (el_hex toy) [N1, N3]) NewUserDKG)"

definition toy_d2 :: "(gf7, gf7) dkg_table" where
  "toy_d2 = fst (Round2 toy 7 ''s'' (hex_encode (enc_sc toy N0)) toy_d1)"

lemma toy_reach: "dkg_reachable toy toy_d1" "dkg_reachable toy toy_d2"
proof -
  show "dkg_reachable toy toy_d1" unfolding toy_d1_def
    by (rule reach_step [OF reach_start], rule step_round1 [OF _ surjective_pairing]) (simp add: NewUserDKG_def)
  then show "dkg_reachable toy toy_d2" unfolding toy_d2_def
    by (rule reach_step [OF _ step_round2 [OF surjective_pairing]])
qed

lemma toy_finalizes:
  "\<not> isl (snd (Finalize toy 9 \<lparr>fq_session_id = ''s'', fq_confirm_pubkey = el_hex toy N3,
       fq_user_verification_share = ''''\<rparr> toy_d2))"
  by code_simp

text \<open>
  C1. An honest key generation completes: with any user polynomial \<open>a0 + a1 x\<close> and any signer
  polynomial \<open>b0 + b1 x\<close>, the three rounds within the session lifetime succeed, the stored
  joint key is \<open>(a0 + b0) G\<close>, the user's share and the signer's stored share interpolate at
  zero (with the coefficients signing uses) to \<open>a0 + b0\<close>, and the session is gone.
\<close>

theorem dkg_honest_run:
  fixes S :: "('s::field, 'g::ab_group_add) suite"
  assumes laws: "suite_laws S" and u: "u \<noteq> ''''"
    and nz: "a0 \<noteq> 0" "a1 \<noteq> 0" "a0 + b0 \<noteq> 0"
    and t: "t2 \<le> t1 + DKGSessionTTL" "t3 \<le> t1 + DKGSessionTTL"
  shows "\<exists>d1 r1 d2 h d3 res us ss.
    Round1 S t1 (Some sid) b0 b1 u (map (\<lambda>a. el_hex S (smul S a (base_pt S))) [a0, a1]) d = (d1, Inr r1) \<and>
    Round2 S t2 sid (hex_encode (enc_sc S (evaluatePolynomial S [a0, a1] SignerIndex))) d1 = (d2, Inr h) \<and>
    Finalize S t3 \<lparr>fq_session_id = sid, fq_confirm_pubkey = el_hex S (smul S (a0 + b0) (base_pt S)),
        fq_user_verification_share = v\<rparr> d2 = (d3, Inr res) \<and>
    d3 = d(sid := None) \<and> fr_joint_pubkey res = enc_el S (smul S (a0 + b0) (base_pt S)) \<and>
    h = hex_encode (enc_sc S us) \<and> dec_sc S (fr_signer_share res) = Some ss \<and>
    LagrangeCoefficient 1 [1, 2] * (evaluatePolynomial S [a0, a1] UserIndex + us) +
      LagrangeCoefficient 2 [1, 2] * ss = a0 + b0"
proof -
  let ?G = "base_pt S"
  have pts: "smul S a0 ?G \<noteq> 0" "smul S a1 ?G \<noteq> 0" "smul S (a0 + b0) ?G \<noteq> 0"
    using nz by (simp_all add: smul_eq_0 [OF laws] suite_base [OF laws])
  have dec: "dec_el_hex S (el_hex S P) = Some P" if "P \<noteq> 0" for P
    using enc_el_facts(3) [OF laws that] by (simp add: dec_el_hex_def el_hex_def)
  have ver: "verifyShareAgainstCommitment S (a0 + 2 * a1) SignerIndex [smul S a0 ?G, smul S a1 ?G]"
    using verifyShare_iff [OF laws, of _ SignerIndex "[a0, a1]"] by (simp add: honest_share(2) [OF laws])
  have joint: "smul S a0 ?G + smul S b0 ?G = smul S (a0 + b0) ?G" by (simp add: smul_simps [OF laws])
  have interp: "2 * (a0 + a1 + (b0 + b1)) - (a0 + 2 * a1 + (b0 + 2 * b1)) = a0 + b0"
    by (simp add: algebra_simps)
  have ttl: "\<not> t1 + DKGSessionTTL < t2" "\<not> t1 + DKGSessionTTL < t3" using t by simp_all
  show ?thesis
    using u ttl interp
    by (simp add: Round1_def Round2_def Finalize_def getSession_def dropSession_def Let_def dec pts
        honest_share [OF laws] ver joint enc_sc_facts(2) [OF laws] two_of_two_lagrange)
       (rule exI [of _ "b0 + b1"], simp add: algebra_simps)
qed

theorem dkg_honest_run_witness:
  "\<exists>d1 r1 d2 h d3 res us ss.
    Round1 toy 0 (Some ''s'') N2 N5 ''u'' (map (\<lambda>a. el_hex toy (smul toy a (base_pt toy))) [N1, N3]) NewUserDKG = (d1, Inr r1) \<and>
    Round2 toy 7 ''s'' (hex_encode (enc_sc toy (evaluatePolynomial toy [N1, N3] SignerIndex))) d1 = (d2, Inr h) \<and>
    Finalize toy 9 \<lparr>fq_session_id = ''s'', fq_confirm_pubkey = el_hex toy (smul toy (N1 + N2) (base_pt toy)),
        fq_user_verification_share = ''''\<rparr> d2 = (d3, Inr res) \<and>
    d3 = NewUserDKG(''s'' := None) \<and> fr_joint_pubkey res = enc_el toy (smul toy (N1 + N2) (base_pt toy)) \<and>
    h = hex_encode (enc_sc toy us) \<and> dec_sc toy (fr_signer_share res) = Some ss \<and>
    LagrangeCoefficient 1 [1, 2] * (evaluatePolynomial toy [N1, N3] UserIndex + us) +
      LagrangeCoefficient 2 [1, 2] * ss = N1 + N2"
  by (rule dkg_honest_run [OF toy_laws])
     (simp_all add: gf7_defs of_n_def DKGSessionTTL_def)

text \<open>
  C2. Whatever requests the signer has handled, from honest users or not, key material that
  Finalize returns is consistent: the stored joint key is the sum of the two committed constant
  terms, the stored signer share is the point \<open>SignerIndex\<close> of the sum of the two committed
  polynomials, its verification share is that public point, the session is gone, and both a
  second Finalize and a second Round2 of the session fail.
\<close>

theorem dkg_finalize_sound:
  fixes S :: "('s::field, 'g::ab_group_add) suite"
  assumes laws: "suite_laws S" and reach: "dkg_reachable S d"
    and fin: "Finalize S now req d = (d', Inr res)"
  shows "\<exists>st share. d (fq_session_id req) = Some st \<and>
    fr_joint_pubkey res = enc_el S (dk_user_commits st ! 0 + dk_signer_commits st ! 0) \<and>
    dec_el_hex S (fq_confirm_pubkey req) = Some (dk_user_commits st ! 0 + dk_signer_commits st ! 0) \<and>
    dec_sc S (fr_signer_share res) = Some share \<and>
    smul S share (base_pt S) = computePublicShareContribution S SignerIndex (dk_user_commits st)
      + computePublicShareContribution S SignerIndex (dk_signer_commits st) \<and>
    fr_verification_share res = enc_el S (smul S share (base_pt S)) \<and>
    d' = d(fq_session_id req := None) \<and>
    Finalize S now' (req\<lparr>fq_confirm_pubkey := h\<rparr>) d' = (d', Inl DKGSessionNotFound) \<and>
    Round2 S now' (fq_session_id req) h d' = (d', Inl DKGSessionNotFound)"
proof -
  obtain st joint share forUser where st: "d (fq_session_id req) = Some st"
    "dk_phase st = AwaitingFinalize" "dk_joint_pubkey st = Some joint" "dk_signer_share st = Some share"
    "dec_el_hex S (fq_confirm_pubkey req) = Some joint" "d' = dropSession (dk_session_id st) d"
    "fr_joint_pubkey res = enc_el S joint" "fr_signer_share res = enc_sc S share"
    "fr_verification_share res = enc_el S (smul S share (base_pt S))"
    using Finalize_Inr [OF fin] by auto
  note wf = table_wfD [OF dkg_reachable_wf [OF reach laws] st(1)]
  have d': "d' = d(fq_session_id req := None)" using st(6) wf(1) by (simp add: dropSession_def)
  have "joint = dk_user_commits st ! 0 + dk_signer_commits st ! 0 \<and>
    smul S share (base_pt S) = computePublicShareContribution S SignerIndex (dk_user_commits st)
      + computePublicShareContribution S SignerIndex (dk_signer_commits st)"
    using wf(2) st(2-4) by (auto simp: state_wf_def)
  moreover have "Finalize S now' (req\<lparr>fq_confirm_pubkey := h\<rparr>) d' = (d', Inl DKGSessionNotFound)"
    "Round2 S now' (fq_session_id req) h d' = (d', Inl DKGSessionNotFound)"
    by (simp_all add: d' Finalize_def Round2_def getSession_def)
  ultimately show ?thesis
    using st(1,5,7-9) d' enc_sc_facts(2) [OF laws, of share] by (intro exI [of _ st] exI [of _ share]) auto
qed

theorem dkg_finalize_sound_witness:
  "\<exists>d' res st share. Finalize toy 9 \<lparr>fq_session_id = ''s'', fq_confirm_pubkey = el_hex toy N3,
       fq_user_verification_share = ''''\<rparr> toy_d2 = (d', Inr res) \<and> toy_d2 ''s'' = Some st \<and>
     dec_sc toy (fr_signer_share res) = Some share \<and>
     smul toy share (base_pt toy) = computePublicShareContribution toy SignerIndex (dk_user_commits st)
      + computePublicShareContribution toy SignerIndex (dk_signer_commits st)"
proof -
  let ?req = "\<lparr>fq_session_id = ''s'', fq_confirm_pubkey = el_hex toy N3, fq_user_verification_share = ''''\<rparr>"
  obtain d' res where "Finalize toy 9 ?req toy_d2 = (d', Inr res)"
    using toy_finalizes by (cases "Finalize toy 9 ?req toy_d2"; cases "snd (Finalize toy 9 ?req toy_d2)") auto
  with dkg_finalize_sound [OF toy_laws toy_reach(2) this, of 0 "''''"] show ?thesis by auto
qed

text \<open>
  A user whose share does not lie on the committed polynomial is caught in round 2: the call
  fails, the session is removed, and nothing of the signer's polynomial is sent.
\<close>

theorem dkg_bad_share_rejected:
  fixes S :: "('s::field, 'g::ab_group_add) suite"
  assumes laws: "suite_laws S" and reach: "dkg_reachable S d"
    and st: "d sid = Some st" "dk_phase st = AwaitingRound2" "now \<le> dk_expires_at st"
    and commits: "dk_user_commits st = map (\<lambda>a. smul S a (base_pt S)) cs"
    and bad: "share \<noteq> evaluatePolynomial S cs SignerIndex"
  shows "Round2 S now sid (hex_encode (enc_sc S share)) d = (d(sid := None), Inl DKGVerificationFail)"
proof -
  have "dk_session_id st = sid" by (rule table_wfD(1) [OF dkg_reachable_wf [OF reach laws] st(1)])
  moreover have "\<not> verifyShareAgainstCommitment S share SignerIndex (dk_user_commits st)"
    using bad by (simp add: commits verifyShare_iff [OF laws])
  ultimately show ?thesis
    using st by (simp add: Round2_def getSession_def dropSession_def enc_sc_facts(2) [OF laws])
qed

theorem dkg_bad_share_rejected_witness:
  "Round2 toy 7 ''s'' (hex_encode (enc_sc toy N4)) toy_d1 = (toy_d1(''s'' := None), Inl DKGVerificationFail)"
proof -
  have "toy_d1 ''s'' \<noteq> None" "dk_phase (the (toy_d1 ''s'')) = AwaitingRound2"
    "7 \<le> dk_expires_at (the (toy_d1 ''s''))"
    "dk_user_commits (the (toy_d1 ''s'')) = map (\<lambda>a. smul toy a (base_pt toy)) [N1, N3]"
    "N4 \<noteq> evaluatePolynomial toy [N1, N3] SignerIndex" by code_simp+
  then show ?thesis
    using dkg_bad_share_rejected [OF toy_laws toy_reach(1), of "''s''" "the (toy_d1 ''s'')" 7 "[N1, N3]" N4] by auto
qed

end
