(* ===== verification/UserSigner.thy ===== *)
theory UserSigner
  imports Bip340 UserDKG
begin

text \<open>
  \<open>internal/frost/user_signer.go\<close>: the signer's side of one cosigned signature. A session
  holds the signer's nonce pair between \<open>BeginCosign\<close> and \<open>CompleteCosign\<close>.

  \<open>CompleteCosign\<close> looks the session up under the lock, releases the lock, computes, and
  removes the session when it returns (a deferred call). The model keeps the two halves apart,
  \<open>lookupSession\<close> and \<open>completeWith\<close>, so that interleaved calls can be stated.
\<close>

definition UserCosignTTL :: time where "UserCosignTTL = seconds 60"

datatype bad_input =
    EventHashLength nat | EmptyShare | DecodeJointPubkey | DecodeSignerVerification
  | DecodeUserVerification | DecodeSignerShare | DecodeUserHiding | DecodeUserBinding
  | DecodeUserPartialHex | DecodeUserPartialScalar

datatype partial_error = NoCommitment "16 word" | NilRho | PartialMismatch

datatype cosign_error =
    CosignBadInput bad_input | CosignSessionID | CosignSessionNotFound
  | PrepareErr frost_error | UserPartialErr partial_error | AggregateErr frost_error
  | CosignBadSignature frost_error

record cosign_setup =
  cs_key_id :: string
  cs_joint_pubkey_hex :: string
  cs_signer_share :: bytes
  cs_signer_verification :: bytes
  cs_user_verification_hex :: string
  cs_event_hash :: bytes

record begin_result =
  br_session_id :: string
  br_hiding_hex :: string
  br_binding_hex :: string

record ('s, 'g) cosign_session =
  co_id :: string
  co_key_id :: string
  co_event_hash :: bytes
  co_d :: 's
  co_e :: 's
  co_d_commit :: 'g
  co_e_commit :: 'g
  co_signer_share :: 's
  co_joint_pubkey :: 'g
  co_user_verify :: 'g
  co_signer_verify :: 'g
  co_created_at :: time
  co_expires_at :: time

type_synonym ('s, 'g) cosign_table = "string \<rightharpoonup> ('s, 'g) cosign_session"

definition NewUserSignerCoordinator :: "('s, 'g) cosign_table" where
  "NewUserSignerCoordinator = Map.empty"

definition BeginCosign ::
    "('s::field, 'g::ab_group_add) suite \<Rightarrow> time \<Rightarrow> string option \<Rightarrow> 's \<Rightarrow> 's \<Rightarrow> cosign_setup \<Rightarrow>
     ('s, 'g) cosign_table \<Rightarrow> ('s, 'g) cosign_table \<times> (cosign_error + begin_result)" where
  "BeginCosign S now sid d e setup t =
     (if length (cs_event_hash setup) \<noteq> 32
      then (t, Inl (CosignBadInput (EventHashLength (length (cs_event_hash setup)))))
      else if length (cs_signer_share setup) = 0 then (t, Inl (CosignBadInput EmptyShare))
      else case dec_el_hex S (cs_joint_pubkey_hex setup) of
        None \<Rightarrow> (t, Inl (CosignBadInput DecodeJointPubkey))
      | Some jointPubkey \<Rightarrow>
      (case dec_el S (cs_signer_verification setup) of
        None \<Rightarrow> (t, Inl (CosignBadInput DecodeSignerVerification))
      | Some signerVerification \<Rightarrow>
      (case dec_el_hex S (cs_user_verification_hex setup) of
        None \<Rightarrow> (t, Inl (CosignBadInput DecodeUserVerification))
      | Some userVerification \<Rightarrow>
      (case dec_sc S (cs_signer_share setup) of
        None \<Rightarrow> (t, Inl (CosignBadInput DecodeSignerShare))
      | Some signerSecret \<Rightarrow>
      (let dCommit = smul S d (base_pt S); eCommit = smul S e (base_pt S) in
       case sid of
         None \<Rightarrow> (t, Inl CosignSessionID)
       | Some sessionID \<Rightarrow>
           (t(sessionID \<mapsto>
              \<lparr>co_id = sessionID, co_key_id = cs_key_id setup, co_event_hash = cs_event_hash setup,
               co_d = d, co_e = e, co_d_commit = dCommit, co_e_commit = eCommit,
               co_signer_share = signerSecret, co_joint_pubkey = jointPubkey,
               co_user_verify = userVerification, co_signer_verify = signerVerification,
               co_created_at = now, co_expires_at = now + UserCosignTTL\<rparr>),
            Inr \<lparr>br_session_id = sessionID, br_hiding_hex = HelperEncodeCompressed S dCommit,
                 br_binding_hex = HelperEncodeCompressed S eCommit\<rparr>))))))"

record complete_input =
  ci_session_id :: string
  ci_hiding_hex :: string
  ci_binding_hex :: string
  ci_partial_hex :: string

fun find_commitment :: "16 word \<Rightarrow> 'g commitment_pair list \<Rightarrow> 'g commitment_pair option" where
  "find_commitment i [] = None"
| "find_commitment i (c # cs) = (if participant_id c = i then Some c else find_commitment i cs)"

definition verifyPartialSignature ::
    "('s::field, 'g::ab_group_add) suite \<Rightarrow> 's \<Rightarrow> 16 word \<Rightarrow> 'g commitment_pair list \<Rightarrow>
     ('s, 'g) signable \<Rightarrow> 's \<Rightarrow> 'g \<Rightarrow> partial_error + unit" where
  "verifyPartialSignature S z participantID commitments sg participantLambda verificationShare =
     (let lhs = smul S z (base_pt S) in
      case find_commitment participantID commitments of
        None \<Rightarrow> Inl (NoCommitment participantID)
      | Some c \<Rightarrow>
          (case sg_factors sg participantID of
             None \<Rightarrow> Inl NilRho
           | Some rho \<Rightarrow>
               (let nonceContribPt = hiding c + smul S rho (binding c);
                    nonceContribPt = (if \<not> sg_R_even sg then - nonceContribPt else nonceContribPt);
                    scalar = participantLambda * sg_challenge sg;
                    verifyContribPt = smul S scalar verificationShare;
                    verifyContribPt = (if \<not> sg_pubkey_even sg then - verifyContribPt else verifyContribPt);
                    rhs = nonceContribPt + verifyContribPt
                in if lhs \<noteq> rhs then Inl PartialMismatch else Inr ())))"

definition dropCosign :: "string \<Rightarrow> ('s, 'g) cosign_table \<Rightarrow> ('s, 'g) cosign_table" where
  "dropCosign sessionID t = t(sessionID := None)"

definition lookupSession ::
    "time \<Rightarrow> string \<Rightarrow> ('s, 'g) cosign_table \<Rightarrow>
     ('s, 'g) cosign_table \<times> (cosign_error + ('s, 'g) cosign_session)" where
  "lookupSession now sid t =
     (case t sid of
        None \<Rightarrow> (t, Inl CosignSessionNotFound)
      | Some session \<Rightarrow>
          if now > co_expires_at session then (t(sid := None), Inl CosignSessionNotFound)
          else (t, Inr session))"

abbreviation user_id :: "16 word" where "user_id \<equiv> of_int UserIndex"
abbreviation signer_id :: "16 word" where "signer_id \<equiv> of_int SignerIndex"

definition cosign_commitments ::
    "('s, 'g) cosign_session \<Rightarrow> 'g \<Rightarrow> 'g \<Rightarrow> 'g commitment_pair list" where
  "cosign_commitments session userHiding userBinding =
     [\<lparr>participant_id = user_id, hiding = userHiding, binding = userBinding\<rparr>,
      \<lparr>participant_id = signer_id, hiding = co_d_commit session, binding = co_e_commit session\<rparr>]"

definition cosign_signing_session ::
    "('s, 'g) cosign_session \<Rightarrow> 'g commitment_pair list \<Rightarrow> ('s, 'g) signing_session" where
  "cosign_signing_session session commitments =
     \<lparr>ss_participant = signer_id, ss_all_ids = [user_id, signer_id],
      ss_commitments = commitments, ss_joint_pubkey = co_joint_pubkey session,
      ss_message = co_event_hash session, ss_nonce_hiding = co_d session,
      ss_nonce_binding = co_e session, ss_share = co_signer_share session\<rparr>"

definition completeWith ::
    "('s::field, 'g::ab_group_add) suite \<Rightarrow> complete_input \<Rightarrow> ('s, 'g) cosign_session \<Rightarrow>
     cosign_error + bytes" where
  "completeWith S inp session =
     (case dec_el_hex S (ci_hiding_hex inp) of
        None \<Rightarrow> Inl (CosignBadInput DecodeUserHiding)
      | Some userHiding \<Rightarrow>
     (case dec_el_hex S (ci_binding_hex inp) of
        None \<Rightarrow> Inl (CosignBadInput DecodeUserBinding)
      | Some userBinding \<Rightarrow>
     (let commitments = cosign_commitments session userHiding userBinding;
          allIDs = [user_id, signer_id];
          sess = cosign_signing_session session commitments in
      case PrepareSignable S sess of
        Inl e \<Rightarrow> Inl (PrepareErr e)
      | Inr sg \<Rightarrow>
     (case hex_decode (ci_partial_hex inp) of
        None \<Rightarrow> Inl (CosignBadInput DecodeUserPartialHex)
      | Some userZBytes \<Rightarrow>
     (case dec_sc S userZBytes of
        None \<Rightarrow> Inl (CosignBadInput DecodeUserPartialScalar)
      | Some userZ \<Rightarrow>
     (case verifyPartialSignature S userZ user_id commitments sg
             (LagrangeCoefficient user_id allIDs) (co_user_verify session) of
        Inl e \<Rightarrow> Inl (UserPartialErr e)
      | Inr _ \<Rightarrow>
     (case Sign sess sg of
        Inl e \<Rightarrow> Inl (AggregateErr e)
      | Inr signerZ \<Rightarrow>
     (case AggregateFullSignature S sg [userZ, signerZ] of
        Inl e \<Rightarrow> Inl (AggregateErr e)
      | Inr sigBytes \<Rightarrow>
     (case VerifyBIP340 S sigBytes (co_event_hash session) (co_joint_pubkey session) of
        Inl e \<Rightarrow> Inl (CosignBadSignature e)
      | Inr _ \<Rightarrow> Inr sigBytes)))))))))"

definition CompleteCosign ::
    "('s::field, 'g::ab_group_add) suite \<Rightarrow> time \<Rightarrow> complete_input \<Rightarrow> ('s, 'g) cosign_table \<Rightarrow>
     ('s, 'g) cosign_table \<times> (cosign_error + bytes)" where
  "CompleteCosign S now inp t =
     (case lookupSession now (ci_session_id inp) t of
        (t, Inl e) \<Rightarrow> (t, Inl e)
      | (t, Inr session) \<Rightarrow> (dropCosign (ci_session_id inp) t, completeWith S inp session))"

definition CosignGC :: "time \<Rightarrow> ('s, 'g) cosign_table \<Rightarrow> ('s, 'g) cosign_table \<times> nat" where
  "CosignGC now t = (let t' = sweep (\<lambda>s. now > co_expires_at s) t in (t', card (dom t - dom t')))"

definition CosignSessionCount :: "('s, 'g) cosign_table \<Rightarrow> nat" where
  "CosignSessionCount t = card (dom t)"

interpretation cosign_tab: session_table "\<lambda>t. t" co_expires_at dropCosign "\<lambda>now t. fst (CosignGC now t)"
  by unfold_locales (simp_all add: dropCosign_def CosignGC_def Let_def)

subsection \<open>Sessions\<close>

lemma lookupSession_Inr:
  "lookupSession now sid t = (t', Inr s) \<longleftrightarrow> t' = t \<and> t sid = Some s \<and> now \<le> co_expires_at s"
  by (auto simp: lookupSession_def split: option.splits if_splits)

lemma CompleteCosign_Inr:
  "CompleteCosign S now inp t = (t', Inr sig) \<longleftrightarrow>
     (\<exists>s. t (ci_session_id inp) = Some s \<and> now \<le> co_expires_at s \<and>
          t' = dropCosign (ci_session_id inp) t \<and> completeWith S inp s = Inr sig)"
  by (auto simp: CompleteCosign_def lookupSession_def split: option.splits if_splits)

lemma CompleteCosign_table:
  "fst (CompleteCosign S now inp t) = t(ci_session_id inp := None)"
  by (auto simp: CompleteCosign_def lookupSession_def dropCosign_def fun_eq_iff split: option.splits)

text \<open>The nonce commitments of a session are those of its nonces.\<close>

definition cosign_wf :: "('s::field, 'g::ab_group_add) suite \<Rightarrow> ('s, 'g) cosign_session \<Rightarrow> bool" where
  "cosign_wf S s \<longleftrightarrow> length (co_event_hash s) = 32 \<and>
     co_d_commit s = smul S (co_d s) (base_pt S) \<and> co_e_commit s = smul S (co_e s) (base_pt S)"

definition cosign_table_wf :: "('s::field, 'g::ab_group_add) suite \<Rightarrow> ('s, 'g) cosign_table \<Rightarrow> bool" where
  "cosign_table_wf S t \<longleftrightarrow> (\<forall>sid s. t sid = Some s \<longrightarrow> co_id s = sid \<and> cosign_wf S s)"

lemma cosign_table_wf_empty: "cosign_table_wf S NewUserSignerCoordinator"
  by (simp add: cosign_table_wf_def NewUserSignerCoordinator_def)

lemma BeginCosign_wf:
  "cosign_table_wf S t \<Longrightarrow> BeginCosign S now sid d e setup t = (t', r) \<Longrightarrow> cosign_table_wf S t'"
  by (auto simp: cosign_table_wf_def cosign_wf_def BeginCosign_def Let_def
      split: if_splits option.splits)

lemma CompleteCosign_wf:
  "cosign_table_wf S t \<Longrightarrow> CompleteCosign S now inp t = (t', r) \<Longrightarrow> cosign_table_wf S t'"
  using CompleteCosign_table [of S now inp t] by (auto simp: cosign_table_wf_def split: if_splits)

lemma CosignGC_wf: "cosign_table_wf S t \<Longrightarrow> cosign_table_wf S (fst (CosignGC now t))"
  by (auto simp: cosign_table_wf_def CosignGC_def Let_def)

subsection \<open>What an honest user's completion computes\<close>

lemma PrepareSignable_session:
  assumes laws: "suite_laws S" and wf: "cosign_wf S s" and P: "co_joint_pubkey s \<noteq> 0"
    and bf: "ComputeBindingFactors S (co_joint_pubkey s) (co_event_hash s) (cosign_commitments s UD UE) = Inr bf"
    and N: "nonce_point S bf (cosign_commitments s UD UE) \<noteq> 0"
  shows "\<exists>sg. PrepareSignable S (cosign_signing_session s (cosign_commitments s UD UE)) = Inr sg \<and>
    sg_factors sg = bf \<and> sg_R sg = lift_even S (nonce_point S bf (cosign_commitments s UD UE)) \<and>
    sg_R_even sg = (hd (enc_el S (nonce_point S bf (cosign_commitments s UD UE))) = even_prefix) \<and>
    sg_pubkey_even sg = (hd (enc_el S (co_joint_pubkey s)) = even_prefix) \<and>
    sg_lambda sg = -1 \<and>
    scalar_of_digest S (challenge_hash S (tl (enc_el S (sg_R sg)) @
      tl (enc_el S (co_joint_pubkey s)) @ co_event_hash s)) = Some (sg_challenge sg)"
proof -
  have "ids_ascending (cosign_commitments s UD UE)"
    by (simp add: cosign_commitments_def UserIndex_def SignerIndex_def word_le_nat_alt)
  then show ?thesis
    using PrepareSignable_ok [OF laws, of "cosign_signing_session s (cosign_commitments s UD UE)" bf]
      wf P bf N
    by (simp add: cosign_signing_session_def cosign_wf_def UserIndex_def SignerIndex_def
        two_of_two_lagrange)
qed

text \<open>
  The user's half for a share \<open>us\<close> and nonces \<open>(du, eu)\<close>: the commitments, and the partial
  signature over the same signable.
\<close>

definition honest_user_input ::
    "('s::field, 'g::ab_group_add) suite \<Rightarrow> string \<Rightarrow> 's \<Rightarrow> 's \<Rightarrow> 's \<Rightarrow> ('s, 'g) signable \<Rightarrow> complete_input" where
  "honest_user_input S sid us du eu sg =
     \<lparr>ci_session_id = sid, ci_hiding_hex = el_hex S (smul S du (base_pt S)),
      ci_binding_hex = el_hex S (smul S eu (base_pt S)),
      ci_partial_hex = hex_encode (enc_sc S (ComputePartialSignature du eu (the (sg_factors sg user_id))
        (sg_R_even sg) us (sg_pubkey_even sg) (LagrangeCoefficient user_id [user_id, signer_id])
        (sg_challenge sg)))\<rparr>"

lemma verifyPartial_honest:
  assumes laws: "suite_laws S" and rho: "sg_factors sg i = Some rho"
    and c: "find_commitment i cs = Some \<lparr>participant_id = j, hiding = smul S d (base_pt S),
              binding = smul S e (base_pt S)\<rparr>"
  shows "verifyPartialSignature S (ComputePartialSignature d e rho (sg_R_even sg) s (sg_pubkey_even sg) l
      (sg_challenge sg)) i cs sg l (smul S s (base_pt S)) = Inr ()"
  using rho c
  by (cases "sg_R_even sg"; cases "sg_pubkey_even sg")
     (simp_all add: verifyPartialSignature_def ComputePartialSignature_eq smul_simps [OF laws] algebra_simps)

lemma completeWith_honest:
  fixes S :: "('s::field, 'g::ab_group_add) suite"
  assumes laws: "suite_laws S" and wf: "cosign_wf S s" and P: "co_joint_pubkey s \<noteq> 0"
    and nz: "du \<noteq> 0" "eu \<noteq> 0" and uv: "co_user_verify s = smul S us (base_pt S)"
    and cs: "cs = cosign_commitments s (smul S du (base_pt S)) (smul S eu (base_pt S))"
    and bf: "ComputeBindingFactors S (co_joint_pubkey s) (co_event_hash s) cs = Inr bf"
    and N: "nonce_point S bf cs \<noteq> 0"
    and sg: "PrepareSignable S (cosign_signing_session s cs) = Inr sg"
  shows "\<exists>sig. completeWith S (honest_user_input S sid us du eu sg) s =
    (if smul S (sg_challenge sg) (smul S (2 * us - co_signer_share s) (base_pt S)) =
        smul S (sg_challenge sg) (co_joint_pubkey s)
     then Inr sig else Inl (CosignBadSignature VerificationFailed)) \<and>
    (smul S (sg_challenge sg) (smul S (2 * us - co_signer_share s) (base_pt S)) =
       smul S (sg_challenge sg) (co_joint_pubkey s) \<longrightarrow>
     VerifyBIP340 S sig (co_event_hash s) (co_joint_pubkey s) = Inr ())"
proof -
  let ?G = "base_pt S" and ?P = "co_joint_pubkey s" and ?m = "co_event_hash s"
  let ?N = "nonce_point S bf cs"
  have m: "length ?m = 32" using wf by (simp add: cosign_wf_def)
  have pts: "smul S du ?G \<noteq> 0" "smul S eu ?G \<noteq> 0"
    using nz by (simp_all add: smul_eq_0 [OF laws] suite_base [OF laws])
  have dec: "dec_el_hex S (el_hex S Q) = Some Q" if "Q \<noteq> 0" for Q
    using enc_el_facts(3) [OF laws that] by (simp add: dec_el_hex_def el_hex_def)
  from PrepareSignable_session [OF laws wf P bf [unfolded cs] N [unfolded cs]] sg
  have sgf: "sg_factors sg = bf" "sg_R sg = lift_even S ?N"
    "sg_R_even sg = (hd (enc_el S ?N) = even_prefix)" "sg_pubkey_even sg = (hd (enc_el S ?P) = even_prefix)"
    "sg_lambda sg = -1"
    and ch: "scalar_of_digest S (challenge_hash S (tl (enc_el S (sg_R sg)) @ tl (enc_el S ?P) @ ?m))
      = Some (sg_challenge sg)" by (auto simp: cs)
  have "dom bf = participant_id ` set cs" by (rule ComputeBindingFactors_dom [OF laws bf])
  then have "user_id \<in> dom bf" "signer_id \<in> dom bf" by (simp_all add: cs cosign_commitments_def)
  then obtain rho1 rho2 where rho: "bf user_id = Some rho1" "bf signer_id = Some rho2" by blast
  let ?uz = "ComputePartialSignature du eu rho1 (sg_R_even sg) us (sg_pubkey_even sg)
    (LagrangeCoefficient user_id [user_id, signer_id]) (sg_challenge sg)"
  let ?sz = "ComputePartialSignature (co_d s) (co_e s) rho2 (sg_R_even sg) (co_signer_share s)
    (sg_pubkey_even sg) (sg_lambda sg) (sg_challenge sg)"
  let ?sig = "tl (enc_el S (sg_R sg)) @ enc_sc S (sum_list [?uz, ?sz])"
  have ver: "verifyPartialSignature S ?uz user_id cs sg (LagrangeCoefficient user_id [user_id, signer_id])
      (co_user_verify s) = Inr ()"
    unfolding uv
    by (rule verifyPartial_honest [OF laws]) (simp_all add: sgf(1) rho(1) cs cosign_commitments_def)
  have sign: "Sign (cosign_signing_session s cs) sg = Inr ?sz"
    by (simp add: Sign_def cosign_signing_session_def sgf(1) rho(2))
  have agg: "AggregateFullSignature S sg [?uz, ?sz] = Inr ?sig"
    by (rule AggregateFullSignature_eq [OF laws]) (simp only: sgf(2) even_encoding_lift [OF laws N])
  have l1: "LagrangeCoefficient user_id [user_id, signer_id] = (2 :: 's)"
    by (simp add: UserIndex_def SignerIndex_def two_of_two_lagrange)
  have np: "?N = smul S (du + rho1 * eu + (co_d s + rho2 * co_e s)) ?G"
    using wf rho by (simp add: nonce_point_def cs cosign_commitments_def cosign_wf_def smul_simps [OF laws] algebra_simps)
  have eqn: "smul S (sum_list [?uz, ?sz]) ?G = sg_R sg + smul S (sg_challenge sg) (lift_even S ?P) \<longleftrightarrow>
      smul S (sg_challenge sg) (smul S (2 * us - co_signer_share s) ?G) = smul S (sg_challenge sg) ?P"
  proof -
    let ?k = "du + rho1 * eu + (co_d s + rho2 * co_e s)" and ?x = "2 * us - co_signer_share s"
    have sum: "sum_list [?uz, ?sz] = (if sg_R_even sg then ?k else - ?k)
        + sg_challenge sg * (if sg_pubkey_even sg then ?x else - ?x)"
      unfolding ComputePartialSignature_eq l1 sgf(5)
      by (cases "sg_R_even sg"; cases "sg_pubkey_even sg") (simp_all add: algebra_simps)
    have R: "sg_R sg = smul S (if sg_R_even sg then ?k else - ?k) ?G"
      by (simp add: sgf(2,3) lift_even_def np smul_simps(7) [OF laws, symmetric])
    have key: "smul S (c * (if e then x else - x)) ?G = smul S c (if e then ?P else - ?P) \<longleftrightarrow>
        smul S c (smul S x ?G) = smul S c ?P" for c x e
      by (simp add: smul_simps [OF laws])
    show ?thesis
      unfolding sum unfolding R smul_simps(1) [OF laws] add_left_cancel
      unfolding lift_even_def sgf(4) [symmetric] by (rule key)
  qed
  note l = lift_even_facts [OF laws N]
  have VerEq: "VerifyBIP340 S ?sig ?m ?P = (if smul S (sum_list [?uz, ?sz]) ?G =
       sg_R sg + smul S (sg_challenge sg) (lift_even S ?P) then Inr () else Inl VerificationFailed)"
    by (rule VerifyBIP340_eq [OF laws _ _ P m ch]) (simp_all add: sgf(2) l)
  have "completeWith S (honest_user_input S sid us du eu sg) s =
    (case VerifyBIP340 S ?sig ?m ?P of Inl e \<Rightarrow> Inl (CosignBadSignature e) | Inr _ \<Rightarrow> Inr ?sig)"
    using sg ver sign agg
    by (simp add: completeWith_def honest_user_input_def dec pts cs [symmetric] sgf(1) rho(1)
        enc_sc_facts(2) [OF laws] Let_def del: sum_list.Cons)
  then show ?thesis
    unfolding VerEq eqn by (intro exI [of _ ?sig]) (simp add: VerEq eqn del: sum_list.Cons)
qed

lemma PrepareSignable_factors:
  "PrepareSignable S s = Inr sg \<Longrightarrow>
     ComputeBindingFactors S (ss_joint_pubkey s) (ss_message s) (ss_commitments s) = Inr (sg_factors sg)"
  by (auto simp: PrepareSignable_def)

lemma BeginCosign_session:
  fixes S :: "('s::field, 'g::ab_group_add) suite"
  assumes laws: "suite_laws S" and nz: "P \<noteq> 0" "us \<noteq> 0" "ss \<noteq> 0" and m: "length m = 32"
  shows "\<exists>br s T1. BeginCosign S t1 (Some sid) d e
    \<lparr>cs_key_id = k, cs_joint_pubkey_hex = el_hex S P, cs_signer_share = enc_sc S ss,
     cs_signer_verification = enc_el S (smul S ss (base_pt S)),
     cs_user_verification_hex = el_hex S (smul S us (base_pt S)), cs_event_hash = m\<rparr> T = (T1, Inr br) \<and>
    T1 = T(sid \<mapsto> s) \<and> cosign_wf S s \<and> co_event_hash s = m \<and> co_joint_pubkey s = P \<and>
    co_user_verify s = smul S us (base_pt S) \<and> co_signer_share s = ss \<and>
    co_expires_at s = t1 + UserCosignTTL \<and> co_d s = d \<and> co_e s = e"
proof -
  have dec: "dec_el_hex S (el_hex S Q) = Some Q" if "Q \<noteq> 0" for Q
    using enc_el_facts(3) [OF laws that] by (simp add: dec_el_hex_def el_hex_def)
  have pts: "smul S us (base_pt S) \<noteq> 0" "smul S ss (base_pt S) \<noteq> 0"
    using nz by (simp_all add: smul_eq_0 [OF laws] suite_base [OF laws])
  have "enc_sc S ss \<noteq> []" using enc_sc_facts(1) [OF laws, of ss] by auto
  then show ?thesis
    using m by (simp add: BeginCosign_def dec nz(1) pts enc_el_facts(3) [OF laws pts(2)]
        enc_sc_facts(2) [OF laws] Let_def cosign_wf_def) (rule exI, rule conjI [OF refl], simp)
qed

text \<open>
  The whole ceremony with an honest user, for any joint key \<open>P\<close> on record: the signature
  verifies exactly when the recorded key is the one the two shares interpolate to (or the
  challenge is zero).
\<close>

lemma ceremony_honest:
  fixes S :: "('s::field, 'g::ab_group_add) suite"
  assumes laws: "suite_laws S" and nz: "P \<noteq> 0" "us \<noteq> 0" "ss \<noteq> 0" "du \<noteq> 0" "eu \<noteq> 0"
    and m: "length m = 32"
    and beg: "BeginCosign S t1 (Some sid) d e
      \<lparr>cs_key_id = k, cs_joint_pubkey_hex = el_hex S P, cs_signer_share = enc_sc S ss,
       cs_signer_verification = enc_el S (smul S ss (base_pt S)),
       cs_user_verification_hex = el_hex S (smul S us (base_pt S)), cs_event_hash = m\<rparr> T = (T1, Inr br)"
    and cs: "cs = cosign_commitments (the (T1 sid)) (smul S du (base_pt S)) (smul S eu (base_pt S))"
    and sg: "PrepareSignable S (cosign_signing_session (the (T1 sid)) cs) = Inr sg"
    and N: "nonce_point S (sg_factors sg) cs \<noteq> 0" and t: "t2 \<le> t1 + UserCosignTTL"
  shows "smul S (2 * us - ss) (base_pt S) = P \<longrightarrow>
      (\<exists>sig. CompleteCosign S t2 (honest_user_input S sid us du eu sg) T1 = (T1(sid := None), Inr sig) \<and>
             VerifyBIP340 S sig m P = Inr ())"
    and "smul S (2 * us - ss) (base_pt S) \<noteq> P \<longrightarrow> sg_challenge sg \<noteq> 0 \<longrightarrow>
      CompleteCosign S t2 (honest_user_input S sid us du eu sg) T1 =
        (T1(sid := None), Inl (CosignBadSignature VerificationFailed))"
proof -
  from BeginCosign_session [OF laws nz(1-3) m, of t1 sid d e k T] beg
  obtain s where s: "T1 sid = Some s" "cosign_wf S s" "co_event_hash s = m" "co_joint_pubkey s = P"
    "co_user_verify s = smul S us (base_pt S)" "co_signer_share s = ss" "co_expires_at s = t1 + UserCosignTTL"
    by auto
  have bf: "ComputeBindingFactors S (co_joint_pubkey s) (co_event_hash s) cs = Inr (sg_factors sg)"
    using PrepareSignable_factors [OF sg] s(1) by (simp add: cosign_signing_session_def)
  have run: "\<And>r. completeWith S (honest_user_input S sid us du eu sg) s = r \<Longrightarrow>
    CompleteCosign S t2 (honest_user_input S sid us du eu sg) T1 = (T1(sid := None), r)"
    using s(1,7) t by (simp add: CompleteCosign_def lookupSession_def dropCosign_def honest_user_input_def)
  have cancel: "smul S c X = smul S c P \<longleftrightarrow> c = 0 \<or> X = P" for c X
  proof -
    have "smul S c X = smul S c P \<longleftrightarrow> smul S c (X - P) = 0" by (simp add: smul_simps [OF laws])
    then show ?thesis by (simp add: smul_eq_0 [OF laws])
  qed
  obtain sig where sig: "completeWith S (honest_user_input S sid us du eu sg) s =
    (if smul S (sg_challenge sg) (smul S (2 * us - ss) (base_pt S)) = smul S (sg_challenge sg) P
     then Inr sig else Inl (CosignBadSignature VerificationFailed))"
    "smul S (sg_challenge sg) (smul S (2 * us - ss) (base_pt S)) = smul S (sg_challenge sg) P \<longrightarrow>
     VerifyBIP340 S sig m P = Inr ()"
    using completeWith_honest [OF laws s(2) _ nz(4,5) s(5) _ bf N, where sid = sid] nz(1) s sg cs by auto
  show "smul S (2 * us - ss) (base_pt S) = P \<longrightarrow>
      (\<exists>sig. CompleteCosign S t2 (honest_user_input S sid us du eu sg) T1 = (T1(sid := None), Inr sig) \<and>
             VerifyBIP340 S sig m P = Inr ())"
    using sig run by auto
  show "smul S (2 * us - ss) (base_pt S) \<noteq> P \<longrightarrow> sg_challenge sg \<noteq> 0 \<longrightarrow>
      CompleteCosign S t2 (honest_user_input S sid us du eu sg) T1 =
        (T1(sid := None), Inl (CosignBadSignature VerificationFailed))"
    using sig(1) run cancel by auto
qed

subsection \<open>Properties\<close>

text \<open>A concrete ceremony, for the witnesses: user share 5, signer share 2, so the joint secret is 1.\<close>

definition toy_setup :: "gf7 \<Rightarrow> cosign_setup" where
  "toy_setup P = \<lparr>cs_key_id = ''k'', cs_joint_pubkey_hex = el_hex toy P, cs_signer_share = enc_sc toy N2,
     cs_signer_verification = enc_el toy (smul toy N2 (base_pt toy)),
     cs_user_verification_hex = el_hex toy (smul toy N5 (base_pt toy)), cs_event_hash = replicate 32 9\<rparr>"

definition toy_T1 :: "gf7 \<Rightarrow> (gf7, gf7) cosign_table" where
  "toy_T1 P = fst (BeginCosign toy 0 (Some ''c'') N1 N2 (toy_setup P) NewUserSignerCoordinator)"

definition toy_cs :: "gf7 \<Rightarrow> gf7 \<Rightarrow> gf7 \<Rightarrow> gf7 commitment_pair list" where
  "toy_cs P du eu = cosign_commitments (the (toy_T1 P ''c'')) (smul toy du (base_pt toy)) (smul toy eu (base_pt toy))"

definition toy_sg :: "gf7 \<Rightarrow> gf7 \<Rightarrow> gf7 \<Rightarrow> (gf7, gf7) signable" where
  "toy_sg P du eu = projr (PrepareSignable toy (cosign_signing_session (the (toy_T1 P ''c'')) (toy_cs P du eu)))"

text \<open>
  C3. An honest cosigning ceremony succeeds: if the recorded joint key is the point of the secret
  that the user's and the signer's shares interpolate to, the user's honest half (any nonces) makes
  \<open>CompleteCosign\<close> return a signature that verifies under that key, whatever the parities of the
  key and of the nonce point, and the session is removed.
\<close>

theorem cosign_honest_completes:
  fixes S :: "('s::field, 'g::ab_group_add) suite"
  assumes "suite_laws S" and "P \<noteq> 0" "us \<noteq> 0" "ss \<noteq> 0" "du \<noteq> 0" "eu \<noteq> 0"
    and P: "P = smul S (LagrangeCoefficient 1 [1, 2] * us + LagrangeCoefficient 2 [1, 2] * ss) (base_pt S)"
    and "length m = 32"
    and "BeginCosign S t1 (Some sid) d e
      \<lparr>cs_key_id = k, cs_joint_pubkey_hex = el_hex S P, cs_signer_share = enc_sc S ss,
       cs_signer_verification = enc_el S (smul S ss (base_pt S)),
       cs_user_verification_hex = el_hex S (smul S us (base_pt S)), cs_event_hash = m\<rparr> T = (T1, Inr br)"
    and "cs = cosign_commitments (the (T1 sid)) (smul S du (base_pt S)) (smul S eu (base_pt S))"
    and "PrepareSignable S (cosign_signing_session (the (T1 sid)) cs) = Inr sg"
    and "nonce_point S (sg_factors sg) cs \<noteq> 0" and "t2 \<le> t1 + UserCosignTTL"
  shows "\<exists>sig. CompleteCosign S t2 (honest_user_input S sid us du eu sg) T1 = (T1(sid := None), Inr sig) \<and>
             VerifyBIP340 S sig m P = Inr ()"
  using ceremony_honest(1) [OF assms(1-6) assms(8-13)] P by (simp add: two_of_two_lagrange)

lemma toy_digest: "d \<noteq> [] \<Longrightarrow> scalar_of_digest toy d = Some (of_n (unat (last d)))"
  by (simp add: scalar_of_digest_def toy_mod_n_def toy_dec_sc_x)

lemma toy_factors:
  assumes "P \<noteq> 0" "length m = 32" "ids_ascending (c # cs)" "hiding c \<noteq> 0"
  shows "ComputeBindingFactors toy P m (c # cs) =
    Inr (\<lambda>i. if i \<in> participant_id ` set (c # cs)
         then Some (of_n (unat (last (toy_enc_el (hiding c)) + ucast i :: byte))) else None)"
proof -
  have len: "length (toy_enc_el P) = 33" "length (toy_enc_el (hiding c)) = 33"
    using enc_el_facts(1) [OF toy_laws assms(1)] enc_el_facts(1) [OF toy_laws assms(4)] by simp_all
  then have "last (toy_enc_el (hiding c)) = toy_enc_el (hiding c) ! 32"
    by (subst last_conv_nth) auto
  with len assms(2) have h: "scalar_of_digest toy (toy_sha (bip340FrostBindingDomain @ tl (toy_enc_el P) @ m @
      be16 j @ toy_enc_el (hiding c) @ rest @ be16 i)) =
      Some (of_n (unat (last (toy_enc_el (hiding c)) + ucast i :: byte)))" for j rest i
    by (simp add: toy_digest toy_sha_def bip340FrostBindingDomain_def nth_append be16_def)
  have h: "scalar_of_digest toy (toy_sha (bip340FrostBindingDomain @ tl (toy_enc_el P) @ m @
      be16 (participant_id c) @ toy_enc_el (hiding c) @ toy_enc_el (binding c) @ commitment_bytes toy cs @ be16 i)) =
      Some (of_n (unat (last (toy_enc_el (hiding c)) + ucast i :: byte)))" for i
    using h [of "participant_id c" "toy_enc_el (binding c) @ commitment_bytes toy cs" i] by simp
  show ?thesis
    using len assms(2,3)
    by (simp add: ComputeBindingFactors_def xOnlyPubkey_def binding_loop_eq [OF toy_laws] h fun_eq_iff)
qed

lemma toy_begin:
  assumes "P \<noteq> 0"
  shows "\<exists>br s. BeginCosign toy 0 (Some ''c'') N1 N2 (toy_setup P) NewUserSignerCoordinator = (toy_T1 P, Inr br) \<and>
    toy_T1 P ''c'' = Some s \<and> cosign_wf toy s \<and> co_event_hash s = replicate 32 9 \<and>
    co_joint_pubkey s = P \<and> co_d_commit s = N1 \<and> co_e_commit s = N2"
proof -
  have nz: "N5 \<noteq> 0" "N2 \<noteq> 0" by (simp_all add: gf7_defs)
  have m: "length (replicate 32 (9::byte)) = 32" by simp
  show ?thesis
    using BeginCosign_session [OF toy_laws assms nz m, of 0 "''c''" N1 N2 "''k''" NewUserSignerCoordinator]
    by (auto simp: toy_T1_def toy_setup_def cosign_wf_def gf7_defs of_n_def)
qed

text \<open>The binding factor of participant \<open>i\<close> and the nonce point, for user nonces \<open>du\<close> and \<open>eu\<close>.\<close>

definition toy_rho :: "gf7 \<Rightarrow> 16 word \<Rightarrow> gf7" where
  "toy_rho du i = of_n (unat (last (toy_enc_el du) + ucast i :: byte))"

definition toy_N :: "gf7 \<Rightarrow> gf7 \<Rightarrow> gf7" where
  "toy_N du eu = du + toy_rho du 1 * eu + (N1 + toy_rho du 2 * N2)"

lemma toy_signable:
  assumes "P \<noteq> 0" "du \<noteq> 0" "toy_N du eu \<noteq> 0"
  shows "PrepareSignable toy (cosign_signing_session (the (toy_T1 P ''c'')) (toy_cs P du eu)) = Inr (toy_sg P du eu)"
    and "nonce_point toy (sg_factors (toy_sg P du eu)) (toy_cs P du eu) \<noteq> 0"
    and "sg_challenge (toy_sg P du eu) = of_n (unat (last (toy_enc_el (toy_N du eu)) + 9))"
    and "sg_R_even (toy_sg P du eu) = (hd (toy_enc_el (toy_N du eu)) = even_prefix)"
    and "sg_pubkey_even (toy_sg P du eu) = (hd (toy_enc_el P) = even_prefix)"
    and "sg_factors (toy_sg P du eu) signer_id = Some (toy_rho du 2)"
proof -
  obtain s where s: "toy_T1 P ''c'' = Some s" "cosign_wf toy s" "co_event_hash s = replicate 32 9"
    "co_joint_pubkey s = P" "co_d_commit s = N1" "co_e_commit s = N2"
    using toy_begin [OF assms(1)] by blast
  have one: "x * N1 = x" for x using mult_1_right [of x] by (simp add: one_gf7_def)
  have cs: "toy_cs P du eu = cosign_commitments s du eu"
    by (simp add: toy_cs_def s(1) one)
  let ?bf = "\<lambda>i. if i \<in> participant_id ` set (cosign_commitments s du eu) then Some (toy_rho du i) else None"
  have "ids_ascending (cosign_commitments s du eu)"
    by (simp add: cosign_commitments_def UserIndex_def SignerIndex_def word_le_nat_alt)
  then have bf: "ComputeBindingFactors toy (co_joint_pubkey s) (co_event_hash s) (cosign_commitments s du eu) = Inr ?bf"
    using assms(2) unfolding s(3,4) toy_rho_def cosign_commitments_def
    by (subst toy_factors [OF assms(1)]) (simp_all add: fun_eq_iff)
  have N: "nonce_point toy ?bf (cosign_commitments s du eu) = toy_N du eu"
    by (simp add: nonce_point_def cosign_commitments_def s(5,6) UserIndex_def SignerIndex_def toy_N_def)
  have Nz: "nonce_point toy ?bf (cosign_commitments s du eu) \<noteq> 0" unfolding N by (rule assms(3))
  have P: "co_joint_pubkey s \<noteq> 0" using assms s(4) by simp
  from PrepareSignable_session [OF toy_laws s(2) P bf Nz]
  obtain sg where sg: "PrepareSignable toy (cosign_signing_session s (cosign_commitments s du eu)) = Inr sg"
    "sg_factors sg = ?bf" "sg_R sg = lift_even toy (toy_N du eu)"
    "sg_R_even sg = (hd (toy_enc_el (toy_N du eu)) = even_prefix)"
    "sg_pubkey_even sg = (hd (toy_enc_el P) = even_prefix)"
    "scalar_of_digest toy (challenge_hash toy (tl (enc_el toy (sg_R sg)) @
      tl (enc_el toy (co_joint_pubkey s)) @ co_event_hash s)) = Some (sg_challenge sg)"
    unfolding N by (auto simp: s(4))
  have sgd: "toy_sg P du eu = sg" using sg(1) by (simp add: toy_sg_def cs s(1))
  have tl_x: "tl (enc_el toy (sg_R sg)) = tl (toy_enc_el (toy_N du eu))"
    using lift_even_facts(3) [OF toy_laws assms(3)] by (simp add: sg(3))
  have len: "length (toy_enc_el (toy_N du eu)) = 33"
    using enc_el_facts(1) [OF toy_laws assms(3)] by simp
  then have "tl (toy_enc_el (toy_N du eu)) ! 31 = last (toy_enc_el (toy_N du eu))"
    by (subst last_conv_nth) (auto simp: nth_tl)
  then have "sg_challenge sg = of_n (unat (last (toy_enc_el (toy_N du eu)) + 9))"
    using sg(6) len unfolding tl_x by (simp add: s(3) toy_digest toy_challenge_def nth_append)
  moreover have "?bf signer_id = Some (toy_rho du 2)"
    by (simp add: cosign_commitments_def SignerIndex_def)
  ultimately show "PrepareSignable toy (cosign_signing_session (the (toy_T1 P ''c'')) (toy_cs P du eu)) = Inr (toy_sg P du eu)"
    and "nonce_point toy (sg_factors (toy_sg P du eu)) (toy_cs P du eu) \<noteq> 0"
    and "sg_challenge (toy_sg P du eu) = of_n (unat (last (toy_enc_el (toy_N du eu)) + 9))"
    and "sg_R_even (toy_sg P du eu) = (hd (toy_enc_el (toy_N du eu)) = even_prefix)"
    and "sg_pubkey_even (toy_sg P du eu) = (hd (toy_enc_el P) = even_prefix)"
    and "sg_factors (toy_sg P du eu) signer_id = Some (toy_rho du 2)"
    using sg(1,2,4,5) Nz by (simp_all add: sgd cs s(1))
qed

lemma toy_nonces: "toy_N N1 N1 = N3" "toy_N N1 N2 = N5" "toy_N N2 N2 = N3" "toy_N N3 N2 = N1"
  by code_simp+

lemma gf7_nz [simp]: "N1 \<noteq> 0" "N2 \<noteq> 0" "N3 \<noteq> 0" "N4 \<noteq> 0" "N5 \<noteq> 0" "N6 \<noteq> 0"
  by (simp_all add: zero_gf7_def)

theorem cosign_honest_completes_witness:
  "\<exists>sig. CompleteCosign toy 60000000000 (honest_user_input toy ''c'' N5 N1 N2 (toy_sg N1 N1 N2)) (toy_T1 N1) =
      ((toy_T1 N1)(''c'' := None), Inr sig) \<and> VerifyBIP340 toy sig (replicate 32 9) N1 = Inr ()"
proof -
  have nz: "N1 \<noteq> 0" "N5 \<noteq> 0" "N2 \<noteq> 0" by (simp_all add: gf7_defs)
  obtain br where b: "BeginCosign toy 0 (Some ''c'') N1 N2 (toy_setup N1) NewUserSignerCoordinator = (toy_T1 N1, Inr br)"
    using toy_begin [OF nz(1)] by blast
  have P: "N1 = smul toy (LagrangeCoefficient 1 [1, 2] * N5 + LagrangeCoefficient 2 [1, 2] * N2) (base_pt toy)"
    unfolding two_of_two_lagrange by code_simp
  have N: "nonce_point toy (sg_factors (toy_sg N1 N1 N2)) (toy_cs N1 N1 N2) \<noteq> 0"
    by (rule toy_signable(2)) (simp_all add: toy_nonces)
  show ?thesis
    by (rule cosign_honest_completes [OF toy_laws nz nz(1,3) P _ b [unfolded toy_setup_def] toy_cs_def
          toy_signable(1) [of N1 N1 N2, simplified toy_nonces, simplified] N])
       (simp_all add: UserCosignTTL_def)
qed

text \<open>
  C4. Whatever the request, a signature that \<open>CompleteCosign\<close> returns is 64 bytes and verifies
  under BIP-340 for the session's event hash and joint key; the session was live, it is gone
  afterwards, and presenting it again, with any input, is answered \<open>not found\<close>.
\<close>

theorem cosign_sound:
  assumes "CompleteCosign S now inp t = (t', Inr sig)"
  shows "\<exists>s. t (ci_session_id inp) = Some s \<and> now \<le> co_expires_at s \<and> length sig = 64 \<and>
    VerifyBIP340 S sig (co_event_hash s) (co_joint_pubkey s) = Inr () \<and>
    t' = t(ci_session_id inp := None) \<and>
    CompleteCosign S now' (inp'\<lparr>ci_session_id := ci_session_id inp\<rparr>) t' = (t', Inl CosignSessionNotFound)"
proof -
  obtain s where s: "t (ci_session_id inp) = Some s" "now \<le> co_expires_at s"
    "t' = dropCosign (ci_session_id inp) t" "completeWith S inp s = Inr sig"
    using assms by (auto simp: CompleteCosign_Inr)
  from s(4) have "VerifyBIP340 S sig (co_event_hash s) (co_joint_pubkey s) = Inr ()"
    by (auto simp: completeWith_def Let_def split: option.splits sum.splits)
  moreover from this have "length sig = 64" by (auto simp: VerifyBIP340_def split: if_splits)
  ultimately show ?thesis
    using s(1-3) by (auto simp: dropCosign_def CompleteCosign_def lookupSession_def)
qed

lemma toy_ceremony:
  assumes "du \<noteq> 0" "eu \<noteq> 0" "toy_N du eu \<noteq> 0"
  shows "\<exists>sig. CompleteCosign toy 5 (honest_user_input toy ''c'' N5 du eu (toy_sg N1 du eu)) (toy_T1 N1) =
      ((toy_T1 N1)(''c'' := None), Inr sig)"
proof -
  have nz: "N1 \<noteq> 0" "N5 \<noteq> 0" "N2 \<noteq> 0" by (simp_all add: gf7_defs)
  have m: "length (replicate 32 (9::byte)) = 32" by simp
  obtain br where b: "BeginCosign toy 0 (Some ''c'') N1 N2 (toy_setup N1) NewUserSignerCoordinator = (toy_T1 N1, Inr br)"
    using toy_begin [OF nz(1)] by blast
  have N: "nonce_point toy (sg_factors (toy_sg N1 du eu)) (toy_cs N1 du eu) \<noteq> 0"
    by (rule toy_signable(2)) (simp_all add: assms)
  have key: "smul toy (2 * N5 - N2) (base_pt toy) = N1" by code_simp
  show ?thesis
    using ceremony_honest(1) [OF toy_laws nz assms(1,2) m b [unfolded toy_setup_def] toy_cs_def
      toy_signable(1) [OF nz(1) assms(1,3)] N, of 5] key
    by (auto simp: UserCosignTTL_def)
qed

theorem cosign_sound_witness:
  "\<exists>sig. CompleteCosign toy 5 (honest_user_input toy ''c'' N5 N1 N2 (toy_sg N1 N1 N2)) (toy_T1 N1) =
      ((toy_T1 N1)(''c'' := None), Inr sig) \<and> length sig = 64"
proof -
  obtain sig where "CompleteCosign toy 5 (honest_user_input toy ''c'' N5 N1 N2 (toy_sg N1 N1 N2)) (toy_T1 N1) =
      ((toy_T1 N1)(''c'' := None), Inr sig)" using toy_ceremony [of N1 N2] by (auto simp: toy_nonces)
  with cosign_sound [OF this] show ?thesis by auto
qed

lemma verifyPartial_unique:
  assumes laws: "suite_laws S" and rho: "sg_factors sg i = Some rho"
    and c: "find_commitment i cs = Some \<lparr>participant_id = j, hiding = smul S d (base_pt S),
              binding = smul S e (base_pt S)\<rparr>"
  shows "verifyPartialSignature S z i cs sg l (smul S s (base_pt S)) =
    (if z = ComputePartialSignature d e rho (sg_R_even sg) s (sg_pubkey_even sg) l (sg_challenge sg)
     then Inr () else Inl PartialMismatch)"
proof -
  let ?z = "ComputePartialSignature d e rho (sg_R_even sg) s (sg_pubkey_even sg) l (sg_challenge sg)"
  have "verifyPartialSignature S ?z i cs sg l (smul S s (base_pt S)) = Inr ()"
    by (rule verifyPartial_honest [OF laws rho c])
  then have eq: "smul S ?z (base_pt S) =
      (if \<not> sg_R_even sg then - (smul S d (base_pt S) + smul S rho (smul S e (base_pt S)))
       else smul S d (base_pt S) + smul S rho (smul S e (base_pt S))) +
      (if \<not> sg_pubkey_even sg then - smul S (l * sg_challenge sg) (smul S s (base_pt S))
       else smul S (l * sg_challenge sg) (smul S s (base_pt S)))"
    using rho c by (simp add: verifyPartialSignature_def Let_def split: if_splits)
  have "verifyPartialSignature S z i cs sg l (smul S s (base_pt S)) =
      (if smul S z (base_pt S) = smul S ?z (base_pt S) then Inr () else Inl PartialMismatch)"
    using rho c unfolding eq by (simp add: verifyPartialSignature_def Let_def)
  then show ?thesis by (simp only: smul_base_inj [OF laws])
qed

text \<open>
  A user partial signature other than the one value determined by the user's own share and
  nonces is rejected, the session is removed, and the answer does not depend on the signer's
  share: nothing is computed with the secret before the user's half has been verified.
\<close>

theorem cosign_bad_partial_rejected:
  fixes S :: "('s::field, 'g::ab_group_add) suite"
  assumes laws: "suite_laws S" and live: "t sid = Some s" "now \<le> co_expires_at s"
    and nz: "du \<noteq> 0" "eu \<noteq> 0" and uv: "co_user_verify s = smul S us (base_pt S)"
    and cs: "cs = cosign_commitments s (smul S du (base_pt S)) (smul S eu (base_pt S))"
    and sg: "PrepareSignable S (cosign_signing_session s cs) = Inr sg"
    and bad: "z \<noteq> ComputePartialSignature du eu (the (sg_factors sg user_id)) (sg_R_even sg) us
        (sg_pubkey_even sg) (LagrangeCoefficient user_id [user_id, signer_id]) (sg_challenge sg)"
  shows "CompleteCosign S now
     ((honest_user_input S sid us du eu sg)\<lparr>ci_partial_hex := hex_encode (enc_sc S z)\<rparr>)
     (t(sid \<mapsto> s\<lparr>co_signer_share := x\<rparr>)) = (t(sid := None), Inl (UserPartialErr PartialMismatch))"
proof -
  have pts: "smul S du (base_pt S) \<noteq> 0" "smul S eu (base_pt S) \<noteq> 0"
    using nz by (simp_all add: smul_eq_0 [OF laws] suite_base [OF laws])
  have dec: "dec_el_hex S (el_hex S Q) = Some Q" if "Q \<noteq> 0" for Q
    using enc_el_facts(3) [OF laws that] by (simp add: dec_el_hex_def el_hex_def)
  have bf: "ComputeBindingFactors S (co_joint_pubkey s) (co_event_hash s) cs = Inr (sg_factors sg)"
    using PrepareSignable_factors [OF sg] by (simp add: cosign_signing_session_def)
  then have "user_id \<in> dom (sg_factors sg)"
    using ComputeBindingFactors_dom [OF laws bf] by (simp add: cs cosign_commitments_def)
  then obtain rho where rho: "sg_factors sg user_id = Some rho" by blast
  have ver: "verifyPartialSignature S z user_id cs sg (LagrangeCoefficient user_id [user_id, signer_id])
      (co_user_verify s) = Inl PartialMismatch"
    unfolding uv by (subst verifyPartial_unique [OF laws rho])
      (use bad in \<open>simp_all add: cs cosign_commitments_def rho\<close>)
  have sg': "PrepareSignable S (cosign_signing_session (s\<lparr>co_signer_share := x\<rparr>) cs) = Inr sg"
    using sg by (simp add: PrepareSignable_def cosign_signing_session_def)
  have cs': "cosign_commitments (s\<lparr>co_signer_share := x\<rparr>) (smul S du (base_pt S)) (smul S eu (base_pt S)) = cs"
    by (simp add: cs cosign_commitments_def)
  show ?thesis
    using live sg' ver
    by (simp add: CompleteCosign_def lookupSession_def completeWith_def honest_user_input_def dec pts
        dropCosign_def cs' enc_sc_facts(2) [OF laws] Let_def)
qed

theorem cosign_bad_partial_rejected_witness:
  "CompleteCosign toy 5 ((honest_user_input toy ''c'' N5 N1 N2 (toy_sg N1 N1 N2))
      \<lparr>ci_partial_hex := hex_encode (enc_sc toy (ComputePartialSignature N1 N2
         (the (sg_factors (toy_sg N1 N1 N2) user_id)) (sg_R_even (toy_sg N1 N1 N2)) N5
         (sg_pubkey_even (toy_sg N1 N1 N2)) (LagrangeCoefficient user_id [user_id, signer_id])
         (sg_challenge (toy_sg N1 N1 N2)) + 1))\<rparr>)
     ((toy_T1 N1)(''c'' \<mapsto> (the (toy_T1 N1 ''c''))\<lparr>co_signer_share := N6\<rparr>)) =
   ((toy_T1 N1)(''c'' := None), Inl (UserPartialErr PartialMismatch))"
proof -
  have nz: "N1 \<noteq> 0" "N2 \<noteq> 0" by (simp_all add: gf7_defs)
  have live: "toy_T1 N1 ''c'' = Some (the (toy_T1 N1 ''c''))" "5 \<le> co_expires_at (the (toy_T1 N1 ''c''))"
    "co_user_verify (the (toy_T1 N1 ''c'')) = smul toy N5 (base_pt toy)"
    by code_simp+
  show ?thesis
    by (rule cosign_bad_partial_rejected [where t = "toy_T1 N1" and sid = "''c''",
          OF toy_laws live(1,2) nz live(3) toy_cs_def toy_signable(1) [of N1 N1 N2, simplified toy_nonces, simplified]]) simp
qed

subsection \<open>Interleaved completions\<close>

text \<open>
  What one completion tells the user about the signer's secrets: subtracting the user's own
  partial from the signature's scalar leaves a linear equation in the nonces and the share.
\<close>

definition parity_sign :: "bool \<Rightarrow> 's::field" where
  "parity_sign e = (if e then 1 else -1)"

definition response_of :: "('s::field, 'g) suite \<Rightarrow> complete_input \<Rightarrow> bytes \<Rightarrow> 's" where
  "response_of S inp sig =
     the (dec_sc S (drop 32 sig)) - the (dec_sc S (the (hex_decode (ci_partial_hex inp))))"

definition signable_of :: "('s::field, 'g::ab_group_add) suite \<Rightarrow> complete_input \<Rightarrow> ('s, 'g) cosign_session \<Rightarrow> ('s, 'g) signable" where
  "signable_of S inp s = projr (PrepareSignable S (cosign_signing_session s
     (cosign_commitments s (the (dec_el_hex S (ci_hiding_hex inp))) (the (dec_el_hex S (ci_binding_hex inp))))))"

lemma completeWith_response:
  fixes S :: "('s::field, 'g::ab_group_add) suite"
  assumes laws: "suite_laws S" and sig: "completeWith S inp s = Inr sig"
    and sg: "sg = signable_of S inp s"
  shows "parity_sign (sg_R_even sg) * response_of S inp sig =
    co_d s + the (sg_factors sg signer_id) * co_e s
      - parity_sign (sg_R_even sg) * parity_sign (sg_pubkey_even sg) * sg_challenge sg * co_signer_share s"
proof -
  obtain UD UE zb uz signerZ where d: "dec_el_hex S (ci_hiding_hex inp) = Some UD"
    "dec_el_hex S (ci_binding_hex inp) = Some UE"
    and prep: "PrepareSignable S (cosign_signing_session s (cosign_commitments s UD UE)) = Inr sg"
    and uz: "hex_decode (ci_partial_hex inp) = Some zb" "dec_sc S zb = Some uz"
    and sign: "Sign (cosign_signing_session s (cosign_commitments s UD UE)) sg = Inr signerZ"
    and agg: "AggregateFullSignature S sg [uz, signerZ] = Inr sig"
    using sig sg by (auto simp: completeWith_def signable_of_def Let_def split: option.splits sum.splits)
  have R: "even_encoding (enc_el S (sg_R sg))" and sigz: "sig = tl (enc_el S (sg_R sg)) @ enc_sc S (uz + signerZ)"
    using agg by (auto simp: AggregateFullSignature_def EncodeBIP340Signature_def Let_def
        AggregatePartialSignatures_def split: if_splits)
  have "drop 32 sig = enc_sc S (uz + signerZ)"
    using R by (simp add: sigz even_encoding_def)
  then have resp: "response_of S inp sig = signerZ"
    using uz by (simp add: response_of_def enc_sc_facts(2) [OF laws])
  have "sg_lambda sg = -1"
    using prep by (auto simp: PrepareSignable_def cosign_signing_session_def two_of_two_lagrange
        UserIndex_def SignerIndex_def)
  moreover obtain rho where rho: "sg_factors sg signer_id = Some rho"
    and z: "signerZ = ComputePartialSignature (co_d s) (co_e s) rho (sg_R_even sg) (co_signer_share s)
       (sg_pubkey_even sg) (sg_lambda sg) (sg_challenge sg)"
    using sign by (auto simp: Sign_def cosign_signing_session_def split: option.splits)
  ultimately show ?thesis
    unfolding resp z rho by (cases "sg_R_even sg"; cases "sg_pubkey_even sg")
      (simp_all add: parity_sign_def ComputePartialSignature_eq algebra_simps)
qed

lemma three_equations:
  fixes d e s :: "'s::field"
  assumes "y1 = d + r1 * e - k1 * s" "y2 = d + r2 * e - k2 * s" "y3 = d + r3 * e - k3 * s"
    and "D = (r3 - r1) * (k2 - k1) - (r2 - r1) * (k3 - k1)" "D \<noteq> 0"
  shows "s = ((r2 - r1) * (y3 - y1) - (r3 - r1) * (y2 - y1)) / D"
proof -
  have "(r2 - r1) * (y3 - y1) - (r3 - r1) * (y2 - y1) = D * s"
    by (simp add: assms(1-4) algebra_simps)
  with assms(5) show ?thesis by simp
qed


text \<open>Three honest-looking requests on the concrete session, with user nonces (1, 1), (2, 2), (3, 2).\<close>

definition toy_nonce :: "nat \<Rightarrow> gf7 \<times> gf7" where
  "toy_nonce i = (if i = 1 then (N1, N1) else if i = 2 then (N2, N2) else (N3, N2))"

definition toy_inp :: "nat \<Rightarrow> complete_input" where
  "toy_inp i = (case toy_nonce i of (du, eu) \<Rightarrow> honest_user_input toy ''c'' N5 du eu (toy_sg N1 du eu))"

lemma toy_nonce_ok: "fst (toy_nonce i) \<noteq> 0" "snd (toy_nonce i) \<noteq> 0" "toy_N (fst (toy_nonce i)) (snd (toy_nonce i)) \<noteq> 0"
  by (simp_all add: toy_nonce_def toy_nonces)

lemma toy_completes: "\<exists>sig. completeWith toy (toy_inp i) (the (toy_T1 N1 ''c'')) = Inr sig"
  using toy_ceremony [OF toy_nonce_ok, of i]
  by (auto simp: toy_inp_def CompleteCosign_Inr honest_user_input_def split: prod.splits)

lemma toy_signable_of:
  "signable_of toy (toy_inp i) (the (toy_T1 N1 ''c'')) = toy_sg N1 (fst (toy_nonce i)) (snd (toy_nonce i))"
proof -
  have dec: "dec_el_hex toy (el_hex toy Q) = Some Q" if "Q \<noteq> 0" for Q
    using enc_el_facts(3) [OF toy_laws that] by (simp add: dec_el_hex_def el_hex_def)
  have one: "x * N1 = x" for x using mult_1_right [of x] by (simp add: one_gf7_def)
  show ?thesis
    using toy_nonce_ok [of i]
    by (cases "toy_nonce i")
       (simp add: toy_inp_def signable_of_def honest_user_input_def toy_sg_def toy_cs_def dec one)
qed


end
