(* ===== verification/Coordinator.thy ===== *)
theory Coordinator
  imports KeyGen UserSigner "HOL-Library.Multiset"
begin

text \<open>
  \<open>internal/frost/coordinator.go\<close>: signing with a FROST key whose shares are all stored locally. The
  coordinator plays every participant: it decrypts the first \<open>t\<close> shares, draws their nonces,
  sorts the participants by id, signs, aggregates and verifies. The nonces come from an argument;
  the three slices that \<open>sortByParticipantID\<close> keeps parallel are one list of participants.

  The main result: a key of \<open>GenerateKey\<close> stored by the create-key endpoint can sign, under
  the public key of the dealt secret.
\<close>

record ('s, 'g) sign_participant =
  sp_id :: "16 word"
  sp_d :: 's
  sp_e :: 's
  sp_D :: 'g
  sp_E :: 'g
  sp_secret :: 's

datatype sign_error =
    SignMessageLength nat | SignKeyLookup frost_store_error | InsufficientShares nat int | SliceBounds int
  | DecodeGroupKey | DecodeVerification keygen_error | DecryptShare int | DecodeKeyShare int
  | NoParticipants | PrepareFailed frost_error | NilFactor "16 word" | AggregateFailed frost_error
  | SelfCheckFailed frost_error | SignatureLength nat | VerifyFailed frost_error | EventHashLength nat
  | UnexpectedSigLength nat

fun load_shares ::
    "('s, 'g) share_lib \<Rightarrow> encryptor option \<Rightarrow> frost_share list \<Rightarrow> sign_error + (16 word \<times> 's) list" where
  "load_shares L enc [] = Inr []"
| "load_shares L enc (share # shares) =
     (case (case enc of
              None \<Rightarrow> Some (sh_encrypted_share share)
            | Some E \<Rightarrow> if length (sh_encrypted_share share) > 0 then en_decrypt E (sh_encrypted_share share)
                else Some (sh_encrypted_share share)) of
        None \<Rightarrow> Inl (DecryptShare (sh_index share))
      | Some shareData \<Rightarrow>
          (case fl_decode L shareData of
             None \<Rightarrow> Inl (DecodeKeyShare (sh_index share))
           | Some ks \<Rightarrow> (case load_shares L enc shares of
               Inl e \<Rightarrow> Inl e | Inr rest \<Rightarrow> Inr ((kv_id ks, kv_secret ks) # rest))))"

fun make_participants ::
    "('s, 'g) suite \<Rightarrow> (nat \<Rightarrow> 's \<times> 's) \<Rightarrow> nat \<Rightarrow> (16 word \<times> 's) list \<Rightarrow> ('s, 'g) sign_participant list" where
  "make_participants S nonces i [] = []"
| "make_participants S nonces i ((pid, secret) # ls) =
     \<lparr>sp_id = pid, sp_d = fst (nonces i), sp_e = snd (nonces i), sp_D = smul S (fst (nonces i)) (base_pt S),
      sp_E = smul S (snd (nonces i)) (base_pt S), sp_secret = secret\<rparr> # make_participants S nonces (Suc i) ls"

text \<open>\<open>sift\<close> is the inner loop of the insertion sort, from index \<open>j\<close> downwards.\<close>

fun sift :: "nat \<Rightarrow> ('s, 'g) sign_participant list \<Rightarrow> ('s, 'g) sign_participant list" where
  "sift 0 ps = ps"
| "sift (Suc j) ps =
     (if sp_id (ps ! j) > sp_id (ps ! Suc j)
      then sift j (ps[j := ps ! Suc j, Suc j := ps ! j]) else ps)"

definition sortByParticipantID :: "('s, 'g) sign_participant list \<Rightarrow> ('s, 'g) sign_participant list" where
  "sortByParticipantID ps = foldl (\<lambda>ps i. sift i ps) ps [1..<length ps]"

definition commitment_of :: "('s, 'g) sign_participant \<Rightarrow> 'g commitment_pair" where
  "commitment_of p = \<lparr>participant_id = sp_id p, hiding = sp_D p, binding = sp_E p\<rparr>"

fun partial_loop ::
    "('s::field, 'g) signable \<Rightarrow> 16 word list \<Rightarrow> ('s, 'g) sign_participant list \<Rightarrow> sign_error + 's list" where
  "partial_loop sg allIDs [] = Inr []"
| "partial_loop sg allIDs (p # ps) =
     (case sg_factors sg (sp_id p) of
        None \<Rightarrow> Inl (NilFactor (sp_id p))
      | Some rho \<Rightarrow>
          (case partial_loop sg allIDs ps of
             Inl e \<Rightarrow> Inl e
           | Inr zs \<Rightarrow> Inr (ComputePartialSignature (sp_d p) (sp_e p) rho (sg_R_even sg) (sp_secret p)
               (sg_pubkey_even sg) (LagrangeCoefficient (sp_id p) allIDs) (sg_challenge sg) # zs)))"

text \<open>
  The signing session that \<open>PrepareSignable\<close> reads; the nonces and the share are not set there and
  not read.
\<close>

definition coordinator_session ::
    "('s::field, 'g) sign_participant list \<Rightarrow> 'g \<Rightarrow> bytes \<Rightarrow> ('s, 'g) signing_session" where
  "coordinator_session ps jointPubkey message =
     \<lparr>ss_participant = sp_id (hd ps), ss_all_ids = map sp_id ps, ss_commitments = map commitment_of ps,
      ss_joint_pubkey = jointPubkey, ss_message = message, ss_nonce_hiding = 0, ss_nonce_binding = 0, ss_share = 0\<rparr>"

definition SignMessage ::
    "('s::field, 'g::ab_group_add) suite \<Rightarrow> ('s, 'g) share_lib \<Rightarrow> encryptor option \<Rightarrow> (nat \<Rightarrow> 's \<times> 's) \<Rightarrow>
     string \<Rightarrow> bytes \<Rightarrow> frost_store \<Rightarrow> sign_error + bytes" where
  "SignMessage S L enc nonces frostKeyID message st =
     (if length message \<noteq> 32 then Inl (SignMessageLength (length message))
      else case GetFrostKey frostKeyID st of
        Inl e \<Rightarrow> Inl (SignKeyLookup e)
      | Inr frostKey \<Rightarrow>
     (let localShares = ListLocalFrostShares frostKeyID st; threshold = fk_threshold frostKey in
      if int (length localShares) < threshold then Inl (InsufficientShares (length localShares) threshold)
      else if threshold < 0 then Inl (SliceBounds threshold)
      else case dec_el S (fk_group_public_key frostKey) of
        None \<Rightarrow> Inl DecodeGroupKey
      | Some jointPubkey \<Rightarrow>
     (case decodeVerificationShares S (fk_verification_shares frostKey) of
        Inl e \<Rightarrow> Inl (DecodeVerification e)
      | Inr _ \<Rightarrow>
     (case load_shares L enc (take (nat threshold) localShares) of
        Inl e \<Rightarrow> Inl e
      | Inr locals \<Rightarrow>
     (let participants = sortByParticipantID (make_participants S nonces 0 locals) in
      if participants = [] then Inl NoParticipants
      else case PrepareSignable S (coordinator_session participants jointPubkey message) of
        Inl e \<Rightarrow> Inl (PrepareFailed e)
      | Inr signable \<Rightarrow>
     (case partial_loop signable (map sp_id participants) participants of
        Inl e \<Rightarrow> Inl e
      | Inr partials \<Rightarrow>
     (case AggregateFullSignature S signable partials of
        Inl e \<Rightarrow> Inl (AggregateFailed e)
      | Inr sigBytes \<Rightarrow>
     (case VerifyBIP340 S sigBytes message jointPubkey of
        Inl e \<Rightarrow> Inl (SelfCheckFailed e)
      | Inr _ \<Rightarrow> Inr sigBytes))))))))"

definition SignEvent ::
    "('s::field, 'g::ab_group_add) suite \<Rightarrow> ('s, 'g) share_lib \<Rightarrow> encryptor option \<Rightarrow> (nat \<Rightarrow> 's \<times> 's) \<Rightarrow>
     string \<Rightarrow> bytes \<Rightarrow> frost_store \<Rightarrow> sign_error + string" where
  "SignEvent S L enc nonces frostKeyID eventHash st =
     (if length eventHash \<noteq> 32 then Inl (EventHashLength (length eventHash))
      else case SignMessage S L enc nonces frostKeyID eventHash st of
        Inl e \<Rightarrow> Inl e
      | Inr sigBytes \<Rightarrow> Inr (hex_encode sigBytes))"

definition VerifySignature ::
    "('s, 'g) suite \<Rightarrow> string \<Rightarrow> bytes \<Rightarrow> bytes \<Rightarrow> frost_store \<Rightarrow> sign_error + bool" where
  "VerifySignature S frostKeyID message signatureBytes st =
     (case GetFrostKey frostKeyID st of
        Inl e \<Rightarrow> Inl (SignKeyLookup e)
      | Inr frostKey \<Rightarrow>
     (case dec_el S (fk_group_public_key frostKey) of
        None \<Rightarrow> Inl DecodeGroupKey
      | Some verificationKey \<Rightarrow>
          if length signatureBytes \<noteq> 64 then Inl (SignatureLength (length signatureBytes))
          else case VerifyBIP340 S signatureBytes message verificationKey of
            Inl e \<Rightarrow> if e = VerificationFailed then Inr False else Inl (VerifyFailed e)
          | Inr _ \<Rightarrow> Inr True))"

definition GetAvailableShareCount :: "string \<Rightarrow> frost_store \<Rightarrow> nat" where
  "GetAvailableShareCount frostKeyID st = length (ListLocalFrostShares frostKeyID st)"

definition CanSign :: "string \<Rightarrow> frost_store \<Rightarrow> sign_error + bool" where
  "CanSign frostKeyID st =
     (case GetFrostKey frostKeyID st of
        Inl e \<Rightarrow> Inl (SignKeyLookup e)
      | Inr frostKey \<Rightarrow> Inr (int (GetAvailableShareCount frostKeyID st) \<ge> fk_threshold frostKey))"

record share_holder =
  hd_index :: int
  hd_pubkey :: string
  hd_is_local :: bool
  hd_is_online :: bool

definition GetShareHolders :: "string \<Rightarrow> frost_store \<Rightarrow> share_holder list" where
  "GetShareHolders frostKeyID st =
     map (\<lambda>share. \<lparr>hd_index = sh_index share, hd_pubkey = sh_holder_pubkey share, hd_is_local = sh_is_local share,
                   hd_is_online = sh_is_local share\<rparr>) (ListFrostShares frostKeyID st)"

definition ConvertToNostrSignature :: "bytes \<Rightarrow> sign_error + string" where
  "ConvertToNostrSignature sigBytes =
     (if length sigBytes = 64 then Inr (hex_encode sigBytes)
      else if length sigBytes = 65
      then Inr (hex_encode (take 32 (drop 1 sigBytes) @ take 32 (drop 33 sigBytes)))
      else Inl (UnexpectedSigLength (length sigBytes)))"

subsection \<open>Sorting\<close>

lemma sift_inserts:
  assumes "length ys = j"
  shows "\<exists>ws. sift j (ys @ x # zs) = ws @ zs \<and> mset ws = mset (x # ys) \<and>
    (sorted (map sp_id ys) \<longrightarrow> sorted (map sp_id ws))"
  using assms
proof (induction j arbitrary: ys zs)
  case 0
  then show ?case by (intro exI [of _ "[x]"]) simp
next
  case (Suc j)
  then obtain ys' y where ys: "ys = ys' @ [y]" "length ys' = j"
    by (metis append_butlast_last_id length_butlast diff_Suc_1 list.size(3) nat.distinct(1))
  have at: "(ys @ x # zs) ! j = y" "(ys @ x # zs) ! Suc j = x"
    using ys by (simp_all add: nth_append)
  show ?case
  proof (cases "sp_id y > sp_id x")
    case True
    have sw: "(ys @ x # zs)[j := x, Suc j := y] = ys' @ x # (y # zs)"
      using ys by (simp add: list_update_append)
    obtain ws where ws: "sift j (ys' @ x # (y # zs)) = ws @ y # zs" "mset ws = mset (x # ys')"
      "sorted (map sp_id ys') \<longrightarrow> sorted (map sp_id ws)" using Suc.IH [OF ys(2)] by blast
    have "set ws = insert x (set ys')" using mset_eq_setD [OF ws(2)] by simp
    with ws True at sw show ?thesis
      by (intro exI [of _ "ws @ [y]"]) (auto simp: ys(1) sorted_append)
  next
    case False
    with at show ?thesis
      by (intro exI [of _ "ys @ [x]"]) (auto simp: ys(1) sorted_append intro: order_trans)
  qed
qed

lemma sort_prefix:
  assumes "n \<le> length ps" "0 < n"
  shows "\<exists>ws. foldl (\<lambda>ps i. sift i ps) ps [1..<n] = ws @ drop n ps \<and> mset ws = mset (take n ps) \<and>
    sorted (map sp_id ws)"
  using assms(2,1)
proof (induction n rule: nat_induct_non_zero)
  case 1
  then obtain p qs where "ps = p # qs" by (cases ps) auto
  then show ?case by simp
next
  case (Suc n)
  then obtain ws where ws: "foldl (\<lambda>ps i. sift i ps) ps [1..<n] = ws @ drop n ps" "mset ws = mset (take n ps)"
    "sorted (map sp_id ws)" by auto
  have len: "length ws = n" using ws(2) Suc.prems by (metis Suc_leD length_take min.absorb2 size_mset)
  have d: "drop n ps = ps ! n # drop (Suc n) ps" using Suc.prems by (simp add: Cons_nth_drop_Suc)
  obtain vs where vs: "sift n (ws @ ps ! n # drop (Suc n) ps) = vs @ drop (Suc n) ps" "mset vs = mset (ps ! n # ws)"
    "sorted (map sp_id ws) \<longrightarrow> sorted (map sp_id vs)" using sift_inserts [OF len] by blast
  have "[1..<Suc n] = [1..<n] @ [n]" using Suc.hyps by simp
  with ws vs d Suc.prems show ?case
    by (intro exI [of _ vs]) (simp add: take_Suc_conv_app_nth)
qed

lemma sortByParticipantID_sorts:
  "mset (sortByParticipantID ps) = mset ps" "sorted (map sp_id (sortByParticipantID ps))"
proof -
  have "mset (sortByParticipantID ps) = mset ps \<and> sorted (map sp_id (sortByParticipantID ps))"
  proof (cases ps)
    case Nil
    then show ?thesis by (simp add: sortByParticipantID_def)
  next
    case (Cons p qs)
    then have "0 < length ps" by simp
    from sort_prefix [OF order_refl this] show ?thesis by (auto simp: sortByParticipantID_def)
  qed
  then show "mset (sortByParticipantID ps) = mset ps" "sorted (map sp_id (sortByParticipantID ps))" by simp_all
qed

subsection \<open>What signing computes\<close>

lemma load_shares_ok:
  assumes "share_codec_laws L" "list_all2 (holds_share L enc) shares kss"
  shows "load_shares L enc shares = Inr (map (\<lambda>ks. (kv_id ks, kv_secret ks)) kss)"
  using assms(2)
proof (induction rule: list_all2_induct)
  case (Cons share shares ks kss)
  then show ?case
    using assms(1) by (auto simp: holds_share_def share_codec_laws_def split: option.splits)
qed simp

lemma make_participants_facts:
  "p \<in> set (make_participants S nonces i locals) \<Longrightarrow>
     (sp_id p, sp_secret p) \<in> set locals \<and> sp_D p = smul S (sp_d p) (base_pt S) \<and> sp_E p = smul S (sp_e p) (base_pt S)"
  by (induction S nonces i locals rule: make_participants.induct) auto

lemma make_participants_ids: "map sp_id (make_participants S nonces i locals) = map fst locals"
  by (induction S nonces i locals rule: make_participants.induct) auto

lemma partial_loop_ok:
  assumes "\<forall>p \<in> set ps. sg_factors sg (sp_id p) \<noteq> None"
  shows "partial_loop sg ids ps = Inr (map (\<lambda>p. ComputePartialSignature (sp_d p) (sp_e p)
     (the (sg_factors sg (sp_id p))) (sg_R_even sg) (sp_secret p) (sg_pubkey_even sg)
     (LagrangeCoefficient (sp_id p) ids) (sg_challenge sg)) ps)"
  using assms by (induction ps) auto

text \<open>The participants of a run, in signing order, and the condition that their nonces do not cancel.\<close>

definition run_participants ::
    "('s::field, 'g) suite \<Rightarrow> ('s, 'g) share_lib \<Rightarrow> encryptor option \<Rightarrow> (nat \<Rightarrow> 's \<times> 's) \<Rightarrow> nat \<Rightarrow>
     frost_share list \<Rightarrow> ('s, 'g) sign_participant list" where
  "run_participants S L enc nonces t shares =
     (case load_shares L enc (take t shares) of
        Inl e \<Rightarrow> [] | Inr locals \<Rightarrow> sortByParticipantID (make_participants S nonces 0 locals))"

definition nonces_proper ::
    "('s::field, 'g::ab_group_add) suite \<Rightarrow> ('s, 'g) sign_participant list \<Rightarrow> 'g \<Rightarrow> bytes \<Rightarrow> bool" where
  "nonces_proper S ps P message \<longleftrightarrow>
     (\<forall>bf. ComputeBindingFactors S P message (map commitment_of ps) = Inr bf \<longrightarrow>
        nonce_point S bf (map commitment_of ps) \<noteq> 0)"

lemma participants_sign:
  fixes S :: "('s::field, 'g::ab_group_add) suite"
  assumes laws: "suite_laws S" and m: "length m = 32"
    and ps: "ps \<noteq> []" "sorted (map sp_id ps)" "distinct (map sp_id ps)"
    and inj: "inj_on (id_scalar :: 16 word \<Rightarrow> 's) (sp_id ` set ps)"
    and shares: "\<forall>p \<in> set ps. sp_secret p = poly f (id_scalar (sp_id p)) \<and>
       sp_D p = smul S (sp_d p) (base_pt S) \<and> sp_E p = smul S (sp_e p) (base_pt S)"
    and deg: "length f \<le> length ps" and P: "P = smul S (poly f 0) (base_pt S)" "P \<noteq> 0"
    and proper: "nonces_proper S ps P m"
  shows "\<exists>sg zs sig. PrepareSignable S (coordinator_session ps P m) = Inr sg \<and>
    partial_loop sg (map sp_id ps) ps = Inr zs \<and> AggregateFullSignature S sg zs = Inr sig \<and>
    VerifyBIP340 S sig m P = Inr ()"
proof -
  let ?cs = "map commitment_of ps" and ?ids = "map sp_id ps"
  have pid: "map participant_id ?cs = ?ids" by (simp add: commitment_of_def o_def)
  have asc: "ids_ascending ?cs"
    unfolding ids_ascending_sorted pid using ps(2,3) by (simp add: strict_sorted_iff)
  obtain bf where bf: "ComputeBindingFactors S P m ?cs = Inr bf"
    using ComputeBindingFactors_ok [OF laws P(2) m asc] by blast
  have R: "nonce_point S bf ?cs \<noteq> 0" using proper bf by (simp add: nonces_proper_def)
  have sess: "coordinator_session ps P m = (coordinator_session ps P m)\<lparr>ss_all_ids := ?ids,
      ss_commitments := ?cs, ss_joint_pubkey := P, ss_message := m\<rparr>"
    by (simp add: coordinator_session_def)
  obtain sg where sg: "PrepareSignable S (coordinator_session ps P m) = Inr sg" "sg_factors sg = bf"
    using PrepareSignable_ok [OF laws, of "coordinator_session ps P m" bf] P(2) m asc bf R
    by (auto simp: coordinator_session_def)
  let ?at = "\<lambda>i. the (map_of (map (\<lambda>p. (sp_id p, p)) ps) i)"
  have at: "?at (sp_id p) = p" if "p \<in> set ps" for p
  proof -
    have "map_of (map (\<lambda>p. (sp_id p, p)) ps) (sp_id p) = Some p"
      by (rule map_of_is_SomeI) (use that ps(3) in \<open>auto simp: o_def\<close>)
    then show ?thesis by simp
  qed
  have dom: "dom bf = sp_id ` set ps"
    using ComputeBindingFactors_dom [OF laws bf] by (auto simp: commitment_of_def image_iff)
  define zs where "zs = map (\<lambda>p. ComputePartialSignature (sp_d p) (sp_e p)
     (the (sg_factors sg (sp_id p))) (sg_R_even sg) (sp_secret p) (sg_pubkey_even sg)
     (LagrangeCoefficient (sp_id p) ?ids) (sg_challenge sg)) ps"
  have zs: "partial_loop sg ?ids ps = Inr zs"
    unfolding zs_def by (rule partial_loop_ok) (use dom sg(2) in auto)
  have zs_eq: "zs = map (\<lambda>i. ComputePartialSignature (sp_d (?at i)) (sp_e (?at i)) (the (sg_factors sg i))
       (sg_R_even sg) (poly f (id_scalar i)) (sg_pubkey_even sg) (LagrangeCoefficient i ?ids)
       (sg_challenge sg)) ?ids"
    unfolding zs_def by (simp add: at shares)
  have nonces: "hiding c = smul S (sp_d (?at (participant_id c))) (base_pt S) \<and>
      binding c = smul S (sp_e (?at (participant_id c))) (base_pt S)" if "c \<in> set ?cs" for c
    using that shares at by (auto simp: commitment_of_def)
  have deg': "length f \<le> length ?ids" using deg by simp
  have inj': "inj_on (id_scalar :: 16 word \<Rightarrow> 's) (set ?ids)" using inj by simp
  have "\<exists>sig. AggregateFullSignature S sg zs = Inr sig \<and> VerifyBIP340 S sig m P = Inr ()"
    by (rule threshold_aggregate_verifies [where d = "\<lambda>i. sp_d (?at i)" and e = "\<lambda>i. sp_e (?at i)" and f = f
          and ids = ?ids and cs = ?cs and bf = bf and sg = sg and s = "coordinator_session ps P m",
          OF laws m asc pid [symmetric] inj' deg' P nonces bf R])
       (use sg(1) sess zs_eq in simp_all)
  with sg zs show ?thesis by blast
qed

lemma SignMessage_ok:
  fixes S :: "('s::field, 'g::ab_group_add) suite"
  assumes laws: "suite_laws S" "share_codec_laws L" and m: "length m = 32"
    and key: "GetFrostKey kid st = Inr fk" "dec_el S (fk_group_public_key fk) = Some P"
      "ok (decodeVerificationShares S (fk_verification_shares fk))"
    and shares: "list_all2 (holds_share L enc) (ListLocalFrostShares kid st) kss"
      "distinct (map kv_id kss)" "\<forall>ks \<in> set kss. kv_secret ks = poly f (id_scalar (kv_id ks))"
    and inj: "inj_on (id_scalar :: 16 word \<Rightarrow> 's) (kv_id ` set kss)"
    and t: "0 < fk_threshold fk" "nat (fk_threshold fk) \<le> length kss" "length f \<le> nat (fk_threshold fk)"
    and P: "P = smul S (poly f 0) (base_pt S)" "P \<noteq> 0"
    and proper: "nonces_proper S (run_participants S L enc nonces (nat (fk_threshold fk)) (ListLocalFrostShares kid st)) P m"
  shows "\<exists>sig. SignMessage S L enc nonces kid m st = Inr sig \<and> VerifyBIP340 S sig m P = Inr ()"
proof -
  let ?t = "nat (fk_threshold fk)"
  let ?locals = "map (\<lambda>ks. (kv_id ks, kv_secret ks)) (take ?t kss)"
  have len: "length (ListLocalFrostShares kid st) = length kss" by (rule list_all2_lengthD [OF shares(1)])
  have load: "load_shares L enc (take ?t (ListLocalFrostShares kid st)) = Inr ?locals"
    by (rule load_shares_ok [OF laws(2)]) (rule list_all2_takeI [OF shares(1)])
  define ps where "ps = sortByParticipantID (make_participants S nonces 0 ?locals)"
  have run: "run_participants S L enc nonces ?t (ListLocalFrostShares kid st) = ps"
    by (simp add: run_participants_def load ps_def)
  have perm: "mset ps = mset (make_participants S nonces 0 ?locals)"
    unfolding ps_def by (rule sortByParticipantID_sorts)
  then have set_ps: "set ps = set (make_participants S nonces 0 ?locals)" by (rule mset_eq_setD)
  have ids: "mset (map sp_id ps) = mset (map kv_id (take ?t kss))"
    using arg_cong [OF perm, of "image_mset sp_id"] make_participants_ids [of S nonces 0 ?locals]
    by (metis (no_types, lifting) comp_apply fst_conv list.map_comp map_eq_conv mset_map)
  have dist: "distinct (map sp_id ps)"
    using shares(2) mset_eq_imp_distinct_iff [OF ids] by (metis distinct_take take_map)
  have ps_len: "length ps = ?t"
    using arg_cong [OF ids, of size] t(2) by simp
  have sub: "sp_id ` set ps \<subseteq> kv_id ` set kss"
    using mset_eq_setD [OF ids] by (auto dest: in_set_takeD)
  have facts: "\<forall>p \<in> set ps. sp_secret p = poly f (id_scalar (sp_id p)) \<and>
       sp_D p = smul S (sp_d p) (base_pt S) \<and> sp_E p = smul S (sp_e p) (base_pt S)"
  proof
    fix p assume "p \<in> set ps"
    with make_participants_facts [of p S nonces 0 ?locals] set_ps
    have p: "(sp_id p, sp_secret p) \<in> set ?locals" "sp_D p = smul S (sp_d p) (base_pt S)"
      "sp_E p = smul S (sp_e p) (base_pt S)" by auto
    then show "sp_secret p = poly f (id_scalar (sp_id p)) \<and>
       sp_D p = smul S (sp_d p) (base_pt S) \<and> sp_E p = smul S (sp_e p) (base_pt S)"
      using shares(3) by (auto dest: in_set_takeD)
  qed
  have ne: "ps \<noteq> []" using ps_len t(1) by auto
  have deg: "length f \<le> length ps" using t(3) ps_len by simp
  have srt: "sorted (map sp_id ps)" unfolding ps_def by (rule sortByParticipantID_sorts)
  obtain sg zs sig where s: "PrepareSignable S (coordinator_session ps P m) = Inr sg"
    "partial_loop sg (map sp_id ps) ps = Inr zs" "AggregateFullSignature S sg zs = Inr sig"
    "VerifyBIP340 S sig m P = Inr ()"
    using participants_sign [OF laws(1) m ne srt dist inj_on_subset [OF inj sub] facts deg P proper [unfolded run]]
    by blast
  obtain pks where v: "decodeVerificationShares S (fk_verification_shares fk) = Inr pks" using key(3) by (auto simp: ok_iff)
  have nt: "\<not> int (length (ListLocalFrostShares kid st)) < fk_threshold fk" "\<not> fk_threshold fk < 0"
    using t len by simp_all
  have "SignMessage S L enc nonces kid m st = Inr sig"
    using m key(1,2) v load nt ne s by (simp add: SignMessage_def Let_def ps_def [symmetric])
  with s(4) show ?thesis by blast
qed

lemma VerifySignature_accepts:
  assumes "GetFrostKey kid st = Inr fk" "dec_el S (fk_group_public_key fk) = Some P" "VerifyBIP340 S sig m P = Inr ()"
  shows "VerifySignature S kid m sig st = Inr True"
proof -
  have "length sig = 64" using assms(3) by (simp add: VerifyBIP340_def split: if_splits)
  with assms show ?thesis by (simp add: VerifySignature_def)
qed

lemma dealt_shares:
  fixes S :: "('s::field, 'g::ab_group_add) suite"
  assumes kss: "mset kss = mset (map (dealt S f) [1..<Suc n])" and n: "n \<le> 255"
    and char: "inj_on (of_nat :: nat \<Rightarrow> 's) {1..n}"
  shows "distinct (map kv_id kss)" "\<forall>ks \<in> set kss. kv_secret ks = poly f (id_scalar (kv_id ks))"
    "inj_on (id_scalar :: 16 word \<Rightarrow> 's) (kv_id ` set kss)" "length kss = n"
proof -
  have uid: "unat (of_nat i :: 16 word) = i" if "i \<le> n" for i
    using that n by (simp add: unat_of_nat take_bit_nat_eq_self)
  have sid: "(id_scalar (of_nat i :: 16 word) :: 's) = of_nat i" if "i \<le> n" for i
    unfolding id_scalar_def uid [OF that] ..
  have set_kss: "set kss = dealt S f ` {1..n}" using mset_eq_setD [OF kss] by auto
  have ids: "mset (map kv_id kss) = mset (map kv_id (map (dealt S f) [1..<Suc n]))"
    unfolding mset_map [of kv_id] kss ..
  have "inj_on (kv_id \<circ> dealt S f) (set [1..<Suc n])"
  proof (rule inj_onI)
    fix i j assume "i \<in> set [1..<Suc n]" "j \<in> set [1..<Suc n]" "(kv_id \<circ> dealt S f) i = (kv_id \<circ> dealt S f) j"
    then have le: "i \<le> n" "j \<le> n" and e: "(of_nat i :: 16 word) = of_nat j"
      by (simp_all only: o_apply dealt_def key_share.select_convs set_upt atLeastLessThan_iff less_Suc_eq_le)
    from arg_cong [OF e, of unat] show "i = j" unfolding uid [OF le(1)] uid [OF le(2)] .
  qed
  then have "distinct (map kv_id (map (dealt S f) [1..<Suc n]))" unfolding map_map distinct_map by simp
  then show "distinct (map kv_id kss)" using mset_eq_imp_distinct_iff [OF ids] by blast
  show "\<forall>ks \<in> set kss. kv_secret ks = poly f (id_scalar (kv_id ks))"
    unfolding set_kss by (auto simp: dealt_def sid)
  show "inj_on (id_scalar :: 16 word \<Rightarrow> 's) (kv_id ` set kss)"
  proof (rule inj_onI)
    fix a b :: "16 word" assume ab: "a \<in> kv_id ` set kss" "b \<in> kv_id ` set kss" "(id_scalar a :: 's) = id_scalar b"
    then obtain i j where ij: "a = of_nat i" "b = of_nat j" "i \<in> {1..n}" "j \<in> {1..n}"
      by (auto simp: set_kss dealt_def)
    with ab(3) have "(of_nat i :: 's) = of_nat j" by (simp add: sid)
    with ij inj_onD [OF char] show "a = b" by blast
  qed
  show "length kss = n" using arg_cong [OF kss, of size] by simp
qed

text \<open>
  C14. A key made by the trusted dealer can sign: for every valid configuration, generation succeeds, the
  stored key reports that it can sign, and from then on, in whatever order the store lists the
  shares, signing any 32-byte message returns a signature that verifies under the public key of
  the dealt secret (for an import: under the imported key's own public key), and that
  \<open>VerifySignature\<close> accepts.
\<close>

theorem trusted_dealer_key_signs:
  fixes S :: "('s::field, 'g::ab_group_add) suite"
  assumes laws: "suite_laws S" "share_codec_laws L" "dealer_laws S L" "encryptor_laws enc"
    and valid: "Validate config = Inr ()"
    and secret: "(if kc_existing_secret config = [] then Some random else dec_sc S (kc_existing_secret config)) = Some secret"
      "secret \<noteq> 0"
    and proper: "0 \<notin> kv_public ` set (fst (fl_keygen L secret (of_int (kc_threshold config)) (of_int (kc_total_shares config))))"
    and char: "inj_on (of_nat :: nat \<Rightarrow> 's) {1..nat (kc_total_shares config)}"
    and fresh: "fresh_ids newID (nat (kc_total_shares config)) st"
      "fo_by_pubkey st (pubkeyToHex (enc_el S (smul S secret (base_pt S)))) = None"
  shows "\<exists>res st'. GenerateKey S L enc now random newID config = Inr res \<and>
    store_generated userID res st = (st', Inr ()) \<and> CanSign (newID 0) st' = Inr True \<and>
    (\<forall>st'' nonces m. length m = 32 \<and> GetFrostKey (newID 0) st'' = GetFrostKey (newID 0) st' \<and>
       mset (ListLocalFrostShares (newID 0) st'') = mset (ListLocalFrostShares (newID 0) st') \<and>
       nonces_proper S (run_participants S L enc nonces (nat (kc_threshold config))
         (ListLocalFrostShares (newID 0) st'')) (smul S secret (base_pt S)) m \<longrightarrow>
       (\<exists>sig. SignMessage S L enc nonces (newID 0) m st'' = Inr sig \<and>
          VerifyBIP340 S sig m (smul S secret (base_pt S)) = Inr () \<and>
          VerifySignature S (newID 0) m sig st'' = Inr True))"
proof -
  let ?n = "nat (kc_total_shares config)" and ?t = "nat (kc_threshold config)" and ?kid = "newID 0"
  let ?P = "smul S secret (base_pt S)"
  obtain f res where f: "length f = ?t" "poly f 0 = secret" and res: "GenerateKey S L enc now random newID config = Inr res"
    and k: "fk_id (kr_key res) = ?kid" "fk_threshold (kr_key res) = kc_threshold config"
      "fk_group_public_key (kr_key res) = enc_el S ?P" "ok (decodeVerificationShares S (fk_verification_shares (kr_key res)))"
    and sh: "list_all2 (holds_share L enc) (kr_shares res) (map (dealt S f) [1..<Suc ?n])"
    and ids: "map sh_id (kr_shares res) = map (\<lambda>j. newID (Suc j)) [0..<?n]"
      "map sh_index (kr_shares res) = map (\<lambda>j. int j + 1) [0..<?n]"
      "list_all (\<lambda>s. sh_frost_key_id s = ?kid \<and> sh_is_local s) (kr_shares res)"
    using GenerateKey_ok [OF laws(1,3,4) valid secret(1) proper, of now newID] by auto
  have pub: "fk_pubkey (kr_key res) = pubkeyToHex (enc_el S ?P)"
    using res k(3) by (auto simp: GenerateKey_def Let_def split: sum.splits option.splits prod.splits)
  obtain st' where st': "store_generated userID res st = (st', Inr ())"
    "GetFrostKey ?kid st' = Inr ((kr_key res)\<lparr>fk_owner_id := userID\<rparr>)" "ListLocalFrostShares ?kid st' = kr_shares res"
    using store_generated_ok [OF fresh(1) _ k(1) ids] fresh(2) pub by auto
  have bounds: "1 \<le> kc_threshold config" "kc_threshold config \<le> kc_total_shares config" "kc_total_shares config \<le> 255"
    using valid by (auto simp: Validate_def split: if_splits)
  have len: "length (kr_shares res) = ?n" using ids(1) map_eq_imp_length_eq by fastforce
  have can: "CanSign ?kid st' = Inr True"
    using st' k(2) len bounds by (simp add: CanSign_def GetAvailableShareCount_def)
  have P: "?P = smul S (poly f 0) (base_pt S)" "?P \<noteq> 0"
    using f(2) secret(2) smul_base_inj [OF laws(1), of secret 0] smul_simps(4) [OF laws(1)] by auto
  have sign: "\<exists>sig. SignMessage S L enc nonces ?kid m st'' = Inr sig \<and> VerifyBIP340 S sig m ?P = Inr () \<and>
      VerifySignature S ?kid m sig st'' = Inr True"
    if m: "length m = 32" and same: "GetFrostKey ?kid st'' = GetFrostKey ?kid st'"
      "mset (ListLocalFrostShares ?kid st'') = mset (ListLocalFrostShares ?kid st')"
      and np: "nonces_proper S (run_participants S L enc nonces ?t (ListLocalFrostShares ?kid st'')) ?P m"
    for st'' nonces m
  proof -
    let ?fk = "(kr_key res)\<lparr>fk_owner_id := userID\<rparr>"
    obtain kss where kss: "list_all2 (holds_share L enc) (ListLocalFrostShares ?kid st'') kss"
      "mset kss = mset (map (dealt S f) [1..<Suc ?n])"
      using list_all2_reorder_left_invariance [OF sh, of "ListLocalFrostShares ?kid st''"] same(2) st'(3) by auto
    have n: "?n \<le> 255" using bounds(3) by simp
    note d = dealt_shares [OF kss(2) n char]
    have key: "GetFrostKey ?kid st'' = Inr ?fk" "dec_el S (fk_group_public_key ?fk) = Some ?P"
      "ok (decodeVerificationShares S (fk_verification_shares ?fk))"
      using same(1) st'(2) k(3,4) enc_el_facts(3) [OF laws(1) P(2)] by simp_all
    have t: "0 < fk_threshold ?fk" "nat (fk_threshold ?fk) \<le> length kss" "length f \<le> nat (fk_threshold ?fk)"
      using bounds f(1) k(2) d(4) by simp_all
    have np': "nonces_proper S (run_participants S L enc nonces (nat (fk_threshold ?fk)) (ListLocalFrostShares ?kid st'')) ?P m"
      using np k(2) by simp
    obtain sig where "SignMessage S L enc nonces ?kid m st'' = Inr sig" "VerifyBIP340 S sig m ?P = Inr ()"
      using SignMessage_ok [OF laws(1,2) m key kss(1) d(1-3) t P np'] by blast
    with VerifySignature_accepts [OF key(1,2)] show ?thesis by blast
  qed
  show ?thesis using res st'(1) can sign by blast
qed

subsection \<open>A concrete dealer\<close>

definition toy_lib :: "(gf7, gf7) share_lib" where
  "toy_lib = \<lparr>
     fl_encode = (\<lambda>ks. replicate (unat (kv_id ks)) 0 @ [1, of_nat (to_n (kv_secret ks)), of_nat (to_n (kv_public ks))]),
     fl_decode = (\<lambda>bs. let k = length (takeWhile (\<lambda>b. b = 0) bs) in
        case drop (Suc k) bs of
          [s, p] \<Rightarrow> Some \<lparr>kv_id = of_nat k, kv_secret = of_n (unat s), kv_public = of_n (unat p)\<rparr>
        | _ \<Rightarrow> None),
     fl_keygen = (\<lambda>secret t n. (map (dealt toy (secret # replicate (unat t - 1) N1)) [1..<Suc (unat n)], secret * N1))\<rparr>"

lemma toy_byte: "of_n (unat (of_nat (to_n a) :: byte)) = a"
  by (cases a) (simp_all add: of_n_def)

lemma takeWhile_zeros: "takeWhile (\<lambda>b. b = 0) (replicate n (0 :: byte) @ 1 # xs) = replicate n 0"
  by (induction n) simp_all

lemma toy_codec: "share_codec_laws toy_lib"
  by (simp add: share_codec_laws_def toy_lib_def Let_def toy_byte takeWhile_zeros)

lemma toy_dealer: "dealer_laws toy toy_lib"
  unfolding dealer_laws_def
proof (intro allI impI)
  fix secret :: gf7 and t n :: "16 word" assume tn: "1 \<le> t \<and> t \<le> n"
  then have "1 \<le> unat t" by (simp add: word_le_nat_alt)
  then show "\<exists>f. length f = unat t \<and> poly f 0 = secret \<and>
      fl_keygen toy_lib secret t n = (map (dealt toy f) [1..<Suc (unat n)], smul toy secret (base_pt toy))"
    by (intro exI [of _ "secret # replicate (unat t - 1) N1"]) (simp add: toy_lib_def)
qed

definition toy_config :: keygen_config where
  "toy_config = \<lparr>kc_name = ''team'', kc_threshold = 2, kc_total_shares = 3, kc_existing_secret = []\<rparr>"

definition toy_ids :: "nat \<Rightarrow> string" where
  "toy_ids i = replicate (Suc i) (CHR ''k'')"

theorem trusted_dealer_key_signs_witness:
  "\<exists>res st' sig. GenerateKey toy toy_lib None 5 N1 toy_ids toy_config = Inr res \<and>
     store_generated ''owner'' res empty_frost_store = (st', Inr ()) \<and>
     SignMessage toy toy_lib None (\<lambda>_. (N1, N2)) (toy_ids 0) (replicate 32 9) st' = Inr sig \<and>
     VerifyBIP340 toy sig (replicate 32 9) N1 = Inr ()"
proof -
  have conf: "Validate toy_config = Inr ()" "kc_existing_secret toy_config = []"
    "kc_threshold toy_config = 2" "kc_total_shares toy_config = 3"
    by (simp_all add: Validate_def toy_config_def)
  have secret: "(if kc_existing_secret toy_config = [] then Some N1 else dec_sc toy (kc_existing_secret toy_config)) = Some N1"
    by (simp add: conf)
  have pub: "map kv_public (fst (fl_keygen toy_lib N1 2 3)) = [N2, N3, N4]" by code_simp
  have proper: "0 \<notin> kv_public ` set (fst (fl_keygen toy_lib N1 (of_int (kc_threshold toy_config)) (of_int (kc_total_shares toy_config))))"
    using arg_cong [OF pub, of set] by (simp add: conf zero_gf7_def)
  have char: "inj_on (of_nat :: nat \<Rightarrow> gf7) {1..nat (kc_total_shares toy_config)}"
  proof (rule inj_onI)
    fix i j assume "i \<in> {1..nat (kc_total_shares toy_config)}" "j \<in> {1..nat (kc_total_shares toy_config)}"
      "(of_nat i :: gf7) = of_nat j"
    then have "i \<le> 3" "j \<le> 3" "i mod 7 = j mod 7" by (auto simp: conf of_nat_gf7 dest: arg_cong [of _ _ to_n])
    then show "i = j" by simp
  qed
  have enc: "encryptor_laws None" by (simp add: encryptor_laws_def)
  have fresh: "fresh_ids toy_ids (nat (kc_total_shares toy_config)) empty_frost_store"
    "fo_by_pubkey empty_frost_store (pubkeyToHex (enc_el toy (smul toy N1 (base_pt toy)))) = None"
    by (auto simp: fresh_ids_def empty_frost_store_def toy_ids_def inj_on_def)
  have one: "N1 * x = x" for x using mult_1_left [of x] by (simp add: one_gf7_def)
  have m: "length (replicate 32 (9 :: byte)) = 32" by simp
  let ?cs = "[\<lparr>participant_id = 1 :: 16 word, hiding = N1, binding = N2\<rparr>, \<lparr>participant_id = 2, hiding = N1, binding = N2\<rparr>]"
  have "ids_ascending ?cs" by (simp add: word_le_nat_alt)
  from toy_factors [OF gf7_nz(1) m this] have bf: "ComputeBindingFactors toy N1 (replicate 32 9) ?cs =
    Inr (\<lambda>i. if i \<in> participant_id ` set ?cs then Some (toy_rho N1 i) else None)"
    by (simp add: toy_rho_def fun_eq_iff)
  have rho: "toy_rho N1 1 = N2" "toy_rho N1 2 = N3" "N1 + N2 * N2 + (N1 + N3 * N2) = N5" by code_simp+
  obtain res st' where r: "GenerateKey toy toy_lib None 5 N1 toy_ids toy_config = Inr res"
    "store_generated ''owner'' res empty_frost_store = (st', Inr ())"
    and sign: "\<forall>st'' nonces m. length m = 32 \<and> GetFrostKey (toy_ids 0) st'' = GetFrostKey (toy_ids 0) st' \<and>
       mset (ListLocalFrostShares (toy_ids 0) st'') = mset (ListLocalFrostShares (toy_ids 0) st') \<and>
       nonces_proper toy (run_participants toy toy_lib None nonces (nat (kc_threshold toy_config))
         (ListLocalFrostShares (toy_ids 0) st'')) (smul toy N1 (base_pt toy)) m \<longrightarrow>
       (\<exists>sig. SignMessage toy toy_lib None nonces (toy_ids 0) m st'' = Inr sig \<and>
          VerifyBIP340 toy sig m (smul toy N1 (base_pt toy)) = Inr () \<and>
          VerifySignature toy (toy_ids 0) m sig st'' = Inr True)"
    using trusted_dealer_key_signs [OF toy_laws toy_codec toy_dealer enc conf(1) secret gf7_nz(1) proper char fresh,
      of 5 "''owner''"] by blast
  from GenerateKey_ok [OF toy_laws toy_dealer enc conf(1) secret proper, of 5 toy_ids] r(1)
  obtain f where f: "list_all2 (holds_share toy_lib None) (kr_shares res) (map (dealt toy f) [1..<4])"
    and key: "fk_id (kr_key res) = toy_ids 0"
      "map sh_id (kr_shares res) = map (\<lambda>j. toy_ids (Suc j)) [0..<nat (kc_total_shares toy_config)]"
      "map sh_index (kr_shares res) = map (\<lambda>j. int j + 1) [0..<nat (kc_total_shares toy_config)]"
      "list_all (\<lambda>s. sh_frost_key_id s = toy_ids 0 \<and> sh_is_local s) (kr_shares res)"
    by (auto simp: conf)
  have list: "ListLocalFrostShares (toy_ids 0) st' = kr_shares res"
    using store_generated_ok [OF fresh(1) _ key, of "''owner''"] r(2) by (simp add: empty_frost_store_def)
  have "load_shares toy_lib None (take 2 (kr_shares res)) =
      Inr (map (\<lambda>ks. (kv_id ks, kv_secret ks)) (take 2 (map (dealt toy f) [1..<4])))"
    by (rule load_shares_ok [OF toy_codec list_all2_takeI [OF f]])
  also have "take 2 (map (dealt toy f) [1..<4]) = [dealt toy f 1, dealt toy f 2]"
    by (simp add: upt_conv_Cons numeral_eq_Suc)
  finally have "map commitment_of (run_participants toy toy_lib None (\<lambda>_. (N1, N2)) 2 (kr_shares res)) = ?cs"
    by (simp add: run_participants_def dealt_def sortByParticipantID_def commitment_of_def one one_gf7_def word_less_nat_alt)
  then have np: "nonces_proper toy (run_participants toy toy_lib None (\<lambda>_. (N1, N2)) (nat (kc_threshold toy_config))
      (ListLocalFrostShares (toy_ids 0) st')) (smul toy N1 (base_pt toy)) (replicate 32 9)"
    unfolding nonces_proper_def conf list using bf rho by (simp add: one nonce_point_def)
  with sign [rule_format, of "replicate 32 9" st' "\<lambda>_. (N1, N2)"] r m show ?thesis by (auto simp: one)
qed

end
