(* ===== verification/DistDKG.thy ===== *)
theory DistDKG
  imports Coordinator
begin

text \<open>
  \<open>internal/frost/dkg_distributed.go\<close>: key generation among several signers that exchange direct
  messages. Every handler is a step of one node: its new state and the messages it sends, or
  \<open>None\<close> where the code panics (nothing recovers a panic of the message listener, so the process
  dies). Shortened ids in log lines have no model except the one that a message's sender controls.

  The clock, the randomness of the polynomial, the fresh ids, the encryptor, and whether a relay
  accepts a message for a recipient are in the environment of the step. Sessions, commitments and
  shares are association lists, so that the loops over Go's maps run in an explicit order.
\<close>

datatype dkg_status = StPending | StRound1 | StRound2 | StRound3 | StComplete | StAborted

datatype dkg_message =
    DKGInit string "string list" int int string int
  | DKGAccept string int
  | DKGCommit string int string
  | DKGShare string int int string string
  | DKGVerify string
  | DKGComplete string int string
  | DKGAbort string int string

record ('s, 'g) dist_session =
  ds_initiator :: string
  ds_participants :: "string list"
  ds_threshold :: int
  ds_total :: int
  ds_status :: dkg_status
  ds_started_at :: time
  ds_completed_at :: "time option"
  ds_frost_key_id :: string
  ds_group_pubkey :: string
  ds_round :: int
  ds_error :: string
  ds_my_index :: int
  ds_polynomial :: "'s list"
  ds_commitment :: "'g list"
  ds_commits :: "(int \<times> 'g list) list"
  ds_shares :: "(int \<times> 's) list"
  ds_my_share :: "'s option"
  ds_accepted :: "string list"

record ('s, 'g) dkg_node =
  dn_pubkey :: string
  dn_sessions :: "string \<rightharpoonup> ('s, 'g) dist_session"
  dn_store :: frost_store

record 's dkg_env =
  de_now :: time
  de_random :: "nat \<Rightarrow> 's"
  de_ids :: "nat \<Rightarrow> string"
  de_enc :: "encryptor option"
  de_sends :: "string \<Rightarrow> bool"

type_synonym outbox = "(string \<times> dkg_message) list"

datatype initiate_error = ThresholdBelowTwo | TooFewParticipants | InitiatorNotParticipant

subsection \<open>Helpers\<close>

text \<open>The 1-based position of the first occurrence.\<close>

fun index_of :: "string \<Rightarrow> string list \<Rightarrow> int option" where
  "index_of p [] = None"
| "index_of p (q # qs) = (if q = p then Some 1 else map_option (\<lambda>i. i + 1) (index_of p qs))"

definition put_session ::
    "string \<Rightarrow> ('s, 'g) dist_session \<Rightarrow> ('s, 'g) dkg_node \<Rightarrow> ('s, 'g) dkg_node" where
  "put_session sid ss nd = nd\<lparr>dn_sessions := (dn_sessions nd)(sid \<mapsto> ss)\<rparr>"

definition send_all :: "'s dkg_env \<Rightarrow> string \<Rightarrow> string list \<Rightarrow> dkg_message \<Rightarrow> outbox" where
  \<comment> \<open>to every participant but ourselves; a failed send is logged and skipped\<close>
  "send_all env me ps msg = map (\<lambda>p. (p, msg)) (filter (\<lambda>p. p \<noteq> me \<and> de_sends env p) ps)"

definition new_session ::
    "string \<Rightarrow> string list \<Rightarrow> int \<Rightarrow> int \<Rightarrow> time \<Rightarrow> int \<Rightarrow> string list \<Rightarrow> ('s, 'g) dist_session" where
  "new_session initiator participants threshold totalShares now myIndex accepted =
     \<lparr>ds_initiator = initiator, ds_participants = participants, ds_threshold = threshold, ds_total = totalShares,
      ds_status = StPending, ds_started_at = now, ds_completed_at = None, ds_frost_key_id = '''',
      ds_group_pubkey = '''', ds_round = 0, ds_error = '''', ds_my_index = myIndex, ds_polynomial = [],
      ds_commitment = [], ds_commits = [], ds_shares = [], ds_my_share = None, ds_accepted = accepted\<rparr>"

definition encodeCommitmentList :: "('s, 'g) suite \<Rightarrow> 'g list \<Rightarrow> bytes" where
  "encodeCommitmentList S commitments =
     (case commitments of
        [] \<Rightarrow> []
      | c0 # _ \<Rightarrow> concat (map (\<lambda>c. fit (length (enc_el S c0)) (enc_el S c)) commitments))"

definition decodeCommitmentList :: "('s, 'g) suite \<Rightarrow> bytes \<Rightarrow> int \<Rightarrow> 'g list option" where
  "decodeCommitmentList S data expected =
     (if int (length data) \<noteq> expected * int (el_len S) then None
      else (case decode_elements S (nat expected) 0 data of Inl _ \<Rightarrow> None | Inr Ps \<Rightarrow> Some Ps))"

definition buildKeyShareData :: "16 word \<Rightarrow> bytes \<Rightarrow> bytes \<Rightarrow> bytes" where
  "buildKeyShareData index secretShare publicKey =
     ucast (drop_bit 8 index) # ucast index # secretShare @ publicKey"

subsection \<open>Starting a session\<close>

definition InitiateSession ::
    "'s dkg_env \<Rightarrow> string list \<Rightarrow> int \<Rightarrow> string \<Rightarrow> ('s, 'g) dkg_node \<Rightarrow>
     ('s, 'g) dkg_node \<times> outbox \<times> (initiate_error + string)" where
  "InitiateSession env participants threshold keyName nd =
     (if threshold < 2 then (nd, [], Inl ThresholdBelowTwo)
      else if int (length participants) < threshold then (nd, [], Inl TooFewParticipants)
      else case index_of (dn_pubkey nd) participants of
        None \<Rightarrow> (nd, [], Inl InitiatorNotParticipant)
      | Some myIndex \<Rightarrow>
          (let sessionID = de_ids env 0; totalShares = int (length participants);
               expiresAt = (de_now env + seconds 300) div seconds 1;
               ss = new_session (dn_pubkey nd) participants threshold totalShares (de_now env) myIndex [dn_pubkey nd]
           in (put_session sessionID ss nd,
               send_all env (dn_pubkey nd) participants
                 (DKGInit sessionID participants threshold totalShares keyName expiresAt),
               Inr sessionID)))"

definition acceptSession ::
    "'s dkg_env \<Rightarrow> string \<Rightarrow> ('s, 'g) dkg_node \<Rightarrow> ('s, 'g) dkg_node \<times> outbox" where
  "acceptSession env sessionID nd =
     (case dn_sessions nd sessionID of
        None \<Rightarrow> (nd, [])
      | Some ss \<Rightarrow>
          if \<not> de_sends env (ds_initiator ss) then (nd, [])
          else (put_session sessionID (ss\<lparr>ds_accepted := List.insert (dn_pubkey nd) (ds_accepted ss)\<rparr>) nd,
                [(ds_initiator ss, DKGAccept sessionID (ds_my_index ss))]))"

definition handleDKGInit ::
    "'s dkg_env \<Rightarrow> string \<Rightarrow> string \<Rightarrow> string list \<Rightarrow> int \<Rightarrow> int \<Rightarrow> int \<Rightarrow> ('s, 'g) dkg_node \<Rightarrow>
     ('s, 'g) dkg_node \<times> outbox" where
  "handleDKGInit env sender sessionID participants threshold totalShares expiresAt nd =
     (if de_now env div seconds 1 > expiresAt then (nd, [])
      else case index_of (dn_pubkey nd) participants of
        None \<Rightarrow> (nd, [])
      | Some myIndex \<Rightarrow>
          if (participants = [] \<or> sender \<noteq> participants ! 0) \<and> sender \<notin> set participants then (nd, [])
          else if dn_sessions nd sessionID \<noteq> None then (nd, [])
          else acceptSession env sessionID
                 (put_session sessionID
                    (new_session (participants ! 0) participants threshold totalShares (de_now env) myIndex []) nd))"

subsection \<open>Finalizing\<close>

text \<open>The public key share of participant \<open>i\<close>: the loop over the received commitments.\<close>

fun public_share_loop :: "('s::field, 'g::ab_group_add) suite \<Rightarrow> int \<Rightarrow> (int \<times> 'g list) list \<Rightarrow> 'g \<Rightarrow> 'g" where
  "public_share_loop S i [] pubKey = pubKey"
| "public_share_loop S i ((j, commit) # commits) pubKey =
     (let contribution = computePublicShareContribution S i commit in
      public_share_loop S i commits (if j = 1 then contribution else pubKey + contribution))"

definition finalizeDKG ::
    "('s::field, 'g::ab_group_add) suite \<Rightarrow> 's dkg_env \<Rightarrow> string \<Rightarrow> 's \<Rightarrow> 'g \<Rightarrow> ('s, 'g) dkg_node \<Rightarrow>
     (('s, 'g) dkg_node \<times> outbox) option" where
  "finalizeDKG S env sessionID myShare groupPubKey nd =
     (case dn_sessions nd sessionID of
        None \<Rightarrow> Some (nd, [])
      | Some ss \<Rightarrow>
     (let myShareBytes = enc_sc S myShare; myPubKeyBytes = enc_el S (smul S myShare (base_pt S));
          allPublicKeys = map (\<lambda>i. public_share_loop S i (ds_commits ss) 0) [1..ds_total ss];
          frostKeyID = de_ids env 0; groupPubkeyHex = pubkeyToHex (enc_el S groupPubKey) in
      case encodeVerificationShares S allPublicKeys of
        Inl _ \<Rightarrow> Some (nd, [])
      | Inr verification \<Rightarrow>
     (if length sessionID < 8 then None
      else case CreateFrostKey
             \<lparr>fk_id = frostKeyID, fk_name = ''DKG-'' @ take 8 sessionID, fk_pubkey = groupPubkeyHex,
              fk_threshold = ds_threshold ss, fk_total_shares = ds_total ss,
              fk_group_public_key = enc_el S groupPubKey, fk_verification_shares = verification,
              fk_created_at = de_now env, fk_created_by = '''', fk_owner_id = ''''\<rparr> (dn_store nd) of
        (st, Inl _) \<Rightarrow> Some (nd\<lparr>dn_store := st\<rparr>, [])
      | (st, Inr _) \<Rightarrow>
     (case encrypt_share (de_enc env) myShareBytes of
        None \<Rightarrow> Some (nd\<lparr>dn_store := st\<rparr>, [])
      | Some _ \<Rightarrow>
     (case encrypt_share (de_enc env) (buildKeyShareData (of_int (ds_my_index ss)) myShareBytes myPubKeyBytes) of
        None \<Rightarrow> Some (nd\<lparr>dn_store := st\<rparr>, [])
      | Some encryptedShare \<Rightarrow>
     (case CreateFrostShare
             \<lparr>sh_id = de_ids env 1, sh_frost_key_id = frostKeyID, sh_index = ds_my_index ss,
              sh_encrypted_share = encryptedShare, sh_holder_pubkey = '''', sh_holder_bunker_uri = '''',
              sh_is_local = True, sh_public_share = myPubKeyBytes, sh_created_at = de_now env\<rparr> st of
        (st, Inl _) \<Rightarrow> Some (nd\<lparr>dn_store := st\<rparr>, [])
      | (st, Inr _) \<Rightarrow>
          if length groupPubkeyHex < 16 then None
          else Some (put_session sessionID
                  (ss\<lparr>ds_status := StComplete, ds_completed_at := Some (de_now env),
                      ds_frost_key_id := frostKeyID, ds_group_pubkey := groupPubkeyHex\<rparr>) (nd\<lparr>dn_store := st\<rparr>),
                send_all env (dn_pubkey nd) (ds_participants ss)
                  (DKGComplete sessionID (ds_my_index ss) groupPubkeyHex))))))))"

text \<open>All shares and commitments are in: the sum of the shares, the sum of the constant commitments.\<close>

definition first_commitments :: "(int \<times> 'g::ab_group_add list) list \<Rightarrow> 'g" where
  "first_commitments commits =
     foldl (\<lambda>acc (j, commit). if length commit > 0 then acc + hd commit else acc) 0 commits"

definition checkRound2Complete ::
    "('s::field, 'g::ab_group_add) suite \<Rightarrow> 's dkg_env \<Rightarrow> string \<Rightarrow> ('s, 'g) dkg_node \<Rightarrow>
     (('s, 'g) dkg_node \<times> outbox) option" where
  "checkRound2Complete S env sessionID nd =
     (case dn_sessions nd sessionID of
        None \<Rightarrow> Some (nd, [])
      | Some ss \<Rightarrow>
          if int (length (ds_shares ss)) < ds_total ss \<or> ds_round ss \<noteq> 2 then Some (nd, [])
          else (let myShare = foldl (\<lambda>acc (j, share). acc + share) 0 (ds_shares ss);
                    groupPubKey = first_commitments (ds_commits ss);
                    ss = ss\<lparr>ds_my_share := Some myShare, ds_status := StRound3, ds_round := 3\<rparr>
                in finalizeDKG S env sessionID myShare groupPubKey (put_session sessionID ss nd)))"

subsection \<open>Round 2\<close>

text \<open>The loop over the participants, from index \<open>i\<close>, with \<open>n\<close> left.\<close>

fun share_loop ::
    "('s::field, 'g::ab_group_add) suite \<Rightarrow> 's dkg_env \<Rightarrow> string \<Rightarrow> nat \<Rightarrow> int \<Rightarrow> ('s, 'g) dist_session \<Rightarrow>
     (('s, 'g) dist_session \<times> outbox) option" where
  "share_loop S env sessionID 0 i ss = Some (ss, [])"
| "share_loop S env sessionID (Suc n) i ss =
     (let share = evaluatePolynomial S (ds_polynomial ss) i in
      if i = ds_my_index ss then
        share_loop S env sessionID n (i + 1)
          (ss\<lparr>ds_shares := AList.update i (case map_of (ds_shares ss) i of None \<Rightarrow> share | Some x \<Rightarrow> x + share)
                             (ds_shares ss)\<rparr>)
      else if int (length (ds_participants ss)) < i then None
      else
        (let recipient = ds_participants ss ! nat (i - 1);
             msg = DKGShare sessionID (ds_my_index ss) i (hex_encode (enc_sc S share))
                     (hex_encode (enc_el S (smul S share (base_pt S))))
         in case share_loop S env sessionID n (i + 1) ss of
              None \<Rightarrow> None
            | Some (ss, out) \<Rightarrow> Some (ss, (if de_sends env recipient then [(recipient, msg)] else []) @ out)))"

definition then_send ::
    "outbox \<Rightarrow> (('s, 'g) dkg_node \<times> outbox) option \<Rightarrow> (('s, 'g) dkg_node \<times> outbox) option" where
  "then_send out r = (case r of None \<Rightarrow> None | Some (nd, out') \<Rightarrow> Some (nd, out @ out'))"

definition startRound2 ::
    "('s::field, 'g::ab_group_add) suite \<Rightarrow> 's dkg_env \<Rightarrow> string \<Rightarrow> ('s, 'g) dkg_node \<Rightarrow>
     (('s, 'g) dkg_node \<times> outbox) option" where
  "startRound2 S env sessionID nd =
     (case dn_sessions nd sessionID of
        None \<Rightarrow> Some (nd, [])
      | Some ss \<Rightarrow>
          (case share_loop S env sessionID (nat (ds_total ss)) 1 ss of
             None \<Rightarrow> None
           | Some (ss, out) \<Rightarrow> then_send out (checkRound2Complete S env sessionID (put_session sessionID ss nd))))"

definition handleDKGShare ::
    "('s::field, 'g::ab_group_add) suite \<Rightarrow> 's dkg_env \<Rightarrow> string \<Rightarrow> string \<Rightarrow> int \<Rightarrow> int \<Rightarrow> string \<Rightarrow> ('s, 'g) dkg_node \<Rightarrow>
     (('s, 'g) dkg_node \<times> outbox) option" where
  "handleDKGShare S env sender sessionID fromIndex toIndex shareHex nd =
     (case dn_sessions nd sessionID of
        None \<Rightarrow> Some (nd, [])
      | Some ss \<Rightarrow>
          if toIndex \<noteq> ds_my_index ss then Some (nd, [])
          else if fromIndex < 1 \<or> fromIndex > int (length (ds_participants ss)) then Some (nd, [])
          else if ds_participants ss ! nat (fromIndex - 1) \<noteq> sender then Some (nd, [])
          else case Option.bind (hex_decode shareHex) (dec_sc S) of
            None \<Rightarrow> Some (nd, [])
          | Some share \<Rightarrow>
              if (case map_of (ds_commits ss) fromIndex of
                    None \<Rightarrow> False
                  | Some senderCommit \<Rightarrow> \<not> verifyShareAgainstCommitment S share toIndex senderCommit)
              then Some (nd, [])
              else if map_of (ds_shares ss) fromIndex \<noteq> None then Some (nd, [])
              else checkRound2Complete S env sessionID
                     (put_session sessionID (ss\<lparr>ds_shares := AList.update fromIndex share (ds_shares ss)\<rparr>) nd))"

subsection \<open>Round 1\<close>

definition checkRound1Complete ::
    "('s::field, 'g::ab_group_add) suite \<Rightarrow> 's dkg_env \<Rightarrow> string \<Rightarrow> ('s, 'g) dkg_node \<Rightarrow>
     (('s, 'g) dkg_node \<times> outbox) option" where
  "checkRound1Complete S env sessionID nd =
     (case dn_sessions nd sessionID of
        None \<Rightarrow> Some (nd, [])
      | Some ss \<Rightarrow>
          if int (length (ds_commits ss)) < ds_total ss \<or> ds_round ss \<noteq> 1 then Some (nd, [])
          else startRound2 S env sessionID
                 (put_session sessionID (ss\<lparr>ds_status := StRound2, ds_round := 2\<rparr>) nd))"

definition startRound1 ::
    "('s::field, 'g::ab_group_add) suite \<Rightarrow> 's dkg_env \<Rightarrow> string \<Rightarrow> ('s, 'g) dkg_node \<Rightarrow>
     (('s, 'g) dkg_node \<times> outbox) option" where
  "startRound1 S env sessionID nd =
     (case dn_sessions nd sessionID of
        None \<Rightarrow> Some (nd, [])
      | Some ss \<Rightarrow>
          if ds_status ss \<noteq> StPending then Some (nd, [])
          else if ds_threshold ss < 0 then None
          else
            (let polynomial = map (de_random env) [0..<nat (ds_threshold ss)];
                 commitment = map (\<lambda>a. smul S a (base_pt S)) polynomial;
                 ss = ss\<lparr>ds_status := StRound1, ds_round := 1, ds_polynomial := polynomial,
                         ds_commitment := commitment,
                         ds_commits := AList.update (ds_my_index ss) commitment (ds_commits ss)\<rparr>
             in then_send
                  (send_all env (dn_pubkey nd) (ds_participants ss)
                     (DKGCommit sessionID (ds_my_index ss) (hex_encode (encodeCommitmentList S commitment))))
                  (checkRound1Complete S env sessionID (put_session sessionID ss nd))))"

definition handleDKGAccept ::
    "('s::field, 'g::ab_group_add) suite \<Rightarrow> 's dkg_env \<Rightarrow> string \<Rightarrow> string \<Rightarrow> ('s, 'g) dkg_node \<Rightarrow>
     (('s, 'g) dkg_node \<times> outbox) option" where
  "handleDKGAccept S env sender sessionID nd =
     (case dn_sessions nd sessionID of
        None \<Rightarrow> Some (nd, [])
      | Some ss \<Rightarrow>
          if sender \<notin> set (ds_participants ss) then Some (nd, [])
          else
            (let ss = ss\<lparr>ds_accepted := List.insert sender (ds_accepted ss)\<rparr>;
                 nd = put_session sessionID ss nd
             in if int (length (ds_accepted ss)) = ds_total ss \<and> ds_status ss = StPending
                then startRound1 S env sessionID nd else Some (nd, [])))"

definition handleDKGCommit ::
    "('s::field, 'g::ab_group_add) suite \<Rightarrow> 's dkg_env \<Rightarrow> string \<Rightarrow> string \<Rightarrow> int \<Rightarrow> string \<Rightarrow> ('s, 'g) dkg_node \<Rightarrow>
     (('s, 'g) dkg_node \<times> outbox) option" where
  "handleDKGCommit S env sender sessionID index commitmentHex nd =
     (case dn_sessions nd sessionID of
        None \<Rightarrow> Some (nd, [])
      | Some ss \<Rightarrow>
          if index < 1 \<or> index > int (length (ds_participants ss)) then Some (nd, [])
          else if ds_participants ss ! nat (index - 1) \<noteq> sender then Some (nd, [])
          else case hex_decode commitmentHex of
            None \<Rightarrow> Some (nd, [])
          | Some commitBytes \<Rightarrow>
              (case decodeCommitmentList S commitBytes (ds_threshold ss) of
                 None \<Rightarrow> Some (nd, [])
               | Some commitList \<Rightarrow>
                   checkRound1Complete S env sessionID
                     (put_session sessionID (ss\<lparr>ds_commits := AList.update index commitList (ds_commits ss)\<rparr>) nd)))"

subsection \<open>Notifications and the dispatcher\<close>

text \<open>The log line of a completion cuts the reported key to 16 characters: shorter ones panic.\<close>

definition handleDKGComplete ::
    "string \<Rightarrow> string \<Rightarrow> ('s, 'g) dkg_node \<Rightarrow> (('s, 'g) dkg_node \<times> outbox) option" where
  "handleDKGComplete sessionID groupPubkey nd =
     (case dn_sessions nd sessionID of
        None \<Rightarrow> Some (nd, [])
      | Some ss \<Rightarrow> if length groupPubkey < 16 then None else Some (nd, []))"

definition handleDKGAbort :: "string \<Rightarrow> string \<Rightarrow> ('s, 'g) dkg_node \<Rightarrow> ('s, 'g) dkg_node" where
  "handleDKGAbort sessionID reason nd =
     (case dn_sessions nd sessionID of
        None \<Rightarrow> nd
      | Some ss \<Rightarrow> put_session sessionID (ss\<lparr>ds_status := StAborted, ds_error := reason\<rparr>) nd)"

fun handleDM ::
    "('s::field, 'g::ab_group_add) suite \<Rightarrow> 's dkg_env \<Rightarrow> string \<Rightarrow> dkg_message \<Rightarrow> ('s, 'g) dkg_node \<Rightarrow>
     (('s, 'g) dkg_node \<times> outbox) option" where
  "handleDM S env sender (DKGInit sid ps t n name expires) nd = Some (handleDKGInit env sender sid ps t n expires nd)"
| "handleDM S env sender (DKGAccept sid i) nd = handleDKGAccept S env sender sid nd"
| "handleDM S env sender (DKGCommit sid i c) nd = handleDKGCommit S env sender sid i c nd"
| "handleDM S env sender (DKGShare sid f t share pub) nd = handleDKGShare S env sender sid f t share nd"
| "handleDM S env sender (DKGVerify sid) nd = Some (nd, [])"
| "handleDM S env sender (DKGComplete sid i pk) nd = handleDKGComplete sid pk nd"
| "handleDM S env sender (DKGAbort sid i reason) nd = Some (handleDKGAbort sid reason nd, [])"

definition GetDKGSession :: "string \<Rightarrow> ('s, 'g) dkg_node \<Rightarrow> ('s, 'g) dist_session option" where
  "GetDKGSession sid nd = dn_sessions nd sid"

definition getPublicKeyFromPrivate :: "('s, 'g) suite \<Rightarrow> string \<Rightarrow> string option" where
  "getPublicKeyFromPrivate S privateKeyHex =
     (case hex_decode privateKeyHex of
        None \<Rightarrow> None
      | Some privBytes \<Rightarrow>
          if length privBytes \<noteq> 32 then None
          else map_option (\<lambda>priv. pubkeyToHex (enc_el S (smul S priv (base_pt S)))) (dec_sc S privBytes))"

definition NewDistributedDKG :: "('s, 'g) suite \<Rightarrow> frost_store \<Rightarrow> string \<Rightarrow> ('s, 'g) dkg_node option" where
  "NewDistributedDKG S st privateKeyHex =
     map_option (\<lambda>pubkey. \<lparr>dn_pubkey = pubkey, dn_sessions = Map.empty, dn_store = st\<rparr>)
       (getPublicKeyFromPrivate S privateKeyHex)"

end
