(* ===== verification/DKGNetwork.thy ===== *)
theory DKGNetwork
  imports DistDKG
begin

text \<open>
  A network of nodes that all run this code, addressed by their keys. Messages stay in the
  network, so a delivery may be late, repeated, out of order or never happen. A node skips direct
  messages from itself (\<open>nostr/dm.go\<close>), and a session id is fresh when a session is started.
\<close>

record ('s, 'g) dkg_world =
  dw_nodes :: "string \<Rightarrow> ('s, 'g) dkg_node"
  dw_net :: "(string \<times> string \<times> dkg_message) list"
  dw_started :: "string \<rightharpoonup> string \<times> string list \<times> int"

definition dkg_post :: "string \<Rightarrow> ('s, 'g) dkg_node \<Rightarrow> outbox \<Rightarrow> ('s, 'g) dkg_world \<Rightarrow> ('s, 'g) dkg_world" where
  "dkg_post p nd out w =
     w\<lparr>dw_nodes := (dw_nodes w)(p := nd), dw_net := map (\<lambda>(q, m). (p, q, m)) out @ dw_net w\<rparr>"

definition dkg_initial :: "(string \<Rightarrow> frost_store) \<Rightarrow> ('s, 'g) dkg_world" where
  "dkg_initial sts =
     \<lparr>dw_nodes = \<lambda>p. \<lparr>dn_pubkey = p, dn_sessions = Map.empty, dn_store = sts p\<rparr>, dw_net = [],
      dw_started = Map.empty\<rparr>"

inductive dkg_reachable ::
    "('s::field, 'g::ab_group_add) suite \<Rightarrow> (string \<Rightarrow> frost_store) \<Rightarrow> ('s, 'g) dkg_world \<Rightarrow> bool"
  for S :: "('s::field, 'g::ab_group_add) suite" and sts :: "string \<Rightarrow> frost_store" where
  dkg_start: "dkg_reachable S sts (dkg_initial sts)"
| dkg_initiate: "\<lbrakk>dkg_reachable S sts w; dw_started w (de_ids env 0) = None;
     InitiateSession env ps t name (dw_nodes w p) = (nd, out, Inr sid)\<rbrakk> \<Longrightarrow>
     dkg_reachable S sts (dkg_post p nd out (w\<lparr>dw_started := (dw_started w)(sid \<mapsto> (p, ps, t))\<rparr>))"
| dkg_deliver: "\<lbrakk>dkg_reachable S sts w; (p, q, m) \<in> set (dw_net w); p \<noteq> q;
     handleDM S env p m (dw_nodes w q) = Some (nd, out)\<rbrakk> \<Longrightarrow>
     dkg_reachable S sts (dkg_post q nd out w)"

text \<open>What a session and a message of a session started by \<open>init\<close> can be.\<close>

definition sess_ok :: "string \<Rightarrow> string list \<Rightarrow> int \<Rightarrow> string \<Rightarrow> ('s, 'g) dist_session \<Rightarrow> bool" where
  "sess_ok init ps t q ss \<longleftrightarrow>
     ds_participants ss = ps \<and> ds_threshold ss = t \<and> ds_total ss = int (length ps) \<and>
     index_of q ps = Some (ds_my_index ss) \<and>
     distinct (ds_accepted ss) \<and>
     set (ds_accepted ss) \<subseteq> (if q = ps ! 0 then (if init = q then set ps else set ps - {init}) else {q}) \<and>
     distinct (map fst (ds_commits ss)) \<and> fst ` set (ds_commits ss) \<subseteq> {1} \<and>
     (ds_status ss = StPending \<and> ds_round ss = 0 \<or>
      ds_status ss = StRound1 \<and> ds_round ss = 1 \<and> q = ps ! 0 \<and> init = q)"

fun msg_sid :: "dkg_message \<Rightarrow> string" where
  "msg_sid (DKGInit sid ps t n name expires) = sid"
| "msg_sid (DKGAccept sid i) = sid"
| "msg_sid (DKGCommit sid i c) = sid"
| "msg_sid (DKGShare sid f t share pub) = sid"
| "msg_sid (DKGVerify sid) = sid"
| "msg_sid (DKGComplete sid i pk) = sid"
| "msg_sid (DKGAbort sid i reason) = sid"

fun msg_ok :: "string \<Rightarrow> string list \<Rightarrow> int \<Rightarrow> string \<Rightarrow> string \<Rightarrow> dkg_message \<Rightarrow> bool" where
  "msg_ok init ps t p q (DKGInit sid ps' t' n name expires) \<longleftrightarrow> p = init \<and> ps' = ps \<and> t' = t \<and> n = int (length ps)"
| "msg_ok init ps t p q (DKGAccept sid i) \<longleftrightarrow> q = ps ! 0 \<and> p \<noteq> init"
| "msg_ok init ps t p q (DKGCommit sid i c) \<longleftrightarrow> i = 1"
| "msg_ok init ps t p q m \<longleftrightarrow> False"

definition started_ok :: "string \<times> string list \<times> int \<Rightarrow> bool" where
  "started_ok = (\<lambda>(init, ps, t). 2 \<le> t \<and> t \<le> int (length ps) \<and> init \<in> set ps)"

definition node_ok ::
    "(string \<Rightarrow> frost_store) \<Rightarrow> (string \<rightharpoonup> string \<times> string list \<times> int) \<Rightarrow> string \<Rightarrow> ('s, 'g) dkg_node \<Rightarrow> bool" where
  "node_ok sts started q nd \<longleftrightarrow>
     dn_pubkey nd = q \<and> dn_store nd = sts q \<and>
     (\<forall>sid ss. dn_sessions nd sid = Some ss \<longrightarrow>
        (case started sid of None \<Rightarrow> False | Some (init, ps, t) \<Rightarrow> sess_ok init ps t q ss)) \<and>
     (\<forall>sid init ps t. started sid = Some (init, ps, t) \<longrightarrow> init = q \<longrightarrow> dn_sessions nd sid \<noteq> None)"

definition net_ok ::
    "(string \<rightharpoonup> string \<times> string list \<times> int) \<Rightarrow> string \<Rightarrow> string \<Rightarrow> dkg_message \<Rightarrow> bool" where
  "net_ok started p q m \<longleftrightarrow>
     (case started (msg_sid m) of None \<Rightarrow> False | Some (init, ps, t) \<Rightarrow> msg_ok init ps t p q m)"

definition dkg_inv :: "(string \<Rightarrow> frost_store) \<Rightarrow> ('s, 'g) dkg_world \<Rightarrow> bool" where
  "dkg_inv sts w \<longleftrightarrow>
     (\<forall>q. node_ok sts (dw_started w) q (dw_nodes w q)) \<and>
     (\<forall>(p, q, m) \<in> set (dw_net w). net_ok (dw_started w) p q m) \<and>
     (\<forall>sid x. dw_started w sid = Some x \<longrightarrow> started_ok x)"

subsection \<open>Every handler keeps the invariant\<close>

lemma index_of_Some: "index_of p ps = Some i \<Longrightarrow> 1 \<le> i \<and> i \<le> int (length ps) \<and> ps ! nat (i - 1) = p"
proof (induction ps arbitrary: i)
  case (Cons q qs)
  show ?case
  proof (cases "q = p")
    case False
    then obtain j where j: "index_of p qs = Some j" "i = j + 1" using Cons.prems by auto
    then have "nat (i - 1) = Suc (nat (j - 1))" using Cons.IH [OF j(1)] by linarith
    then show ?thesis using Cons.IH [OF j(1)] j(2) by simp
  qed (use Cons.prems in simp)
qed simp

lemma index_of_mem: "index_of p ps = Some i \<Longrightarrow> p \<in> set ps"
  by (induction ps arbitrary: i) (auto split: if_splits)

lemma index_of_hd: "index_of p ps = Some i \<Longrightarrow> p = ps ! 0 \<Longrightarrow> i = 1"
  by (cases ps) auto

lemma sess_ok_put:
  assumes "node_ok sts started q nd" "started sid = Some (init, ps, t)" "sess_ok init ps t q ss"
  shows "node_ok sts started q (put_session sid ss nd)"
  using assms by (auto simp: node_ok_def put_session_def)

lemma node_ok_session:
  assumes "node_ok sts started q nd" "dn_sessions nd sid = Some ss" "started sid = Some (init, ps, t)"
  shows "sess_ok init ps t q ss"
  using assms unfolding node_ok_def by fastforce

lemma put_session_simps [simp]:
  "dn_sessions (put_session sid ss nd) = (dn_sessions nd)(sid \<mapsto> ss)"
  "dn_pubkey (put_session sid ss nd) = dn_pubkey nd" "dn_store (put_session sid ss nd) = dn_store nd"
  by (simp_all add: put_session_def)

lemma few_commits:
  assumes "sess_ok init ps t q ss"
  shows "length (ds_commits ss) \<le> 1"
proof -
  have "card (fst ` set (ds_commits ss)) \<le> card {1 :: int}"
    using assms by (intro card_mono) (auto simp: sess_ok_def)
  moreover have "length (ds_commits ss) = card (fst ` set (ds_commits ss))"
    using assms distinct_card [of "map fst (ds_commits ss)"] by (simp add: sess_ok_def)
  ultimately show ?thesis by simp
qed

lemma all_accepted:
  assumes ok: "sess_ok init ps t q ss" and st: "started_ok (init, ps, t)"
    and all: "int (length (ds_accepted ss)) = ds_total ss"
  shows "q = ps ! 0 \<and> init = q"
proof (rule ccontr)
  assume neg: "\<not> (q = ps ! 0 \<and> init = q)"
  have len: "length (ds_accepted ss) = length ps" "2 \<le> length ps" "init \<in> set ps"
    using ok st all by (auto simp: sess_ok_def started_ok_def)
  have d: "length (ds_accepted ss) = card (set (ds_accepted ss))"
    using ok by (simp add: sess_ok_def distinct_card)
  consider "set (ds_accepted ss) \<subseteq> {q}" | "set (ds_accepted ss) \<subseteq> set ps - {init}"
    using ok neg by (auto simp: sess_ok_def split: if_splits)
  then have "card (set (ds_accepted ss)) < length ps"
  proof cases
    case 1
    then have "card (set (ds_accepted ss)) \<le> card {q}" by (intro card_mono) auto
    then show ?thesis using len by simp
  next
    case 2
    then have "card (set (ds_accepted ss)) \<le> card (set ps - {init})" by (intro card_mono) auto
    also have "\<dots> < card (set ps)" using len by (intro psubset_card_mono) auto
    also have "\<dots> \<le> length ps" by (rule card_length)
    finally show ?thesis .
  qed
  then show False using d len by simp
qed

lemma commits_missing:
  "dn_sessions nd sid = Some ss \<Longrightarrow> int (length (ds_commits ss)) < ds_total ss \<Longrightarrow>
     checkRound1Complete S env sid nd = Some (nd, [])"
  by (simp add: checkRound1Complete_def)

lemma round1_incomplete:
  assumes "node_ok sts started q nd" "started sid = Some (init, ps, t)" "started_ok (init, ps, t)"
  shows "checkRound1Complete S env sid nd = Some (nd, [])"
proof (cases "dn_sessions nd sid")
  case (Some ss)
  note ok = node_ok_session [OF assms(1) Some assms(2)]
  then have "int (length (ds_commits ss)) < ds_total ss"
    using few_commits [OF ok] assms(3) by (simp add: sess_ok_def started_ok_def)
  then show ?thesis using Some by (simp add: checkRound1Complete_def)
qed (simp add: checkRound1Complete_def)

lemma one_commit:
  assumes "sess_ok init ps t q ss"
  shows "sess_ok init ps t q (ss\<lparr>ds_commits := AList.update 1 c (ds_commits ss)\<rparr>)"
  using assms by (auto simp: sess_ok_def distinct_update dom_update)

text \<open>A handler result that keeps the node in order and sends only messages in order.\<close>

definition result_ok ::
    "(string \<Rightarrow> frost_store) \<Rightarrow> (string \<rightharpoonup> string \<times> string list \<times> int) \<Rightarrow> string \<Rightarrow>
     (('s, 'g) dkg_node \<times> outbox) option \<Rightarrow> bool" where
  "result_ok sts started q r \<longleftrightarrow>
     (case r of None \<Rightarrow> False
      | Some (nd, out) \<Rightarrow> node_ok sts started q nd \<and> (\<forall>(p, m) \<in> set out. net_ok started q p m))"

lemma result_ok_quiet: "result_ok sts started q (Some (nd, [])) \<longleftrightarrow> node_ok sts started q nd"
  by (simp add: result_ok_def)

lemma result_ok_then_send:
  "result_ok sts started q (then_send out (Some (nd, []))) \<longleftrightarrow>
     node_ok sts started q nd \<and> (\<forall>(p, m) \<in> set out. net_ok started q p m)"
  by (simp add: result_ok_def then_send_def)

lemma startRound1_ok:
  assumes ok: "node_ok sts started q nd" and st: "started sid = Some (init, ps, t)" "started_ok (init, ps, t)"
    and ss: "dn_sessions nd sid = Some ss" and q: "q = ps ! 0" "init = q"
  shows "result_ok sts started q (startRound1 S env sid nd)"
proof (cases "ds_status ss = StPending")
  case True
  note sok = node_ok_session [OF ok ss st(1)]
  have i: "ds_my_index ss = 1"
    using sok q by (auto simp: sess_ok_def dest: index_of_hd)
  define c where "c = map (\<lambda>a. smul S a (base_pt S)) (map (de_random env) [0..<nat (ds_threshold ss)])"
  define ss' where "ss' = ss
    \<lparr>ds_status := StRound1, ds_round := 1, ds_polynomial := map (de_random env) [0..<nat (ds_threshold ss)],
     ds_commitment := c, ds_commits := AList.update 1 c (ds_commits ss)\<rparr>"
  have "sess_ok init ps t q ss'"
    using one_commit [OF sok, of c] q by (simp add: ss'_def sess_ok_def)
  then have nd': "node_ok sts started q (put_session sid ss' nd)"
    by (rule sess_ok_put [OF ok st(1)])
  have few: "length (AList.update 1 c' (ds_commits ss)) \<le> 1" for c'
    using few_commits [OF one_commit [OF sok, of c']] by simp
  have eq: "startRound1 S env sid nd =
      then_send (send_all env q ps (DKGCommit sid 1 (hex_encode (encodeCommitmentList S c))))
        (Some (put_session sid ss' nd, []))"
    using ss True sok st(2) ok i few [THEN le_less_trans]
    by (simp add: startRound1_def ss'_def c_def Let_def sess_ok_def started_ok_def node_ok_def commits_missing)
  show ?thesis
    unfolding eq result_ok_then_send using nd' st(1) by (auto simp: send_all_def net_ok_def)
qed (use assms in \<open>simp add: startRound1_def result_ok_quiet\<close>)

lemma handleDKGAccept_ok:
  assumes ok: "node_ok sts started q nd" and st: "started sid = Some (init, ps, t)" "started_ok (init, ps, t)"
    and m: "q = ps ! 0" "p \<noteq> init"
  shows "result_ok sts started q (handleDKGAccept S env p sid nd)"
proof (cases "dn_sessions nd sid")
  case (Some ss)
  note sok = node_ok_session [OF ok Some st(1)]
  show ?thesis
  proof (cases "p \<in> set ps")
    case True
    define ss' where "ss' = ss\<lparr>ds_accepted := List.insert p (ds_accepted ss)\<rparr>"
    have sok': "sess_ok init ps t q ss'"
      using sok m True by (auto simp: ss'_def sess_ok_def split: if_splits)
    then have nd': "node_ok sts started q (put_session sid ss' nd)"
      by (rule sess_ok_put [OF ok st(1)])
    show ?thesis
    proof (cases "int (length (ds_accepted ss')) = ds_total ss' \<and> ds_status ss' = StPending")
      case True
      then have "init = q" using all_accepted [OF sok' st(2)] by simp
      then have "result_ok sts started q (startRound1 S env sid (put_session sid ss' nd))"
        by (intro startRound1_ok [OF nd' st _ m(1)]) simp_all
      then show ?thesis
        using Some \<open>p \<in> set ps\<close> sok True by (simp add: handleDKGAccept_def sess_ok_def ss'_def Let_def)
    next
      case False
      then show ?thesis
        using Some \<open>p \<in> set ps\<close> sok nd'
        by (auto simp: handleDKGAccept_def sess_ok_def ss'_def Let_def result_ok_quiet)
    qed
  qed (use ok Some sok in \<open>simp add: handleDKGAccept_def sess_ok_def result_ok_quiet\<close>)
qed (use ok in \<open>simp add: handleDKGAccept_def result_ok_quiet\<close>)

lemma handleDKGCommit_ok:
  assumes ok: "node_ok sts started q nd" and st: "started sid = Some (init, ps, t)" "started_ok (init, ps, t)"
  shows "result_ok sts started q (handleDKGCommit S env p sid 1 c nd)"
proof (cases "dn_sessions nd sid")
  case (Some ss)
  note sok = node_ok_session [OF ok Some st(1)]
  have nd': "node_ok sts started q (put_session sid (ss\<lparr>ds_commits := AList.update 1 l (ds_commits ss)\<rparr>) nd)" for l
    by (rule sess_ok_put [OF ok st(1) one_commit [OF sok]])
  show ?thesis
    using Some ok nd' round1_incomplete [OF nd' st]
    by (auto simp: handleDKGCommit_def result_ok_quiet split: option.splits)
qed (use ok in \<open>simp add: handleDKGCommit_def result_ok_quiet\<close>)

lemma new_session_fields:
  "ds_initiator (new_session a ps t n now i acc) = a" "ds_my_index (new_session a ps t n now i acc) = i"
  by (simp_all add: new_session_def)

lemma node_pubkey: "node_ok sts started q nd \<Longrightarrow> dn_pubkey nd = q"
  by (simp add: node_ok_def)

lemma handleDKGInit_ok:
  assumes ok: "node_ok sts started q nd" and st: "started sid = Some (init, ps, t)" "started_ok (init, ps, t)"
    and q: "q \<noteq> init"
  shows "result_ok sts started q (Some (handleDKGInit env p sid ps t (int (length ps)) expires nd))"
proof (cases "index_of q ps")
  case None
  then show ?thesis using ok by (simp add: handleDKGInit_def result_ok_quiet node_pubkey)
next
  case (Some i)
  define s0 :: "('a, 'b) dist_session" where
    "s0 = new_session (ps ! 0) ps t (int (length ps)) (de_now env) i []"
  have init: "ds_initiator s0 = ps ! 0" by (simp add: s0_def new_session_fields)
  have s0: "sess_ok init ps t q s0"
    using Some by (simp add: s0_def new_session_def sess_ok_def)
  have s1: "sess_ok init ps t q (s0\<lparr>ds_accepted := List.insert q (ds_accepted s0)\<rparr>)"
    using s0 q index_of_mem [OF Some] by (auto simp: sess_ok_def s0_def new_session_def)
  show ?thesis
    using ok Some sess_ok_put [OF ok st(1) s0] sess_ok_put [OF sess_ok_put [OF ok st(1) s0] st(1) s1] st(1) q init
    by (simp add: handleDKGInit_def acceptSession_def result_ok_def net_ok_def s0_def [symmetric]
        new_session_fields node_pubkey)
qed

lemma handleDM_ok:
  assumes ok: "node_ok sts started q nd" and m: "net_ok started p q m" and pq: "p \<noteq> q"
    and st: "\<And>sid x. started sid = Some x \<Longrightarrow> started_ok x"
  shows "result_ok sts started q (handleDM S env p m nd)"
proof -
  obtain init ps t where s: "started (msg_sid m) = Some (init, ps, t)" "msg_ok init ps t p q m"
    using m by (auto simp: net_ok_def split: option.splits)
  note so = st [OF s(1)]
  show ?thesis
  proof (cases m)
    case (DKGInit sid ps' t' n name expires)
    then show ?thesis using handleDKGInit_ok [OF ok _ so, of sid] s pq by auto
  next
    case (DKGAccept sid i)
    then show ?thesis using handleDKGAccept_ok [OF ok _ so, of sid] s by auto
  next
    case (DKGCommit sid i c)
    then show ?thesis using handleDKGCommit_ok [OF ok _ so, of sid] s by auto
  qed (use s in auto)
qed

lemma node_ok_more:
  assumes "node_ok sts started q nd" "started sid = None" "q \<noteq> init"
  shows "node_ok sts (started(sid \<mapsto> (init, ps, t))) q nd"
proof -
  have "dn_sessions nd sid = None"
    using assms(1,2) unfolding node_ok_def by (cases "dn_sessions nd sid") force+
  then show ?thesis using assms unfolding node_ok_def by auto
qed

lemma net_ok_more: "net_ok started p q m \<Longrightarrow> started sid = None \<Longrightarrow> net_ok (started(sid \<mapsto> x)) p q m"
  by (auto simp: net_ok_def)

lemma InitiateSession_ok:
  assumes ok: "node_ok sts started p nd" and new: "started (de_ids env 0) = None"
    and run: "InitiateSession env ps t name nd = (nd', out, Inr sid)"
  shows "started_ok (p, ps, t) \<and> sid = de_ids env 0 \<and>
         result_ok sts (started(sid \<mapsto> (p, ps, t))) p (Some (nd', out))"
proof -
  from run ok obtain i where g: "2 \<le> t" "t \<le> int (length ps)" "index_of p ps = Some i" "sid = de_ids env 0"
    by (auto simp: InitiateSession_def node_pubkey Let_def split: if_splits option.splits)
  define ss :: "('a, 'b) dist_session" where
    "ss = new_session p ps t (int (length ps)) (de_now env) i [p]"
  have ss: "sess_ok p ps t p ss"
    using g index_of_mem [OF g(3)] by (auto simp: ss_def new_session_def sess_ok_def)
  from run ok g obtain e where eq: "nd' = put_session sid ss nd"
    "out = send_all env p ps (DKGInit sid ps t (int (length ps)) name e)"
    by (auto simp: InitiateSession_def node_pubkey Let_def ss_def split: if_splits)
  have "node_ok sts (started(sid \<mapsto> (p, ps, t))) p nd'"
    unfolding eq using ok new g(4) ss by (auto simp: node_ok_def split: option.splits)
  moreover have "\<forall>(q, m) \<in> set out. net_ok (started(sid \<mapsto> (p, ps, t))) p q m"
    by (auto simp: eq send_all_def net_ok_def)
  ultimately show ?thesis
    using g index_of_mem [OF g(3)] by (simp add: started_ok_def result_ok_def)
qed

lemma dkg_inv_post:
  assumes inv: "dkg_inv sts w" and r: "result_ok sts (dw_started w) q (Some (nd, out))"
  shows "dkg_inv sts (dkg_post q nd out w)"
  using assms by (auto simp: dkg_inv_def dkg_post_def result_ok_def)

lemma dkg_reachable_inv: "dkg_reachable S sts w \<Longrightarrow> dkg_inv sts w"
proof (induction rule: dkg_reachable.induct)
  case dkg_start
  show ?case by (simp add: dkg_inv_def dkg_initial_def node_ok_def)
next
  case (dkg_initiate w env ps t name p nd out sid)
  let ?w = "w\<lparr>dw_started := (dw_started w)(sid \<mapsto> (p, ps, t))\<rparr>"
  have ok: "node_ok sts (dw_started w) p (dw_nodes w p)" using dkg_initiate.IH by (simp add: dkg_inv_def)
  note i = InitiateSession_ok [OF ok dkg_initiate.hyps(2,3)]
  have "\<forall>q. q \<noteq> p \<longrightarrow> node_ok sts (dw_started ?w) q (dw_nodes w q)"
    using dkg_initiate.IH dkg_initiate.hyps(2) i by (auto simp: dkg_inv_def intro!: node_ok_more)
  moreover have "\<forall>(p, q, m) \<in> set (dw_net w). net_ok (dw_started ?w) p q m"
    using dkg_initiate.IH dkg_initiate.hyps(2) i by (fastforce simp: dkg_inv_def intro!: net_ok_more)
  ultimately show ?case
    using dkg_initiate.IH i by (auto simp: dkg_inv_def dkg_post_def result_ok_def)
next
  case (dkg_deliver w p q m env nd out)
  then have "result_ok sts (dw_started w) q (handleDM S env p m (dw_nodes w q))"
    by (intro handleDM_ok) (auto simp: dkg_inv_def)
  then show ?case using dkg_deliver by (intro dkg_inv_post) simp_all
qed

subsection \<open>The properties\<close>

text \<open>
  C15. Among nodes that all run this code, no distributed key generation ever completes: in every
  reachable state, whatever messages were delivered in whatever order, each session at each node
  is pending or in its first round and no node has stored a key or a share. (A node counts the
  acceptances it receives, and every acceptance goes to the first participant alone, so no other
  node ever sends a commitment.) No delivery of such a message crashes a node.\<close>

theorem distributed_dkg_never_completes:
  assumes "dkg_reachable S sts w"
  shows "(\<forall>q sid ss. GetDKGSession sid (dw_nodes w q) = Some ss \<longrightarrow>
            ds_status ss = StPending \<or> ds_status ss = StRound1 \<and> q = ds_participants ss ! 0) \<and>
         (\<forall>q. dn_store (dw_nodes w q) = sts q) \<and>
         (\<forall>(p, q, m) \<in> set (dw_net w). \<forall>env. p \<noteq> q \<longrightarrow> handleDM S env p m (dw_nodes w q) \<noteq> None)"
proof (intro conjI)
  note inv = dkg_reachable_inv [OF assms]
  then have ok: "node_ok sts (dw_started w) q (dw_nodes w q)" for q by (simp add: dkg_inv_def)
  then show "\<forall>q. dn_store (dw_nodes w q) = sts q" by (simp add: node_ok_def)
  show "\<forall>q sid ss. GetDKGSession sid (dw_nodes w q) = Some ss \<longrightarrow>
            ds_status ss = StPending \<or> ds_status ss = StRound1 \<and> q = ds_participants ss ! 0"
    using ok unfolding node_ok_def GetDKGSession_def
    by (force simp: sess_ok_def split: option.splits)
  have "handleDM S env p m (dw_nodes w q) \<noteq> None" if "(p, q, m) \<in> set (dw_net w)" "p \<noteq> q" for p q m env
  proof -
    have "result_ok sts (dw_started w) q (handleDM S env p m (dw_nodes w q))"
      using inv that by (intro handleDM_ok [OF ok]) (auto simp: dkg_inv_def)
    then show ?thesis by (cases "handleDM S env p m (dw_nodes w q)") (auto simp: result_ok_def)
  qed
  then show "\<forall>(p, q, m) \<in> set (dw_net w). \<forall>env. p \<noteq> q \<longrightarrow> handleDM S env p m (dw_nodes w q) \<noteq> None"
    by blast
qed

text \<open>Two nodes, run as far as they get: the initiator starts the first round and sends its commitment.\<close>

fun dkg_script ::
    "('s::field, 'g::ab_group_add) suite \<Rightarrow> 's dkg_env \<Rightarrow> nat list \<Rightarrow> ('s, 'g) dkg_world \<Rightarrow> ('s, 'g) dkg_world option" where
  "dkg_script S env [] w = Some w"
| "dkg_script S env (k # ks) w =
     (if k < length (dw_net w) then
        (case dw_net w ! k of (p, q, m) \<Rightarrow>
           if p = q then None
           else case handleDM S env p m (dw_nodes w q) of
             None \<Rightarrow> None
           | Some (nd, out) \<Rightarrow> dkg_script S env ks (dkg_post q nd out w))
      else None)"

lemma dkg_script_reachable:
  "dkg_reachable S sts w \<Longrightarrow> dkg_script S env ks w = Some w' \<Longrightarrow> dkg_reachable S sts w'"
proof (induction ks arbitrary: w)
  case (Cons k ks)
  then obtain p q m nd out where "k < length (dw_net w)" "dw_net w ! k = (p, q, m)" "p \<noteq> q"
    "handleDM S env p m (dw_nodes w q) = Some (nd, out)" "dkg_script S env ks (dkg_post q nd out w) = Some w'"
    by (auto split: if_splits option.splits prod.splits)
  then show ?case using Cons.IH [of "dkg_post q nd out w"] Cons.prems(1)
    by (metis dkg_deliver nth_mem)
qed simp

definition toy_dkg_env :: "gf7 dkg_env" where
  "toy_dkg_env = \<lparr>de_now = 0, de_random = (\<lambda>k. if k = 0 then N3 else N2), de_ids = (\<lambda>k. ''session1''),
     de_enc = None, de_sends = (\<lambda>p. True)\<rparr>"

definition toy_store :: frost_store where
  "toy_store = \<lparr>fo_keys = [], fo_by_pubkey = Map.empty, fo_shares = Map.empty, fo_by_key = Map.empty,
     fo_user_shares = [], fo_user_by_key = Map.empty\<rparr>"

definition toy_started :: "(gf7, gf7) dkg_world" where
  "toy_started =
     (let w = dkg_initial (\<lambda>p. toy_store);
          (nd, out, r) = InitiateSession toy_dkg_env [''A'', ''B''] 2 ''key'' (dw_nodes w ''A'')
      in dkg_post ''A'' nd out (w\<lparr>dw_started := [''session1'' \<mapsto> (''A'', [''A'', ''B''], 2)]\<rparr>))"

lemma dkg_initial_started: "dw_started (dkg_initial sts) = Map.empty"
  by (simp add: dkg_initial_def)

lemma toy_started_reachable: "dkg_reachable toy (\<lambda>p. toy_store) toy_started"
proof -
  obtain nd out where i: "InitiateSession toy_dkg_env [''A'', ''B''] 2 ''key''
      (dw_nodes (dkg_initial (\<lambda>p. toy_store) :: (gf7, gf7) dkg_world) ''A'') = (nd, out, Inr ''session1'')"
    by (simp add: InitiateSession_def dkg_initial_def toy_dkg_env_def Let_def)
  show ?thesis
    using dkg_initiate [OF dkg_start [of toy "\<lambda>p. toy_store"] _ i]
    by (simp add: toy_started_def i dkg_initial_started toy_dkg_env_def [THEN arg_cong, of de_ids])
qed

definition toy_dkg_run :: "(gf7, gf7) dkg_world option" where
  "toy_dkg_run = dkg_script toy toy_dkg_env [0, 0, 0] toy_started"

theorem distributed_dkg_never_completes_witness:
  "\<exists>w ss. toy_dkg_run = Some w \<and> dkg_reachable toy (\<lambda>p. toy_store) w \<and>
     GetDKGSession ''session1'' (dw_nodes w ''A'') = Some ss \<and> ds_status ss = StRound1 \<and>
     (\<forall>q. dn_store (dw_nodes w q) = toy_store)"
proof -
  have "map_option (\<lambda>w. map_option ds_status (GetDKGSession ''session1'' (dw_nodes w ''A''))) toy_dkg_run =
          Some (Some StRound1)"
    by code_simp
  then obtain w ss where w: "toy_dkg_run = Some w" "GetDKGSession ''session1'' (dw_nodes w ''A'') = Some ss"
    "ds_status ss = StRound1"
    by auto
  then have "dkg_reachable toy (\<lambda>p. toy_store) w"
    by (intro dkg_script_reachable [OF toy_started_reachable]) (unfold toy_dkg_run_def)
  with w distributed_dkg_never_completes [OF this] show ?thesis by blast
qed

section \<open>Single nodes\<close>

lemma crash_session:
  assumes "p \<noteq> dn_pubkey nd" "dn_sessions nd sid = None" "de_now env div seconds 1 \<le> expires" "de_sends env p"
  obtains nd' where
    "handleDM S env p (DKGInit sid [p, dn_pubkey nd] t 2 name expires) nd = Some (nd', [(p, DKGAccept sid 2)])"
    "dn_sessions nd' sid = Some (new_session p [p, dn_pubkey nd] t 2 (de_now env) 2 [dn_pubkey nd])"
  using assms by (auto simp: handleDKGInit_def acceptSession_def new_session_def Let_def)

text \<open>
  C16. A stranger can crash a signer that listens for key generation messages, with any of two
  pairs of messages: an invitation (which is accepted automatically) with a negative threshold and
  an acceptance, or any invitation and a completion notice whose key is shorter than 16 characters.\<close>

theorem dkg_messages_crash:
  assumes "p \<noteq> dn_pubkey nd" "dn_sessions nd sid = None" "de_now env div seconds 1 \<le> expires" "de_sends env p"
  shows "\<exists>nd' out. handleDM S env p (DKGInit sid [p, dn_pubkey nd] t 2 name expires) nd = Some (nd', out) \<and>
           (t < 0 \<longrightarrow> (\<forall>env'. handleDM S env' p (DKGAccept sid 1) nd' = None)) \<and>
           (\<forall>env' k. length k < 16 \<longrightarrow> handleDM S env' p (DKGComplete sid 1 k) nd' = None)"
proof -
  obtain nd' where nd': "handleDM S env p (DKGInit sid [p, dn_pubkey nd] t 2 name expires) nd =
      Some (nd', [(p, DKGAccept sid 2)])"
    "dn_sessions nd' sid = Some (new_session p [p, dn_pubkey nd] t 2 (de_now env) 2 [dn_pubkey nd])"
    using crash_session [OF assms] .
  have "handleDM S env' p (DKGComplete sid 1 k) nd' = None" if "length k < 16" for env' k
    using nd'(2) that by (simp add: handleDKGComplete_def)
  moreover have "handleDM S env' p (DKGAccept sid 1) nd' = None" if "t < 0" for env'
    using nd'(2) that assms(1)
    by (simp add: handleDKGAccept_def startRound1_def new_session_def)
  ultimately show ?thesis using nd'(1) by blast
qed

theorem dkg_messages_crash_witness:
  "\<exists>nd' out. handleDM toy toy_dkg_env ''B''
       (DKGInit ''session1'' [''B'', ''A''] (-1) 2 ''key'' 300) (dw_nodes (dkg_initial (\<lambda>p. toy_store)) ''A'') =
       Some (nd', out) \<and>
     handleDM toy toy_dkg_env ''B'' (DKGAccept ''session1'' 1) nd' = None \<and>
     handleDM toy toy_dkg_env ''B'' (DKGComplete ''session1'' 1 ''02'') nd' = None"
  using dkg_messages_crash [of "''B''" "dw_nodes (dkg_initial (\<lambda>p. toy_store)) ''A''" "''session1''"
      toy_dkg_env 300 toy "-1" "''key''"]
  by (auto simp: dkg_initial_def toy_dkg_env_def)

text \<open>The index of a participant is cut to a byte: participant 256 is sent the polynomial's secret.\<close>

lemma share_256_is_secret:
  assumes "suite_laws S"
  shows "evaluatePolynomial S (a # cs) 256 = a"
  using assms by (simp add: evaluatePolynomial_poly byte_scalar_eq)

definition commit_poly :: "('s::field, 'g) suite \<Rightarrow> 's list \<Rightarrow> 'g list" where
  "commit_poly S f = map (\<lambda>a. smul S a (base_pt S)) f"

lemma commit_contribution:
  "suite_laws S \<Longrightarrow> 0 \<le> i \<Longrightarrow> i < 256 \<Longrightarrow>
     computePublicShareContribution S i (commit_poly S f) = smul S (poly f (of_int i)) (base_pt S)"
  unfolding commit_poly_def
  by (simp add: computePublicShareContribution_eq evaluatePolynomial_poly byte_scalar_small)

lemma public_share_loop_tail:
  assumes "suite_laws S" "0 \<le> i" "i < 256" "1 \<notin> fst ` set fs"
  shows "public_share_loop S i (map (\<lambda>(j, f). (j, commit_poly S f)) fs) P =
           P + smul S (\<Sum>(j, f)\<leftarrow>fs. poly f (of_int i)) (base_pt S)"
  using assms(4)
  by (induction fs arbitrary: P)
    (auto simp: Let_def commit_contribution [OF assms(1-3)] smul_simps [OF assms(1)])

lemma public_share_loop_append:
  "public_share_loop S i (xs @ ys) P = public_share_loop S i ys (public_share_loop S i xs P)"
  by (induction xs arbitrary: P) (auto simp: Let_def)

text \<open>
  The verification shares a completed distributed key generation would store depend on the
  order in which Go iterates over the commitments: the loop restarts the sum at the first
  participant's commitment, so the contributions iterated before it are lost, and the stored share
  of participant \<open>i\<close> is the public key of its share only if those contributions sum to zero.\<close>

theorem public_shares_follow_map_order:
  assumes "suite_laws S" "0 \<le> i" "i < 256" "1 \<notin> fst ` set (before @ after)"
    and all: "fs = before @ (1, f1) # after"
  shows "public_share_loop S i (map (\<lambda>(j, f). (j, commit_poly S f)) fs) 0 =
           smul S (poly f1 (of_int i) + (\<Sum>(j, f)\<leftarrow>after. poly f (of_int i))) (base_pt S) \<and>
         (public_share_loop S i (map (\<lambda>(j, f). (j, commit_poly S f)) fs) 0 =
            smul S (\<Sum>(j, f)\<leftarrow>fs. poly f (of_int i)) (base_pt S) \<longleftrightarrow>
          (\<Sum>(j, f)\<leftarrow>before. poly f (of_int i)) = 0)"
proof -
  have "public_share_loop S i (map (\<lambda>(j, f). (j, commit_poly S f)) fs) 0 =
      smul S (poly f1 (of_int i) + (\<Sum>(j, f)\<leftarrow>after. poly f (of_int i))) (base_pt S)"
    using assms(1-4) public_share_loop_tail [OF assms(1-3), of after]
    by (simp add: all public_share_loop_append Let_def commit_contribution image_Un smul_simps [OF assms(1)])
  then show ?thesis by (simp add: smul_base_inj [OF assms(1)] all add.commute add.left_commute)
qed

theorem public_shares_follow_map_order_witness:
  "public_share_loop toy 1 [(2, commit_poly toy [N1, N1]), (1, commit_poly toy [N3, N1])] 0 = N4 \<and>
   public_share_loop toy 1 [(2, commit_poly toy [N1, N1]), (1, commit_poly toy [N3, N1])] 0 \<noteq>
     smul toy (N2 + N4) (base_pt toy)"
proof -
  let ?fs = "[(2 :: int, [N1, N1]), (1, [N3, N1])]"
  have m: "map (\<lambda>(j, f). (j, commit_poly toy f)) ?fs = [(2, commit_poly toy [N1, N1]), (1, commit_poly toy [N3, N1])]"
    by simp
  have s: "(\<Sum>(j, f)\<leftarrow>?fs. poly f (of_int 1)) = N2 + N4" "(\<Sum>(j, f)\<leftarrow>[(2 :: int, [N1, N1])]. poly f (of_int 1)) \<noteq> 0"
    "poly [N3, N1] (of_int 1) + (\<Sum>(j, f)\<leftarrow>[]. poly f (of_int 1)) = N4" "smul toy N4 (base_pt toy) = N4"
    by code_simp+
  have "?fs = [(2, [N1, N1])] @ (1, [N3, N1]) # []" by simp
  from public_shares_follow_map_order [OF toy_laws _ _ _ this, of 1]
  show ?thesis unfolding m s(1,3,4) using s(2) by (auto simp del: public_share_loop.simps)
qed

end
