(* ===== verification/Redis.thy ===== *)
theory Redis
  imports Prelude
begin

text \<open>
  Dragonfly/Redis, a service the signer only calls: a record of two functions that the definitions
  take as an argument. What a client can observe of a key is its value and the instant it expires
  (\<open>GET\<close>, \<open>PTTL\<close>); every write command leaves a key with a new value and expiry, or without one.
  The documented behaviour the code relies on is \<open>redis_laws\<close>: a write is seen by later reads of
  that key and of no other, and a key disappears when its expiry is reached.

  The commands below are the ones the signer sends; a Lua script is executed as one step.
\<close>

record ('r, 'v) redis =
  rd_view :: "'r \<Rightarrow> time \<Rightarrow> string \<Rightarrow> ('v \<times> time option) option"
  rd_put :: "time \<Rightarrow> string \<Rightarrow> ('v \<times> time option) option \<Rightarrow> 'r \<Rightarrow> 'r"

fun unexpired :: "time \<Rightarrow> ('v \<times> time option) option \<Rightarrow> ('v \<times> time option) option" where
  "unexpired t (Some (v, Some e)) = (if e \<le> t then None else Some (v, Some e))"
| "unexpired t x = x"

definition redis_laws :: "('r, 'v) redis \<Rightarrow> bool" where
  "redis_laws R \<longleftrightarrow>
     (\<forall>r now k x t j. now \<le> t \<longrightarrow>
        rd_view R (rd_put R now k x r) t j = (if j = k then unexpired t x else rd_view R r t j)) \<and>
     (\<forall>r t t' k. t \<le> t' \<longrightarrow> rd_view R r t' k = unexpired t' (rd_view R r t k))"

subsection \<open>Commands\<close>

text \<open>Go's \<open>Duration.Milliseconds\<close>, the unit of \<open>PEXPIRE\<close>.\<close>

definition milliseconds :: "int \<Rightarrow> int" where
  "milliseconds d = (d div 1000000) * 1000000"

definition redis_get :: "('r, 'v) redis \<Rightarrow> time \<Rightarrow> string \<Rightarrow> 'r \<Rightarrow> 'v option" where
  "redis_get R now k r = map_option fst (rd_view R r now k)"

definition redis_set :: "('r, 'v) redis \<Rightarrow> time \<Rightarrow> string \<Rightarrow> 'v \<Rightarrow> int \<Rightarrow> 'r \<Rightarrow> 'r" where
  "redis_set R now k v ttl r = rd_put R now k (Some (v, Some (now + ttl))) r"

definition redis_set_keepttl :: "('r, 'v) redis \<Rightarrow> time \<Rightarrow> string \<Rightarrow> 'v \<Rightarrow> 'r \<Rightarrow> 'r" where
  "redis_set_keepttl R now k v r =
     rd_put R now k (Some (v, case rd_view R r now k of None \<Rightarrow> None | Some (_, e) \<Rightarrow> e)) r"

definition redis_setnx :: "('r, 'v) redis \<Rightarrow> time \<Rightarrow> string \<Rightarrow> 'v \<Rightarrow> int \<Rightarrow> 'r \<Rightarrow> 'r \<times> bool" where
  "redis_setnx R now k v ttl r =
     (case rd_view R r now k of None \<Rightarrow> (redis_set R now k v ttl r, True) | Some _ \<Rightarrow> (r, False))"

definition redis_del :: "('r, 'v) redis \<Rightarrow> time \<Rightarrow> string \<Rightarrow> 'r \<Rightarrow> 'r" where
  "redis_del R now k r = rd_put R now k None r"

definition redis_expire :: "('r, 'v) redis \<Rightarrow> time \<Rightarrow> string \<Rightarrow> int \<Rightarrow> 'r \<Rightarrow> 'r" where
  "redis_expire R now k ttl r =
     (case rd_view R r now k of None \<Rightarrow> r | Some (v, e) \<Rightarrow> rd_put R now k (Some (v, Some (now + ttl))) r)"

definition redis_incrby :: "('r, int) redis \<Rightarrow> time \<Rightarrow> string \<Rightarrow> int \<Rightarrow> 'r \<Rightarrow> 'r \<times> int" where
  "redis_incrby R now k d r =
     (let (c, e) = (case rd_view R r now k of None \<Rightarrow> (0, None) | Some x \<Rightarrow> x)
      in (rd_put R now k (Some (c + d, e)) r, c + d))"

lemmas redis_commands = redis_get_def redis_set_def redis_set_keepttl_def redis_setnx_def
  redis_del_def redis_expire_def redis_incrby_def

lemma redis_put:
  assumes "redis_laws R" "now \<le> t"
  shows "rd_view R (rd_put R now k x r) t j = (if j = k then unexpired t x else rd_view R r t j)"
  using assms unfolding redis_laws_def by blast

lemma redis_later: "redis_laws R \<Longrightarrow> t \<le> t' \<Longrightarrow> rd_view R r t' k = unexpired t' (rd_view R r t k)"
  by (simp add: redis_laws_def)

lemma unexpired_Some: "unexpired t x = Some (v, e) \<Longrightarrow> x = Some (v, e) \<and> (\<forall>d. e = Some d \<longrightarrow> t < d)"
  by (cases x) (auto elim!: unexpired.elims split: if_splits)

lemma redis_live: "redis_laws R \<Longrightarrow> rd_view R r t k = Some (v, Some e) \<Longrightarrow> t < e"
  using redis_later [of R t t r k] unexpired_Some [of t "rd_view R r t k" v "Some e"] by simp

subsection \<open>A store that behaves so\<close>

definition kv_redis :: "(string \<rightharpoonup> 'v \<times> time option, 'v) redis" where
  "kv_redis = \<lparr>rd_view = (\<lambda>r t k. unexpired t (r k)), rd_put = (\<lambda>now k x r. r(k := x))\<rparr>"

lemma kv_redis_simps [simp]:
  "rd_view kv_redis r t k = unexpired t (r k)" "rd_put kv_redis now k x r = r(k := x)"
  by (simp_all add: kv_redis_def)

lemma unexpired_twice: "t \<le> t' \<Longrightarrow> unexpired t' (unexpired t x) = unexpired t' x"
proof (cases x)
  case (Some p)
  then show "t \<le> t' \<Longrightarrow> ?thesis" by (cases p; cases "snd p") auto
qed simp

lemma kv_redis_laws: "redis_laws kv_redis"
  by (simp add: redis_laws_def unexpired_twice)

end
