(* ===== verification/RateLimit.thy ===== *)
theory RateLimit
  imports Redis "HOL-Library.AList"
begin

text \<open>
  Attempt limits (\<open>internal/ratelimit/ratelimit.go\<close>): fixed-window counters in process memory or
  in Redis behind one interface, and the hashing of client addresses into bucket keys.

  A counter that a backend failure keeps from answering is the error result of its operation;
  whether Redis answers is an argument. Keyed hashing is a parameter.
\<close>

text \<open>\<open>type Limiter interface\<close>: the answer, and whether the backend failed.\<close>

record 's limiter =
  lm_allow :: "time \<Rightarrow> string \<Rightarrow> int \<Rightarrow> int \<Rightarrow> 's \<Rightarrow> 's \<times> bool \<times> bool"
  lm_release :: "time \<Rightarrow> string \<Rightarrow> 's \<Rightarrow> 's \<times> bool"
  lm_count :: "time \<Rightarrow> string \<Rightarrow> 's \<Rightarrow> int \<times> bool"

subsection \<open>The Redis-backed limiter\<close>

text \<open>The script: \<open>INCR\<close>, then \<open>PEXPIRE\<close> if the counter is new or has no expiry.\<close>

definition allowScript :: "('r, int) redis \<Rightarrow> time \<Rightarrow> string \<Rightarrow> int \<Rightarrow> 'r \<Rightarrow> 'r \<times> int" where
  "allowScript R now k window r =
     (let (r, c) = redis_incrby R now k 1 r in
      (if c = 1 \<or> (case rd_view R r now k of Some (_, None) \<Rightarrow> True | _ \<Rightarrow> False)
       then redis_expire R now k (milliseconds window) r else r, c))"

definition redisAllow ::
    "('r, int) redis \<Rightarrow> bool \<Rightarrow> string \<Rightarrow> time \<Rightarrow> string \<Rightarrow> int \<Rightarrow> int \<Rightarrow> 'r \<Rightarrow> 'r \<times> bool \<times> bool" where
  "redisAllow R up prefix now key limit window r =
     (if \<not> up then (r, True, True)
      else let (r, c) = allowScript R now (prefix @ key) window r in (r, c \<le> limit, False))"

definition redisCount :: "('r, int) redis \<Rightarrow> bool \<Rightarrow> string \<Rightarrow> time \<Rightarrow> string \<Rightarrow> 'r \<Rightarrow> int \<times> bool" where
  "redisCount R up prefix now key r =
     (if \<not> up then (0, True)
      else (case redis_get R now (prefix @ key) r of None \<Rightarrow> 0 | Some n \<Rightarrow> n, False))"

definition redisRelease :: "('r, int) redis \<Rightarrow> bool \<Rightarrow> string \<Rightarrow> time \<Rightarrow> string \<Rightarrow> 'r \<Rightarrow> 'r \<times> bool" where
  "redisRelease R up prefix now key r =
     (if \<not> up then (r, True)
      else (case redis_get R now (prefix @ key) r of
              None \<Rightarrow> r
            | Some v \<Rightarrow> if v > 0 then fst (redis_incrby R now (prefix @ key) (-1) r) else r, False))"

definition redisLimiter :: "('r, int) redis \<Rightarrow> bool \<Rightarrow> string \<Rightarrow> 'r limiter" where
  "redisLimiter R up prefix =
     \<lparr>lm_allow = redisAllow R up prefix, lm_release = redisRelease R up prefix, lm_count = redisCount R up prefix\<rparr>"

subsection \<open>The memory-backed limiter\<close>

record mem_window =
  mw_count :: int
  mw_expires_at :: time

type_synonym mem_windows = "(string \<times> mem_window) list"

definition sweepWindows :: "time \<Rightarrow> mem_windows \<Rightarrow> mem_windows" where
  "sweepWindows now m =
     (if length m > 4096 then filter (\<lambda>(k, _). \<not> now > mw_expires_at (the (map_of m k))) m else m)"

definition memAllow :: "time \<Rightarrow> string \<Rightarrow> int \<Rightarrow> int \<Rightarrow> mem_windows \<Rightarrow> mem_windows \<times> bool \<times> bool" where
  "memAllow now key limit window m =
     (let m = sweepWindows now m in
      case map_of m key of
        Some w \<Rightarrow>
          if now > mw_expires_at w
          then (AList.update key \<lparr>mw_count = 1, mw_expires_at = now + window\<rparr> m, 1 \<le> limit, False)
          else (AList.update key (w\<lparr>mw_count := mw_count w + 1\<rparr>) m, mw_count w + 1 \<le> limit, False)
      | None \<Rightarrow> (AList.update key \<lparr>mw_count = 1, mw_expires_at = now + window\<rparr> m, 1 \<le> limit, False))"

definition memCount :: "time \<Rightarrow> string \<Rightarrow> mem_windows \<Rightarrow> int \<times> bool" where
  "memCount now key m =
     (case map_of m key of
        Some w \<Rightarrow> (if now < mw_expires_at w then mw_count w else 0, False)
      | None \<Rightarrow> (0, False))"

definition memRelease :: "time \<Rightarrow> string \<Rightarrow> mem_windows \<Rightarrow> mem_windows \<times> bool" where
  "memRelease now key m =
     (case map_of m key of
        Some w \<Rightarrow>
          (if now < mw_expires_at w \<and> mw_count w > 0
           then AList.update key (w\<lparr>mw_count := mw_count w - 1\<rparr>) m else m, False)
      | None \<Rightarrow> (m, False))"

definition memLimiter :: "mem_windows limiter" where
  "memLimiter = \<lparr>lm_allow = memAllow, lm_release = memRelease, lm_count = memCount\<rparr>"

subsection \<open>Address buckets\<close>

text \<open>
  \<open>IPHasher\<close>. Shared mode has a base secret and derives one key per epoch; process mode has a
  random secret that is replaced when it is due. \<open>keyed b s\<close> stands for the keyed hashing of the
  code (HMAC-SHA256 chains, hex-encoded).
\<close>

record ip_hasher =
  ih_base :: "bytes option"
  ih_period :: int
  ih_secret :: bytes
  ih_rotate_at :: time

record ip_keys =
  ik_epoch_key :: "bytes \<Rightarrow> int \<Rightarrow> string \<Rightarrow> string"
  ik_secret_key :: "bytes \<Rightarrow> string \<Rightarrow> string"

definition NewSharedIPHasher :: "bytes \<Rightarrow> int \<Rightarrow> ip_hasher" where
  "NewSharedIPHasher b period =
     \<lparr>ih_base = Some b, ih_period = (if period \<le> 0 then seconds 3600 else period), ih_secret = [], ih_rotate_at = 0\<rparr>"

definition NewIPHasher :: "time \<Rightarrow> bytes option \<Rightarrow> int \<Rightarrow> ip_hasher option" where
  "NewIPHasher now random period =
     (let period = (if period \<le> 0 then seconds 3600 else period) in
      map_option (\<lambda>s. \<lparr>ih_base = None, ih_period = period, ih_secret = s, ih_rotate_at = now + period\<rparr>) random)"

text \<open>A period below a second divides by zero: the code panics.\<close>

definition sharedKeys :: "ip_keys \<Rightarrow> bytes \<Rightarrow> int \<Rightarrow> time \<Rightarrow> string \<Rightarrow> (string \<times> string) option" where
  "sharedKeys K b period now ip =
     (if period div seconds 1 = 0 then None
      else (let e = now div seconds 1 div (period div seconds 1) in
            Some (ik_epoch_key K b e ip, ik_epoch_key K b (e - 1) ip)))"

definition rotateSecret :: "time \<Rightarrow> bytes option \<Rightarrow> ip_hasher \<Rightarrow> ip_hasher" where
  "rotateSecret now random h =
     (if now > ih_rotate_at h
      then (case random of
              None \<Rightarrow> h\<lparr>ih_rotate_at := now + ih_period h\<rparr>
            | Some s \<Rightarrow> h\<lparr>ih_secret := s, ih_rotate_at := now + ih_period h\<rparr>)
      else h)"

text \<open>\<open>Keys\<close>: the key of the current epoch and of the previous one (none in process mode).\<close>

definition ipKeys ::
    "ip_keys \<Rightarrow> time \<Rightarrow> bytes option \<Rightarrow> string \<Rightarrow> ip_hasher \<Rightarrow> (ip_hasher \<times> string \<times> string) option" where
  "ipKeys K now random ip h =
     (case ih_base h of
        None \<Rightarrow>
          (let h = (if now < ih_rotate_at h then h else rotateSecret now random h)
           in Some (h, ik_secret_key K (ih_secret h) ip, ''''))
      | Some b \<Rightarrow> map_option (\<lambda>(cur, prev). (h, cur, prev)) (sharedKeys K b (ih_period h) now ip))"

text \<open>
  \<open>AllowIP\<close>: the answer, the reserved key (empty when there is none to hand back) and whether the
  backend failed.
\<close>

definition AllowIP ::
    "'s limiter \<Rightarrow> ip_keys \<Rightarrow> time \<Rightarrow> bytes option \<Rightarrow> string \<Rightarrow> string \<Rightarrow> int \<Rightarrow> int \<Rightarrow> ip_hasher \<Rightarrow> 's \<Rightarrow>
     (ip_hasher \<times> 's \<times> bool \<times> string \<times> bool) option" where
  "AllowIP L K now random prefix ip limit window h s =
     (case ipKeys K now random ip h of
        None \<Rightarrow> None
      | Some (h, cur, prev) \<Rightarrow>
     (let (used, failed) = (if prev \<noteq> '''' then lm_count L now (prefix @ prev) s else (0, False)) in
      if failed then Some (h, s, True, '''', True)
      else if used \<ge> limit then Some (h, s, False, '''', False)
      else
        (let key = prefix @ cur;
             (s, allowed, err) = lm_allow L now key (limit - used) window s in
         if \<not> allowed then Some (h, fst (lm_release L now key s), False, '''', err)
         else Some (h, s, True, key, err))))"

section \<open>The contract of a limiter\<close>

text \<open>
  What clients of the interface rely on, over the open window \<open>(used, end)\<close> of a key: an attempt in
  an open window is counted and compared with the limit, an attempt outside one opens a window, a
  release hands one unit back, and keys do not affect each other.
\<close>

definition whole_window :: "int \<Rightarrow> bool" where
  "whole_window w \<longleftrightarrow> 0 < w \<and> milliseconds w = w"

locale fixed_window =
  fixes L :: "'s limiter" and live :: "'s \<Rightarrow> time \<Rightarrow> string \<Rightarrow> (int \<times> time) option"
    and absent :: "'s \<Rightarrow> time \<Rightarrow> string \<Rightarrow> bool"
  assumes allow_live: "\<lbrakk>live s now k = Some (c, e); lm_allow L now k n w s = (s', a, err); whole_window w; 0 \<le> c; e \<le> now + w\<rbrakk> \<Longrightarrow>
      (a \<longleftrightarrow> c + 1 \<le> n) \<and> (\<exists>e' \<ge> e. e' \<le> now + w \<and> (\<forall>t. now \<le> t \<and> t < e' \<longrightarrow> live s' t k = Some (c + 1, e')))"
    and allow_absent: "\<lbrakk>absent s now k; lm_allow L now k n w s = (s', a, err); whole_window w\<rbrakk> \<Longrightarrow>
      (a \<longleftrightarrow> 1 \<le> n) \<and> (\<forall>t. now \<le> t \<and> t < now + w \<longrightarrow> live s' t k = Some (1, now + w))"
    and release_live: "\<lbrakk>live s now k = Some (c, e); lm_release L now k s = (s', err); now \<le> t; t < e\<rbrakk> \<Longrightarrow>
      live s' t k = Some (if 0 < c then c - 1 else c, e)"
    and allow_other: "\<lbrakk>lm_allow L now k n w s = (s', a, err); j \<noteq> k; now \<le> t\<rbrakk> \<Longrightarrow> live s' t j = live s t j"
    and release_other: "\<lbrakk>lm_release L now k s = (s', err); j \<noteq> k; now \<le> t\<rbrakk> \<Longrightarrow> live s' t j = live s t j"
    and live_later: "\<lbrakk>live s now k = Some (c, e); now \<le> t; t < e\<rbrakk> \<Longrightarrow> live s t k = Some (c, e)"
    and live_before: "live s now k = Some (c, e) \<Longrightarrow> now < e"

definition mem_live :: "mem_windows \<Rightarrow> time \<Rightarrow> string \<Rightarrow> (int \<times> time) option" where
  "mem_live m t k =
     (case map_of m k of
        Some w \<Rightarrow> if t < mw_expires_at w then Some (mw_count w, mw_expires_at w) else None
      | None \<Rightarrow> None)"

definition mem_absent :: "mem_windows \<Rightarrow> time \<Rightarrow> string \<Rightarrow> bool" where
  "mem_absent m t k \<longleftrightarrow> (\<forall>w. map_of m k = Some w \<longrightarrow> t > mw_expires_at w)"

lemma map_of_filter_keys: "map_of (filter (\<lambda>(k, _). P k) m) k = (if P k then map_of m k else None)"
  by (induction m) auto

lemma map_of_sweepWindows:
  "map_of (sweepWindows now m) k =
     (case map_of m k of None \<Rightarrow> None
      | Some w \<Rightarrow> if length m > 4096 \<and> now > mw_expires_at w then None else Some w)"
  by (auto simp: sweepWindows_def map_of_filter_keys split: option.splits)

lemma memAllow_view:
  assumes "memAllow now k n w m = (m', a, err)"
  shows "map_of m' j =
      (if j = k then
         (case map_of m k of
            Some x \<Rightarrow> Some (if now > mw_expires_at x then \<lparr>mw_count = 1, mw_expires_at = now + w\<rparr>
                           else x\<lparr>mw_count := mw_count x + 1\<rparr>)
          | None \<Rightarrow> Some \<lparr>mw_count = 1, mw_expires_at = now + w\<rparr>)
       else map_of (sweepWindows now m) j)"
    and "a \<longleftrightarrow> (case map_of m k of Some x \<Rightarrow> if now > mw_expires_at x then 1 \<le> n else mw_count x + 1 \<le> n | None \<Rightarrow> 1 \<le> n)"
    and "\<not> err"
  using assms
  by (auto simp: memAllow_def Let_def map_of_sweepWindows AList.update_conv' split: option.splits if_splits)

lemma memRelease_view:
  assumes "memRelease now k m = (m', err)"
  shows "map_of m' j =
      (if j = k then
         (case map_of m k of
            Some x \<Rightarrow> Some (if now < mw_expires_at x \<and> mw_count x > 0 then x\<lparr>mw_count := mw_count x - 1\<rparr> else x)
          | None \<Rightarrow> None)
       else map_of m j)"
  using assms by (auto simp: memRelease_def AList.update_conv' split: option.splits if_splits)

interpretation mem: fixed_window memLimiter mem_live mem_absent
proof
  fix s s' now k c e n w a err j t
  show "(a \<longleftrightarrow> c + 1 \<le> n) \<and>
      (\<exists>e' \<ge> e. e' \<le> now + w \<and> (\<forall>t. now \<le> t \<and> t < e' \<longrightarrow> mem_live s' t k = Some (c + 1, e')))"
    if l: "mem_live s now k = Some (c, e)" and r: "lm_allow memLimiter now k n w s = (s', a, err)"
      and "whole_window w" "0 \<le> c" "e \<le> now + w"
    using l that(5) memAllow_view [OF r [unfolded memLimiter_def, simplified]]
    by (auto simp: mem_live_def split: option.splits if_splits)
  show "(a \<longleftrightarrow> 1 \<le> n) \<and> (\<forall>t. now \<le> t \<and> t < now + w \<longrightarrow> mem_live s' t k = Some (1, now + w))"
    if l: "mem_absent s now k" and r: "lm_allow memLimiter now k n w s = (s', a, err)" and "whole_window w"
    using l memAllow_view [OF r [unfolded memLimiter_def, simplified]]
    by (auto simp: mem_live_def mem_absent_def split: option.splits)
  show "mem_live s' t k = Some (if 0 < c then c - 1 else c, e)"
    if l: "mem_live s now k = Some (c, e)" and r: "lm_release memLimiter now k s = (s', err)" and "now \<le> t" "t < e"
    using l that(4) memRelease_view [OF r [unfolded memLimiter_def, simplified]]
    by (auto simp: mem_live_def split: option.splits if_splits)
  show "mem_live s' t j = mem_live s t j"
    if r: "lm_allow memLimiter now k n w s = (s', a, err)" and "j \<noteq> k" "now \<le> t"
    using that(2,3) memAllow_view(1) [OF r [unfolded memLimiter_def, simplified], of j]
    by (auto simp: mem_live_def map_of_sweepWindows split: option.splits)
  show "mem_live s' t j = mem_live s t j"
    if r: "lm_release memLimiter now k s = (s', err)" and "j \<noteq> k" "now \<le> t"
    using that(2) memRelease_view [OF r [unfolded memLimiter_def, simplified], of j]
    by (simp add: mem_live_def)
  show "mem_live s t k = Some (c, e)" if "mem_live s now k = Some (c, e)" "now \<le> t" "t < e"
    using that by (auto simp: mem_live_def split: option.splits if_splits)
  show "now < e" if "mem_live s now k = Some (c, e)"
    using that by (auto simp: mem_live_def split: option.splits if_splits)
qed

text \<open>The Redis limiter keeps the contract too; releases may only lengthen an open window.\<close>

definition redis_window :: "('r, int) redis \<Rightarrow> string \<Rightarrow> 'r \<Rightarrow> time \<Rightarrow> string \<Rightarrow> (int \<times> time) option" where
  "redis_window R prefix r t k =
     (case rd_view R r t (prefix @ k) of Some (c, Some e) \<Rightarrow> Some (c, e) | _ \<Rightarrow> None)"

lemma allowScript_view:
  assumes R: "redis_laws R" and run: "allowScript R now k w r = (r', c)" and "0 < w" "milliseconds w = w" "now \<le> t"
  shows "rd_view R r' t j =
      (if j = k then
         unexpired t (case rd_view R r now k of
            Some (v, Some e) \<Rightarrow> if v = 0 then Some (1, Some (now + w)) else Some (v + 1, Some e)
          | Some (v, None) \<Rightarrow> Some (v + 1, Some (now + w))
          | None \<Rightarrow> Some (1, Some (now + w)))
       else rd_view R r t j)"
    and "c = (case rd_view R r now k of Some (v, e) \<Rightarrow> v + 1 | None \<Rightarrow> 1)"
  using assms(2-) redis_live [OF R, of r now k]
  by (auto simp: allowScript_def redis_incrby_def redis_expire_def Let_def redis_put [OF R]
      split: option.splits if_splits prod.splits)

lemma redis_fixed_window:
  assumes R: "redis_laws R"
  shows "fixed_window (redisLimiter R True prefix) (redis_window R prefix) (\<lambda>r t k. rd_view R r t (prefix @ k) = None)"
proof
  fix s s' now k c e n w a err j t
  note allow = allowScript_view [OF R]
  show "(a \<longleftrightarrow> c + 1 \<le> n) \<and>
      (\<exists>e' \<ge> e. e' \<le> now + w \<and> (\<forall>t. now \<le> t \<and> t < e' \<longrightarrow> redis_window R prefix s' t k = Some (c + 1, e')))"
    if l: "redis_window R prefix s now k = Some (c, e)"
      and r: "lm_allow (redisLimiter R True prefix) now k n w s = (s', a, err)" and w: "whole_window w" "0 \<le> c" "e \<le> now + w"
  proof -
    obtain d where run: "allowScript R now (prefix @ k) w s = (s', d)" "a \<longleftrightarrow> d \<le> n"
      using r by (auto simp: redisLimiter_def redisAllow_def split: prod.splits)
    have v: "rd_view R s now (prefix @ k) = Some (c, Some e)"
      using l by (auto simp: redis_window_def split: option.splits)
    have w': "0 < w" "milliseconds w = w" using w(1) by (simp_all add: whole_window_def)
    have "redis_window R prefix s' t k = Some (c + 1, if c = 0 then now + w else e)"
      if "now \<le> t" "t < (if c = 0 then now + w else e)" for t
      using allow(1) [OF run(1) w' that(1), of "prefix @ k"] that(2)
      by (auto simp: redis_window_def v split: if_splits)
    moreover have "a \<longleftrightarrow> c + 1 \<le> n" using allow(2) [OF run(1) w' order.refl] run(2) by (simp add: v)
    ultimately show ?thesis
      using w(3) by (intro conjI exI [of _ "if c = 0 then now + w else e"]) auto
  qed
  show "(a \<longleftrightarrow> 1 \<le> n) \<and> (\<forall>t. now \<le> t \<and> t < now + w \<longrightarrow> redis_window R prefix s' t k = Some (1, now + w))"
    if l: "rd_view R s now (prefix @ k) = None"
      and r: "lm_allow (redisLimiter R True prefix) now k n w s = (s', a, err)" and w: "whole_window w"
  proof -
    obtain d where run: "allowScript R now (prefix @ k) w s = (s', d)" "a \<longleftrightarrow> d \<le> n"
      using r by (auto simp: redisLimiter_def redisAllow_def split: prod.splits)
    have w': "0 < w" "milliseconds w = w" using w by (simp_all add: whole_window_def)
    then show ?thesis
      using allow(1) [OF run(1) w', of _ "prefix @ k"] allow(2) [OF run(1) w' order.refl] run(2)
      by (auto simp: redis_window_def l)
  qed
  show "redis_window R prefix s' t k = Some (if 0 < c then c - 1 else c, e)"
    if l: "redis_window R prefix s now k = Some (c, e)"
      and r: "lm_release (redisLimiter R True prefix) now k s = (s', err)" and t: "now \<le> t" "t < e"
  proof -
    have v: "rd_view R s now (prefix @ k) = Some (c, Some e)"
      using l by (auto simp: redis_window_def split: option.splits)
    then have "rd_view R s t (prefix @ k) = Some (c, Some e)" using redis_later [OF R t(1)] t(2) by simp
    with v r t show ?thesis
      by (auto simp: redisLimiter_def redisRelease_def redis_get_def redis_incrby_def redis_window_def
          redis_put [OF R] split: if_splits)
  qed
  show "redis_window R prefix s' t j = redis_window R prefix s t j"
    if r: "lm_allow (redisLimiter R True prefix) now k n w s = (s', a, err)" and t: "j \<noteq> k" "now \<le> t"
    using r t redis_put [OF R t(2)]
    by (auto simp: redisLimiter_def redisAllow_def allowScript_def redis_incrby_def redis_expire_def
        redis_window_def Let_def split: prod.splits option.splits if_splits)
  show "redis_window R prefix s' t j = redis_window R prefix s t j"
    if r: "lm_release (redisLimiter R True prefix) now k s = (s', err)" and t: "j \<noteq> k" "now \<le> t"
    using r t redis_put [OF R t(2)]
    by (auto simp: redisLimiter_def redisRelease_def redis_incrby_def redis_window_def Let_def
        split: prod.splits option.splits if_splits)
  show "redis_window R prefix s t k = Some (c, e)"
    if "redis_window R prefix s now k = Some (c, e)" "now \<le> t" "t < e"
    using that redis_later [OF R that(2), of s "prefix @ k"]
    by (auto simp: redis_window_def split: option.splits)
  show "now < e" if "redis_window R prefix s now k = Some (c, e)"
    using that redis_live [OF R] by (auto simp: redis_window_def split: option.splits)
qed

section \<open>The two backends answer alike\<close>

datatype limit_op = OpAllow string int int | OpCount string

fun op_key :: "limit_op \<Rightarrow> string" where
  "op_key (OpAllow k n w) = k"
| "op_key (OpCount k) = k"

fun limit_step :: "'s limiter \<Rightarrow> time \<Rightarrow> limit_op \<Rightarrow> 's \<Rightarrow> 's \<times> (bool + int)" where
  "limit_step L now (OpAllow k n w) s = (case lm_allow L now k n w s of (s', a, _) \<Rightarrow> (s', Inl a))"
| "limit_step L now (OpCount k) s = (s, Inr (fst (lm_count L now k s)))"

fun limit_run :: "'s limiter \<Rightarrow> (time \<times> limit_op) list \<Rightarrow> 's \<Rightarrow> (bool + int) list" where
  "limit_run L [] s = []"
| "limit_run L ((now, x) # ops) s = (case limit_step L now x s of (s', a) \<Rightarrow> a # limit_run L ops s')"

text \<open>No operation falls on the very instant at which the window of its key ends.\<close>

fun edge_free :: "(time \<times> limit_op) list \<Rightarrow> mem_windows \<Rightarrow> bool" where
  "edge_free [] m = True"
| "edge_free ((now, x) # ops) m =
     ((case map_of m (op_key x) of None \<Rightarrow> True | Some w \<Rightarrow> now \<noteq> mw_expires_at w) \<and>
      edge_free ops (fst (limit_step memLimiter now x m)))"

fun whole_op :: "limit_op \<Rightarrow> bool" where
  "whole_op (OpAllow k n w) = whole_window w"
| "whole_op (OpCount k) = True"

definition same_windows :: "('r, int) redis \<Rightarrow> string \<Rightarrow> time \<Rightarrow> mem_windows \<Rightarrow> 'r \<Rightarrow> bool" where
  "same_windows R prefix now m r \<longleftrightarrow>
     (\<forall>t k. now \<le> t \<longrightarrow> rd_view R r t (prefix @ k) =
        (case map_of m k of
           Some w \<Rightarrow> if t < mw_expires_at w then Some (mw_count w, Some (mw_expires_at w)) else None
         | None \<Rightarrow> None)) \<and>
     (\<forall>k w. map_of m k = Some w \<longrightarrow> 0 < mw_count w)"

lemma same_windows_later: "same_windows R prefix now m r \<Longrightarrow> now \<le> t \<Longrightarrow> same_windows R prefix t m r"
  by (auto simp: same_windows_def)

lemma same_windows_allow:
  assumes R: "redis_laws R" and sim: "same_windows R prefix now m r" and w: "whole_window w"
    and edge: "\<forall>x. map_of m k = Some x \<longrightarrow> now \<noteq> mw_expires_at x"
    and m': "memAllow now k n w m = (m', a, err)"
    and r': "redisAllow R True prefix now k n w r = (r', b, err')"
  shows "a = b \<and> same_windows R prefix now m' r'"
proof -
  obtain d where run: "allowScript R now (prefix @ k) w r = (r', d)" "b \<longleftrightarrow> d \<le> n"
    using r' by (auto simp: redisAllow_def split: prod.splits)
  have w': "0 < w" "milliseconds w = w" using w by (simp_all add: whole_window_def)
  have view: "rd_view R r t (prefix @ j) = (case map_of m j of
           Some w \<Rightarrow> if t < mw_expires_at w then Some (mw_count w, Some (mw_expires_at w)) else None
         | None \<Rightarrow> None)" if "now \<le> t" for t j
    using sim that by (simp add: same_windows_def)
  have pos: "0 < mw_count x" if "map_of m j = Some x" for j x
    using sim that by (auto simp: same_windows_def)
  have eq: "a = b"
    using memAllow_view(2) [OF m'] allowScript_view(2) [OF R run(1) w' order.refl] run(2) edge
    by (auto simp: view split: option.splits)
  have "rd_view R r' t (prefix @ j) = (case map_of m' j of
           Some w \<Rightarrow> if t < mw_expires_at w then Some (mw_count w, Some (mw_expires_at w)) else None
         | None \<Rightarrow> None)" if t: "now \<le> t" for t j
  proof (cases "j = k")
    case True
    show ?thesis
      using memAllow_view(1) [OF m', of k] allowScript_view(1) [OF R run(1) w' t, of "prefix @ k"] edge True pos [of k] t
      by (auto simp: view split: option.splits)
  next
    case False
    show ?thesis
      using memAllow_view(1) [OF m', of j] allowScript_view(1) [OF R run(1) w' t, of "prefix @ j"] False t
      by (auto simp: view map_of_sweepWindows split: option.splits)
  qed
  moreover have "0 < mw_count x" if "map_of m' j = Some x" for j x
    using that memAllow_view(1) [OF m', of j] pos
    by (auto simp: map_of_sweepWindows split: option.splits if_splits intro: add_pos_pos dest: pos)
  ultimately show ?thesis using eq by (auto simp: same_windows_def)
qed

lemma same_windows_count:
  assumes "same_windows R prefix now m r"
  shows "fst (memCount now k m) = fst (redisCount R True prefix now k r)"
  using assms by (auto simp: same_windows_def memCount_def redisCount_def redis_get_def split: option.splits)

text \<open>
  C17. The in-memory and the Redis limiter are interchangeable: over any sequence of attempts and
  counts on any keys, they give the same answers, as long as no operation falls on the exact
  instant a window ends (one keeps the window for that instant, the other does not).
\<close>

theorem limiters_agree:
  assumes R: "redis_laws R" and "same_windows R prefix now m r" and "sorted (now # map fst ops)"
    and "list_all (\<lambda>(t, x). whole_op x) ops" and "edge_free ops m"
  shows "limit_run memLimiter ops m = limit_run (redisLimiter R True prefix) ops r"
  using assms(2-)
proof (induction ops arbitrary: now m r)
  case (Cons op ops)
  obtain t x where op: "op = (t, x)" by force
  have sim: "same_windows R prefix t m r" using Cons.prems(1,2) op by (auto intro: same_windows_later)
  have rest: "sorted (t # map fst ops)" "list_all (\<lambda>(t, x). whole_op x) ops"
    "edge_free ops (fst (limit_step memLimiter t x m))"
    using Cons.prems(2-4) op by simp_all
  show ?case
  proof (cases x)
    case (OpAllow k n w)
    obtain m' a e where m': "memAllow t k n w m = (m', a, e)" by (metis prod_cases3)
    obtain r' b e' where r': "redisAllow R True prefix t k n w r = (r', b, e')" by (metis prod_cases3)
    have "a = b \<and> same_windows R prefix t m' r'"
      by (rule same_windows_allow [OF R sim _ _ m' r']) (use Cons.prems(3,4) op OpAllow in \<open>auto split: option.splits\<close>)
    then show ?thesis
      using Cons.IH [of t m' r'] rest op OpAllow m' r'
      by (simp add: memLimiter_def redisLimiter_def)
  next
    case (OpCount k)
    show ?thesis
      using Cons.IH [OF sim rest(1,2)] rest(3) op OpCount same_windows_count [OF sim, of k]
      by (simp add: memLimiter_def redisLimiter_def)
  qed
qed simp

definition toy_limit_ops :: "(time \<times> limit_op) list" where
  "toy_limit_ops = [(0, OpAllow ''a'' 1 (seconds 60)), (5, OpAllow ''a'' 1 (seconds 60)), (6, OpCount ''a''),
     (seconds 61, OpAllow ''a'' 1 (seconds 60))]"

theorem limiters_agree_witness:
  "limit_run (redisLimiter kv_redis True ''rl:'') toy_limit_ops Map.empty = [Inl True, Inl False, Inr 2, Inl True]"
proof -
  have "limit_run memLimiter toy_limit_ops [] = limit_run (redisLimiter kv_redis True ''rl:'') toy_limit_ops Map.empty"
  proof (rule limiters_agree [OF kv_redis_laws, of _ 0])
    show "list_all (\<lambda>(t, x). whole_op x) toy_limit_ops" "edge_free toy_limit_ops []"
      "sorted (0 # map fst toy_limit_ops)"
      by code_simp+
  qed (simp add: same_windows_def)
  moreover have "limit_run memLimiter toy_limit_ops [] = [Inl True, Inl False, Inr 2, Inl True]" by code_simp
  ultimately show ?thesis by simp
qed

text \<open>
  With releases they differ: in Redis a counter that was released to zero starts a new window at
  the next attempt.
\<close>

lemma release_restarts_redis_window:
  assumes R: "redis_laws R" and v: "rd_view R r now (prefix @ k) = Some (0, Some e)" and w: "whole_window w" and t: "now \<le> t"
    and r': "redisAllow R True prefix now k n w r = (r', a, err)"
  shows "rd_view R r' t (prefix @ k) = (if now + w \<le> t then None else Some (1, Some (now + w)))"
proof -
  obtain d where run: "allowScript R now (prefix @ k) w r = (r', d)"
    using r' by (auto simp: redisAllow_def split: prod.splits)
  show ?thesis
    using allowScript_view(1) [OF R run _ _ t, of "prefix @ k"] w by (simp add: v whole_window_def)
qed

end
