(* ===== verification/Grants.thy ===== *)
theory Grants
  imports Prelude "HOL-Library.AList"
begin

text \<open>
  \<open>internal/storage/storage.go\<close>, the in-memory store's keys and grants (permissions).

  Keys are shared objects: the maps by id, by public key and by name hold pointers to the same
  \<open>Key\<close>, and a caller that fetched a key can write through the pointer. The model has an
  explicit heap of keys and the three maps hold addresses. Grants are stored by value; the inner
  map from client to grant is an association list, so that the loops over it compute.
\<close>

subsection \<open>Data\<close>

type_synonym addr = nat

record key =
  k_id :: string
  k_name :: string
  k_pubkey :: string
  k_key_type :: string
  k_encrypted_nsec :: string
  k_encryption_method :: string
  k_bunker_uri :: string
  k_upstream_pubkey :: string
  k_require_approval :: bool
  k_disposable_mode :: bool
  k_cover_traffic :: bool
  k_tor_egress :: bool
  k_relays :: "string list"
  k_relay_mode :: string
  k_created_at :: time
  k_created_by :: string
  k_owner_id :: string
  k_is_primary :: bool
  k_single_grant :: bool

definition KeyTypeLocal :: string where "KeyTypeLocal = ''local''"
definition KeyTypeProxy :: string where "KeyTypeProxy = ''proxy''"
definition KeyTypeFrostUser :: string where "KeyTypeFrostUser = ''frost-user''"

definition IsProxy :: "key \<Rightarrow> bool" where
  "IsProxy k \<longleftrightarrow> k_key_type k = KeyTypeProxy"

definition SlotDefault :: string where "SlotDefault = ''default''"
definition SlotPublisher :: string where "SlotPublisher = ''publisher''"

datatype storage_error =
    ErrKeyNotFound | ErrKeyExists | ErrNotAuthorized | ErrPermissionExpired | ErrInvalidSlot
  | ErrSlotOccupied | ErrSessionNotFound | ErrPolicyNotFound | ErrTokenNotFound | ErrTokenRedeemed
  | ErrTokenExpired | ErrRequestNotFound | ErrRequestExpired | ErrBunkerSecretInvalid
  | ErrUserNotFound | ErrUserExists | ErrInvalidMFACode | ErrSettingNotFound

definition ValidateSlot :: "string \<Rightarrow> storage_error + unit" where
  "ValidateSlot slot =
     (if slot \<noteq> SlotDefault \<and> slot \<noteq> SlotPublisher then Inl ErrInvalidSlot else Inr ())"

text \<open>Optional times are Go's nil pointers; a zero \<open>CreatedAt\<close> is \<open>None\<close>.\<close>

record permission =
  pm_key_id :: string
  pm_user_pubkey :: string
  pm_slot :: string
  pm_methods :: "string list"
  pm_allowed_kinds :: "int list"
  pm_expires_at :: "time option"
  pm_policy_id :: string
  pm_require_approval :: "bool option"
  pm_delegate_pubkey :: string
  pm_app_name :: string
  pm_app_url :: string
  pm_app_image :: string
  pm_custom_name :: string
  pm_created_at :: "time option"
  pm_last_used_at :: "time option"
  pm_revoked_at :: "time option"
  pm_revoked_by :: string
  pm_sliding_expiry :: bool

abbreviation hours :: "int \<Rightarrow> time" where "hours n \<equiv> seconds (n * 3600)"

definition SlidingGrantTTL :: time where "SlidingGrantTTL = hours (30 * 24)"
definition SlidingGrantRefreshEvery :: time where "SlidingGrantRefreshEvery = hours 24"

definition defaultSlidingExpiry :: "permission \<Rightarrow> time \<Rightarrow> permission" where
  "defaultSlidingExpiry perm now =
     (if pm_expires_at perm = None
      then perm\<lparr>pm_expires_at := Some (now + SlidingGrantTTL), pm_sliding_expiry := True\<rparr>
      else perm)"

definition slideDue :: "bool \<Rightarrow> time option \<Rightarrow> time \<Rightarrow> bool" where
  "slideDue sliding expiresAt now \<longleftrightarrow>
     sliding \<and>
     (case expiresAt of None \<Rightarrow> False
      | Some t \<Rightarrow> t > now \<and> t < now + (SlidingGrantTTL - SlidingGrantRefreshEvery))"

record grant_store =
  gs_heap :: "addr \<rightharpoonup> key"
  gs_keys :: "(string \<times> addr) list"
  gs_by_pubkey :: "string \<rightharpoonup> addr"
  gs_by_name :: "string \<rightharpoonup> addr"
  gs_permissions :: "string \<rightharpoonup> (string \<times> permission) list"

definition NewMemoryStorage :: grant_store where
  "NewMemoryStorage = \<lparr>gs_heap = Map.empty, gs_keys = [], gs_by_pubkey = Map.empty,
     gs_by_name = Map.empty, gs_permissions = Map.empty\<rparr>"

subsection \<open>Keys\<close>

text \<open>The key a pointer denotes.\<close>

definition deref :: "grant_store \<Rightarrow> addr \<Rightarrow> key" where
  "deref st r = the (gs_heap st r)"

definition CreateKey :: "addr \<Rightarrow> grant_store \<Rightarrow> grant_store \<times> (storage_error + unit)" where
  "CreateKey r st =
     (let key = deref st r in
      if map_of (gs_keys st) (k_id key) \<noteq> None then (st, Inl ErrKeyExists)
      else if gs_by_pubkey st (k_pubkey key) \<noteq> None then (st, Inl ErrKeyExists)
      else (st\<lparr>gs_keys := AList.update (k_id key) r (gs_keys st),
               gs_by_pubkey := (gs_by_pubkey st)(k_pubkey key \<mapsto> r),
               gs_by_name := (if k_name key \<noteq> '''' then (gs_by_name st)(k_name key \<mapsto> r)
                              else gs_by_name st)\<rparr>, Inr ()))"

definition GetKey :: "string \<Rightarrow> grant_store \<Rightarrow> storage_error + addr" where
  "GetKey i st = or_err ErrKeyNotFound (map_of (gs_keys st) i)"

definition GetKeyByPubkey :: "string \<Rightarrow> grant_store \<Rightarrow> storage_error + addr" where
  "GetKeyByPubkey pubkey st = or_err ErrKeyNotFound (gs_by_pubkey st pubkey)"

definition GetKeyByName :: "string \<Rightarrow> grant_store \<Rightarrow> storage_error + addr" where
  "GetKeyByName n st = or_err ErrKeyNotFound (gs_by_name st n)"

definition ListKeys :: "string \<Rightarrow> grant_store \<Rightarrow> addr list" where
  "ListKeys ownerID st = filter (\<lambda>r. k_owner_id (deref st r) = ownerID) (map snd (gs_keys st))"

definition ListAllKeys :: "grant_store \<Rightarrow> addr list" where
  "ListAllKeys st = map snd (gs_keys st)"

definition write_key :: "addr \<Rightarrow> (key \<Rightarrow> key) \<Rightarrow> grant_store \<Rightarrow> grant_store" where
  \<comment> \<open>an assignment through a \<open>*Key\<close> pointer\<close>
  "write_key r f st = st\<lparr>gs_heap := (gs_heap st)(r \<mapsto> f (deref st r))\<rparr>"

definition UpdateKey :: "addr \<Rightarrow> grant_store \<Rightarrow> grant_store \<times> (storage_error + unit)" where
  "UpdateKey r st =
     (let key = deref st r in
      case map_of (gs_keys st) (k_id key) of
        None \<Rightarrow> (st, Inl ErrKeyNotFound)
      | Some e \<Rightarrow>
          (let existing = deref st e;
               names = gs_by_name st;
               names = (if k_name existing \<noteq> k_name key then
                          (let names = (if k_name existing \<noteq> '''' then names(k_name existing := None) else names)
                           in if k_name key \<noteq> '''' then names(k_name key \<mapsto> r) else names)
                        else names);
               st = write_key r (\<lambda>k. k\<lparr>k_single_grant := k_single_grant existing\<rparr>) st
           in (st\<lparr>gs_by_name := names, gs_keys := AList.update (k_id key) r (gs_keys st),
                  gs_by_pubkey := (gs_by_pubkey st)(k_pubkey key \<mapsto> r)\<rparr>, Inr ())))"

definition UpdateKeyEncryption ::
    "string \<Rightarrow> string \<Rightarrow> string \<Rightarrow> grant_store \<Rightarrow> grant_store \<times> (storage_error + unit)" where
  "UpdateKeyEncryption keyID encryptedNsec encryptionMethod st =
     (case map_of (gs_keys st) keyID of
        None \<Rightarrow> (st, Inl ErrKeyNotFound)
      | Some r \<Rightarrow>
          (write_key r (\<lambda>k. k\<lparr>k_encrypted_nsec := encryptedNsec,
                              k_encryption_method := encryptionMethod\<rparr>) st, Inr ()))"

text \<open>The session seals \<open>DeleteKey\<close> also drops live in another table, not part of this state.\<close>

definition DeleteKey :: "string \<Rightarrow> grant_store \<Rightarrow> grant_store \<times> (storage_error + unit)" where
  "DeleteKey i st =
     (case map_of (gs_keys st) i of
        None \<Rightarrow> (st, Inl ErrKeyNotFound)
      | Some r \<Rightarrow>
          (let key = deref st r in
           (st\<lparr>gs_keys := AList.delete i (gs_keys st),
               gs_by_pubkey := (gs_by_pubkey st)(k_pubkey key := None),
               gs_by_name := (if k_name key \<noteq> '''' then (gs_by_name st)(k_name key := None)
                              else gs_by_name st),
               gs_permissions := (gs_permissions st)(i := None)\<rparr>, Inr ())))"

definition SetPrimaryKey :: "string \<Rightarrow> string \<Rightarrow> grant_store \<Rightarrow> grant_store \<times> (storage_error + unit)" where
  "SetPrimaryKey ownerID keyID st =
     (case map_of (gs_keys st) keyID of
        None \<Rightarrow> (st, Inl ErrKeyNotFound)
      | Some target \<Rightarrow>
          if k_owner_id (deref st target) \<noteq> ownerID then (st, Inl ErrKeyNotFound)
          else (foldl (\<lambda>st r. if k_owner_id (deref st r) = ownerID
                              then write_key r (\<lambda>k. k\<lparr>k_is_primary := (k_id k = keyID)\<rparr>) st else st)
                 st (map snd (gs_keys st)), Inr ()))"

subsection \<open>Grants\<close>

definition grants_of :: "string \<Rightarrow> grant_store \<Rightarrow> (string \<times> permission) list" where
  \<comment> \<open>\<open>m.permissions[keyID]\<close>, where a missing inner map reads as empty\<close>
  "grants_of keyID st = (case gs_permissions st keyID of None \<Rightarrow> [] | Some ps \<Rightarrow> ps)"

definition lapsed :: "time \<Rightarrow> permission \<Rightarrow> bool" where
  "lapsed now p \<longleftrightarrow> (case pm_expires_at p of None \<Rightarrow> False | Some t \<Rightarrow> \<not> t > now)"

definition rival :: "permission \<Rightarrow> string \<times> permission \<Rightarrow> bool" where
  \<comment> \<open>\<open>pubkey != perm.UserPubkey && existing.RevokedAt == nil && existing.Slot == perm.Slot\<close>\<close>
  "rival perm e \<longleftrightarrow> fst e \<noteq> pm_user_pubkey perm \<and> pm_revoked_at (snd e) = None \<and>
     pm_slot (snd e) = pm_slot perm"

definition displace :: "time \<Rightarrow> permission \<Rightarrow> string \<times> permission \<Rightarrow> string \<times> permission" where
  "displace now perm e =
     (if rival perm e
      then (fst e, (snd e)\<lparr>pm_revoked_at := Some now, pm_revoked_by := pm_user_pubkey perm\<rparr>) else e)"

definition setPermission ::
    "time \<Rightarrow> permission \<Rightarrow> bool \<Rightarrow> grant_store \<Rightarrow> grant_store \<times> (storage_error + unit)" where
  "setPermission now perm displaceLive st =
     (case gs_by_pubkey st (pm_key_id perm) of
        None \<Rightarrow> (st, Inl ErrKeyNotFound)
      | Some r \<Rightarrow>
          (let key = deref st r;
               perm = (if pm_slot perm = '''' then perm\<lparr>pm_slot := SlotDefault\<rparr> else perm)
           in case ValidateSlot (pm_slot perm) of
                Inl e \<Rightarrow> (st, Inl e)
              | Inr _ \<Rightarrow>
                  (let perm = (if pm_created_at perm = None then perm\<lparr>pm_created_at := Some now\<rparr> else perm);
                       grants = grants_of (pm_key_id perm) st;
                       st = st\<lparr>gs_permissions := (gs_permissions st)(pm_key_id perm \<mapsto> grants)\<rparr>
                   in if \<not> k_single_grant key then
                        (st\<lparr>gs_permissions := (gs_permissions st)(pm_key_id perm \<mapsto>
                             AList.update (pm_user_pubkey perm) (defaultSlidingExpiry perm now) grants)\<rparr>, Inr ())
                      else if \<not> displaceLive \<and> list_ex (\<lambda>e. rival perm e \<and> \<not> lapsed now (snd e)) grants then
                        (st, Inl ErrSlotOccupied)
                      else
                        (st\<lparr>gs_permissions := (gs_permissions st)(pm_key_id perm \<mapsto>
                             AList.update (pm_user_pubkey perm) perm (map (displace now perm) grants))\<rparr>, Inr ()))))"

definition SetPermission :: "time \<Rightarrow> permission \<Rightarrow> grant_store \<Rightarrow> grant_store \<times> (storage_error + unit)" where
  "SetPermission now perm = setPermission now perm True"

definition SetPermissionIfSlotFree :: "time \<Rightarrow> permission \<Rightarrow> grant_store \<Rightarrow> grant_store \<times> (storage_error + unit)" where
  "SetPermissionIfSlotFree now perm = setPermission now perm False"

definition find_grant :: "string \<Rightarrow> string \<Rightarrow> grant_store \<Rightarrow> permission option" where
  "find_grant keyID userPubkey st = map_of (grants_of keyID st) userPubkey"

definition GetPermission :: "time \<Rightarrow> string \<Rightarrow> string \<Rightarrow> grant_store \<Rightarrow> storage_error + permission" where
  "GetPermission now keyID userPubkey st =
     (case gs_permissions st keyID of
        None \<Rightarrow> Inl ErrNotAuthorized
      | Some perms \<Rightarrow>
          (case map_of perms userPubkey of
             None \<Rightarrow> Inl ErrNotAuthorized
           | Some perm \<Rightarrow>
               if pm_revoked_at perm \<noteq> None then Inl ErrPermissionExpired
               else if (case pm_expires_at perm of None \<Rightarrow> False | Some t \<Rightarrow> now > t)
               then Inl ErrPermissionExpired
               else Inr perm))"

definition ListPermissions :: "string \<Rightarrow> grant_store \<Rightarrow> permission list" where
  "ListPermissions keyID st =
     (case gs_permissions st keyID of
        None \<Rightarrow> []
      | Some perms \<Rightarrow> filter (\<lambda>p. pm_revoked_at p = None) (map snd perms))"

definition DeletePermission :: "string \<Rightarrow> string \<Rightarrow> grant_store \<Rightarrow> grant_store" where
  "DeletePermission keyID userPubkey st =
     (case gs_permissions st keyID of
        None \<Rightarrow> st
      | Some perms \<Rightarrow>
          st\<lparr>gs_permissions := (gs_permissions st)(keyID \<mapsto> AList.delete userPubkey perms)\<rparr>)"

definition put_grant :: "string \<Rightarrow> string \<Rightarrow> permission \<Rightarrow> grant_store \<Rightarrow> grant_store" where
  \<comment> \<open>writing through the pointer of a stored grant\<close>
  "put_grant keyID userPubkey perm st =
     st\<lparr>gs_permissions := (gs_permissions st)(keyID \<mapsto> AList.update userPubkey perm (grants_of keyID st))\<rparr>"

definition UpdatePermissionLastUsed :: "time \<Rightarrow> string \<Rightarrow> string \<Rightarrow> grant_store \<Rightarrow> grant_store" where
  "UpdatePermissionLastUsed now keyID userPubkey st =
     (case gs_permissions st keyID of
        None \<Rightarrow> st
      | Some perms \<Rightarrow>
          (case map_of perms userPubkey of
             None \<Rightarrow> st
           | Some perm \<Rightarrow>
               (let perm = perm\<lparr>pm_last_used_at := Some now\<rparr>;
                    perm = (if pm_revoked_at perm = None \<and>
                               slideDue (pm_sliding_expiry perm) (pm_expires_at perm) now
                            then perm\<lparr>pm_expires_at := Some (now + SlidingGrantTTL)\<rparr> else perm)
                in put_grant keyID userPubkey perm st)))"

definition RenewPermission ::
    "time \<Rightarrow> string \<Rightarrow> string \<Rightarrow> time \<Rightarrow> grant_store \<Rightarrow> grant_store \<times> (storage_error + unit)" where
  "RenewPermission now keyID userPubkey expiresAt st =
     (case find_grant keyID userPubkey st of
        None \<Rightarrow> (st, Inl ErrPermissionExpired)
      | Some perm \<Rightarrow>
          if pm_revoked_at perm \<noteq> None \<or>
             (case pm_expires_at perm of None \<Rightarrow> True | Some t \<Rightarrow> \<not> now < t)
          then (st, Inl ErrPermissionExpired)
          else (put_grant keyID userPubkey (perm\<lparr>pm_expires_at := Some expiresAt\<rparr>) st, Inr ()))"

definition UpdatePermissionName ::
    "string \<Rightarrow> string \<Rightarrow> string \<Rightarrow> grant_store \<Rightarrow> grant_store \<times> (storage_error + unit)" where
  "UpdatePermissionName keyID userPubkey customName st =
     (case gs_permissions st keyID of
        None \<Rightarrow> (st, Inl ErrKeyNotFound)
      | Some perms \<Rightarrow>
          (case map_of perms userPubkey of
             None \<Rightarrow> (st, Inl ErrKeyNotFound)
           | Some perm \<Rightarrow> (put_grant keyID userPubkey (perm\<lparr>pm_custom_name := customName\<rparr>) st, Inr ())))"

subsection \<open>Lookups after updates\<close>

lemma grants_of_upd [simp]:
  "grants_of k (st\<lparr>gs_permissions := (gs_permissions st)(k' \<mapsto> ps)\<rparr>) = (if k = k' then ps else grants_of k st)"
  by (simp add: grants_of_def)

lemma map_of_displace:
  "map_of (map (displace now perm) ps) u =
     (case map_of ps u of None \<Rightarrow> None | Some p \<Rightarrow> Some (snd (displace now perm (u, p))))"
  by (induction ps) (auto simp: displace_def rival_def)

lemma GetPermission_Inr:
  "GetPermission now k u st = Inr p \<longleftrightarrow>
     find_grant k u st = Some p \<and> pm_revoked_at p = None \<and>
     (\<forall>t. pm_expires_at p = Some t \<longrightarrow> now \<le> t)"
  by (auto simp: GetPermission_def find_grant_def grants_of_def split: option.splits if_splits)

lemma GetPermission_frame:
  "find_grant k u st' = find_grant k u st \<Longrightarrow> GetPermission now k u st' = Inr p \<longleftrightarrow> GetPermission now k u st = Inr p"
  by (simp add: GetPermission_Inr)

lemma find_put_grant [simp]:
  "find_grant k u (put_grant k' u' p st) = (if k = k' \<and> u = u' then Some p else find_grant k u st)"
  by (simp add: put_grant_def find_grant_def update_conv')

text \<open>The grant a successful store writes.\<close>

definition stored_perm :: "time \<Rightarrow> bool \<Rightarrow> permission \<Rightarrow> permission" where
  "stored_perm now single perm =
     (let perm = (if pm_slot perm = '''' then perm\<lparr>pm_slot := SlotDefault\<rparr> else perm);
          perm = (if pm_created_at perm = None then perm\<lparr>pm_created_at := Some now\<rparr> else perm)
      in if single then perm else defaultSlidingExpiry perm now)"

lemma stored_perm_simps [simp]:
  "pm_key_id (stored_perm now b p) = pm_key_id p" "pm_user_pubkey (stored_perm now b p) = pm_user_pubkey p"
  "pm_methods (stored_perm now b p) = pm_methods p" "pm_revoked_at (stored_perm now b p) = pm_revoked_at p"
  "pm_slot (stored_perm now b p) = (if pm_slot p = '''' then SlotDefault else pm_slot p)"
  "pm_allowed_kinds (stored_perm now b p) = pm_allowed_kinds p"
  "pm_require_approval (stored_perm now b p) = pm_require_approval p"
  "pm_policy_id (stored_perm now b p) = pm_policy_id p"
  by (simp_all add: stored_perm_def defaultSlidingExpiry_def Let_def)

lemma stored_perm_expiry:
  "pm_expires_at (stored_perm now True p) = pm_expires_at p"
  "pm_sliding_expiry (stored_perm now True p) = pm_sliding_expiry p"
  "pm_expires_at (stored_perm now False p) =
     (if pm_expires_at p = None then Some (now + SlidingGrantTTL) else pm_expires_at p)"
  "pm_sliding_expiry (stored_perm now False p) = (pm_expires_at p = None \<or> pm_sliding_expiry p)"
  by (cases "pm_slot p = ''''"; cases "pm_created_at p"; cases "pm_expires_at p";
      simp add: stored_perm_def defaultSlidingExpiry_def Let_def)+

text \<open>\<open>setPermission\<close>, by cases.\<close>

definition store_grants :: "string \<Rightarrow> (string \<times> permission) list \<Rightarrow> grant_store \<Rightarrow> grant_store" where
  "store_grants k ps st = st\<lparr>gs_permissions := (gs_permissions st)(k \<mapsto> ps)\<rparr>"

lemma store_grants_simps [simp]:
  "find_grant k u (store_grants k' ps st) = (if k = k' then map_of ps u else find_grant k u st)"
  "grants_of k (store_grants k' ps st) = (if k = k' then ps else grants_of k st)"
  "gs_by_pubkey (store_grants k' ps st) = gs_by_pubkey st" "gs_heap (store_grants k' ps st) = gs_heap st"
  "gs_keys (store_grants k' ps st) = gs_keys st" "gs_by_name (store_grants k' ps st) = gs_by_name st"
  by (simp_all add: store_grants_def find_grant_def)

definition slot_taken :: "time \<Rightarrow> permission \<Rightarrow> (string \<times> permission) list \<Rightarrow> bool" where
  "slot_taken now p grants \<longleftrightarrow> list_ex (\<lambda>e. rival p e \<and> \<not> lapsed now (snd e)) grants"

lemma setPermission_eq:
  assumes "gs_by_pubkey st (pm_key_id perm) = Some r" and "single = k_single_grant (deref st r)"
    and "p = stored_perm now single perm" and "k = pm_key_id perm" and "u = pm_user_pubkey perm"
  shows "setPermission now perm dl st =
    (if ValidateSlot (pm_slot p) \<noteq> Inr () then (st, Inl ErrInvalidSlot)
     else if \<not> single then (store_grants k (AList.update u p (grants_of k st)) st, Inr ())
     else if \<not> dl \<and> slot_taken now p (grants_of k st) then (store_grants k (grants_of k st) st, Inl ErrSlotOccupied)
     else (store_grants k (AList.update u p (map (displace now p) (grants_of k st))) st, Inr ()))"
proof -
  have v: "ValidateSlot s = Inr () \<or> ValidateSlot s = Inl ErrInvalidSlot" for s
    by (simp add: ValidateSlot_def)
  show ?thesis
  proof (cases "k_single_grant (deref st r)")
    case True
    with assms v [of "pm_slot p"] show ?thesis
      by (auto simp: setPermission_def Let_def stored_perm_def store_grants_def slot_taken_def
          simp del: grants_of_upd split: if_splits)
  next
    case False
    with assms v [of "pm_slot p"] show ?thesis
      by (auto simp: setPermission_def Let_def stored_perm_def store_grants_def defaultSlidingExpiry_def
          simp del: grants_of_upd split: if_splits)
  qed
qed

lemma setPermission_no_key:
  "gs_by_pubkey st (pm_key_id perm) = None \<Longrightarrow> setPermission now perm dl st = (st, Inl ErrKeyNotFound)"
  by (simp add: setPermission_def)

lemma setPermission_fail:
  assumes "setPermission now perm dl st = (st', Inl e)"
  shows "find_grant k u st' = find_grant k u st"
proof (cases "gs_by_pubkey st (pm_key_id perm)")
  case None
  with assms show ?thesis by (simp add: setPermission_no_key)
next
  case (Some r)
  with assms show ?thesis
    by (auto simp: setPermission_eq [OF Some refl refl refl refl] find_grant_def split: if_splits)
qed

lemma setPermission_ok:
  assumes "setPermission now perm dl st = (st', Inr ())"
  obtains r p where "gs_by_pubkey st (pm_key_id perm) = Some r"
    "p = stored_perm now (k_single_grant (deref st r)) perm"
    "\<not> k_single_grant (deref st r) \<Longrightarrow>
       st' = store_grants (pm_key_id perm) (AList.update (pm_user_pubkey perm) p (grants_of (pm_key_id perm) st)) st"
    "k_single_grant (deref st r) \<Longrightarrow> dl \<or> \<not> slot_taken now p (grants_of (pm_key_id perm) st)"
    "k_single_grant (deref st r) \<Longrightarrow> st' = store_grants (pm_key_id perm)
       (AList.update (pm_user_pubkey perm) p (map (displace now p) (grants_of (pm_key_id perm) st))) st"
proof (cases "gs_by_pubkey st (pm_key_id perm)")
  case None
  with assms show ?thesis by (simp add: setPermission_no_key)
next
  case (Some r)
  with assms show ?thesis
    by (intro that [OF Some refl]) (auto simp: setPermission_eq [OF Some refl refl refl refl] split: if_splits)
qed

lemma displace_keys [simp]: "map fst (map (displace now p) ps) = map fst ps"
  by (simp add: displace_def)

lemma displace_revoked:
  "pm_revoked_at (snd (displace now p e)) = None \<Longrightarrow> displace now p e = e \<and> \<not> rival p e"
  by (auto simp: displace_def)

subsection \<open>One live grant per slot\<close>

definition live_holders :: "string \<Rightarrow> (string \<times> permission) list \<Rightarrow> string set" where
  "live_holders slot ps = {u. \<exists>p. (u, p) \<in> set ps \<and> pm_revoked_at p = None \<and> pm_slot p = slot}"

definition exclusive :: "(string \<times> permission) list \<Rightarrow> bool" where
  "exclusive ps \<longleftrightarrow> (\<forall>e\<in>set ps. \<forall>e'\<in>set ps. pm_revoked_at (snd e) = None \<and> pm_revoked_at (snd e') = None \<and>
     pm_slot (snd e) = pm_slot (snd e') \<longrightarrow> fst e = fst e')"

definition slots_exclusive :: "grant_store \<Rightarrow> bool" where
  "slots_exclusive st \<longleftrightarrow>
     (\<forall>k r. gs_by_pubkey st k = Some r \<and> k_single_grant (deref st r) \<longrightarrow> exclusive (grants_of k st))"

lemma set_update_subset: "set (AList.update u p ps) \<subseteq> insert (u, p) {e \<in> set ps. fst e \<noteq> u} \<union> set ps"
  by (induction ps) auto

lemma set_update_distinct:
  "distinct (map fst ps) \<Longrightarrow> set (AList.update u p ps) = insert (u, p) {e \<in> set ps. fst e \<noteq> u}"
  by (induction ps) (auto simp: rev_image_eqI)

lemma exclusive_subset: "exclusive ps \<Longrightarrow> set qs \<subseteq> set ps \<Longrightarrow> exclusive qs"
  by (auto simp: exclusive_def)

lemma exclusive_displace:
  assumes d: "distinct (map fst ps)" and ex: "exclusive ps" and u: "u = pm_user_pubkey p"
  shows "exclusive (AList.update u p (map (displace now p) ps))"
proof -
  let ?qs = "map (displace now p) ps"
  have set: "set (AList.update u p ?qs) = insert (u, p) {e \<in> set ?qs. fst e \<noteq> u}"
    by (rule set_update_distinct) (simp add: d del: map_map)
  have old: "e \<in> set ps \<and> \<not> rival p e" if "e \<in> set ?qs" "pm_revoked_at (snd e) = None" for e
  proof -
    have "e \<in> displace now p ` set ps" using that(1) by simp
    then obtain e0 where e0: "e = displace now p e0" "e0 \<in> set ps" by (rule imageE)
    with displace_revoked [of now p e0] that(2) show ?thesis by auto
  qed
  show ?thesis
    unfolding exclusive_def
  proof (intro ballI impI, elim conjE)
    fix e e' assume e: "e \<in> set (AList.update u p ?qs)" "e' \<in> set (AList.update u p ?qs)"
      and r: "pm_revoked_at (snd e) = None" "pm_revoked_at (snd e') = None" "pm_slot (snd e) = pm_slot (snd e')"
    show "fst e = fst e'"
    proof (cases "fst e = u \<or> fst e' = u")
      case False
      with e set have "e \<in> set ?qs" "e' \<in> set ?qs" by auto
      with old r ex show ?thesis by (auto simp: exclusive_def)
    next
      case True
      show ?thesis
      proof (rule ccontr)
        assume ne: "fst e \<noteq> fst e'"
        have mem: "e = (u, p) \<or> e \<in> set ?qs \<and> fst e \<noteq> u" "e' = (u, p) \<or> e' \<in> set ?qs \<and> fst e' \<noteq> u"
          using e unfolding set by blast+
        have no: False if "f \<in> set ?qs" "fst f \<noteq> u" "pm_revoked_at (snd f) = None" "pm_slot (snd f) = pm_slot p" for f
          using old [of f] that u by (auto simp: rival_def)
        show False
        proof (cases "fst e = u")
          case True
          with mem ne have "e = (u, p)" "e' \<in> set ?qs" "fst e' \<noteq> u" by auto
          with no [of e'] r show False by simp
        next
          case False
          with mem True \<open>fst e = u \<or> fst e' = u\<close> have "e' = (u, p)" "e \<in> set ?qs" "fst e \<noteq> u" by auto
          with no [of e] r show False by simp
        qed
      qed
    qed
  qed
qed

lemma exclusive_put:
  assumes d: "distinct (map fst ps)" and ex: "exclusive ps" and q: "map_of ps u = Some q"
    and p: "pm_slot p = pm_slot q" "pm_revoked_at p = pm_revoked_at q"
  shows "exclusive (AList.update u p ps)"
proof -
  have set: "set (AList.update u p ps) = insert (u, p) {e \<in> set ps. fst e \<noteq> u}"
    by (rule set_update_distinct [OF d])
  have uq: "(u, q) \<in> set ps" using q by (rule map_of_SomeD)
  have pre: "\<exists>f\<in>set ps. fst f = fst e \<and> pm_revoked_at (snd f) = pm_revoked_at (snd e) \<and>
      pm_slot (snd f) = pm_slot (snd e)" if "e \<in> set (AList.update u p ps)" for e
  proof (cases "e = (u, p)")
    case True
    with uq p show ?thesis by (intro bexI [of _ "(u, q)"]) simp_all
  next
    case False
    with that have "e \<in> set ps" unfolding set by simp
    then show ?thesis by (intro bexI [of _ e]) simp_all
  qed
  show ?thesis
    unfolding exclusive_def
  proof (intro ballI impI, elim conjE)
    fix e e' assume e: "e \<in> set (AList.update u p ps)" "e' \<in> set (AList.update u p ps)"
      and r: "pm_revoked_at (snd e) = None" "pm_revoked_at (snd e') = None" "pm_slot (snd e) = pm_slot (snd e')"
    obtain f where f: "f \<in> set ps" "fst f = fst e" "pm_revoked_at (snd f) = None" "pm_slot (snd f) = pm_slot (snd e)"
      using pre [OF e(1)] r(1) by auto
    obtain f' where f': "f' \<in> set ps" "fst f' = fst e'" "pm_revoked_at (snd f') = None" "pm_slot (snd f') = pm_slot (snd e')"
      using pre [OF e(2)] r(2) by auto
    have "fst f = fst f'"
      by (rule ex [unfolded exclusive_def, rule_format, OF f(1) f'(1)]) (simp add: f f' r)
    then show "fst e = fst e'" using f(2) f'(2) by simp
  qed
qed

definition grants_wf :: "grant_store \<Rightarrow> bool" where
  "grants_wf st \<longleftrightarrow> slots_exclusive st \<and> (\<forall>k. distinct (map fst (grants_of k st)))"

lemma grants_wfD:
  assumes "grants_wf st"
  shows "distinct (map fst (grants_of k st))"
    and "gs_by_pubkey st k = Some r \<Longrightarrow> k_single_grant (deref st r) \<Longrightarrow> exclusive (grants_of k st)"
  using assms by (auto simp: grants_wf_def slots_exclusive_def)

lemma grants_wf_store:
  assumes wf: "grants_wf st" and d: "distinct (map fst ps)"
    and ex: "\<And>r. gs_by_pubkey st k = Some r \<Longrightarrow> k_single_grant (deref st r) \<Longrightarrow> exclusive ps"
  shows "grants_wf (store_grants k ps st)"
proof -
  have "deref (store_grants k ps st) r = deref st r" for r by (simp add: deref_def)
  with assms show ?thesis by (auto simp: grants_wf_def slots_exclusive_def)
qed

lemma setPermission_wf:
  assumes wf: "grants_wf st" and run: "setPermission now perm dl st = (st', res)"
  shows "grants_wf st'"
proof (cases "gs_by_pubkey st (pm_key_id perm)")
  case None
  with run wf show ?thesis by (simp add: setPermission_no_key)
next
  case (Some r)
  note d = grants_wfD(1) [OF wf] and ex = grants_wfD(2) [OF wf]
  have same: "grants_wf (store_grants k (grants_of k st) st)" for k
    by (rule grants_wf_store [OF wf d]) (rule ex)
  show ?thesis
  proof (cases "k_single_grant (deref st r)")
    case True
    have "grants_wf (store_grants (pm_key_id perm) (AList.update (pm_user_pubkey perm) (stored_perm now True perm)
       (map (displace now (stored_perm now True perm)) (grants_of (pm_key_id perm) st))) st)"
      by (rule grants_wf_store [OF wf])
         (auto simp: d distinct_update simp del: map_map intro!: exclusive_displace d ex)
    with run Some wf same True show ?thesis
      by (auto simp: setPermission_eq [OF Some refl refl refl refl] split: if_splits)
  next
    case False
    have "grants_wf (store_grants (pm_key_id perm)
       (AList.update (pm_user_pubkey perm) (stored_perm now False perm) (grants_of (pm_key_id perm) st)) st)"
      by (rule grants_wf_store [OF wf]) (use False Some d in \<open>auto simp: distinct_update\<close>)
    with run Some wf False show ?thesis
      by (auto simp: setPermission_eq [OF Some refl refl refl refl] split: if_splits)
  qed
qed

lemma store_same: "store_grants k ps st = st\<lparr>gs_permissions := (gs_permissions st)(k \<mapsto> ps)\<rparr>"
  by (rule store_grants_def)

lemma put_grant_wf:
  assumes wf: "grants_wf st" and q: "find_grant k u st = Some q"
    and p: "pm_slot p = pm_slot q" "pm_revoked_at p = pm_revoked_at q"
  shows "grants_wf (put_grant k u p st)"
  unfolding put_grant_def store_same [symmetric]
  by (rule grants_wf_store [OF wf])
     (auto simp: distinct_update grants_wfD(1) [OF wf]
       intro!: exclusive_put [OF grants_wfD(1) [OF wf] grants_wfD(2) [OF wf] q [unfolded find_grant_def] p])

lemma find_grant_split:
  "find_grant k u st = Some p \<longleftrightarrow> (\<exists>ps. gs_permissions st k = Some ps \<and> map_of ps u = Some p)"
  by (auto simp: find_grant_def grants_of_def split: option.splits)

lemma UpdatePermissionLastUsed_eq:
  "UpdatePermissionLastUsed now k u st =
     (case find_grant k u st of None \<Rightarrow> st
      | Some p \<Rightarrow> put_grant k u
          (if pm_revoked_at p = None \<and> slideDue (pm_sliding_expiry p) (pm_expires_at p) now
           then p\<lparr>pm_last_used_at := Some now, pm_expires_at := Some (now + SlidingGrantTTL)\<rparr>
           else p\<lparr>pm_last_used_at := Some now\<rparr>) st)"
  by (auto simp: UpdatePermissionLastUsed_def find_grant_def grants_of_def Let_def split: option.splits)

lemma UpdatePermissionLastUsed_wf: "grants_wf st \<Longrightarrow> grants_wf (UpdatePermissionLastUsed now k u st)"
  by (auto simp: UpdatePermissionLastUsed_eq intro: put_grant_wf split: option.splits)

lemma RenewPermission_wf: "grants_wf st \<Longrightarrow> RenewPermission now k u t st = (st', res) \<Longrightarrow> grants_wf st'"
  by (auto simp: RenewPermission_def intro: put_grant_wf split: option.splits if_splits)

lemma UpdatePermissionName_wf: "grants_wf st \<Longrightarrow> UpdatePermissionName k u n st = (st', res) \<Longrightarrow> grants_wf st'"
  by (auto simp: UpdatePermissionName_def find_grant_split intro!: put_grant_wf split: option.splits)

lemma DeletePermission_wf: 
  assumes wf: "grants_wf st" shows "grants_wf (DeletePermission k u st)"
proof (cases "gs_permissions st k")
  case None
  with wf show ?thesis by (simp add: DeletePermission_def)
next
  case (Some ps)
  then have ps: "ps = grants_of k st" by (simp add: grants_of_def)
  have "grants_wf (store_grants k (AList.delete u ps) st)"
    by (rule grants_wf_store [OF wf])
       (use ps grants_wfD(1) [OF wf, of k] in
         \<open>auto simp: AList.delete_eq distinct_map_filter intro: exclusive_subset [OF grants_wfD(2) [OF wf]]\<close>)
  with Some show ?thesis by (simp add: DeletePermission_def store_grants_def)
qed

lemma grants_wf_keys:
  assumes wf: "grants_wf st"
    and g: "\<And>k. grants_of k st' = grants_of k st \<or> grants_of k st' = []"
    and keys: "\<And>k r. gs_by_pubkey st' k = Some r \<Longrightarrow> k_single_grant (deref st' r) \<Longrightarrow>
      (gs_by_pubkey st k = Some r \<and> k_single_grant (deref st r)) \<or> grants_of k st' = []"
  shows "grants_wf st'"
  unfolding grants_wf_def slots_exclusive_def
proof (intro conjI allI impI, elim conjE)
  fix k r assume k: "gs_by_pubkey st' k = Some r" "k_single_grant (deref st' r)"
  have nil: "exclusive []" by (simp add: exclusive_def)
  from keys [OF k] g [of k] grants_wfD(2) [OF wf, of k r] nil
  show "exclusive (grants_of k st')" by auto
next
  fix k from g [of k] grants_wfD(1) [OF wf, of k] show "distinct (map fst (grants_of k st'))" by auto
qed

lemma CreateKey_wf:
  assumes "grants_wf st" "grants_of (k_pubkey (deref st r)) st = []" "CreateKey r st = (st', res)"
  shows "grants_wf st'"
  by (rule grants_wf_keys [OF assms(1)])
     (use assms(2,3) in \<open>auto simp: CreateKey_def Let_def grants_of_def deref_def split: if_splits\<close>)

lemma DeleteKey_wf:
  assumes "grants_wf st" "DeleteKey i st = (st', res)" shows "grants_wf st'"
  by (rule grants_wf_keys [OF assms(1)])
     (use assms(2) in \<open>auto simp: DeleteKey_def Let_def grants_of_def deref_def split: if_splits option.splits\<close>)

text \<open>
  Runs of the grant operations. Creating a key assumes that no grants are filed under its public
  key; see the last section for why that has to be said.
\<close>

inductive grant_step :: "grant_store \<Rightarrow> grant_store \<Rightarrow> bool" where
  g_set: "setPermission now perm dl st = (st', res) \<Longrightarrow> grant_step st st'"
| g_use: "grant_step st (UpdatePermissionLastUsed now k u st)"
| g_renew: "RenewPermission now k u t st = (st', res) \<Longrightarrow> grant_step st st'"
| g_name: "UpdatePermissionName k u n st = (st', res) \<Longrightarrow> grant_step st st'"
| g_delete: "grant_step st (DeletePermission k u st)"
| g_alloc: "gs_heap st r = None \<Longrightarrow> \<forall>k. gs_by_pubkey st k \<noteq> Some r \<Longrightarrow>
    grant_step st (st\<lparr>gs_heap := (gs_heap st)(r \<mapsto> key)\<rparr>)"
| g_create: "grants_of (k_pubkey (deref st r)) st = [] \<Longrightarrow> CreateKey r st = (st', res) \<Longrightarrow> grant_step st st'"
| g_delete_key: "DeleteKey i st = (st', res) \<Longrightarrow> grant_step st st'"

inductive grant_reachable :: "grant_store \<Rightarrow> bool" where
  gr_start: "grant_reachable NewMemoryStorage"
| gr_step: "grant_reachable st \<Longrightarrow> grant_step st st' \<Longrightarrow> grant_reachable st'"

lemma grants_wf_start: "grants_wf NewMemoryStorage"
  by (simp add: grants_wf_def slots_exclusive_def NewMemoryStorage_def grants_of_def)

lemma grants_wf_alloc:
  "grants_wf st \<Longrightarrow> \<forall>k. gs_by_pubkey st k \<noteq> Some r \<Longrightarrow> grants_wf (st\<lparr>gs_heap := (gs_heap st)(r \<mapsto> key)\<rparr>)"
  by (auto simp: grants_wf_def slots_exclusive_def grants_of_def deref_def split: if_splits)

lemma grant_step_wf: "grant_step st st' \<Longrightarrow> grants_wf st \<Longrightarrow> grants_wf st'"
  by (erule grant_step.cases)
     (auto intro: setPermission_wf UpdatePermissionLastUsed_wf RenewPermission_wf UpdatePermissionName_wf
       DeletePermission_wf CreateKey_wf DeleteKey_wf grants_wf_alloc)

lemma grant_reachable_wf: "grant_reachable st \<Longrightarrow> grants_wf st"
  by (induction rule: grant_reachable.induct) (auto intro: grants_wf_start grant_step_wf)

lemma find_GetPermission:
  "GetPermission now k u st = Inr p \<Longrightarrow> (u, p) \<in> set (grants_of k st) \<and> pm_revoked_at p = None"
  by (auto simp: GetPermission_Inr find_grant_def dest: map_of_SomeD)

subsection \<open>Properties\<close>

text \<open>A concrete store for the witnesses: one role key and one user key.\<close>

definition toy_key :: "string \<Rightarrow> bool \<Rightarrow> key" where
  "toy_key pk single = \<lparr>k_id = take 2 pk, k_name = pk @ ''-name'', k_pubkey = pk, k_key_type = KeyTypeLocal,
     k_encrypted_nsec = '''', k_encryption_method = '''', k_bunker_uri = '''', k_upstream_pubkey = '''',
     k_require_approval = False, k_disposable_mode = False, k_cover_traffic = False, k_tor_egress = False,
     k_relays = [], k_relay_mode = '''', k_created_at = 0, k_created_by = '''', k_owner_id = ''o'',
     k_is_primary = False, k_single_grant = single\<rparr>"

definition toy_perm :: "string \<Rightarrow> string \<Rightarrow> permission" where
  "toy_perm k u = \<lparr>pm_key_id = k, pm_user_pubkey = u, pm_slot = '''', pm_methods = [''sign_event''],
     pm_allowed_kinds = [], pm_expires_at = None, pm_policy_id = '''', pm_require_approval = None,
     pm_delegate_pubkey = '''', pm_app_name = '''', pm_app_url = '''', pm_app_image = '''',
     pm_custom_name = '''', pm_created_at = None, pm_last_used_at = None, pm_revoked_at = None,
     pm_revoked_by = '''', pm_sliding_expiry = False\<rparr>"

lemma toy_perm_sel [simp]:
  "pm_key_id (toy_perm k u) = k" "pm_user_pubkey (toy_perm k u) = u" "pm_slot (toy_perm k u) = ''''"
  "pm_expires_at (toy_perm k u) = None" "pm_revoked_at (toy_perm k u) = None"
  by (simp_all add: toy_perm_def)

definition toy_store :: grant_store where
  "toy_store = (let st = NewMemoryStorage\<lparr>gs_heap := [1 \<mapsto> toy_key ''role'' True, 2 \<mapsto> toy_key ''user'' False]\<rparr>;
     st = fst (CreateKey 1 st); st = fst (CreateKey 2 st);
     st = fst (SetPermission 10 (toy_perm ''role'' ''alice'') st)
     in fst (SetPermission 10 (toy_perm ''user'' ''alice'') st))"


text \<open>
  Issuing a grant on a role key takes the slot over: the new client is authorized at once, every
  other client that held the slot is refused from then on (with a revocation naming the new
  client, so the record is kept), and grants in the other slot are untouched.
\<close>

theorem role_key_takeover:
  assumes key: "gs_by_pubkey st (pm_key_id perm) = Some r" "k_single_grant (deref st r)"
    and run: "SetPermission now perm st = (st', Inr ())"
    and fresh: "pm_revoked_at perm = None" "\<forall>t. pm_expires_at perm = Some t \<longrightarrow> now \<le> t"
  shows "(\<exists>p. GetPermission now (pm_key_id perm) (pm_user_pubkey perm) st' = Inr p \<and>
            pm_methods p = pm_methods perm \<and> pm_slot p = (if pm_slot perm = '''' then SlotDefault else pm_slot perm)) \<and>
    (\<forall>u q. u \<noteq> pm_user_pubkey perm \<and> find_grant (pm_key_id perm) u st = Some q \<longrightarrow>
       (if pm_slot q = (if pm_slot perm = '''' then SlotDefault else pm_slot perm) \<and> pm_revoked_at q = None
        then GetPermission now' (pm_key_id perm) u st' = Inl ErrPermissionExpired \<and>
             find_grant (pm_key_id perm) u st' = Some (q\<lparr>pm_revoked_at := Some now, pm_revoked_by := pm_user_pubkey perm\<rparr>)
        else find_grant (pm_key_id perm) u st' = Some q))"
proof -
  obtain p where p: "p = stored_perm now True perm" and st': "st' = store_grants (pm_key_id perm)
       (AList.update (pm_user_pubkey perm) p (map (displace now p) (grants_of (pm_key_id perm) st))) st"
    using setPermission_ok [OF run [unfolded SetPermission_def]] key by auto
  have find: "find_grant (pm_key_id perm) u st' = (if u = pm_user_pubkey perm then Some p else
     (case find_grant (pm_key_id perm) u st of None \<Rightarrow> None | Some q \<Rightarrow> Some (snd (displace now p (u, q)))))" for u
    by (simp add: st' update_conv' map_of_displace find_grant_def)
  have exp: "pm_expires_at p = pm_expires_at perm" by (simp add: p stored_perm_def Let_def)
  have perms: "gs_permissions st' (pm_key_id perm) \<noteq> None" by (simp add: st' store_grants_def)
  have gone: "GetPermission now' (pm_key_id perm) u st' = Inl ErrPermissionExpired"
    if "find_grant (pm_key_id perm) u st' = Some q" "pm_revoked_at q \<noteq> None" for u q
    using that by (auto simp: GetPermission_def find_grant_split)
  have "GetPermission now (pm_key_id perm) (pm_user_pubkey perm) st' = Inr p"
    using fresh by (simp add: GetPermission_Inr find exp) (simp add: p)
  moreover have "if pm_slot q = (if pm_slot perm = '''' then SlotDefault else pm_slot perm) \<and> pm_revoked_at q = None
        then GetPermission now' (pm_key_id perm) u st' = Inl ErrPermissionExpired \<and>
             find_grant (pm_key_id perm) u st' = Some (q\<lparr>pm_revoked_at := Some now, pm_revoked_by := pm_user_pubkey perm\<rparr>)
        else find_grant (pm_key_id perm) u st' = Some q"
    if "u \<noteq> pm_user_pubkey perm" "find_grant (pm_key_id perm) u st = Some q" for u q
    using that find [of u] gone [of u] by (auto simp: displace_def rival_def p split: if_splits)
  ultimately show ?thesis by (auto simp: p)
qed

lemma toy_store_keys:
  "gs_by_pubkey toy_store ''role'' = Some 1" "k_single_grant (deref toy_store 1)"
  "gs_by_pubkey toy_store ''user'' = Some 2" "\<not> k_single_grant (deref toy_store 2)"
  by code_simp+

lemma toy_reachable: "grant_reachable toy_store"
proof -
  have alloc: "grant_step st (st\<lparr>gs_heap := (gs_heap st)(r \<mapsto> key)\<rparr>)"
    if "gs_heap st r = None" "\<forall>k. gs_by_pubkey st k \<noteq> Some r" for st r key
    by (rule g_alloc [OF that])
  let ?s0 = "NewMemoryStorage"
  let ?s1 = "?s0\<lparr>gs_heap := [1 \<mapsto> toy_key ''role'' True]\<rparr>"
  let ?s2 = "?s0\<lparr>gs_heap := [1 \<mapsto> toy_key ''role'' True, 2 \<mapsto> toy_key ''user'' False]\<rparr>"
  have 1: "grant_reachable ?s1"
    using gr_step [OF gr_start alloc [of ?s0 1 "toy_key ''role'' True"]] by (simp add: NewMemoryStorage_def)
  have 2: "grant_reachable ?s2"
    using gr_step [OF 1 alloc [of ?s1 2 "toy_key ''user'' False"]] by (simp add: NewMemoryStorage_def)
  let ?s3 = "fst (CreateKey 1 ?s2)" and ?s4 = "fst (CreateKey 2 (fst (CreateKey 1 ?s2)))"
  have nil: "grants_of k ?s2 = []" "grants_of k ?s3 = []" for k
    by (simp_all add: NewMemoryStorage_def grants_of_def CreateKey_def Let_def)
  have 3: "grant_reachable ?s3" by (rule gr_step [OF 2 g_create [OF nil(1) surjective_pairing]])
  have 4: "grant_reachable ?s4" by (rule gr_step [OF 3 g_create [OF nil(2) surjective_pairing]])
  show ?thesis
    unfolding toy_store_def Let_def SetPermission_def
    by (rule gr_step [OF gr_step [OF 4 g_set [OF surjective_pairing]] g_set [OF surjective_pairing]])
qed

lemma toy_get: "\<not> isl (GetPermission 20 ''role'' ''alice'' toy_store)"
  by code_simp


theorem role_key_takeover_witness:
  "find_grant ''role'' ''alice'' toy_store \<noteq> None \<and>
   GetPermission 99 ''role'' ''alice'' (fst (SetPermission 50 (toy_perm ''role'' ''bob'') toy_store)) = Inl ErrPermissionExpired"
proof -
  let ?perm = "toy_perm ''role'' ''bob''"
  have run: "SetPermission 50 ?perm toy_store = (fst (SetPermission 50 ?perm toy_store), Inr ())"
    by (rule prod_eqI, simp, code_simp)
  have alice: "find_grant ''role'' ''alice'' toy_store \<noteq> None"
    "pm_slot (the (find_grant ''role'' ''alice'' toy_store)) = SlotDefault"
    "pm_revoked_at (the (find_grant ''role'' ''alice'' toy_store)) = None" by code_simp+
  have k: "gs_by_pubkey toy_store (pm_key_id ?perm) = Some 1" using toy_store_keys(1) by (simp add: toy_perm_def)
  obtain q where q: "find_grant ''role'' ''alice'' toy_store = Some q" "pm_slot q = SlotDefault" "pm_revoked_at q = None"
    using alice by auto
  have f: "pm_revoked_at ?perm = None" "\<forall>t. pm_expires_at ?perm = Some t \<longrightarrow> 50 \<le> t"
    by simp_all
  have "GetPermission 99 ''role'' ''alice'' (fst (SetPermission 50 ?perm toy_store)) = Inl ErrPermissionExpired"
    using conjunct2 [OF role_key_takeover [OF k toy_store_keys(2) run f, of 99], rule_format, of "''alice''" q] q
    by simp
  with q show ?thesis by simp
qed

text \<open>
  On a user key every app has its own grant: issuing one changes no other app's grant on any
  key, and a grant issued without an expiry gets a sliding one of \<open>SlidingGrantTTL\<close>.
\<close>

theorem user_key_side_by_side:
  assumes key: "gs_by_pubkey st (pm_key_id perm) = Some r" "\<not> k_single_grant (deref st r)"
    and slot: "pm_slot perm \<in> {'''', SlotDefault, SlotPublisher}"
  shows "\<exists>st' p. SetPermission now perm st = (st', Inr ()) \<and>
    find_grant (pm_key_id perm) (pm_user_pubkey perm) st' = Some p \<and>
    (pm_expires_at perm = None \<longrightarrow> pm_expires_at p = Some (now + SlidingGrantTTL) \<and> pm_sliding_expiry p) \<and>
    (pm_expires_at perm \<noteq> None \<longrightarrow> pm_expires_at p = pm_expires_at perm \<and> pm_sliding_expiry p = pm_sliding_expiry perm) \<and>
    (\<forall>k u. (k, u) \<noteq> (pm_key_id perm, pm_user_pubkey perm) \<longrightarrow> find_grant k u st' = find_grant k u st)"
proof -
  let ?p = "stored_perm now False perm"
  have "ValidateSlot (pm_slot ?p) = Inr ()" using slot by (auto simp: ValidateSlot_def)
  then have run: "SetPermission now perm st = (store_grants (pm_key_id perm)
      (AList.update (pm_user_pubkey perm) ?p (grants_of (pm_key_id perm) st)) st, Inr ())"
    using key by (simp add: SetPermission_def setPermission_eq [OF key(1) refl refl refl refl])
  show ?thesis
    unfolding run
    by (intro exI conjI, rule refl)
       (auto simp: update_conv' find_grant_def stored_perm_expiry)
qed

theorem user_key_side_by_side_witness:
  "find_grant ''user'' ''alice'' (fst (SetPermission 50 (toy_perm ''user'' ''bob'') toy_store)) =
     find_grant ''user'' ''alice'' toy_store"
proof -
  let ?perm = "toy_perm ''user'' ''bob''"
  have k: "gs_by_pubkey toy_store (pm_key_id ?perm) = Some 2" using toy_store_keys(3) by (simp add: toy_perm_def)
  have s: "pm_slot ?perm \<in> {'''', SlotDefault, SlotPublisher}" by (simp add: toy_perm_def)
  from user_key_side_by_side [OF k toy_store_keys(4) s, of 50] show ?thesis
    by auto
qed

text \<open>
  \<open>SetPermissionIfSlotFree\<close> on a role key never takes a slot from a live holder: it fails
  with \<open>ErrSlotOccupied\<close> exactly when another client holds an unrevoked, unlapsed grant in the
  slot, and when it succeeds every unrevoked, unlapsed grant of another client is unchanged.
\<close>

theorem slot_free_spares_live:
  assumes wf: "grants_wf st"
    and key: "gs_by_pubkey st (pm_key_id perm) = Some r" "k_single_grant (deref st r)"
    and slot: "pm_slot perm \<in> {SlotDefault, SlotPublisher}"
    and run: "SetPermissionIfSlotFree now perm st = (st', res)"
  shows "(res = Inl ErrSlotOccupied \<longleftrightarrow> (\<exists>u q. u \<noteq> pm_user_pubkey perm \<and>
            find_grant (pm_key_id perm) u st = Some q \<and> pm_revoked_at q = None \<and>
            pm_slot q = pm_slot perm \<and> \<not> lapsed now q)) \<and>
    (\<forall>k u q. find_grant k u st = Some q \<and> pm_revoked_at q = None \<and> \<not> lapsed now q \<and>
       (k, u) \<noteq> (pm_key_id perm, pm_user_pubkey perm) \<longrightarrow> find_grant k u st' = Some q)"
proof -
  let ?p = "stored_perm now True perm" and ?k = "pm_key_id perm"
  have d: "distinct (map fst (grants_of ?k st))" by (rule grants_wfD(1) [OF wf])
  have single: "True = k_single_grant (deref st r)" using key(2) by simp
  have ne: "pm_slot perm \<noteq> ''''" using slot by (auto simp: SlotDefault_def SlotPublisher_def)
  have sl: "pm_slot ?p = pm_slot perm" using slot by (auto simp: SlotDefault_def SlotPublisher_def)
  have v: "ValidateSlot (pm_slot ?p) = Inr ()" using slot unfolding sl by (auto simp: ValidateSlot_def)
  have taken: "slot_taken now ?p (grants_of ?k st) \<longleftrightarrow> (\<exists>u q. u \<noteq> pm_user_pubkey perm \<and>
      find_grant ?k u st = Some q \<and> pm_revoked_at q = None \<and> pm_slot q = pm_slot perm \<and> \<not> lapsed now q)"
    unfolding slot_taken_def list_ex_iff Bex_def split_paired_Ex find_grant_def map_of_eq_Some_iff [OF d]
      rival_def sl by auto
  have run': "(st', res) = (if slot_taken now ?p (grants_of ?k st)
      then (store_grants ?k (grants_of ?k st) st, Inl ErrSlotOccupied)
      else (store_grants ?k (AList.update (pm_user_pubkey perm) ?p (map (displace now ?p) (grants_of ?k st))) st, Inr ()))"
    using run v by (simp add: SetPermissionIfSlotFree_def setPermission_eq [OF key(1) single refl refl refl])
  show ?thesis
  proof (cases "slot_taken now ?p (grants_of ?k st)")
    case True
    with run' taken show ?thesis by (auto simp: find_grant_def)
  next
    case False
    have "find_grant k u st' = Some q" if "find_grant k u st = Some q" "pm_revoked_at q = None"
      "\<not> lapsed now q" "(k, u) \<noteq> (?k, pm_user_pubkey perm)" for k u q
    proof (cases "k = ?k")
      case True
      have "\<not> rival ?p (u, q)"
        using False that True taken ne by (auto simp: rival_def)
      then have "displace now ?p (u, q) = (u, q)" by (simp add: displace_def)
      with False run' True that show ?thesis
        by (simp add: update_conv' map_of_displace find_grant_def)
    next
      case other: False
      with False run' that show ?thesis by simp
    qed
    moreover have "res = Inr ()" using False run' by simp
    ultimately show ?thesis using False taken by blast
  qed
qed

theorem slot_free_spares_live_witness:
  "snd (SetPermissionIfSlotFree 50 ((toy_perm ''role'' ''bob'')\<lparr>pm_slot := SlotDefault\<rparr>) toy_store) = Inl ErrSlotOccupied"
proof -
  let ?perm = "(toy_perm ''role'' ''bob'')\<lparr>pm_slot := SlotDefault\<rparr>"
  have alice: "find_grant ''role'' ''alice'' toy_store \<noteq> None"
    "pm_slot (the (find_grant ''role'' ''alice'' toy_store)) = SlotDefault"
    "pm_revoked_at (the (find_grant ''role'' ''alice'' toy_store)) = None"
    "\<not> lapsed 50 (the (find_grant ''role'' ''alice'' toy_store))" by code_simp+
  have k: "gs_by_pubkey toy_store (pm_key_id ?perm) = Some 1" using toy_store_keys(1) by simp
  have s: "pm_slot ?perm \<in> {SlotDefault, SlotPublisher}" by simp
  obtain q where q: "find_grant ''role'' ''alice'' toy_store = Some q" "pm_slot q = SlotDefault"
    "pm_revoked_at q = None" "\<not> lapsed 50 q" using alice by auto
  note t = conjunct1 [OF slot_free_spares_live [OF grant_reachable_wf [OF toy_reachable] k toy_store_keys(2) s
        surjective_pairing, of 50]]
  show ?thesis unfolding t
    by (rule exI [of _ "''alice''"], rule exI [of _ q]) (simp add: q)
qed

text \<open>
  Using a grant never revives it and never shortens it: an expired or revoked grant keeps its
  expiry, a fixed expiry never moves, and a live sliding grant ends up valid for at least
  \<open>SlidingGrantTTL - SlidingGrantRefreshEvery\<close> from now and, if it moved, for exactly
  \<open>SlidingGrantTTL\<close>.
\<close>

theorem sliding_use:
  assumes p: "find_grant k u st = Some p" and e: "pm_expires_at p = Some t"
  shows "\<exists>p' t'. find_grant k u (UpdatePermissionLastUsed now k u st) = Some p' \<and>
    pm_expires_at p' = Some t' \<and> pm_last_used_at p' = Some now \<and> t \<le> t' \<and>
    (t' \<noteq> t \<longrightarrow> pm_sliding_expiry p \<and> now < t \<and> pm_revoked_at p = None \<and> t' = now + SlidingGrantTTL) \<and>
    (pm_sliding_expiry p \<and> now < t \<and> pm_revoked_at p = None \<longrightarrow>
       now + (SlidingGrantTTL - SlidingGrantRefreshEvery) \<le> t')"
  using p e
  by (auto simp: UpdatePermissionLastUsed_eq slideDue_def SlidingGrantTTL_def SlidingGrantRefreshEvery_def)

theorem sliding_use_witness:
  "\<exists>p'. find_grant ''user'' ''alice'' (UpdatePermissionLastUsed (10 + hours 48) ''user'' ''alice'' toy_store) = Some p' \<and>
     pm_last_used_at p' = Some (10 + hours 48)"
proof -
  have "find_grant ''user'' ''alice'' toy_store \<noteq> None"
    "pm_expires_at (the (find_grant ''user'' ''alice'' toy_store)) = Some (10 + SlidingGrantTTL)" by code_simp+
  then obtain p where "find_grant ''user'' ''alice'' toy_store = Some p" "pm_expires_at p = Some (10 + SlidingGrantTTL)"
    by auto
  from sliding_use [OF this, of "10 + hours 48"] show ?thesis by auto
qed

subsection \<open>Deleted keys and renamed keys\<close>

text \<open>
  Deleting a key does not remove its grants: the loop of the grant operations files them under
  the full public key, \<open>DeleteKey\<close> deletes the entry of the key id, and ids are shorter than public
  keys. If the same key is created again, with no grant issued, every grant of the deleted key
  that was live is live again.
\<close>

theorem deleted_key_grants_survive:
  assumes keys: "map_of (gs_keys st) (k_id (deref st r)) = Some r" "gs_by_pubkey st (k_pubkey (deref st r)) = Some r"
    and ids: "k_id (deref st r) \<noteq> k_pubkey (deref st r)"
    and live: "GetPermission now (k_pubkey (deref st r)) u st = Inr p"
  shows "\<exists>st1 st2. DeleteKey (k_id (deref st r)) st = (st1, Inr ()) \<and>
    GetKeyByPubkey (k_pubkey (deref st r)) st1 = Inl ErrKeyNotFound \<and>
    CreateKey r st1 = (st2, Inr ()) \<and> GetPermission now (k_pubkey (deref st r)) u st2 = Inr p"
  using assms
  by (simp add: DeleteKey_def CreateKey_def Let_def GetPermission_def deref_def GetKeyByPubkey_def
      AList.delete_conv')

theorem deleted_key_grants_survive_witness:
  "\<exists>st1 st2 p. DeleteKey ''us'' toy_store = (st1, Inr ()) \<and> CreateKey 2 st1 = (st2, Inr ()) \<and>
     GetPermission 20 ''user'' ''alice'' st2 = Inr p"
proof -
  have k: "deref toy_store 2 = toy_key ''user'' False" by code_simp
  have ks: "map_of (gs_keys toy_store) (k_id (deref toy_store 2)) = Some 2"
    "gs_by_pubkey toy_store (k_pubkey (deref toy_store 2)) = Some 2"
    "k_id (deref toy_store 2) \<noteq> k_pubkey (deref toy_store 2)" by code_simp+
  have "\<not> isl (GetPermission 20 (k_pubkey (deref toy_store 2)) ''alice'' toy_store)" by code_simp
  then obtain p where p: "GetPermission 20 (k_pubkey (deref toy_store 2)) ''alice'' toy_store = Inr p"
    by (cases "GetPermission 20 (k_pubkey (deref toy_store 2)) ''alice'' toy_store") auto
  from deleted_key_grants_survive [OF ks p] show ?thesis by (auto simp: k) (auto simp: toy_key_def)
qed

text \<open>
  Renaming a key the way the API does it (fetch the pointer, assign the name, \<open>UpdateKey\<close>) leaves
  the name index as it was: \<open>UpdateKey\<close> compares the new name with the name of the stored key,
  which is the same object. The old name still finds the key and the new one does not.
\<close>

lemma rename_through_pointer:
  assumes "map_of (gs_keys st) i = Some r" "gs_heap st r = Some key" "k_id key = i"
  shows "\<exists>st'. UpdateKey r (write_key r (\<lambda>k. k\<lparr>k_name := n\<rparr>) st) = (st', Inr ()) \<and>
     gs_by_name st' = gs_by_name st \<and> k_name (deref st' r) = n"
  using assms by (simp add: UpdateKey_def write_key_def deref_def Let_def)

end
