(* ===== verification/OneTime.thy ===== *)
theory OneTime
  imports Grants
begin

text \<open>
  The one-time credentials of \<open>internal/storage/storage.go\<close>: access tokens, bunker secrets,
  recovery challenges, Lightning login challenges and backup codes. Each is handed out once and
  must work once. The locale \<open>single_use\<close> states that contract, derives from it that any
  sequence of attempts, by any callers at any times, succeeds at most once per credential, and
  is interpreted on each of the five.
\<close>

subsection \<open>The contract\<close>

text \<open>A sequence of attempts: each names a credential and the circumstances (clock, caller).\<close>

fun attempts :: "('r \<Rightarrow> 'k \<Rightarrow> 't \<Rightarrow> 't \<times> ('e + 'v)) \<Rightarrow> ('r \<times> 'k) list \<Rightarrow> 't \<Rightarrow> ('k \<times> ('e + 'v)) list" where
  "attempts consume [] t = []"
| "attempts consume ((r, k) # as) t =
     (case consume r k t of (t', res) \<Rightarrow> (k, res) # attempts consume as t')"

definition successes :: "'k \<Rightarrow> ('k \<times> ('e + 'v)) list \<Rightarrow> nat" where
  "successes k rs = length (filter (\<lambda>(k', res). k' = k \<and> ok res) rs)"

locale single_use =
  fixes consume :: "'r \<Rightarrow> 'k \<Rightarrow> 't \<Rightarrow> 't \<times> ('e + 'v)"
    and spent :: "'k \<Rightarrow> 't \<Rightarrow> bool"
    and inv :: "'t \<Rightarrow> bool"
  assumes inv_kept: "inv t \<Longrightarrow> inv (fst (consume r k t))"
    and success_spends: "inv t \<Longrightarrow> consume r k t = (t', Inr v) \<Longrightarrow> spent k t'"
    and spent_refused: "inv t \<Longrightarrow> spent k t \<Longrightarrow> \<not> ok (snd (consume r k t))"
    and spent_kept: "inv t \<Longrightarrow> spent k t \<Longrightarrow> spent k (fst (consume r k' t))"
begin

lemma spent_never: "inv t \<Longrightarrow> spent k t \<Longrightarrow> successes k (attempts consume as t) = 0"
proof (induction as arbitrary: t)
  case Nil
  then show ?case by (simp add: successes_def)
next
  case (Cons a as)
  obtain r k' where a: "a = (r, k')" by (cases a)
  obtain t' res where c: "consume r k' t = (t', res)" by (cases "consume r k' t")
  have "inv t'" "spent k t'"
    using inv_kept [OF Cons.prems(1), of r k'] spent_kept [OF Cons.prems, of r k'] c by simp_all
  moreover have "k' = k \<Longrightarrow> \<not> ok res" using spent_refused [OF Cons.prems, of r] c by auto
  ultimately show ?case using Cons.IH by (auto simp: a c successes_def)
qed

lemma at_most_once: "inv t \<Longrightarrow> successes k (attempts consume as t) \<le> 1"
proof (induction as arbitrary: t)
  case Nil
  then show ?case by (simp add: successes_def)
next
  case (Cons a as)
  obtain r k' where a: "a = (r, k')" by (cases a)
  obtain t' res where c: "consume r k' t = (t', res)" by (cases "consume r k' t")
  have inv': "inv t'" using inv_kept [OF Cons.prems, of r k'] c by simp
  show ?case
  proof (cases "k' = k \<and> ok res")
    case True
    then obtain v where "consume r k t = (t', Inr v)" using c by (auto simp: ok_iff)
    then have "spent k t'" by (rule success_spends [OF Cons.prems])
    then have "successes k (attempts consume as t') = 0" by (rule spent_never [OF inv'])
    then show ?thesis by (auto simp: a c successes_def)
  next
    case False
    with Cons.IH [OF inv'] show ?thesis by (auto simp: a c successes_def)
  qed
qed

end

subsection \<open>Access tokens\<close>

text \<open>Tokens are shared objects, reached by id and, per key, by the key's own map.\<close>

record token =
  tk_id :: string
  tk_policy_id :: string
  tk_key_id :: string
  tk_client_name :: string
  tk_created_by :: string
  tk_expires_at :: "time option"
  tk_redeemed_at :: "time option"
  tk_redeemed_by :: string
  tk_created_at :: time

record token_store =
  ts_heap :: "addr \<rightharpoonup> token"
  ts_tokens :: "string \<rightharpoonup> addr"
  ts_by_key :: "string \<rightharpoonup> (string \<times> addr) list"

definition tderef :: "token_store \<Rightarrow> addr \<Rightarrow> token" where
  "tderef st r = the (ts_heap st r)"

definition tokens_of :: "string \<Rightarrow> token_store \<Rightarrow> (string \<times> addr) list" where
  "tokens_of keyID st = (case ts_by_key st keyID of None \<Rightarrow> [] | Some ts \<Rightarrow> ts)"

definition CreateToken :: "addr \<Rightarrow> token_store \<Rightarrow> token_store" where
  "CreateToken r st =
     (let t = tderef st r in
      st\<lparr>ts_tokens := (ts_tokens st)(tk_id t \<mapsto> r),
         ts_by_key := (ts_by_key st)(tk_key_id t \<mapsto> AList.update (tk_id t) r (tokens_of (tk_key_id t) st))\<rparr>)"

definition GetToken :: "string \<Rightarrow> token_store \<Rightarrow> storage_error + addr" where
  "GetToken i st = or_err ErrTokenNotFound (ts_tokens st i)"

definition ListTokens :: "string \<Rightarrow> token_store \<Rightarrow> addr list" where
  "ListTokens keyID st = map snd (tokens_of keyID st)"

definition RedeemToken ::
    "time \<times> string \<Rightarrow> string \<Rightarrow> token_store \<Rightarrow> token_store \<times> (storage_error + token)" where
  "RedeemToken ctx tokenID st =
     (case ctx of (now, redeemerPubkey) \<Rightarrow>
      case ts_tokens st tokenID of
        None \<Rightarrow> (st, Inl ErrTokenNotFound)
      | Some r \<Rightarrow>
          (let token = tderef st r in
           if tk_redeemed_at token \<noteq> None then (st, Inl ErrTokenRedeemed)
           else if (case tk_expires_at token of None \<Rightarrow> False | Some t \<Rightarrow> now > t)
           then (st, Inl ErrTokenExpired)
           else (let token = token\<lparr>tk_redeemed_at := Some now, tk_redeemed_by := redeemerPubkey\<rparr>
                 in (st\<lparr>ts_heap := (ts_heap st)(r \<mapsto> token)\<rparr>, Inr token))))"

definition DeleteToken :: "string \<Rightarrow> token_store \<Rightarrow> token_store \<times> (storage_error + unit)" where
  "DeleteToken i st =
     (case ts_tokens st i of
        None \<Rightarrow> (st, Inl ErrTokenNotFound)
      | Some r \<Rightarrow>
          (let k = tk_key_id (tderef st r);
               st = st\<lparr>ts_tokens := (ts_tokens st)(i := None)\<rparr>
           in (case ts_by_key st k of
                 None \<Rightarrow> st
               | Some ts \<Rightarrow> st\<lparr>ts_by_key := (ts_by_key st)(k \<mapsto> AList.delete i ts)\<rparr>, Inr ())))"

definition token_spent :: "string \<Rightarrow> token_store \<Rightarrow> bool" where
  "token_spent i st \<longleftrightarrow>
     (case ts_tokens st i of None \<Rightarrow> True | Some r \<Rightarrow> tk_redeemed_at (tderef st r) \<noteq> None)"

interpretation tok: single_use RedeemToken token_spent "\<lambda>_. True"
  by unfold_locales
     (auto simp: RedeemToken_def token_spent_def tderef_def Let_def split: prod.splits option.splits if_splits)

subsection \<open>Bunker secrets\<close>

record bunker_secret =
  bs_id :: string
  bs_key_pubkey :: string
  bs_secret :: string
  bs_expires_at :: time
  bs_created_at :: time
  bs_used_at :: "time option"

type_synonym bunker_store = "(string \<times> bunker_secret) list"

definition CreateBunkerSecret :: "bunker_secret \<Rightarrow> bunker_store \<Rightarrow> bunker_store" where
  "CreateBunkerSecret s st = AList.update (bs_secret s) s st"

definition ValidateBunkerSecret ::
    "time \<times> string \<Rightarrow> string \<Rightarrow> bunker_store \<Rightarrow> bunker_store \<times> (storage_error + bunker_secret)" where
  "ValidateBunkerSecret ctx secret st =
     (case ctx of (now, keyPubkey) \<Rightarrow>
      case map_of st secret of
        None \<Rightarrow> (st, Inl ErrBunkerSecretInvalid)
      | Some bs \<Rightarrow>
          if bs_key_pubkey bs \<noteq> keyPubkey then (st, Inl ErrBunkerSecretInvalid)
          else if now > bs_expires_at bs then (AList.delete secret st, Inl ErrBunkerSecretInvalid)
          else if bs_used_at bs \<noteq> None then (st, Inl ErrBunkerSecretInvalid)
          else (let bs = bs\<lparr>bs_used_at := Some now\<rparr> in (AList.update secret bs st, Inr bs)))"

fun DeleteBunkerSecret :: "string \<Rightarrow> bunker_store \<Rightarrow> bunker_store" where
  "DeleteBunkerSecret i [] = []"
| "DeleteBunkerSecret i ((s, bs) # st) =
     (if bs_id bs = i then st else (s, bs) # DeleteBunkerSecret i st)"

definition CleanExpiredBunkerSecrets :: "time \<Rightarrow> bunker_store \<Rightarrow> bunker_store" where
  "CleanExpiredBunkerSecrets now st = filter (\<lambda>(s, bs). \<not> now > bs_expires_at bs) st"

definition secret_spent :: "string \<Rightarrow> bunker_store \<Rightarrow> bool" where
  "secret_spent s st \<longleftrightarrow> (case map_of st s of None \<Rightarrow> True | Some bs \<Rightarrow> bs_used_at bs \<noteq> None)"

interpretation sec: single_use ValidateBunkerSecret secret_spent "\<lambda>_. True"
  by unfold_locales
     (auto simp: ValidateBunkerSecret_def secret_spent_def Let_def update_conv' AList.delete_conv'
       split: prod.splits option.splits if_splits)

subsection \<open>Recovery challenges\<close>

datatype challenge_error = ErrChallengeNotFound

record recovery_challenge =
  rc_id :: string
  rc_user_id :: string
  rc_expires_at :: time
  rc_created_at :: time
  rc_used_at :: "time option"

type_synonym recovery_store = "string \<rightharpoonup> recovery_challenge"

definition CreateRecoveryChallenge :: "recovery_challenge \<Rightarrow> recovery_store \<Rightarrow> recovery_store" where
  "CreateRecoveryChallenge c st = st(rc_id c \<mapsto> c)"

definition ConsumeRecoveryChallenge ::
    "time \<Rightarrow> string \<Rightarrow> recovery_store \<Rightarrow> recovery_store \<times> (challenge_error + recovery_challenge)" where
  "ConsumeRecoveryChallenge now i st =
     (case st i of
        None \<Rightarrow> (st, Inl ErrChallengeNotFound)
      | Some c \<Rightarrow>
          if rc_used_at c \<noteq> None \<or> now > rc_expires_at c then (st, Inl ErrChallengeNotFound)
          else (let c = c\<lparr>rc_used_at := Some now\<rparr> in (st(i \<mapsto> c), Inr c)))"

definition DeleteExpiredRecoveryChallenges :: "time \<Rightarrow> recovery_store \<Rightarrow> recovery_store \<times> nat" where
  "DeleteExpiredRecoveryChallenges now st =
     (let st' = sweep (\<lambda>c. now > rc_expires_at c) st in (st', card (dom st - dom st')))"

definition challenge_spent :: "string \<Rightarrow> recovery_store \<Rightarrow> bool" where
  "challenge_spent i st \<longleftrightarrow> (case st i of None \<Rightarrow> True | Some c \<Rightarrow> rc_used_at c \<noteq> None)"

interpretation rec: single_use ConsumeRecoveryChallenge challenge_spent "\<lambda>_. True"
  by unfold_locales
     (auto simp: ConsumeRecoveryChallenge_def challenge_spent_def Let_def split: option.splits if_splits)

subsection \<open>Lightning challenges\<close>

text \<open>
  The map by \<open>K1\<close>, as an association list: the search loop takes the first live match in the
  map's iteration order.
\<close>

record lightning_challenge =
  lc_k1 :: string
  lc_session_id :: string
  lc_status :: string
  lc_user_id :: string
  lc_bound_user_id :: string
  lc_is_link :: bool
  lc_linking_key :: string
  lc_expires_at :: time
  lc_created_at :: time

datatype lightning_error = ErrLightningChallengeNotFound

type_synonym lightning_store = "(string \<times> lightning_challenge) list"

definition CreateLightningChallenge :: "lightning_challenge \<Rightarrow> lightning_store \<Rightarrow> lightning_store" where
  "CreateLightningChallenge c st =
     AList.update (lc_k1 c) (if lc_status c = '''' then c\<lparr>lc_status := ''pending''\<rparr> else c) st"

fun liveLightningChallenge ::
    "time \<Rightarrow> (lightning_challenge \<Rightarrow> bool) \<Rightarrow> lightning_store \<Rightarrow> lightning_challenge option" where
  "liveLightningChallenge now match [] = None"
| "liveLightningChallenge now match ((k, c) # st) =
     (if match c \<and> lc_expires_at c > now then Some c else liveLightningChallenge now match st)"

definition GetLightningChallenge ::
    "time \<Rightarrow> string \<Rightarrow> lightning_store \<Rightarrow> lightning_error + lightning_challenge" where
  "GetLightningChallenge now k1 st =
     or_err ErrLightningChallengeNotFound (liveLightningChallenge now (\<lambda>c. lc_k1 c = k1) st)"

definition GetLightningChallengeBySession ::
    "time \<Rightarrow> string \<Rightarrow> lightning_store \<Rightarrow> lightning_error + lightning_challenge" where
  "GetLightningChallengeBySession now sessionID st =
     or_err ErrLightningChallengeNotFound (liveLightningChallenge now (\<lambda>c. lc_session_id c = sessionID) st)"

text \<open>The found challenge is a pointer into the map: writing to it updates the entry of its key.\<close>

definition AuthenticateLightningChallenge ::
    "time \<times> string \<times> string \<Rightarrow> string \<Rightarrow> lightning_store \<Rightarrow> lightning_store \<times> (lightning_error + unit)" where
  "AuthenticateLightningChallenge ctx k1 st =
     (case ctx of (now, userID, linkingKey) \<Rightarrow>
      case liveLightningChallenge now (\<lambda>c. lc_k1 c = k1 \<and> lc_status c = ''pending'') st of
        None \<Rightarrow> (st, Inl ErrLightningChallengeNotFound)
      | Some c \<Rightarrow>
          (AList.update (lc_k1 c) (c\<lparr>lc_status := ''authenticated'', lc_user_id := userID,
             lc_linking_key := linkingKey\<rparr>) st, Inr ()))"

definition ConsumeLightningChallenge ::
    "time \<Rightarrow> string \<Rightarrow> lightning_store \<Rightarrow> lightning_store \<times> (lightning_error + string)" where
  "ConsumeLightningChallenge now sessionID st =
     (case liveLightningChallenge now
            (\<lambda>c. lc_session_id c = sessionID \<and> lc_status c = ''authenticated'') st of
        None \<Rightarrow> (st, Inl ErrLightningChallengeNotFound)
      | Some c \<Rightarrow> (AList.delete (lc_k1 c) st, Inr (lc_user_id c)))"

definition CleanExpiredLightningChallenges :: "time \<Rightarrow> lightning_store \<Rightarrow> lightning_store" where
  "CleanExpiredLightningChallenges now st = filter (\<lambda>(k, c). lc_expires_at c > now) st"

text \<open>Entries are filed under their own key, once, and session ids are not shared.\<close>

definition lightning_wf :: "lightning_store \<Rightarrow> bool" where
  "lightning_wf st \<longleftrightarrow> distinct (map fst st) \<and> (\<forall>(k, c)\<in>set st. lc_k1 c = k) \<and>
     inj_on (\<lambda>(k, c). lc_session_id c) (set st)"

definition session_spent :: "string \<Rightarrow> lightning_store \<Rightarrow> bool" where
  "session_spent s st \<longleftrightarrow> (\<forall>(k, c)\<in>set st. lc_session_id c = s \<longrightarrow> lc_status c \<noteq> ''authenticated'')"

definition k1_spent :: "string \<Rightarrow> lightning_store \<Rightarrow> bool" where
  "k1_spent k1 st \<longleftrightarrow> (\<forall>(k, c)\<in>set st. k = k1 \<longrightarrow> lc_status c \<noteq> ''pending'')"

lemma live_Some:
  "liveLightningChallenge now P st = Some c \<Longrightarrow> \<exists>k. (k, c) \<in> set st \<and> P c \<and> lc_expires_at c > now"
  by (induction st) (auto split: if_splits)

lemma live_None:
  "liveLightningChallenge now P st = None \<longleftrightarrow> (\<forall>(k, c)\<in>set st. \<not> (P c \<and> lc_expires_at c > now))"
  by (induction st) (auto split: if_splits)

lemma lightning_wf_delete: "lightning_wf st \<Longrightarrow> lightning_wf (AList.delete k st)"
  by (auto simp: lightning_wf_def AList.delete_eq distinct_map_filter inj_on_def)

interpretation ln_consume: single_use ConsumeLightningChallenge session_spent lightning_wf
proof
  fix t r k t' v
  assume wf: "lightning_wf t"
  show "lightning_wf (fst (ConsumeLightningChallenge r k t))"
    using lightning_wf_delete [OF wf] wf by (auto simp: ConsumeLightningChallenge_def split: option.splits)
  { assume "ConsumeLightningChallenge r k t = (t', Inr v)"
    then obtain c where c: "liveLightningChallenge r (\<lambda>c. lc_session_id c = k \<and> lc_status c = ''authenticated'') t = Some c"
      and t': "t' = AList.delete (lc_k1 c) t"
      by (auto simp: ConsumeLightningChallenge_def split: option.splits)
    from live_Some [OF c] wf have mem: "(lc_k1 c, c) \<in> set t" "lc_session_id c = k"
      by (auto simp: lightning_wf_def)
    have "j = lc_k1 c" if "(j, d) \<in> set t" "lc_session_id d = k" for j d
      using wf mem that by (auto simp: lightning_wf_def inj_on_def)
    then show "session_spent k t'" by (auto simp: session_spent_def t' AList.delete_eq) }
  assume sp: "session_spent k t"
  show "\<not> ok (snd (ConsumeLightningChallenge r k t))"
    using sp by (auto simp: ConsumeLightningChallenge_def session_spent_def live_None split: option.splits
        dest!: live_Some)
  fix k'
  show "session_spent k (fst (ConsumeLightningChallenge r k' t))"
    using sp by (auto simp: ConsumeLightningChallenge_def session_spent_def AList.delete_eq split: option.splits)
qed

lemma update_entry:
  "distinct (map fst st) \<Longrightarrow> set (AList.update k c st) = insert (k, c) {e \<in> set st. fst e \<noteq> k}"
  by (rule set_update_distinct)

lemma lightning_wf_update:
  assumes wf: "lightning_wf st" and mem: "(k, c) \<in> set st"
    and c': "lc_k1 c' = lc_k1 c" "lc_session_id c' = lc_session_id c"
  shows "lightning_wf (AList.update k c' st)"
proof -
  have d: "distinct (map fst st)" and k: "\<And>j d. (j, d) \<in> set st \<Longrightarrow> lc_k1 d = j"
    and inj: "inj_on (\<lambda>(k, c). lc_session_id c) (set st)"
    using wf by (auto simp: lightning_wf_def)
  have other: "lc_session_id d \<noteq> lc_session_id c" if "(j, d) \<in> set st" "j \<noteq> k" for j d
    using inj mem that by (auto simp: inj_on_def)
  have "inj_on (\<lambda>(k, c). lc_session_id c) (insert (k, c') {e \<in> set st. fst e \<noteq> k})"
    using inj by (auto simp: inj_on_def c' dest: other)
  then show ?thesis
    using k mem c' by (auto simp: lightning_wf_def update_entry [OF d] distinct_update d)
qed

interpretation ln_auth: single_use AuthenticateLightningChallenge k1_spent lightning_wf
proof
  fix t :: lightning_store and r :: "time \<times> string \<times> string" and k t' v
  assume wf: "lightning_wf t"
  obtain now u lk where r: "r = (now, u, lk)" by (cases r)
  have d: "distinct (map fst t)" using wf by (simp add: lightning_wf_def)
  have step: "AuthenticateLightningChallenge r k t = (t, Inl ErrLightningChallengeNotFound) \<or>
    (\<exists>c. (k, c) \<in> set t \<and> lc_k1 c = k \<and> AuthenticateLightningChallenge r k t =
       (AList.update k (c\<lparr>lc_status := ''authenticated'', lc_user_id := u, lc_linking_key := lk\<rparr>) t, Inr ()) \<and>
       lc_status c = ''pending'')" for k
    using wf by (auto simp: AuthenticateLightningChallenge_def r lightning_wf_def split: option.splits dest!: live_Some)
  have "lightning_wf (AList.update k (c\<lparr>lc_status := ''authenticated'', lc_user_id := u, lc_linking_key := lk\<rparr>) t)"
    if "(k, c) \<in> set t" for c
    by (rule lightning_wf_update [OF wf that]) simp_all
  then show "lightning_wf (fst (AuthenticateLightningChallenge r k t))"
    using step [of k] wf by auto
  show "k1_spent k t'" if "AuthenticateLightningChallenge r k t = (t', Inr v)"
    using step [of k] that by (auto simp: k1_spent_def update_entry [OF d])
  assume sp: "k1_spent k t"
  show "\<not> ok (snd (AuthenticateLightningChallenge r k t))"
    using step [of k] sp by (auto simp: k1_spent_def)
  fix k'
  show "k1_spent k (fst (AuthenticateLightningChallenge r k' t))"
    using step [of k'] sp by (auto simp: k1_spent_def update_entry [OF d])
qed

subsection \<open>Properties\<close>

text \<open>
  C7. A one-time credential works at most once: in any sequence of attempts at any times by any
  callers, an access token, a bunker secret and a recovery challenge each succeed at most once.
\<close>

theorem one_time_credentials:
  "successes tid (attempts RedeemToken redeems ts) \<le> 1 \<and>
   successes s (attempts ValidateBunkerSecret checks bs) \<le> 1 \<and>
   successes c (attempts ConsumeRecoveryChallenge answers rs) \<le> 1"
  using tok.at_most_once sec.at_most_once rec.at_most_once by blast

text \<open>
  A Lightning login completes at most once: a challenge is authenticated at most once, and its
  login session is consumed at most once.
\<close>

theorem lightning_login_once:
  assumes "lightning_wf st"
  shows "successes k1 (attempts AuthenticateLightningChallenge callbacks st) \<le> 1 \<and>
    successes s (attempts ConsumeLightningChallenge polls st) \<le> 1"
  using ln_auth.at_most_once [OF assms] ln_consume.at_most_once [OF assms] by blast

theorem lightning_login_once_witness:
  "successes ''k'' (attempts AuthenticateLightningChallenge
     [((1, ''u'', ''l''), ''k''), ((2, ''v'', ''m''), ''k'')]
     (CreateLightningChallenge \<lparr>lc_k1 = ''k'', lc_session_id = ''s'', lc_status = '''', lc_user_id = '''',
        lc_bound_user_id = '''', lc_is_link = False, lc_linking_key = '''', lc_expires_at = 9, lc_created_at = 0\<rparr> [])) \<le> 1"
  by (rule conjunct1 [OF lightning_login_once]) (simp add: lightning_wf_def CreateLightningChallenge_def)

end
