(* ===== verification/Users.thy ===== *)
theory Users
  imports OneTime
begin

text \<open>
  Accounts and their web sessions in the in-memory store (\<open>internal/storage/storage.go\<close> and
  \<open>session_seal.go\<close>): users with their login lockout and backup codes, user sessions, and the
  session seals that keep a user-held key restorable.

  The store keeps its own copy of a user (\<open>cloneUser\<close>) and three maps point to it; the copy made
  by a call lives at an address that the model takes as an argument.
\<close>

subsection \<open>Users\<close>

record user =
  u_id :: string
  u_username :: string
  u_email :: string
  u_pubkey :: string
  u_role :: string
  u_password_hash :: string
  u_mfa_secret :: string
  u_mfa_enabled :: bool
  u_backup_codes :: "string list"
  u_backup_codes_used :: int
  u_failed_login_attempts :: int
  u_locked_until :: "time option"
  u_last_login_at :: "time option"
  u_last_login_ip :: string
  u_created_at :: time
  u_updated_at :: time

definition IsAdmin :: "user \<Rightarrow> bool" where
  "IsAdmin u \<longleftrightarrow> u_role u = ''admin''"

record user_session =
  us_id :: string
  us_user_id :: string
  us_token :: string
  us_vault_token :: string
  us_cosign_listener :: string
  us_user_agent :: string
  us_ip_address :: string
  us_remember_device :: bool
  us_last_activity :: "time option"
  us_expires_at :: time
  us_created_at :: time

record session_seal =
  sl_id :: string
  sl_user_id :: string
  sl_key_id :: string
  sl_pubkey :: string
  sl_session_id :: string
  sl_mode :: string
  sl_sliding :: bool
  sl_sealed :: bytes
  sl_expires_at :: time
  sl_created_at :: time

record user_store =
  ut_heap :: "addr \<rightharpoonup> user"
  ut_users :: "(string \<times> addr) list"
  ut_by_username :: "string \<rightharpoonup> addr"
  ut_by_email :: "string \<rightharpoonup> addr"
  ut_sessions :: "(string \<times> user_session) list"
  ut_seals :: "(string \<times> session_seal) list"

definition uderef :: "user_store \<Rightarrow> addr \<Rightarrow> user" where
  "uderef st r = the (ut_heap st r)"

definition write_user :: "addr \<Rightarrow> (user \<Rightarrow> user) \<Rightarrow> user_store \<Rightarrow> user_store" where
  "write_user r f st = st\<lparr>ut_heap := (ut_heap st)(r \<mapsto> f (uderef st r))\<rparr>"

definition CreateUser :: "addr \<Rightarrow> user \<Rightarrow> user_store \<Rightarrow> user_store \<times> (storage_error + unit)" where
  "CreateUser r user st =
     (if map_of (ut_users st) (u_id user) \<noteq> None then (st, Inl ErrUserExists)
      else if ut_by_username st (u_username user) \<noteq> None then (st, Inl ErrUserExists)
      else if u_email user \<noteq> '''' \<and> ut_by_email st (u_email user) \<noteq> None then (st, Inl ErrUserExists)
      else (st\<lparr>ut_heap := (ut_heap st)(r \<mapsto> user),
               ut_users := AList.update (u_id user) r (ut_users st),
               ut_by_username := (ut_by_username st)(u_username user \<mapsto> r),
               ut_by_email := (if u_email user \<noteq> '''' then (ut_by_email st)(u_email user \<mapsto> r)
                               else ut_by_email st)\<rparr>, Inr ()))"

definition GetUser :: "string \<Rightarrow> user_store \<Rightarrow> storage_error + user" where
  "GetUser i st = (case map_of (ut_users st) i of None \<Rightarrow> Inl ErrUserNotFound | Some r \<Rightarrow> Inr (uderef st r))"

definition GetUserByUsername :: "string \<Rightarrow> user_store \<Rightarrow> storage_error + user" where
  "GetUserByUsername n st =
     (case ut_by_username st n of None \<Rightarrow> Inl ErrUserNotFound | Some r \<Rightarrow> Inr (uderef st r))"

definition GetUserByEmail :: "string \<Rightarrow> user_store \<Rightarrow> storage_error + user" where
  "GetUserByEmail e st =
     (case ut_by_email st e of None \<Rightarrow> Inl ErrUserNotFound | Some r \<Rightarrow> Inr (uderef st r))"

fun find_user :: "(user \<Rightarrow> bool) \<Rightarrow> user_store \<Rightarrow> (string \<times> addr) list \<Rightarrow> storage_error + user" where
  "find_user P st [] = Inl ErrUserNotFound"
| "find_user P st ((i, r) # rest) = (if P (uderef st r) then Inr (uderef st r) else find_user P st rest)"

definition GetUserByPubkey :: "string \<Rightarrow> user_store \<Rightarrow> storage_error + user" where
  "GetUserByPubkey pubkey st = find_user (\<lambda>u. u_pubkey u = pubkey) st (ut_users st)"

definition ListUsers :: "user_store \<Rightarrow> user list" where
  "ListUsers st = map (\<lambda>(i, r). uderef st r) (ut_users st)"

definition UpdateUser :: "time \<Rightarrow> addr \<Rightarrow> user \<Rightarrow> user_store \<Rightarrow> user_store \<times> (storage_error + unit)" where
  "UpdateUser now r user st =
     (case map_of (ut_users st) (u_id user) of
        None \<Rightarrow> (st, Inl ErrUserNotFound)
      | Some e \<Rightarrow>
          (let existing = uderef st e;
               stored = user\<lparr>u_updated_at := now\<rparr>;
               names = (if u_username existing \<noteq> u_username stored
                        then (ut_by_username st)(u_username existing := None) else ut_by_username st);
               emails = (if u_email existing \<noteq> u_email stored \<and> u_email existing \<noteq> ''''
                         then (ut_by_email st)(u_email existing := None) else ut_by_email st)
           in (st\<lparr>ut_heap := (ut_heap st)(r \<mapsto> stored),
                  ut_by_username := names(u_username stored \<mapsto> r),
                  ut_by_email := (if u_email stored \<noteq> '''' then emails(u_email stored \<mapsto> r) else emails),
                  ut_users := AList.update (u_id stored) r (ut_users st)\<rparr>, Inr ())))"

text \<open>
  Sessions of a user. The per-user map of the code holds the sessions of the map by id that belong
  to the user (session ids are random and never reused by another user); the model derives it.
\<close>

definition sessions_of :: "string \<Rightarrow> user_store \<Rightarrow> (string \<times> user_session) list" where
  "sessions_of userID st = filter (\<lambda>(i, s). us_user_id s = userID) (ut_sessions st)"

definition dropSessionSealsLocked :: "(session_seal \<Rightarrow> bool) \<Rightarrow> user_store \<Rightarrow> user_store \<times> nat" where
  "dropSessionSealsLocked match st =
     (st\<lparr>ut_seals := filter (\<lambda>(i, sl). \<not> match sl) (ut_seals st)\<rparr>,
      length (filter (\<lambda>(i, sl). match sl) (ut_seals st)))"

definition DeleteUser :: "string \<Rightarrow> user_store \<Rightarrow> user_store \<times> (storage_error + unit)" where
  "DeleteUser i st =
     (case map_of (ut_users st) i of
        None \<Rightarrow> (st, Inl ErrUserNotFound)
      | Some r \<Rightarrow>
          (let user = uderef st r;
               st = st\<lparr>ut_users := AList.delete i (ut_users st),
                       ut_by_username := (ut_by_username st)(u_username user := None),
                       ut_by_email := (if u_email user \<noteq> '''' then (ut_by_email st)(u_email user := None)
                                       else ut_by_email st),
                       ut_sessions := filter (\<lambda>(j, s). us_user_id s \<noteq> i) (ut_sessions st)\<rparr>
           in (fst (dropSessionSealsLocked (\<lambda>sl. sl_user_id sl = i) st), Inr ())))"

text \<open>The operations that write through the stored pointer.\<close>

definition on_user ::
    "string \<Rightarrow> (user \<Rightarrow> user) \<Rightarrow> user_store \<Rightarrow> user_store \<times> (storage_error + unit)" where
  "on_user i f st =
     (case map_of (ut_users st) i of
        None \<Rightarrow> (st, Inl ErrUserNotFound)
      | Some r \<Rightarrow> (write_user r f st, Inr ()))"

definition IncrementFailedLogins :: "time \<Rightarrow> string \<Rightarrow> user_store \<Rightarrow> user_store \<times> (storage_error + unit)" where
  "IncrementFailedLogins now i =
     on_user i (\<lambda>u. u\<lparr>u_failed_login_attempts := u_failed_login_attempts u + 1, u_updated_at := now\<rparr>)"

definition ResetFailedLogins :: "time \<Rightarrow> string \<Rightarrow> user_store \<Rightarrow> user_store \<times> (storage_error + unit)" where
  "ResetFailedLogins now i = on_user i (\<lambda>u. u\<lparr>u_failed_login_attempts := 0, u_updated_at := now\<rparr>)"

definition LockUser :: "time \<Rightarrow> string \<Rightarrow> time \<Rightarrow> user_store \<Rightarrow> user_store \<times> (storage_error + unit)" where
  "LockUser now i until = on_user i (\<lambda>u. u\<lparr>u_locked_until := Some until, u_updated_at := now\<rparr>)"

definition UnlockUser :: "time \<Rightarrow> string \<Rightarrow> user_store \<Rightarrow> user_store \<times> (storage_error + unit)" where
  "UnlockUser now i =
     on_user i (\<lambda>u. u\<lparr>u_locked_until := None, u_failed_login_attempts := 0, u_updated_at := now\<rparr>)"

text \<open>
  A backup code is named by the user and the hash; the first occurrence is removed. Go answers
  \<open>(false, nil)\<close> for a code that is not there, here \<open>ErrInvalidMFACode\<close>.
\<close>

definition ConsumeBackupCode ::
    "time \<Rightarrow> string \<times> string \<Rightarrow> user_store \<Rightarrow> user_store \<times> (storage_error + unit)" where
  "ConsumeBackupCode now k st =
     (case k of (userID, hashedCode) \<Rightarrow>
      case map_of (ut_users st) userID of
        None \<Rightarrow> (st, Inl ErrUserNotFound)
      | Some r \<Rightarrow>
          (let user = uderef st r in
           if hashedCode \<in> set (u_backup_codes user)
           then (write_user r (\<lambda>u. u\<lparr>u_backup_codes := remove1 hashedCode (u_backup_codes u),
                   u_backup_codes_used := u_backup_codes_used u + 1, u_updated_at := now\<rparr>) st, Inr ())
           else (st, Inl ErrInvalidMFACode)))"

subsection \<open>User sessions\<close>

definition CreateUserSession :: "user_session \<Rightarrow> user_store \<Rightarrow> user_store" where
  "CreateUserSession s st = st\<lparr>ut_sessions := AList.update (us_id s) s (ut_sessions st)\<rparr>"

definition GetUserSession :: "time \<Rightarrow> string \<Rightarrow> user_store \<Rightarrow> storage_error + user_session" where
  "GetUserSession now i st =
     (case map_of (ut_sessions st) i of
        None \<Rightarrow> Inl ErrSessionNotFound
      | Some s \<Rightarrow> if now > us_expires_at s then Inl ErrSessionNotFound else Inr s)"

definition ListUserSessions :: "time \<Rightarrow> string \<Rightarrow> user_store \<Rightarrow> user_session list" where
  "ListUserSessions now userID st =
     filter (\<lambda>s. now < us_expires_at s) (map snd (sessions_of userID st))"

definition on_session ::
    "string \<Rightarrow> (user_session \<Rightarrow> user_session) \<Rightarrow> user_store \<Rightarrow> user_store \<times> (storage_error + unit)" where
  "on_session i f st =
     (case map_of (ut_sessions st) i of
        None \<Rightarrow> (st, Inl ErrSessionNotFound)
      | Some s \<Rightarrow> (st\<lparr>ut_sessions := AList.update i (f s) (ut_sessions st)\<rparr>, Inr ()))"

definition UpdateUserSessionActivity :: "time \<Rightarrow> string \<Rightarrow> user_store \<Rightarrow> user_store \<times> (storage_error + unit)" where
  "UpdateUserSessionActivity now i = on_session i (\<lambda>s. s\<lparr>us_last_activity := Some now\<rparr>)"

definition UpdateUserSessionVaultToken :: "string \<Rightarrow> string \<Rightarrow> user_store \<Rightarrow> user_store \<times> (storage_error + unit)" where
  "UpdateUserSessionVaultToken i vaultToken = on_session i (\<lambda>s. s\<lparr>us_vault_token := vaultToken\<rparr>)"

definition DeleteUserSession :: "string \<Rightarrow> user_store \<Rightarrow> user_store" where
  "DeleteUserSession i st = st\<lparr>ut_sessions := AList.delete i (ut_sessions st)\<rparr>"

definition DeleteUserSessions :: "string \<Rightarrow> user_store \<Rightarrow> user_store" where
  "DeleteUserSessions userID st = st\<lparr>ut_sessions := filter (\<lambda>(i, s). us_user_id s \<noteq> userID) (ut_sessions st)\<rparr>"

definition CleanExpiredUserSessions :: "time \<Rightarrow> user_store \<Rightarrow> user_store" where
  "CleanExpiredUserSessions now st = st\<lparr>ut_sessions := filter (\<lambda>(i, s). \<not> now > us_expires_at s) (ut_sessions st)\<rparr>"

definition ExtendUserSession :: "time \<Rightarrow> string \<Rightarrow> time \<Rightarrow> user_store \<Rightarrow> user_store \<times> (storage_error + unit)" where
  "ExtendUserSession now i expiresAt st =
     (case map_of (ut_sessions st) i of
        None \<Rightarrow> (st, Inl ErrSessionNotFound)
      | Some s \<Rightarrow>
          if now > us_expires_at s then (st, Inl ErrSessionNotFound)
          else (st\<lparr>ut_sessions := AList.update i (s\<lparr>us_expires_at := expiresAt\<rparr>) (ut_sessions st)\<rparr>, Inr ()))"

subsection \<open>Session seals\<close>

definition UpsertSessionSeal :: "session_seal \<Rightarrow> user_store \<Rightarrow> user_store" where
  "UpsertSessionSeal seal st =
     (let st = fst (dropSessionSealsLocked
          (\<lambda>sl. sl_session_id sl = sl_session_id seal \<and> sl_key_id sl = sl_key_id seal) st)
      in st\<lparr>ut_seals := AList.update (sl_id seal) seal (ut_seals st)\<rparr>)"

definition listSeals :: "time \<Rightarrow> (session_seal \<Rightarrow> bool) \<Rightarrow> user_store \<Rightarrow> session_seal list" where
  "listSeals now match st = filter (\<lambda>sl. sl_expires_at sl > now \<and> match sl) (map snd (ut_seals st))"

definition ListLiveSessionSeals :: "time \<Rightarrow> user_store \<Rightarrow> session_seal list" where
  "ListLiveSessionSeals now = listSeals now (\<lambda>_. True)"

definition ListSessionSealsBySession :: "time \<Rightarrow> string \<Rightarrow> user_store \<Rightarrow> session_seal list" where
  "ListSessionSealsBySession now sessionID = listSeals now (\<lambda>sl. sl_session_id sl = sessionID)"

definition ListSessionSealsByUser :: "time \<Rightarrow> string \<Rightarrow> user_store \<Rightarrow> session_seal list" where
  "ListSessionSealsByUser now userID = listSeals now (\<lambda>sl. sl_user_id sl = userID)"

definition UpdateSessionSealBlob :: "string \<Rightarrow> bytes \<Rightarrow> user_store \<Rightarrow> user_store \<times> bool" where
  "UpdateSessionSealBlob i sealed st =
     (case map_of (ut_seals st) i of
        None \<Rightarrow> (st, False)
      | Some sl \<Rightarrow> (st\<lparr>ut_seals := AList.update i (sl\<lparr>sl_sealed := sealed\<rparr>) (ut_seals st)\<rparr>, True))"

definition DeleteSessionSealsBySession :: "string \<Rightarrow> user_store \<Rightarrow> user_store \<times> nat" where
  "DeleteSessionSealsBySession sessionID = dropSessionSealsLocked (\<lambda>sl. sl_session_id sl = sessionID)"

definition DeleteSessionSealsByUser :: "string \<Rightarrow> user_store \<Rightarrow> user_store \<times> nat" where
  "DeleteSessionSealsByUser userID = dropSessionSealsLocked (\<lambda>sl. sl_user_id sl = userID)"

definition ExtendSessionSeals :: "string \<Rightarrow> time \<Rightarrow> user_store \<Rightarrow> user_store \<times> nat" where
  "ExtendSessionSeals sessionID expiresAt st =
     (st\<lparr>ut_seals := map (\<lambda>(i, sl). (i, if sl_session_id sl = sessionID
                                         then sl\<lparr>sl_expires_at := expiresAt\<rparr> else sl)) (ut_seals st)\<rparr>,
      length (filter (\<lambda>(i, sl). sl_session_id sl = sessionID) (ut_seals st)))"

definition DeleteExpiredSessionSeals :: "time \<Rightarrow> user_store \<Rightarrow> user_store \<times> nat" where
  "DeleteExpiredSessionSeals now = dropSessionSealsLocked (\<lambda>sl. \<not> sl_expires_at sl > now)"

subsection \<open>Backup codes work once\<close>

definition codes_wf :: "user_store \<Rightarrow> bool" where
  "codes_wf st \<longleftrightarrow> inj_on (\<lambda>i. map_of (ut_users st) i) (dom (map_of (ut_users st))) \<and>
     (\<forall>i r. map_of (ut_users st) i = Some r \<longrightarrow> distinct (u_backup_codes (uderef st r)))"

definition code_spent :: "string \<times> string \<Rightarrow> user_store \<Rightarrow> bool" where
  "code_spent k st \<longleftrightarrow>
     (case map_of (ut_users st) (fst k) of None \<Rightarrow> True
      | Some r \<Rightarrow> snd k \<notin> set (u_backup_codes (uderef st r)))"

lemma write_user_simps [simp]:
  "uderef (write_user r f st) r' = (if r' = r then f (uderef st r) else uderef st r')"
  "ut_users (write_user r f st) = ut_users st" "ut_sessions (write_user r f st) = ut_sessions st"
  "ut_seals (write_user r f st) = ut_seals st"
  by (simp_all add: uderef_def write_user_def)

interpretation code: single_use ConsumeBackupCode code_spent codes_wf
proof
  fix t :: user_store and now k t' and v :: unit
  assume wf: "codes_wf t"
  have dist: "distinct (u_backup_codes (uderef t r))" if "map_of (ut_users t) i = Some r" for i r
    using wf that by (auto simp: codes_wf_def)
  show "codes_wf (fst (ConsumeBackupCode now k t))"
    using wf dist by (auto simp: ConsumeBackupCode_def codes_wf_def Let_def split: prod.splits option.splits)
  show "code_spent k t'" if "ConsumeBackupCode now k t = (t', Inr v)"
    using that dist
    by (fastforce simp: ConsumeBackupCode_def code_spent_def Let_def set_remove1_eq
        split: prod.splits option.splits if_splits)
  assume sp: "code_spent k t"
  show "\<not> ok (snd (ConsumeBackupCode now k t))"
    using sp by (auto simp: ConsumeBackupCode_def code_spent_def Let_def split: prod.splits option.splits)
  fix k'
  show "code_spent k (fst (ConsumeBackupCode now k' t))"
    using sp by (auto simp: ConsumeBackupCode_def code_spent_def Let_def split: prod.splits option.splits
        dest: notin_set_remove1)
qed

text \<open>
  A backup code opens an account at most once, in any sequence of attempts with any codes of any
  accounts.
\<close>

theorem backup_code_once:
  assumes "codes_wf st"
  shows "successes (uid, hash) (attempts ConsumeBackupCode tries st) \<le> 1"
  by (rule code.at_most_once [OF assms])

definition toy_user :: user where
  "toy_user = \<lparr>u_id = ''u'', u_username = ''n'', u_email = ''e'', u_pubkey = '''', u_role = ''user'',
     u_password_hash = '''', u_mfa_secret = '''', u_mfa_enabled = True, u_backup_codes = [''a'', ''b''],
     u_backup_codes_used = 0, u_failed_login_attempts = 0, u_locked_until = None, u_last_login_at = None,
     u_last_login_ip = '''', u_created_at = 0, u_updated_at = 0\<rparr>"

definition toy_users :: user_store where
  "toy_users = fst (CreateUser 1 toy_user \<lparr>ut_heap = Map.empty, ut_users = [], ut_by_username = Map.empty,
     ut_by_email = Map.empty, ut_sessions = [], ut_seals = []\<rparr>)"

theorem backup_code_once_witness:
  "successes (''u'', ''a'') (attempts ConsumeBackupCode [(5, (''u'', ''a'')), (6, (''u'', ''a''))] toy_users) \<le> 1"
  by (rule backup_code_once)
     (simp add: codes_wf_def toy_users_def toy_user_def CreateUser_def uderef_def inj_on_def split: if_splits)

text \<open>
  Deleting an account ends its sessions and removes its key seals, and touches no other account's
  sessions or seals.
\<close>

theorem delete_user_ends_sessions:
  assumes run: "DeleteUser i st = (st', Inr ())" and d: "distinct (map fst (ut_sessions st))"
  shows "(\<forall>j s. GetUserSession now j st' = Inr s \<longleftrightarrow> GetUserSession now j st = Inr s \<and> us_user_id s \<noteq> i) \<and>
    ListUserSessions now i st' = [] \<and> ListSessionSealsByUser now i st' = [] \<and>
    (\<forall>k. k \<noteq> i \<longrightarrow> ListUserSessions now k st' = ListUserSessions now k st \<and>
       ListSessionSealsByUser now k st' = ListSessionSealsByUser now k st)"
proof -
  have s': "ut_sessions st' = filter (\<lambda>(j, s). us_user_id s \<noteq> i) (ut_sessions st)"
    and l': "ut_seals st' = filter (\<lambda>(j, sl). sl_user_id sl \<noteq> i) (ut_seals st)"
    using run by (auto simp: DeleteUser_def dropSessionSealsLocked_def Let_def split: option.splits)
  have look: "map_of (filter (\<lambda>(j, s). us_user_id s \<noteq> i) xs) j =
      (case map_of xs j of None \<Rightarrow> None | Some s \<Rightarrow> if us_user_id s \<noteq> i then Some s else None)"
    if "distinct (map fst xs)" for xs :: "(string \<times> user_session) list" and j
    using that by (induction xs) (auto simp: map_of_eq_None_iff split: option.splits)
  have own: "k \<noteq> i \<Longrightarrow> sessions_of k st' = sessions_of k st" "sessions_of i st' = []" for k
    by (auto simp: sessions_of_def s' filter_filter split_def intro: filter_cong)
  have seals: "map snd (filter (\<lambda>(j, sl). sl_user_id sl \<noteq> i) xs) = filter (\<lambda>sl. sl_user_id sl \<noteq> i) (map snd xs)"
    for xs :: "(string \<times> session_seal) list"
    by (induction xs) auto
  have "ListSessionSealsByUser now i st' = []"
    by (auto simp: ListSessionSealsByUser_def listSeals_def l' seals filter_filter filter_empty_conv)
  moreover have "ListSessionSealsByUser now k st' = ListSessionSealsByUser now k st" if "k \<noteq> i" for k
    using that by (auto simp: ListSessionSealsByUser_def listSeals_def l' seals filter_filter intro!: filter_cong)
  ultimately show ?thesis
    using own look [OF d]
    by (auto simp: GetUserSession_def ListUserSessions_def s' split: option.splits if_splits)
qed

definition toy_sess :: "string \<Rightarrow> string \<Rightarrow> user_session" where
  "toy_sess i u = \<lparr>us_id = i, us_user_id = u, us_token = '''', us_vault_token = ''t'', us_cosign_listener = '''',
     us_user_agent = '''', us_ip_address = '''', us_remember_device = False, us_last_activity = None,
     us_expires_at = 100, us_created_at = 0\<rparr>"

theorem delete_user_ends_sessions_witness:
  "let st = CreateUserSession (toy_sess ''s1'' ''u'') (CreateUserSession (toy_sess ''s2'' ''w'') toy_users) in
   ListUserSessions 5 ''u'' st \<noteq> [] \<and> ListUserSessions 5 ''u'' (fst (DeleteUser ''u'' st)) = []"
proof -
  let ?st = "CreateUserSession (toy_sess ''s1'' ''u'') (CreateUserSession (toy_sess ''s2'' ''w'') toy_users)"
  have run: "DeleteUser ''u'' ?st = (fst (DeleteUser ''u'' ?st), Inr ())"
    by (rule prod_eqI, simp, code_simp)
  have "distinct (map fst (ut_sessions ?st))" "ListUserSessions 5 ''u'' ?st \<noteq> []" by code_simp+
  with delete_user_ends_sessions [OF run, of 5] show ?thesis by simp
qed

end
