(* ===== verification/SignIn.thy ===== *)
theory SignIn
  imports RateLimit Users
begin

text \<open>
  Password sign-in: the protections every password check shares (\<open>internal/authguard/authguard.go\<close>:
  attempt budgets, lockout, single-use backup codes) and the three endpoints that use them, sign-in
  (\<open>handleUserLogin\<close>), the web sign-in (\<open>handleAPILogin\<close>) and re-authentication
  (\<open>reauthenticate\<close>).

  Password hashing (bcrypt), one-time codes (TOTP) and the hashing of user names into bucket keys
  are parameters. The requests' work on keys, seals, cookies and Vault is left out.
\<close>

record sign_in_crypto =
  sc_verify_password :: "string \<Rightarrow> string \<Rightarrow> bool"
  sc_valid_totp :: "time \<Rightarrow> string \<Rightarrow> string \<Rightarrow> bool"
  sc_hash_name :: "string \<Rightarrow> string"
  sc_trim :: "string \<Rightarrow> string"
  sc_ip_keys :: ip_keys

record 's guard =
  gd_limiter :: "'s limiter option"
  gd_has_ip_hasher :: bool
  gd_attempts_per_account :: int
  gd_attempts_per_ip :: int
  gd_window_minutes :: int
  gd_proxy_header :: string
  gd_max_failed :: int
  gd_lockout :: int

type_synonym 's budget = "ip_hasher \<times> 's"

section \<open>The guard\<close>

definition attempt_window :: "'s guard \<Rightarrow> int" where
  "attempt_window g = (if gd_window_minutes g * seconds 60 \<le> 0 then seconds 900 else gd_window_minutes g * seconds 60)"

definition account_key :: "sign_in_crypto \<Rightarrow> string \<Rightarrow> string" where
  "account_key C username = ''auth:acct:'' @ sc_hash_name C username"

definition releaseKeys :: "'s limiter \<Rightarrow> time \<Rightarrow> string list \<Rightarrow> 's \<Rightarrow> 's" where
  "releaseKeys L now keys s = foldl (\<lambda>s k. fst (lm_release L now k s)) s keys"

text \<open>The reserved keys of an attempt that may go on; \<open>None\<close> inside for a spent budget, outside for a panic.\<close>

definition Begin ::
    "sign_in_crypto \<Rightarrow> 's guard \<Rightarrow> time \<Rightarrow> bytes option \<Rightarrow> string \<Rightarrow> string \<Rightarrow> 's budget \<Rightarrow>
     ('s budget \<times> string list option) option" where
  "Begin C g now random username header b =
     (case gd_limiter g of
        None \<Rightarrow> Some (b, Some [])
      | Some L \<Rightarrow>
     (let (h, s) = b; window = attempt_window g;
          (s, keys, allowed) =
            (if gd_attempts_per_account g > 0
             then (let key = account_key C username;
                       (s, allowed, err) = lm_allow L now key (gd_attempts_per_account g) window s
                   in (s, [key], allowed))
             else (s, [], True)) in
      if \<not> allowed then Some ((h, releaseKeys L now keys s), None)
      else
     (let ip = sc_trim C (takeWhile (\<lambda>c. c \<noteq> CHR '','') header) in
      if gd_attempts_per_ip g > 0 \<and> gd_has_ip_hasher g \<and> gd_proxy_header g \<noteq> '''' \<and> ip \<noteq> '''' then
        (case AllowIP L (sc_ip_keys C) now random ''auth:ip:'' ip (gd_attempts_per_ip g) window h s of
           None \<Rightarrow> None
         | Some (h, s, allowed, key, err) \<Rightarrow>
             if \<not> allowed then Some ((h, releaseKeys L now keys s), None)
             else Some ((h, s), Some (if key \<noteq> '''' then keys @ [key] else keys)))
      else Some ((h, s), Some keys))))"

definition End :: "'s guard \<Rightarrow> time \<Rightarrow> string list \<Rightarrow> bool \<Rightarrow> 's budget \<Rightarrow> 's budget" where
  "End g now keys failed b =
     (if failed then b
      else case gd_limiter g of None \<Rightarrow> b | Some L \<Rightarrow> (fst b, releaseKeys L now keys (snd b)))"

definition Fail :: "'s guard \<Rightarrow> time \<Rightarrow> user option \<Rightarrow> user_store \<Rightarrow> user_store" where
  "Fail g now user st =
     (case user of
        None \<Rightarrow> st
      | Some u \<Rightarrow>
          (let st = fst (IncrementFailedLogins now (u_id u) st) in
           if u_failed_login_attempts u + 1 \<ge> gd_max_failed g
           then fst (LockUser now (u_id u) (now + gd_lockout g) st) else st))"

fun ValidateBackupCode :: "sign_in_crypto \<Rightarrow> string \<Rightarrow> string list \<Rightarrow> nat option" where
  "ValidateBackupCode C code [] = None"
| "ValidateBackupCode C code (hash # hashes) =
     (if sc_verify_password C code hash then Some 0 else map_option Suc (ValidateBackupCode C code hashes))"

definition CheckMFA ::
    "sign_in_crypto \<Rightarrow> time \<Rightarrow> user \<Rightarrow> string \<Rightarrow> user_store \<Rightarrow> user_store \<times> user option" where
  \<comment> \<open>the caller's copy of the user, updated, if the code is accepted\<close>
  "CheckMFA C now user code st =
     (if sc_valid_totp C now (u_mfa_secret user) code then (st, Some user)
      else case ValidateBackupCode C code (u_backup_codes user) of
        None \<Rightarrow> (st, None)
      | Some idx \<Rightarrow>
          (case ConsumeBackupCode now (u_id user, u_backup_codes user ! idx) st of
             (st, Inl _) \<Rightarrow> (st, None)
           | (st, Inr _) \<Rightarrow>
               (st, Some (user\<lparr>u_backup_codes := take idx (u_backup_codes user) @ drop (Suc idx) (u_backup_codes user),
                               u_backup_codes_used := u_backup_codes_used user + 1\<rparr>))))"

section \<open>The endpoints\<close>

datatype refusal =
    AuthNotConfigured | TooManyAttempts | InvalidCredentials | AccountLocked | MFARequired | InvalidMFA
  | UserNotFound | NotConfirmed

definition locked :: "time \<Rightarrow> user \<Rightarrow> bool" where
  "locked now u \<longleftrightarrow> (case u_locked_until u of None \<Rightarrow> False | Some t \<Rightarrow> now < t)"

text \<open>
  The checks the three endpoints make between \<open>Begin\<close> and their own work: the account store, and the
  user or a refusal with whether the attempt counts as failed.
\<close>

definition check_credentials ::
    "sign_in_crypto \<Rightarrow> 's guard \<Rightarrow> time \<Rightarrow> user \<Rightarrow> string \<Rightarrow> string \<Rightarrow> user_store \<Rightarrow>
     user_store \<times> (refusal \<times> bool + user)" where
  "check_credentials C g now user password mfa st =
     (if locked now user then (st, Inl (AccountLocked, False))
      else if \<not> sc_verify_password C password (u_password_hash user)
      then (Fail g now (Some user) st, Inl (InvalidCredentials, True))
      else if u_mfa_enabled user then
        (if mfa = '''' then (st, Inl (MFARequired, False))
         else case CheckMFA C now user mfa st of
           (st, None) \<Rightarrow> (Fail g now (Some user) st, Inl (InvalidMFA, True))
         | (st, Some user) \<Rightarrow> (st, Inr user))
      else (st, Inr user))"

record login_request =
  lr_username :: string
  lr_password :: string
  lr_mfa :: string
  lr_header :: string
  lr_user_agent :: string

text \<open>What a sign-in leaves to goroutines that run after the answer, in any order.\<close>

datatype bookkeeping = ResetFailed string | WriteUser user

definition bookkeep :: "time \<Rightarrow> addr \<Rightarrow> bookkeeping \<Rightarrow> user_store \<Rightarrow> user_store" where
  "bookkeep now r b st =
     (case b of ResetFailed i \<Rightarrow> fst (ResetFailedLogins now i st) | WriteUser u \<Rightarrow> fst (UpdateUser now r u st))"

definition handleUserLogin ::
    "sign_in_crypto \<Rightarrow> 's guard \<Rightarrow> bool \<Rightarrow> time \<Rightarrow> bytes option \<Rightarrow> string \<times> string \<times> time \<Rightarrow> login_request \<Rightarrow>
     's budget \<times> user_store \<Rightarrow> (('s budget \<times> user_store) \<times> (refusal + user_session) \<times> bookkeeping list) option" where
  "handleUserLogin C g jwt now random token req bs =
     (if \<not> jwt then Some (bs, Inl AuthNotConfigured, [])
      else case Begin C g now random (lr_username req) (lr_header req) (fst bs) of
        None \<Rightarrow> None
      | Some (b, None) \<Rightarrow> Some ((b, snd bs), Inl TooManyAttempts, [])
      | Some (b, Some keys) \<Rightarrow>
     (case GetUserByUsername (lr_username req) (snd bs) of
        Inl _ \<Rightarrow> Some ((End g now keys True b, Fail g now None (snd bs)), Inl InvalidCredentials, [])
      | Inr user \<Rightarrow>
     (case check_credentials C g now user (lr_password req) (lr_mfa req) (snd bs) of
        (st, Inl (e, failed)) \<Rightarrow> Some ((End g now keys failed b, st), Inl e, [])
      | (st, Inr user) \<Rightarrow>
          (let (sessionID, tok, expiresAt) = token;
               session = \<lparr>us_id = sessionID, us_user_id = u_id user, us_token = take 16 tok, us_vault_token = '''',
                          us_cosign_listener = '''', us_user_agent = lr_user_agent req, us_ip_address = '''',
                          us_remember_device = False, us_last_activity = None, us_expires_at = expiresAt,
                          us_created_at = now\<rparr>
           in if length tok < 16 then None
              else Some ((End g now keys False b, CreateUserSession session st), Inr session,
                         [ResetFailed (u_id user), WriteUser (user\<lparr>u_last_login_at := Some now\<rparr>)])))))"

text \<open>The web form: the failed count is reset at once and the user record is not written back.\<close>

definition handleAPILogin ::
    "sign_in_crypto \<Rightarrow> 's guard \<Rightarrow> time \<Rightarrow> bytes option \<Rightarrow> string \<Rightarrow> (bool \<Rightarrow> time) \<Rightarrow> bool \<Rightarrow> login_request \<Rightarrow>
     's budget \<times> user_store \<Rightarrow> (('s budget \<times> user_store) \<times> (refusal + user_session)) option" where
  "handleAPILogin C g now random sessionID lifetime remember req bs =
     (case Begin C g now random (lr_username req) (lr_header req) (fst bs) of
        None \<Rightarrow> None
      | Some (b, None) \<Rightarrow> Some ((b, snd bs), Inl TooManyAttempts)
      | Some (b, Some keys) \<Rightarrow>
     (case GetUserByUsername (lr_username req) (snd bs) of
        Inl _ \<Rightarrow> Some ((End g now keys True b, Fail g now None (snd bs)), Inl InvalidCredentials)
      | Inr user \<Rightarrow>
     (case check_credentials C g now user (lr_password req) (lr_mfa req) (snd bs) of
        (st, Inl (e, failed)) \<Rightarrow> Some ((End g now keys failed b, st), Inl e)
      | (st, Inr user) \<Rightarrow>
          (let st = fst (ResetFailedLogins now (u_id user) st);
               session = \<lparr>us_id = sessionID, us_user_id = u_id user, us_token = '''', us_vault_token = '''',
                          us_cosign_listener = '''', us_user_agent = lr_user_agent req, us_ip_address = '''',
                          us_remember_device = remember, us_last_activity = Some now,
                          us_expires_at = lifetime remember, us_created_at = now\<rparr>
           in Some ((End g now keys False b, CreateUserSession session st), Inr session)))))"

definition reauthenticate ::
    "sign_in_crypto \<Rightarrow> 's guard \<Rightarrow> time \<Rightarrow> bytes option \<Rightarrow> string \<Rightarrow> string \<Rightarrow> string \<Rightarrow> string \<Rightarrow> string \<Rightarrow>
     's budget \<times> user_store \<Rightarrow> (('s budget \<times> user_store) \<times> (refusal + user)) option" where
  "reauthenticate C g now random header userID password mfa confirm bs =
     (case GetUser userID (snd bs) of
        Inl _ \<Rightarrow> Some (bs, Inl UserNotFound)
      | Inr user \<Rightarrow>
     (case Begin C g now random (u_username user) header (fst bs) of
        None \<Rightarrow> None
      | Some (b, None) \<Rightarrow> Some ((b, snd bs), Inl TooManyAttempts)
      | Some (b, Some keys) \<Rightarrow>
     (case check_credentials C g now user password mfa (snd bs) of
        (st, Inl (e, failed)) \<Rightarrow> Some ((End g now keys failed b, st), Inl e)
      | (st, Inr user) \<Rightarrow>
          Some ((End g now keys False b, st), if confirm \<noteq> u_username user then Inl NotConfirmed else Inr user))))"

section \<open>Failed attempts are bounded\<close>

text \<open>Attempts on one account that begin and end in any order, with the failures counted.\<close>

datatype guard_event = GBegin time "bytes option" string | GEnd time nat bool

fun event_time :: "guard_event \<Rightarrow> time" where
  "event_time (GBegin t random header) = t"
| "event_time (GEnd t i failed) = t"

fun guard_step ::
    "sign_in_crypto \<Rightarrow> 's guard \<Rightarrow> string \<Rightarrow> guard_event \<Rightarrow> 's budget \<times> string list list \<times> nat \<Rightarrow>
     ('s budget \<times> string list list \<times> nat) option" where
  "guard_step C g u (GBegin t random header) (b, running, failures) =
     (case Begin C g t random u header b of
        None \<Rightarrow> None
      | Some (b, None) \<Rightarrow> Some (b, running, failures)
      | Some (b, Some keys) \<Rightarrow> Some (b, keys # running, failures))"
| "guard_step C g u (GEnd t i failed) (b, running, failures) =
     Some (if i < length running
      then (End g t (running ! i) failed b, take i running @ drop (Suc i) running,
            if failed then failures + 1 else failures)
      else (b, running, failures))"

fun guard_run where
  "guard_run C g u [] st = Some st"
| "guard_run C g u (e # events) st = Option.bind (guard_step C g u e st) (guard_run C g u events)"

lemma account_ip_keys: "account_key C u \<noteq> ''auth:ip:'' @ k"
  by (simp add: account_key_def)

lemma account_key_nonempty: "account_key C u \<noteq> []" "[] \<noteq> account_key C u"
  by (simp_all add: account_key_def)

context fixed_window
begin

lemma AllowIP_other:
  assumes "AllowIP L K now random ''auth:ip:'' ip n w h s = Some (h', s', a, key, err)" "now \<le> t"
  shows "live s' t (account_key C u) = live s t (account_key C u) \<and> key \<noteq> account_key C u"
proof -
  note ne = account_ip_keys [of C u]
  obtain cur prev where k: "ipKeys K now random ip h = Some (h', cur, prev)"
    using assms(1) by (auto simp: AllowIP_def Let_def split: option.splits prod.splits if_splits)
  obtain used failed where uf: "(if prev \<noteq> '''' then lm_count L now (''auth:ip:'' @ prev) s else (0, False)) = (used, failed)"
    by force
  obtain s1 a1 err1 where al: "lm_allow L now (''auth:ip:'' @ cur) (n - used) w s = (s1, a1, err1)"
    by (metis prod_cases3)
  obtain s2 err2 where re: "lm_release L now (''auth:ip:'' @ cur) s1 = (s2, err2)" by force
  show ?thesis
    using assms k uf al re allow_other [OF al ne assms(2)] release_other [OF re ne assms(2)] ne ne [symmetric]
    by (auto simp: AllowIP_def Let_def account_key_nonempty split: if_splits)
qed

text \<open>The account's window while attempts run: every attempt in flight and every failure is counted.\<close>

definition counted where
  "counted C u n t0 w now b running failures \<longleftrightarrow>
     int (length running) + int failures \<le> n \<and>
     (\<forall>keys \<in> set running. \<exists>rest. keys = account_key C u # rest \<and> account_key C u \<notin> set rest) \<and>
     (\<exists>c e. int (length running) + int failures \<le> c \<and> t0 + w \<le> e \<and> e \<le> now + w \<and>
        (\<forall>t. now \<le> t \<and> t < e \<longrightarrow> live (snd b) t (account_key C u) = Some (c, e)))"

lemma countedI:
  assumes "int (length running) + int failures \<le> n"
    "\<forall>keys \<in> set running. \<exists>rest. keys = account_key C u # rest \<and> account_key C u \<notin> set rest"
    "int (length running) + int failures \<le> c" "t0 + w \<le> e" "e \<le> now + w"
    "\<And>t. now \<le> t \<Longrightarrow> t < e \<Longrightarrow> live s t (account_key C u) = Some (c, e)"
  shows "counted C u n t0 w now (h, s) running failures"
  using assms by (auto simp: counted_def)

lemma counted_later: "counted C u n t0 w now b running failures \<Longrightarrow> now \<le> t \<Longrightarrow> counted C u n t0 w t b running failures"
  unfolding counted_def by (meson order_trans add_right_mono)

lemma release_others:
  "account_key C u \<notin> set keys \<Longrightarrow> now \<le> t \<Longrightarrow>
     live (releaseKeys L now keys s) t (account_key C u) = live s t (account_key C u)"
proof (induction keys arbitrary: s)
  case (Cons k keys)
  obtain s' err where r: "lm_release L now k s = (s', err)" by force
  then show ?case using Cons release_other [OF r, of "account_key C u" t] by (simp add: releaseKeys_def)
qed (simp add: releaseKeys_def)

lemma release_attempt:
  assumes "keys = account_key C u # rest" "account_key C u \<notin> set rest"
    and l: "\<forall>t. now \<le> t \<and> t < e \<longrightarrow> live s t (account_key C u) = Some (c, e)" and t: "now \<le> t" "t < e"
  shows "live (releaseKeys L now keys s) t (account_key C u) = Some (if 0 < c then c - 1 else c, e)"
proof -
  obtain s' err where r: "lm_release L now (account_key C u) s = (s', err)" by force
  have "live s now (account_key C u) = Some (c, e)" using l t by simp
  then have "live s' t (account_key C u) = Some (if 0 < c then c - 1 else c, e)"
    by (rule release_live [OF _ r t])
  then show ?thesis using assms(1) release_others [OF assms(2) t(1), of s'] r by (simp add: releaseKeys_def)
qed

end

context fixed_window
begin

lemma Begin_after_allow:
  assumes g: "gd_limiter g = Some L" "gd_attempts_per_account g = n" "0 < n" "attempt_window g = w"
    and al: "lm_allow L now (account_key C u) n w s = (s1, a, err)" and a: "a \<longleftrightarrow> c + 1 \<le> n"
    and e': "t0 + w \<le> e'" "e' \<le> now + w"
      "\<forall>t. now \<le> t \<and> t < e' \<longrightarrow> live s1 t (account_key C u) = Some (c + 1, e')"
    and m: "int (length running) + int failures \<le> c" "int (length running) + int failures \<le> n"
    and keys: "\<forall>keys \<in> set running. \<exists>rest. keys = account_key C u # rest \<and> account_key C u \<notin> set rest"
    and run: "Begin C g now random u header (h, s) = Some (b', r)"
  shows "counted C u n t0 w now b' (case r of None \<Rightarrow> running | Some keys \<Rightarrow> keys # running) failures"
proof -
  let ?k = "account_key C u"
  have released: "live (releaseKeys L now [?k] s2) t ?k = Some (c, e')"
    if "\<forall>t. now \<le> t \<longrightarrow> live s2 t ?k = live s1 t ?k" "now \<le> t" "t < e'" for s2 t
    using release_attempt [of "[?k]" C u "[]" now e' s2 "c + 1" t] that e'(3) m(1) by auto
  have refused: "counted C u n t0 w now (h2, releaseKeys L now [?k] s2) running failures"
    if "\<forall>t. now \<le> t \<longrightarrow> live s2 t ?k = live s1 t ?k" for h2 s2
    by (rule countedI [of _ _ _ _ _ c _ _ e']) (use keys m e' released [OF that] in auto)
  have allowed: "counted C u n t0 w now (h2, s2) ((?k # rest) # running) failures"
    if "\<forall>t. now \<le> t \<longrightarrow> live s2 t ?k = live s1 t ?k" "?k \<notin> set rest" "a" for h2 s2 rest
    by (rule countedI [of _ _ _ _ _ "c + 1" _ _ e']) (use keys m e' a that in auto)
  define ip where "ip = sc_trim C (takeWhile (\<lambda>c. c \<noteq> CHR '','') header)"
  show ?thesis
  proof (cases a)
    case False
    then have "r = None" "b' = (h, releaseKeys L now [?k] s1)"
      using run g al by (auto simp: Begin_def Let_def)
    then show ?thesis using refused [of s1 h] by simp
  next
    case True
    show ?thesis
    proof (cases "gd_attempts_per_ip g > 0 \<and> gd_has_ip_hasher g \<and> gd_proxy_header g \<noteq> '''' \<and> ip \<noteq> ''''")
      case False
      then have "r = Some [?k]" "b' = (h, s1)"
        using run g al True by (auto simp: Begin_def Let_def ip_def [symmetric])
      then show ?thesis using allowed [of s1 "[]" h] True by simp
    next
      case ip: True
      obtain h2 s2 a2 key err2 where
        ai: "AllowIP L (sc_ip_keys C) now random ''auth:ip:'' ip (gd_attempts_per_ip g) w h s1 = Some (h2, s2, a2, key, err2)"
        using run g al True ip
        by (auto simp: Begin_def Let_def ip_def [symmetric] split: option.splits)
      have same: "\<forall>t. now \<le> t \<longrightarrow> live s2 t ?k = live s1 t ?k" "key \<noteq> ?k"
        using AllowIP_other [OF ai] by auto
      have "r = (if a2 then Some (?k # (if key \<noteq> '''' then [key] else [])) else None)"
        "b' = (if a2 then (h2, s2) else (h2, releaseKeys L now [?k] s2))"
        using run g al True ip ai
        by (auto simp: Begin_def Let_def ip_def [symmetric])
      then show ?thesis
        using refused [OF same(1), of h2] allowed [OF same(1) _ True, of "if key \<noteq> '''' then [key] else []" h2] same(2)
        by (auto split: if_splits)
    qed
  qed
qed

lemma Begin_counted:
  assumes g: "gd_limiter g = Some L" "gd_attempts_per_account g = n" "0 < n" "attempt_window g = w" "whole_window w"
    and inv: "counted C u n t0 w now b running failures" and t: "t0 \<le> now" "now < t0 + w"
    and run: "Begin C g now random u header b = Some (b', r)"
  shows "counted C u n t0 w now b' (case r of None \<Rightarrow> running | Some keys \<Rightarrow> keys # running) failures"
proof -
  let ?k = "account_key C u" and ?m = "int (length running) + int failures"
  obtain h s where b: "b = (h, s)" by force
  obtain c e where ce: "?m \<le> c" "t0 + w \<le> e" "e \<le> now + w" "\<forall>t. now \<le> t \<and> t < e \<longrightarrow> live s t ?k = Some (c, e)"
    using inv by (auto simp: counted_def b)
  obtain s1 a err where al: "lm_allow L now ?k n w s = (s1, a, err)" by (metis prod_cases3)
  have "live s now ?k = Some (c, e)" using ce t by simp
  then obtain e' where e': "a \<longleftrightarrow> c + 1 \<le> n" "e \<le> e'" "e' \<le> now + w"
    "\<forall>t. now \<le> t \<and> t < e' \<longrightarrow> live s1 t ?k = Some (c + 1, e')"
    using allow_live [OF _ al g(5)] ce by auto
  show ?thesis
    by (rule Begin_after_allow [OF g(1-4) al e'(1) _ e'(3,4) ce(1) _ _ run [unfolded b]])
      (use inv e' ce in \<open>auto simp: counted_def\<close>)
qed

lemma Begin_first:
  assumes g: "gd_limiter g = Some L" "gd_attempts_per_account g = n" "0 < n" "attempt_window g = w" "whole_window w"
    and abs: "absent (snd b) now (account_key C u)" and run: "Begin C g now random u header b = Some (b', r)"
  shows "counted C u n now w now b' (case r of None \<Rightarrow> [] | Some keys \<Rightarrow> [keys]) 0"
proof -
  obtain h s where b: "b = (h, s)" by force
  obtain s1 a err where al: "lm_allow L now (account_key C u) n w s = (s1, a, err)" by (metis prod_cases3)
  have "(a \<longleftrightarrow> 1 \<le> n) \<and> (\<forall>t. now \<le> t \<and> t < now + w \<longrightarrow> live s1 t (account_key C u) = Some (1, now + w))"
    using allow_absent [OF _ al g(5)] abs by (simp add: b)
  then show ?thesis
    using Begin_after_allow [OF g(1-4) al, of 0 now "now + w" "[]" 0 random header h b' r] run g(3)
    by (simp add: b)
qed

lemma End_counted:
  assumes g: "gd_limiter g = Some L" and inv: "counted C u n t0 w now b running failures"
    and t: "t0 \<le> now" "now < t0 + w" and i: "i < length running"
  shows "counted C u n t0 w now (End g now (running ! i) failed b) (take i running @ drop (Suc i) running)
           (if failed then failures + 1 else failures)"
proof -
  let ?k = "account_key C u" and ?r = "take i running @ drop (Suc i) running"
  have len: "int (length ?r) = int (length running) - 1" using i by simp
  have keys: "\<forall>keys \<in> set ?r. \<exists>rest. keys = ?k # rest \<and> ?k \<notin> set rest"
    using inv by (auto simp: counted_def dest: in_set_takeD in_set_dropD)
  obtain rest where rest: "running ! i = ?k # rest" "?k \<notin> set rest"
    using inv i nth_mem [OF i] unfolding counted_def by blast
  obtain c e where ce: "int (length running) + int failures \<le> c" "t0 + w \<le> e" "e \<le> now + w"
    "\<forall>t. now \<le> t \<and> t < e \<longrightarrow> live (snd b) t ?k = Some (c, e)"
    using inv by (auto simp: counted_def)
  show ?thesis
  proof (cases failed)
    case True
    then show ?thesis
      using inv ce keys len by (cases b) (auto simp: counted_def End_def intro!: countedI [of _ _ _ _ _ c _ _ e])
  next
    case False
    have pos: "0 < c" using ce(1) i by simp
    have "live (releaseKeys L now (running ! i) (snd b)) t ?k = Some (c - 1, e)" if "now \<le> t" "t < e" for t
      using release_attempt [OF rest ce(4) that] pos by simp
    moreover have "End g now (running ! i) failed b = (fst b, releaseKeys L now (running ! i) (snd b))"
      using False g by (simp add: End_def)
    moreover have "int (length ?r) + int failures \<le> n" using inv len by (simp add: counted_def)
    ultimately show ?thesis
      using ce keys len False by (auto intro!: countedI [of _ _ _ _ _ "c - 1" _ _ e])
  qed
qed

lemma guard_run_counted:
  assumes g: "gd_limiter g = Some L" "gd_attempts_per_account g = n" "0 < n" "attempt_window g = w" "whole_window w"
  shows "\<lbrakk>counted C u n t0 w now b running failures; t0 \<le> now; sorted (now # map event_time events);
    \<forall>e \<in> set events. event_time e < t0 + w; guard_run C g u events (b, running, failures) = Some (b', running', failures')\<rbrakk> \<Longrightarrow>
    int (length running') + int failures' \<le> n"
proof (induction events arbitrary: now b running failures)
  case Nil
  then show ?case by (simp add: counted_def)
next
  case (Cons e events)
  define t where "t = event_time e"
  have t: "t0 \<le> t" "t < t0 + w" "sorted (t # map event_time events)" using Cons.prems(2-4) by (auto simp: t_def)
  have inv: "counted C u n t0 w t b running failures"
    using counted_later [OF Cons.prems(1), of t] Cons.prems(3) by (simp add: t_def)
  obtain b1 running1 failures1 where st: "guard_step C g u e (b, running, failures) = Some (b1, running1, failures1)"
    and rest: "guard_run C g u events (b1, running1, failures1) = Some (b', running', failures')"
    using Cons.prems(5) by (auto simp: Option.bind_eq_Some_conv)
  have "counted C u n t0 w t b1 running1 failures1"
  proof (cases e)
    case (GBegin t' random header)
    then show ?thesis
      using st inv t_def Begin_counted [OF g inv t(1,2), of random header]
      by (force split: option.splits prod.splits)
  next
    case (GEnd t' i failed)
    then show ?thesis
      using st inv t_def End_counted [OF g(1) inv t(1,2), of i failed]
      by (auto split: if_splits)
  qed
  then show ?case
    using Cons.IH [OF _ t(1,3), of b1 running1 failures1] Cons.prems(4) rest by simp
qed

end

context fixed_window
begin

lemma first_run_bounded:
  assumes g: "gd_limiter g = Some L" "gd_attempts_per_account g = n" "0 < n" "attempt_window g = w" "whole_window w"
    and abs: "absent (snd b) now (account_key C u)"
    and ev: "sorted (now # map event_time events)" "\<forall>e \<in> set events. event_time e < now + w"
    and run: "guard_run C g u (GBegin now random header # events) (b, [], 0) = Some (b', running, failures)"
  shows "int (length running) + int failures \<le> n"
proof -
  obtain b1 running1 failures1 where st: "guard_step C g u (GBegin now random header) (b, [], 0) = Some (b1, running1, failures1)"
    and rest: "guard_run C g u events (b1, running1, failures1) = Some (b', running, failures)"
    using run by (auto simp: Option.bind_eq_Some_conv)
  obtain b2 r where x: "Begin C g now random u header b = Some (b2, r)"
    using st by (auto split: option.splits)
  then have "counted C u n now w now b1 running1 failures1"
    using Begin_first [OF g abs x] st by (auto split: option.splits)
  then show ?thesis by (rule guard_run_counted [OF g _ _ ev rest]) simp
qed

end

lemma attempt_window_whole: "whole_window (attempt_window g)"
proof -
  have "milliseconds (m * 60 * 1000000000) = m * 60 * 1000000000" for m :: int
  proof -
    have "m * 60 * 1000000000 = (m * 60000) * (1000000 :: int)" by simp
    then show ?thesis unfolding milliseconds_def by (metis nonzero_mult_div_cancel_right zero_neq_numeral)
  qed
  from this [of "gd_window_minutes g"] show ?thesis
    by (simp add: whole_window_def attempt_window_def milliseconds_def mult.assoc)
qed

lemma failed_attempts_bounded_in_memory:
  assumes "gd_limiter g = Some memLimiter" "0 < gd_attempts_per_account g"
    and "mem_absent s t0 (account_key C u)"
    and "sorted (t0 # map event_time events)" "\<forall>e \<in> set events. event_time e < t0 + attempt_window g"
    and "guard_run C g u (GBegin t0 random header # events) ((h, s), [], 0) = Some (b, running, failures)"
  shows "int (length running) + int failures \<le> gd_attempts_per_account g"
  by (rule mem.first_run_bounded [OF assms(1) refl assms(2) refl attempt_window_whole _ assms(4-6)]) (use assms(3) in simp)


definition toy_crypto :: sign_in_crypto where
  "toy_crypto = \<lparr>sc_verify_password = (\<lambda>p h. h = ''#'' @ p), sc_valid_totp = (\<lambda>t secret code. code = ''123456''),
     sc_hash_name = id, sc_trim = id, sc_ip_keys = \<lparr>ik_epoch_key = (\<lambda>b e ip. ip), ik_secret_key = (\<lambda>s ip. ip)\<rparr>\<rparr>"

definition toy_guard :: "(string \<rightharpoonup> int \<times> time option) guard" where
  "toy_guard = \<lparr>gd_limiter = Some (redisLimiter kv_redis True ''rl:''), gd_has_ip_hasher = False,
     gd_attempts_per_account = 2, gd_attempts_per_ip = 0, gd_window_minutes = 1, gd_proxy_header = '''',
     gd_max_failed = 2, gd_lockout = seconds 900\<rparr>"

definition toy_hasher :: ip_hasher where
  "toy_hasher = NewSharedIPHasher [] 0"

definition toy_guard_events :: "guard_event list" where
  "toy_guard_events = [GBegin 2 None '''', GEnd 3 0 True, GBegin 4 None '''', GEnd 5 0 False, GBegin 6 None '''', GBegin 7 None '''']"


section \<open>Lockout\<close>

lemma Fail_locks:
  assumes "map_of (ut_users st) (u_id u) = Some r" "u_failed_login_attempts u + 1 \<ge> gd_max_failed g"
  shows "u_locked_until (uderef (Fail g now (Some u) st) r) = Some (now + gd_lockout g)"
    "ut_users (Fail g now (Some u) st) = ut_users st" "ut_by_username (Fail g now (Some u) st) = ut_by_username st"
  using assms by (simp_all add: Fail_def IncrementFailedLogins_def LockUser_def on_user_def write_user_def uderef_def)

lemma on_user_username: "u_username (f (uderef st r)) = u_username (uderef st r) \<Longrightarrow>
    u_username (uderef (fst (on_user i f st)) r) = u_username (uderef st r) \<or> map_of (ut_users st) i \<noteq> Some r"
  by (auto simp: on_user_def split: option.splits)

lemma ConsumeBackupCode_error: "ConsumeBackupCode now k st = (st', Inl e) \<Longrightarrow> st' = st"
  by (auto simp: ConsumeBackupCode_def Let_def split: prod.splits option.splits if_splits)

lemma CheckMFA_None: "CheckMFA C now u code st = (st', None) \<Longrightarrow> st' = st"
  by (auto simp: CheckMFA_def dest: ConsumeBackupCode_error split: option.splits prod.splits sum.splits if_splits)

lemma check_failed:
  assumes "check_credentials C g now u password mfa st = (st', Inl (e, True))"
  shows "st' = Fail g now (Some u) st \<and> (e = InvalidCredentials \<or> e = InvalidMFA)"
  using assms
  by (auto simp: check_credentials_def dest: CheckMFA_None split: if_splits option.splits prod.splits)

lemma check_locked: "locked now u \<Longrightarrow> check_credentials C g now u password mfa st = (st, Inl (AccountLocked, False))"
  by (simp add: check_credentials_def)


definition toy_accounts :: user_store where
  "toy_accounts = fst (CreateUser 1 (toy_user\<lparr>u_password_hash := ''#pw'', u_failed_login_attempts := 1\<rparr>)
     \<lparr>ut_heap = Map.empty, ut_users = [], ut_by_username = Map.empty, ut_by_email = Map.empty, ut_sessions = [], ut_seals = []\<rparr>)"

definition toy_login :: "string \<Rightarrow> string \<Rightarrow> login_request" where
  "toy_login password mfa = \<lparr>lr_username = ''n'', lr_password = password, lr_mfa = mfa, lr_header = '''', lr_user_agent = ''''\<rparr>"

definition toy_token :: "string \<times> string \<times> time" where
  "toy_token = (''s1'', ''0123456789abcdef'', seconds 3600)"


section \<open>The account record written back after a sign-in\<close>

text \<open>
  The sign-in endpoint writes its copy of the whole account back some time after it has
  answered. If a backup code is used in between, that write makes the code valid again (and it
  takes back a lock set in between): the code opens the account a second time.
\<close>

theorem login_writeback_revives_code:
  assumes login: "handleUserLogin C g True now random tok req (b, st) = Some ((b1, st1), Inr session, acts)"
    and wb: "WriteUser w \<in> set acts"
    and valid: "c \<in> set (u_backup_codes w)" "codes_wf st'"
    and used: "ConsumeBackupCode t1 (u_id w, c) st' = (st2, Inr ())"
  shows "\<not> ok (snd (ConsumeBackupCode t2 (u_id w, c) st2)) \<and>
         ok (snd (ConsumeBackupCode t2 (u_id w, c) (bookkeep t r (WriteUser w) st2))) \<and>
         (case GetUser (u_id w) (bookkeep t r (WriteUser w) st2) of Inl _ \<Rightarrow> False
          | Inr u \<Rightarrow> u_locked_until u = u_locked_until w)"
proof -
  obtain e where e: "map_of (ut_users st2) (u_id w) = Some e"
    using used by (auto simp: ConsumeBackupCode_def Let_def split: option.splits if_splits)
  have "code_spent (u_id w, c) st2" by (rule code.success_spends [OF valid(2) used])
  then have "\<not> ok (snd (ConsumeBackupCode t2 (u_id w, c) st2))"
    using e by (auto simp: ConsumeBackupCode_def code_spent_def Let_def)
  moreover have "map_of (ut_users (bookkeep t r (WriteUser w) st2)) (u_id w) = Some r"
    "uderef (bookkeep t r (WriteUser w) st2) r = w\<lparr>u_updated_at := t\<rparr>"
    using e by (simp_all add: bookkeep_def UpdateUser_def Let_def AList.update_conv' uderef_def)
  ultimately show ?thesis
    using valid(1) by (simp add: ConsumeBackupCode_def GetUser_def)
qed

definition toy_written :: user where
  "toy_written = toy_user\<lparr>u_password_hash := ''#pw'', u_failed_login_attempts := 1, u_last_login_at := Some 5\<rparr>"

theorem login_writeback_revives_code_witness:
  "let st2 = fst (ConsumeBackupCode 6 (''u'', ''a'') toy_accounts) in
   \<not> ok (snd (ConsumeBackupCode 8 (''u'', ''a'') st2)) \<and>
   ok (snd (ConsumeBackupCode 8 (''u'', ''a'') (bookkeep 7 2 (WriteUser toy_written) st2)))"
proof -
  have "map_option (\<lambda>(_, r, acts). (ok r, acts)) (handleUserLogin toy_crypto toy_guard True 5 None toy_token (toy_login ''pw'' ''123456'') ((toy_hasher, Map.empty), toy_accounts)) =
      Some (True, [ResetFailed ''u'', WriteUser toy_written])"
    by code_simp
  then obtain b1 st1 session where login: "handleUserLogin toy_crypto toy_guard True 5 None toy_token (toy_login ''pw'' ''123456'') ((toy_hasher, Map.empty), toy_accounts) =
      Some ((b1, st1), Inr session, [ResetFailed ''u'', WriteUser toy_written])"
    by (auto simp: ok_iff)
  have used: "ConsumeBackupCode 6 (u_id toy_written, ''a'') toy_accounts = (fst (ConsumeBackupCode 6 (''u'', ''a'') toy_accounts), Inr ())"
    by (rule prod_eqI) (simp_all add: toy_written_def toy_user_def, code_simp)
  have wf: "codes_wf toy_accounts"
    by (simp add: codes_wf_def toy_accounts_def toy_user_def CreateUser_def uderef_def inj_on_def split: if_splits)
  have "''a'' \<in> set (u_backup_codes toy_written)" "u_id toy_written = ''u''" by (simp_all add: toy_written_def toy_user_def)
  then show ?thesis
    using login_writeback_revives_code [OF login _ _ wf used, of 8 7 2] by simp
qed

end
