(* ===== verification/SessionStore.thy ===== *)
theory SessionStore
  imports Redis Users
begin

text \<open>
  Web sessions in Dragonfly/Redis (\<open>internal/sessionstore/sessionstore.go\<close>), the backend that
  replaces the session methods of the main store when a cache is configured. A session is a JSON
  record that expires with the session; a set per user indexes the sessions.

  Each operation runs against a server that answers; one that does not makes the operation fail.
  The JSON encoding of a session record is a parameter; \<open>json_laws\<close> says that a record is read
  back as it was written. \<open>'j\<close> is the type of the encoded texts.
\<close>

datatype 'j rvalue = RString 'j | RSet "string list"

record 'j session_json =
  sj_marshal :: "user_session \<Rightarrow> 'j"
  sj_unmarshal :: "'j \<Rightarrow> user_session option"

definition json_laws :: "'j session_json \<Rightarrow> bool" where
  "json_laws J \<longleftrightarrow> (\<forall>s. sj_unmarshal J (sj_marshal J s) = Some s)"

datatype cache_error = CacheSessionNotFound | CacheUnmarshal | CacheWrongType

definition sessKey :: "string \<Rightarrow> string" where
  "sessKey i = ''signer:sess:'' @ i"

definition userKey :: "string \<Rightarrow> string" where
  "userKey uid = ''signer:usess:'' @ uid"

definition userIndexTTL :: int where
  "userIndexTTL = seconds (31 * 24 * 3600)"

definition positive_ttl :: "int \<Rightarrow> int" where
  "positive_ttl ttl = (if ttl \<le> 0 then seconds 60 else ttl)"

subsection \<open>Set commands\<close>

definition smembers :: "('r, 'j rvalue) redis \<Rightarrow> time \<Rightarrow> string \<Rightarrow> 'r \<Rightarrow> string list" where
  "smembers R now k r = (case rd_view R r now k of Some (RSet xs, _) \<Rightarrow> xs | _ \<Rightarrow> [])"

definition sadd :: "('r, 'j rvalue) redis \<Rightarrow> time \<Rightarrow> string \<Rightarrow> string \<Rightarrow> 'r \<Rightarrow> 'r" where
  "sadd R now k x r =
     rd_put R now k (Some (RSet (List.insert x (smembers R now k r)),
       case rd_view R r now k of None \<Rightarrow> None | Some (_, e) \<Rightarrow> e)) r"

definition srem :: "('r, 'j rvalue) redis \<Rightarrow> time \<Rightarrow> string \<Rightarrow> string list \<Rightarrow> 'r \<Rightarrow> 'r" where
  "srem R now k xs r =
     (case rd_view R r now k of
        None \<Rightarrow> r
      | Some (_, e) \<Rightarrow>
          (let rest = filter (\<lambda>y. y \<notin> set xs) (smembers R now k r)
           in rd_put R now k (if rest = [] then None else Some (RSet rest, e)) r))"

text \<open>\<open>TTL\<close>: whole seconds left; negative without an expiry or a key.\<close>

definition redis_ttl :: "('r, 'j rvalue) redis \<Rightarrow> time \<Rightarrow> string \<Rightarrow> 'r \<Rightarrow> int" where
  "redis_ttl R now k r =
     (case rd_view R r now k of
        None \<Rightarrow> -2 | Some (_, None) \<Rightarrow> -1
      | Some (_, Some e) \<Rightarrow> seconds ((e - now) div seconds 1))"

subsection \<open>Operations\<close>

definition raiseIndexTTL :: "('r, 'j rvalue) redis \<Rightarrow> time \<Rightarrow> string \<Rightarrow> int \<Rightarrow> 'r \<Rightarrow> 'r" where
  "raiseIndexTTL R now userID want r =
     (if redis_ttl R now (userKey userID) r \<ge> want then r
      else redis_expire R now (userKey userID) want r)"

definition cachedCreateUserSession ::
    "('r, 'j rvalue) redis \<Rightarrow> 'j session_json \<Rightarrow> time \<Rightarrow> user_session \<Rightarrow> 'r \<Rightarrow> 'r" where
  "cachedCreateUserSession R J now s r =
     (let ttl = positive_ttl (us_expires_at s - now);
          r = redis_set R now (sessKey (us_id s)) (RString (sj_marshal J s)) ttl r;
          r = sadd R now (userKey (us_user_id s)) (us_id s) r
      in raiseIndexTTL R now (us_user_id s) (max userIndexTTL ttl) r)"

definition getRaw ::
    "('r, 'j rvalue) redis \<Rightarrow> 'j session_json \<Rightarrow> time \<Rightarrow> string \<Rightarrow> 'r \<Rightarrow> cache_error + user_session" where
  "getRaw R J now i r =
     (case redis_get R now (sessKey i) r of
        None \<Rightarrow> Inl CacheSessionNotFound
      | Some (RSet _) \<Rightarrow> Inl CacheWrongType
      | Some (RString data) \<Rightarrow> or_err CacheUnmarshal (sj_unmarshal J data))"

definition cachedGetUserSession ::
    "('r, 'j rvalue) redis \<Rightarrow> 'j session_json \<Rightarrow> time \<Rightarrow> string \<Rightarrow> 'r \<Rightarrow> cache_error + user_session" where
  "cachedGetUserSession R J now i r =
     (case getRaw R J now i r of
        Inl e \<Rightarrow> Inl e
      | Inr s \<Rightarrow> if now > us_expires_at s then Inl CacheSessionNotFound else Inr s)"

text \<open>The loop over the index: live sessions, and the ids to prune. A record that does not decode is skipped.\<close>

fun list_loop ::
    "('r, 'j rvalue) redis \<Rightarrow> 'j session_json \<Rightarrow> time \<Rightarrow> 'r \<Rightarrow> string list \<Rightarrow> cache_error + (user_session list \<times> string list)" where
  "list_loop R J now r [] = Inr ([], [])"
| "list_loop R J now r (i # ids) =
     (case getRaw R J now i r of
        Inl CacheWrongType \<Rightarrow> Inl CacheWrongType
      | Inl CacheSessionNotFound \<Rightarrow> map_sum id (\<lambda>(ss, stale). (ss, i # stale)) (list_loop R J now r ids)
      | Inl CacheUnmarshal \<Rightarrow> list_loop R J now r ids
      | Inr s \<Rightarrow>
          if now > us_expires_at s then map_sum id (\<lambda>(ss, stale). (ss, i # stale)) (list_loop R J now r ids)
          else map_sum id (\<lambda>(ss, stale). (s # ss, stale)) (list_loop R J now r ids))"

definition cachedListUserSessions ::
    "('r, 'j rvalue) redis \<Rightarrow> 'j session_json \<Rightarrow> time \<Rightarrow> string \<Rightarrow> 'r \<Rightarrow> 'r \<times> (cache_error + user_session list)" where
  "cachedListUserSessions R J now userID r =
     (case list_loop R J now r (smembers R now (userKey userID) r) of
        Inl e \<Rightarrow> (r, Inl e)
      | Inr (ss, stale) \<Rightarrow> (if stale = [] then r else srem R now (userKey userID) stale r, Inr ss))"

text \<open>\<open>mutate\<close> is two commands with nothing between them that excludes other clients.\<close>

definition mutate_write ::
    "('r, 'j rvalue) redis \<Rightarrow> 'j session_json \<Rightarrow> time \<Rightarrow> string \<Rightarrow> user_session \<Rightarrow> 'r \<Rightarrow> 'r" where
  "mutate_write R J now i s r = redis_set_keepttl R now (sessKey i) (RString (sj_marshal J s)) r"

definition mutateSession ::
    "('r, 'j rvalue) redis \<Rightarrow> 'j session_json \<Rightarrow> time \<Rightarrow> string \<Rightarrow> (user_session \<Rightarrow> user_session) \<Rightarrow> 'r \<Rightarrow> 'r \<times> (cache_error + unit)" where
  "mutateSession R J now i f r =
     (case getRaw R J now i r of
        Inl e \<Rightarrow> (r, Inl e)
      | Inr s \<Rightarrow> (mutate_write R J now i (f s) r, Inr ()))"

definition cachedUpdateUserSessionActivity ::
    "('r, 'j rvalue) redis \<Rightarrow> 'j session_json \<Rightarrow> time \<Rightarrow> string \<Rightarrow> 'r \<Rightarrow> 'r \<times> (cache_error + unit)" where
  "cachedUpdateUserSessionActivity R J now i = mutateSession R J now i (\<lambda>s. s\<lparr>us_last_activity := Some now\<rparr>)"

definition cachedUpdateUserSessionVaultToken ::
    "('r, 'j rvalue) redis \<Rightarrow> 'j session_json \<Rightarrow> time \<Rightarrow> string \<Rightarrow> string \<Rightarrow> 'r \<Rightarrow> 'r \<times> (cache_error + unit)" where
  "cachedUpdateUserSessionVaultToken R J now i vaultToken = mutateSession R J now i (\<lambda>s. s\<lparr>us_vault_token := vaultToken\<rparr>)"

definition cachedExtendUserSession ::
    "('r, 'j rvalue) redis \<Rightarrow> 'j session_json \<Rightarrow> time \<Rightarrow> string \<Rightarrow> time \<Rightarrow> 'r \<Rightarrow> 'r \<times> (cache_error + unit)" where
  "cachedExtendUserSession R J now i expiresAt r =
     (case getRaw R J now i r of
        Inl e \<Rightarrow> (r, Inl e)
      | Inr s \<Rightarrow>
          if now > us_expires_at s then (r, Inl CacheSessionNotFound)
          else (let s = s\<lparr>us_expires_at := expiresAt\<rparr>; ttl = positive_ttl (expiresAt - now);
                    r = redis_set R now (sessKey i) (RString (sj_marshal J s)) ttl r;
                    r = sadd R now (userKey (us_user_id s)) i r
                in (raiseIndexTTL R now (us_user_id s) (ttl + seconds (24 * 3600)) r, Inr ())))"

definition cachedDeleteUserSession ::
    "('r, 'j rvalue) redis \<Rightarrow> 'j session_json \<Rightarrow> time \<Rightarrow> string \<Rightarrow> 'r \<Rightarrow> 'r" where
  "cachedDeleteUserSession R J now i r =
     (let userID = (case getRaw R J now i r of Inl _ \<Rightarrow> '''' | Inr s \<Rightarrow> us_user_id s);
          r = redis_del R now (sessKey i) r
      in if userID \<noteq> '''' then srem R now (userKey userID) [i] r else r)"

definition cachedDeleteUserSessions :: "('r, 'j rvalue) redis \<Rightarrow> time \<Rightarrow> string \<Rightarrow> 'r \<Rightarrow> 'r" where
  "cachedDeleteUserSessions R now userID r =
     redis_del R now (userKey userID)
       (foldl (\<lambda>r i. redis_del R now (sessKey i) r) r (smembers R now (userKey userID) r))"

section \<open>The cache implements the session table of the main store\<close>

definition cached_as ::
    "('r, 'j rvalue) redis \<Rightarrow> 'j session_json \<Rightarrow> time \<Rightarrow> 'r \<Rightarrow> string \<Rightarrow> user_session option \<Rightarrow> bool" where
  "cached_as R J now r i x \<longleftrightarrow>
     (case x of
        None \<Rightarrow> \<forall>t \<ge> now. rd_view R r t (sessKey i) = None
      | Some s \<Rightarrow> \<exists>e \<ge> us_expires_at s. \<forall>t \<ge> now.
          rd_view R r t (sessKey i) = unexpired t (Some (RString (sj_marshal J s), Some e)))"

definition cache_refines ::
    "('r, 'j rvalue) redis \<Rightarrow> 'j session_json \<Rightarrow> time \<Rightarrow> 'r \<Rightarrow> user_store \<Rightarrow> bool" where
  "cache_refines R J now r st \<longleftrightarrow> (\<forall>i. cached_as R J now r i (map_of (ut_sessions st) i))"

lemma keys_differ [simp]: "sessKey i \<noteq> userKey u" "userKey u \<noteq> sessKey i" "sessKey i = sessKey j \<longleftrightarrow> i = j"
  by (simp_all add: sessKey_def userKey_def)

lemma cached_as_cong:
  "(\<And>t. now \<le> t \<Longrightarrow> rd_view R r' t (sessKey j) = rd_view R r t (sessKey j)) \<Longrightarrow>
     cached_as R J now r' j x = cached_as R J now r j x"
  by (auto simp: cached_as_def split: option.splits)

lemma cached_as_later: "cached_as R J now r i x \<Longrightarrow> now \<le> t \<Longrightarrow> cached_as R J t r i x"
proof (cases x)
  case (Some s)
  assume "cached_as R J now r i x" "now \<le> t"
  with Some show ?thesis unfolding cached_as_def by simp (meson order_trans)
qed (auto simp: cached_as_def)

lemma cache_refines_later: "cache_refines R J now r st \<Longrightarrow> now \<le> t \<Longrightarrow> cache_refines R J t r st"
  by (auto simp: cache_refines_def intro: cached_as_later)

lemma cache_refinesI:
  assumes "cache_refines R J now r st"
    and "\<And>j. j \<noteq> i \<Longrightarrow> map_of (ut_sessions st') j = map_of (ut_sessions st) j"
    and "\<And>j t. j \<noteq> i \<Longrightarrow> now \<le> t \<Longrightarrow> rd_view R r' t (sessKey j) = rd_view R r t (sessKey j)"
    and "cached_as R J now r' i (map_of (ut_sessions st') i)"
  shows "cache_refines R J now r' st'"
  unfolding cache_refines_def
proof
  fix j
  show "cached_as R J now r' j (map_of (ut_sessions st') j)"
    using assms(1,4) assms(2) [of j] cached_as_cong [OF assms(3)]
    by (cases "j = i") (auto simp: cache_refines_def)
qed

lemma index_writes_other:
  assumes R: "redis_laws R" and t: "now \<le> t"
  shows "rd_view R (sadd R now (userKey u) i r) t (sessKey j) = rd_view R r t (sessKey j)"
    "rd_view R (srem R now (userKey u) is r) t (sessKey j) = rd_view R r t (sessKey j)"
    "rd_view R (raiseIndexTTL R now u want r) t (sessKey j) = rd_view R r t (sessKey j)"
  using redis_put [OF R t]
  by (auto simp: sadd_def srem_def raiseIndexTTL_def redis_expire_def Let_def split: option.splits)

lemma redis_set_view:
  assumes "redis_laws R" "now \<le> t"
  shows "rd_view R (redis_set R now k v ttl r) t j =
    (if j = k then unexpired t (Some (v, Some (now + ttl))) else rd_view R r t j)"
  using redis_put [OF assms] by (simp add: redis_set_def)

lemma cached_as_put:
  assumes R: "redis_laws R" and e: "us_expires_at s \<le> e"
    and v: "\<And>t. now \<le> t \<Longrightarrow> rd_view R r t (sessKey i) = unexpired t (Some (RString (sj_marshal J s), Some e))"
  shows "cached_as R J now r i (Some s)"
  using e v by (auto simp: cached_as_def)

lemma create_refines:
  assumes R: "redis_laws R" and ref: "cache_refines R J now r st"
  shows "cache_refines R J now (cachedCreateUserSession R J now s r) (CreateUserSession s st)"
proof (rule cache_refinesI [OF ref, of "us_id s"])
  have "cached_as R J now (cachedCreateUserSession R J now s r) (us_id s) (Some s)"
    using index_writes_other [OF R] redis_set_view [OF R]
    by (intro cached_as_put [OF R, of _ "now + positive_ttl (us_expires_at s - now)"])
      (auto simp: cachedCreateUserSession_def Let_def positive_ttl_def)
  then show "cached_as R J now (cachedCreateUserSession R J now s r) (us_id s) (map_of (ut_sessions (CreateUserSession s st)) (us_id s))"
    by (simp add: CreateUserSession_def AList.update_conv')
qed (use index_writes_other [OF R] redis_set_view [OF R] in
    \<open>auto simp: CreateUserSession_def AList.update_conv' cachedCreateUserSession_def Let_def\<close>)

lemma cached_now:
  assumes "cache_refines R J now r st"
  shows "case map_of (ut_sessions st) i of
      None \<Rightarrow> rd_view R r now (sessKey i) = None
    | Some s \<Rightarrow> \<exists>e \<ge> us_expires_at s. rd_view R r now (sessKey i) = unexpired now (Some (RString (sj_marshal J s), Some e))"
  using assms [unfolded cache_refines_def, THEN spec, of i] by (auto simp: cached_as_def split: option.splits)

lemma getRaw_refines:
  assumes J: "json_laws J" and ref: "cache_refines R J now r st"
  shows "getRaw R J now i r = Inr s \<Longrightarrow> map_of (ut_sessions st) i = Some s"
    "getRaw R J now i r = Inl e \<Longrightarrow> map_of (ut_sessions st) i = Some s \<Longrightarrow> rd_view R r now (sessKey i) = None"
    "map_of (ut_sessions st) i = Some s \<Longrightarrow> now < us_expires_at s \<Longrightarrow> getRaw R J now i r = Inr s"
  using cached_now [OF ref, of i] J
  by (auto simp: getRaw_def redis_get_def json_laws_def split: option.splits if_splits)

text \<open>\<open>mutate\<close> with a change that keeps the expiry: on an expired session only the table changes.\<close>

lemma mutate_refines:
  assumes R: "redis_laws R" and J: "json_laws J" and ref: "cache_refines R J now r st"
    and f: "\<And>s. us_expires_at (f s) = us_expires_at s"
  shows "cache_refines R J now (fst (mutateSession R J now i f r)) (fst (on_session i f st))"
proof (cases "map_of (ut_sessions st) i")
  case None
  then have "getRaw R J now i r = Inl CacheSessionNotFound"
    using ref [unfolded cache_refines_def, THEN spec, of i]
    by (simp add: cached_as_def getRaw_def redis_get_def)
  then show ?thesis using ref None by (simp add: mutateSession_def on_session_def)
next
  case (Some s)
  then obtain e where e: "us_expires_at s \<le> e"
    "\<forall>t \<ge> now. rd_view R r t (sessKey i) = unexpired t (Some (RString (sj_marshal J s), Some e))"
    using ref [unfolded cache_refines_def, THEN spec, of i] by (auto simp: cached_as_def)
  have other: "map_of (ut_sessions (fst (on_session i f st))) j = map_of (ut_sessions st) j" if "j \<noteq> i" for j
    using that Some by (simp add: on_session_def AList.update_conv')
  have upd: "map_of (ut_sessions (fst (on_session i f st))) i = Some (f s)"
    using Some by (simp add: on_session_def AList.update_conv')
  show ?thesis
  proof (cases "e \<le> now")
    case True
    then have "getRaw R J now i r = Inl CacheSessionNotFound" using e(2) by (simp add: getRaw_def redis_get_def)
    moreover have "cached_as R J now r i (Some (f s))"
      using e True f by (intro cached_as_put [OF R, of _ e]) auto
    ultimately show ?thesis
      by (intro cache_refinesI [OF ref other, where i = i]) (simp_all add: mutateSession_def upd)
  next
    case False
    then have g: "getRaw R J now i r = Inr s"
      using e(2) J by (simp add: getRaw_def redis_get_def json_laws_def)
    have v: "rd_view R r now (sessKey i) = Some (RString (sj_marshal J s), Some e)" using e(2) False by simp
    show ?thesis
    proof (rule cache_refinesI [OF ref other])
      have "cached_as R J now (mutate_write R J now i (f s) r) i (Some (f s))"
        using e(1) f redis_put [OF R] v
        by (intro cached_as_put [OF R, of _ e]) (simp_all add: mutate_write_def redis_set_keepttl_def)
      then show "cached_as R J now (fst (mutateSession R J now i f r)) i (map_of (ut_sessions (fst (on_session i f st))) i)"
        by (simp add: upd mutateSession_def g)
    qed (use redis_put [OF R] in \<open>simp_all add: mutateSession_def g mutate_write_def redis_set_keepttl_def\<close>)
  qed
qed

lemma extend_refines:
  assumes R: "redis_laws R" and J: "json_laws J" and ref: "cache_refines R J now r st"
    and edge: "\<And>s. map_of (ut_sessions st) i = Some s \<Longrightarrow> now \<noteq> us_expires_at s"
  shows "cache_refines R J now (fst (cachedExtendUserSession R J now i t r)) (fst (ExtendUserSession now i t st))"
proof (cases "\<exists>s. map_of (ut_sessions st) i = Some s \<and> now < us_expires_at s")
  case True
  then obtain s where s: "map_of (ut_sessions st) i = Some s" "now < us_expires_at s" by blast
  then have g: "getRaw R J now i r = Inr s" by (rule getRaw_refines(3) [OF J ref])
  show ?thesis
  proof (rule cache_refinesI [OF ref])
    have "cached_as R J now (fst (cachedExtendUserSession R J now i t r)) i (Some (s\<lparr>us_expires_at := t\<rparr>))"
      using s(2) index_writes_other [OF R] redis_set_view [OF R]
      by (intro cached_as_put [OF R, of _ "now + positive_ttl (t - now)"])
        (auto simp: cachedExtendUserSession_def g Let_def positive_ttl_def)
    then show "cached_as R J now (fst (cachedExtendUserSession R J now i t r)) i (map_of (ut_sessions (fst (ExtendUserSession now i t st))) i)"
      using s by (simp add: ExtendUserSession_def AList.update_conv')
  qed (use s index_writes_other [OF R] redis_set_view [OF R] in
      \<open>auto simp: ExtendUserSession_def AList.update_conv' cachedExtendUserSession_def g Let_def\<close>)
next
  case False
  then have "fst (ExtendUserSession now i t st) = st"
    using edge by (force simp: ExtendUserSession_def split: option.splits)
  moreover have "fst (cachedExtendUserSession R J now i t r) = r"
    using False getRaw_refines(1) [OF J ref, of i] edge
    by (force simp: cachedExtendUserSession_def Let_def split: sum.splits)
  ultimately show ?thesis using ref by simp
qed

lemma delete_refines:
  assumes R: "redis_laws R" and ref: "cache_refines R J now r st"
  shows "cache_refines R J now (cachedDeleteUserSession R J now i r) (DeleteUserSession i st)"
proof (rule cache_refinesI [OF ref, of i])
  have view: "rd_view R (cachedDeleteUserSession R J now i r) t (sessKey j) =
      (if j = i then None else rd_view R r t (sessKey j))" if "now \<le> t" for t j
    using index_writes_other [OF R that] redis_put [OF R that]
    by (auto simp: cachedDeleteUserSession_def redis_del_def Let_def)
  show "cached_as R J now (cachedDeleteUserSession R J now i r) i (map_of (ut_sessions (DeleteUserSession i st)) i)"
    using view by (simp add: DeleteUserSession_def AList.delete_conv' cached_as_def)
  show "rd_view R (cachedDeleteUserSession R J now i r) t (sessKey j) = rd_view R r t (sessKey j)"
    if "j \<noteq> i" "now \<le> t" for j t
    using view that by simp
qed (simp add: DeleteUserSession_def AList.delete_conv')

datatype session_op =
  SoCreate user_session | SoActivity string | SoVaultToken string string | SoExtend string time | SoDelete string

fun table_step :: "time \<Rightarrow> session_op \<Rightarrow> user_store \<Rightarrow> user_store" where
  "table_step now (SoCreate s) st = CreateUserSession s st"
| "table_step now (SoActivity i) st = fst (UpdateUserSessionActivity now i st)"
| "table_step now (SoVaultToken i v) st = fst (UpdateUserSessionVaultToken i v st)"
| "table_step now (SoExtend i t) st = fst (ExtendUserSession now i t st)"
| "table_step now (SoDelete i) st = DeleteUserSession i st"

fun cache_step :: "('r, 'j rvalue) redis \<Rightarrow> 'j session_json \<Rightarrow> time \<Rightarrow> session_op \<Rightarrow> 'r \<Rightarrow> 'r" where
  "cache_step R J now (SoCreate s) r = cachedCreateUserSession R J now s r"
| "cache_step R J now (SoActivity i) r = fst (cachedUpdateUserSessionActivity R J now i r)"
| "cache_step R J now (SoVaultToken i v) r = fst (cachedUpdateUserSessionVaultToken R J now i v r)"
| "cache_step R J now (SoExtend i t) r = fst (cachedExtendUserSession R J now i t r)"
| "cache_step R J now (SoDelete i) r = cachedDeleteUserSession R J now i r"

text \<open>No session is extended at the very instant at which it expires.\<close>

fun extends_in_time :: "(time \<times> session_op) list \<Rightarrow> user_store \<Rightarrow> bool" where
  "extends_in_time [] st = True"
| "extends_in_time ((now, x) # ops) st =
     ((case x of SoExtend i t \<Rightarrow> (case map_of (ut_sessions st) i of None \<Rightarrow> True | Some s \<Rightarrow> now \<noteq> us_expires_at s)
       | _ \<Rightarrow> True) \<and> extends_in_time ops (table_step now x st))"

lemma step_refines:
  assumes "redis_laws R" "json_laws J" "cache_refines R J now r st" "extends_in_time [(now, x)] st"
  shows "cache_refines R J now (cache_step R J now x r) (table_step now x st)"
  using assms
  by (cases x)
    (auto simp: cachedUpdateUserSessionActivity_def UpdateUserSessionActivity_def
      cachedUpdateUserSessionVaultToken_def UpdateUserSessionVaultToken_def
      intro: create_refines mutate_refines extend_refines delete_refines)

lemma run_refines:
  assumes "redis_laws R" "json_laws J"
  shows "\<lbrakk>cache_refines R J now r st; sorted (now # map fst ops); extends_in_time ops st; \<forall>(t, x) \<in> set ops. t \<le> t'; now \<le> t'\<rbrakk> \<Longrightarrow>
    cache_refines R J t' (foldl (\<lambda>r (t, x). cache_step R J t x r) r ops) (foldl (\<lambda>st (t, x). table_step t x st) st ops)"
proof (induction ops arbitrary: now r st)
  case Nil
  then show ?case by (auto intro: cache_refines_later)
next
  case (Cons op ops)
  obtain t x where op: "op = (t, x)" by force
  have "cache_refines R J t r st" using Cons.prems(1,2) op by (auto intro: cache_refines_later)
  then have "cache_refines R J t (cache_step R J t x r) (table_step t x st)"
    using Cons.prems(3) op by (intro step_refines [OF assms]) auto
  from Cons.IH [OF this] show ?case using Cons.prems op by simp
qed

lemma get_agrees:
  assumes J: "json_laws J" and ref: "cache_refines R J now r st" and edge: "now \<noteq> us_expires_at s"
  shows "cachedGetUserSession R J now i r = Inr s \<longleftrightarrow> GetUserSession now i st = Inr s"
proof
  assume "cachedGetUserSession R J now i r = Inr s"
  then have "getRaw R J now i r = Inr s" "\<not> now > us_expires_at s"
    by (auto simp: cachedGetUserSession_def split: sum.splits if_splits)
  then show "GetUserSession now i st = Inr s"
    using getRaw_refines(1) [OF J ref] by (simp add: GetUserSession_def)
next
  assume "GetUserSession now i st = Inr s"
  then have s: "map_of (ut_sessions st) i = Some s" "\<not> now > us_expires_at s"
    by (auto simp: GetUserSession_def split: option.splits if_splits)
  then show "cachedGetUserSession R J now i r = Inr s"
    using getRaw_refines(3) [OF J ref s(1)] edge by (simp add: cachedGetUserSession_def)
qed


lemma srem_removes:
  assumes R: "redis_laws R" and t: "t \<le> t'" and x: "x \<in> set xs"
  shows "x \<notin> set (smembers R t' k (srem R t k xs r))"
proof (cases "rd_view R r t k")
  case None
  then have "rd_view R r t' k = None" using redis_later [OF R t, of r k] by simp
  then show ?thesis by (simp add: srem_def None smembers_def)
next
  case (Some p)
  obtain v e where p: "p = (v, e)" by force
  define rest where "rest = filter (\<lambda>y. y \<notin> set xs) (smembers R t k r)"
  have "rd_view R (srem R t k xs r) t' k = unexpired t' (if rest = [] then None else Some (RSet rest, e))"
    using redis_put [OF R t] Some by (simp add: srem_def p rest_def Let_def)
  then show ?thesis
    using x by (cases e) (auto simp: smembers_def rest_def)
qed

text \<open>
  An activity (or Vault token) update that reads a session just before the session is signed
  out writes it back afterwards: the session works again until it expires, and since it is no longer
  in the index of its user, signing out everywhere does not end it.
\<close>

theorem signed_out_session_revived:
  assumes R: "redis_laws R" and J: "json_laws J"
    and read: "getRaw R J t1 i r = Inr s" and u: "us_user_id s \<noteq> ''''"
    and t: "t1 \<le> t2" "t2 \<le> t3" "t3 \<le> t4" "t4 \<le> us_expires_at s"
    and f: "us_expires_at (f s) = us_expires_at s"
  shows "let r' = cachedDeleteUserSession R J t1 i r; r'' = mutate_write R J t2 i (f s) r' in
         cachedGetUserSession R J t1 i r' = Inl CacheSessionNotFound \<and>
         cachedGetUserSession R J t4 i r'' = Inr (f s) \<and>
         cachedGetUserSession R J t4 i (cachedDeleteUserSessions R t3 (us_user_id s) r'') = Inr (f s)"
proof -
  define r' where "r' = cachedDeleteUserSession R J t1 i r"
  define r'' where "r'' = mutate_write R J t2 i (f s) r'"
  let ?k = "userKey (us_user_id s)"
  have gone: "rd_view R r' t (sessKey i) = None" if "t1 \<le> t" for t
    using index_writes_other(2) [OF R that] redis_put [OF R that] u
    by (simp add: r'_def cachedDeleteUserSession_def read redis_del_def)
  have revived: "rd_view R r'' t (sessKey i) = Some (RString (sj_marshal J (f s)), None)" if "t2 \<le> t" for t
    using redis_put [OF R that] gone [OF t(1)]
    by (simp add: r''_def mutate_write_def redis_set_keepttl_def)
  have "i \<notin> set (smembers R t3 ?k r')"
  proof -
    have "srem R t1 ?k [i] (redis_del R t1 (sessKey i) r) = r'"
      using u by (simp add: r'_def cachedDeleteUserSession_def read)
    moreover have "t1 \<le> t3" using t by simp
    ultimately show ?thesis using srem_removes [OF R, of t1 t3 i "[i]" ?k] by auto
  qed
  then have unlisted: "i \<notin> set (smembers R t3 ?k r'')"
    using redis_put [OF R t(2)] by (simp add: r''_def mutate_write_def redis_set_keepttl_def smembers_def)
  have dels: "rd_view R (foldl (\<lambda>r j. redis_del R t3 (sessKey j) r) q js) t4 (sessKey i) = rd_view R q t4 (sessKey i)"
    if "i \<notin> set js" for js q
    using that
  proof (induction js arbitrary: q)
    case (Cons j js)
    then show ?case using redis_put [OF R t(3)] by (simp add: redis_del_def)
  qed simp
  have kept: "rd_view R (cachedDeleteUserSessions R t3 (us_user_id s) r'') t4 (sessKey i) = rd_view R r'' t4 (sessKey i)"
    using dels [OF unlisted] redis_put [OF R t(3)] by (simp add: cachedDeleteUserSessions_def redis_del_def)
  have "cachedGetUserSession R J t1 i r' = Inl CacheSessionNotFound"
    using gone by (simp add: cachedGetUserSession_def getRaw_def redis_get_def)
  moreover have "t2 \<le> t4" using t by simp
  ultimately show ?thesis
    using revived kept J f t(4)
    by (simp add: r'_def [symmetric] r''_def [symmetric] Let_def cachedGetUserSession_def getRaw_def redis_get_def json_laws_def)
qed

subsection \<open>Witnesses\<close>

definition plain_json :: "user_session session_json" where
  "plain_json = \<lparr>sj_marshal = id, sj_unmarshal = Some\<rparr>"

lemma plain_json_laws: "json_laws plain_json"
  by (simp add: json_laws_def plain_json_def)

definition toy_table :: user_store where
  "toy_table = \<lparr>ut_heap = Map.empty, ut_users = [], ut_by_username = Map.empty, ut_by_email = Map.empty,
     ut_sessions = [], ut_seals = []\<rparr>"

definition toy_session_ops :: "(time \<times> session_op) list" where
  "toy_session_ops = [(1, SoCreate (toy_sess ''s1'' ''u'')), (2, SoCreate (toy_sess ''s2'' ''u'')), (3, SoActivity ''s1''),
     (4, SoExtend ''s1'' 500), (5, SoDelete ''s2'')]"


theorem signed_out_session_revived_witness:
  "let r = cachedCreateUserSession kv_redis plain_json 1 (toy_sess ''s1'' ''u'') Map.empty;
       s = (toy_sess ''s1'' ''u'')\<lparr>us_last_activity := Some 5\<rparr>;
       r' = cachedDeleteUserSession kv_redis plain_json 5 ''s1'' r in
   cachedGetUserSession kv_redis plain_json 8 ''s1'' r' = Inl CacheSessionNotFound \<and>
   cachedGetUserSession kv_redis plain_json 8 ''s1''
     (cachedDeleteUserSessions kv_redis 7 ''u'' (mutate_write kv_redis plain_json 6 ''s1'' s r')) = Inr s"
proof -
  let ?r = "cachedCreateUserSession kv_redis plain_json 1 (toy_sess ''s1'' ''u'') Map.empty"
  have read: "getRaw kv_redis plain_json 5 ''s1'' ?r = Inr (toy_sess ''s1'' ''u'')"
    and gone: "cachedGetUserSession kv_redis plain_json 8 ''s1'' (cachedDeleteUserSession kv_redis plain_json 5 ''s1'' ?r) = Inl CacheSessionNotFound"
    by code_simp+
  have "us_user_id (toy_sess ''s1'' ''u'') = ''u''" "us_expires_at (toy_sess ''s1'' ''u'') = 100"
    by (simp_all add: toy_sess_def)
  then show ?thesis
    using gone signed_out_session_revived [OF kv_redis_laws plain_json_laws read, of 6 7 8 "\<lambda>s. s\<lparr>us_last_activity := Some 5\<rparr>"]
    by (simp add: Let_def)
qed

end
