(* ===== verification/Seal.thy ===== *)
theory Seal
  imports Prelude
begin

text \<open>
  Sealing of unlocked keys (\<open>internal/seal\<close>): the binding of a seal to a key and a sign-in session,
  the sealers (none, key file, Vault transit) and split sealing, in which the browser holds half of
  the sealing key.

  AES-GCM, HKDF, SHA-256 and Vault are parameters. \<open>seal_laws\<close> states what the code relies on:
  decryption accepts exactly the ciphertexts that encryption makes under the same key, nonce and
  associated data, and lengths are as documented. Loading a key file (file permissions, creation) is
  left out; the key and its fingerprint are given.
\<close>

record seal_crypto =
  sx_gcm_seal :: "bytes \<Rightarrow> bytes \<Rightarrow> bytes \<Rightarrow> bytes \<Rightarrow> bytes"
  sx_gcm_open :: "bytes \<Rightarrow> bytes \<Rightarrow> bytes \<Rightarrow> bytes \<Rightarrow> bytes option"
  sx_hkdf :: "bytes \<Rightarrow> bytes \<Rightarrow> bytes"
  sx_transit_encrypt :: "string \<Rightarrow> bytes \<Rightarrow> bytes \<Rightarrow> bytes option"
  sx_transit_decrypt :: "string \<Rightarrow> bytes \<Rightarrow> bytes \<Rightarrow> (bool + bytes)"

definition seal_laws :: "seal_crypto \<Rightarrow> bool" where
  "seal_laws X \<longleftrightarrow>
     (\<forall>k n c a p. sx_gcm_open X k n c a = Some p \<longleftrightarrow> c = sx_gcm_seal X k n p a) \<and>
     (\<forall>k n p a. length (sx_gcm_seal X k n p a) = length p + 16) \<and>
     (\<forall>k p c d. sx_transit_encrypt X k p c = Some d \<longrightarrow> sx_transit_decrypt X k d c = Inr p)"

record binding =
  bd_pubkey :: string
  bd_session_id :: string

definition validate :: "binding \<Rightarrow> bool" where
  "validate b \<longleftrightarrow> bd_pubkey b \<noteq> '''' \<and> bd_session_id b \<noteq> ''''"

text \<open>The lengths are cast to 32 bits.\<close>

definition Bytes :: "binding \<Rightarrow> bytes" where
  "Bytes b = str_bytes ''cloistr-signer/session-seal/v1''
     @ be32 (of_nat (length (bd_pubkey b))) @ str_bytes (bd_pubkey b)
     @ be32 (of_nat (length (bd_session_id b))) @ str_bytes (bd_session_id b)"

datatype seal_error = SealDisabled | SealBadBinding | ErrOpen | ErrWrongKeyfile | SealVaultError

definition nonce_size :: nat where "nonce_size = 12"
definition gcm_overhead :: nat where "gcm_overhead = 16"

definition derivedKey :: "seal_crypto \<Rightarrow> bytes \<Rightarrow> string \<Rightarrow> binding \<Rightarrow> bytes" where
  "derivedKey X ikm purpose b = sx_hkdf X ikm (str_bytes purpose @ [0] @ Bytes b)"

definition aeadSeal :: "seal_crypto \<Rightarrow> bytes \<Rightarrow> bytes \<Rightarrow> string \<Rightarrow> bytes \<Rightarrow> binding \<Rightarrow> bytes" where
  "aeadSeal X nonce ikm purpose plaintext b =
     nonce @ sx_gcm_seal X (derivedKey X ikm purpose b) nonce plaintext (Bytes b)"

definition aeadOpen :: "seal_crypto \<Rightarrow> bytes \<Rightarrow> string \<Rightarrow> bytes \<Rightarrow> binding \<Rightarrow> seal_error + bytes" where
  "aeadOpen X ikm purpose blob b =
     (if length blob < nonce_size + gcm_overhead then Inl ErrOpen
      else or_err ErrOpen (sx_gcm_open X (derivedKey X ikm purpose b) (take nonce_size blob) (drop nonce_size blob) (Bytes b)))"

subsection \<open>Modes\<close>

definition keyfilePrefix :: bytes where "keyfilePrefix = str_bytes ''kf1''"
definition splitPrefix :: bytes where "splitPrefix = str_bytes ''sp1''"
definition vaultPrefix :: bytes where "vaultPrefix = str_bytes ''vt1:''"

definition HasPrefix :: "bytes \<Rightarrow> bytes \<Rightarrow> bool" where
  "HasPrefix blob prefix \<longleftrightarrow> take (length prefix) blob = prefix"

definition DetectMode :: "bytes \<Rightarrow> string" where
  "DetectMode blob =
     (if HasPrefix blob keyfilePrefix then ''keyfile''
      else if HasPrefix blob splitPrefix then ''split''
      else if HasPrefix blob vaultPrefix then ''vault'' else '''')"

datatype sealer = SealNone | SealKeyfile bytes bytes | SealVault string

fun sealerMode :: "sealer \<Rightarrow> string" where
  "sealerMode SealNone = ''none''"
| "sealerMode (SealKeyfile k fp) = ''keyfile''"
| "sealerMode (SealVault k) = ''vault''"

fun sealerEnabled :: "sealer \<Rightarrow> bool" where
  "sealerEnabled SealNone = False"
| "sealerEnabled _ = True"

definition keyfileSeal :: "seal_crypto \<Rightarrow> bytes \<Rightarrow> bytes \<Rightarrow> bytes \<Rightarrow> bytes \<Rightarrow> binding \<Rightarrow> seal_error + bytes" where
  "keyfileSeal X nonce k fp plaintext b =
     (if \<not> validate b then Inl SealBadBinding
      else Inr (keyfilePrefix @ fp @ aeadSeal X nonce k ''keyfile'' plaintext b))"

definition keyfileOpen :: "seal_crypto \<Rightarrow> bytes \<Rightarrow> bytes \<Rightarrow> bytes \<Rightarrow> binding \<Rightarrow> seal_error + bytes" where
  "keyfileOpen X k fp sealed b =
     (if \<not> validate b then Inl SealBadBinding
      else
        (let n = length keyfilePrefix + length fp in
         if length sealed < n \<or> \<not> HasPrefix sealed keyfilePrefix then Inl ErrOpen
         else if take (length fp) (drop (length keyfilePrefix) sealed) \<noteq> fp then Inl ErrWrongKeyfile
         else aeadOpen X k ''keyfile'' (drop n sealed) b))"

definition vaultSeal :: "seal_crypto \<Rightarrow> string \<Rightarrow> bytes \<Rightarrow> binding \<Rightarrow> seal_error + bytes" where
  "vaultSeal X key plaintext b =
     (if \<not> validate b then Inl SealBadBinding
      else case sx_transit_encrypt X key plaintext (Bytes b) of
        None \<Rightarrow> Inl SealVaultError
      | Some ct \<Rightarrow> Inr (vaultPrefix @ ct))"

text \<open>Vault refuses (\<open>Inl True\<close>: status 400 or 404) or fails (\<open>Inl False\<close>).\<close>

definition vaultOpen :: "seal_crypto \<Rightarrow> string \<Rightarrow> bytes \<Rightarrow> binding \<Rightarrow> seal_error + bytes" where
  "vaultOpen X key sealed b =
     (if \<not> validate b then Inl SealBadBinding
      else if \<not> HasPrefix sealed vaultPrefix then Inl ErrOpen
      else case sx_transit_decrypt X key (drop (length vaultPrefix) sealed) (Bytes b) of
        Inl refused \<Rightarrow> Inl (if refused then ErrOpen else SealVaultError)
      | Inr pt \<Rightarrow> Inr pt)"

fun sealerSeal :: "seal_crypto \<Rightarrow> bytes \<Rightarrow> sealer \<Rightarrow> bytes \<Rightarrow> binding \<Rightarrow> seal_error + bytes" where
  "sealerSeal X nonce SealNone plaintext b = Inl SealDisabled"
| "sealerSeal X nonce (SealKeyfile k fp) plaintext b = keyfileSeal X nonce k fp plaintext b"
| "sealerSeal X nonce (SealVault key) plaintext b = vaultSeal X key plaintext b"

fun sealerOpen :: "seal_crypto \<Rightarrow> sealer \<Rightarrow> bytes \<Rightarrow> binding \<Rightarrow> seal_error + bytes" where
  "sealerOpen X SealNone sealed b = Inl SealDisabled"
| "sealerOpen X (SealKeyfile k fp) sealed b = keyfileOpen X k fp sealed b"
| "sealerOpen X (SealVault key) sealed b = vaultOpen X key sealed b"

subsection \<open>Split sealing\<close>

definition SplitHalfLen :: nat where "SplitHalfLen = 32"

definition zero_half :: bytes where "zero_half = replicate SplitHalfLen 0"

definition splitIKM :: "bytes \<Rightarrow> bytes \<Rightarrow> bytes" where
  "splitIKM server browser = server @ browser"

definition SplitSeal :: "seal_crypto \<Rightarrow> bytes \<Rightarrow> bytes \<Rightarrow> bytes \<Rightarrow> bytes \<Rightarrow> binding \<Rightarrow> seal_error + bytes" where
  "SplitSeal X server nonce plaintext browserHalf b =
     (if \<not> validate b then Inl SealBadBinding
      else if length browserHalf \<noteq> SplitHalfLen \<or> browserHalf = zero_half then Inl ErrOpen
      else Inr (splitPrefix @ server @ aeadSeal X nonce (splitIKM server browserHalf) ''split'' plaintext b))"

definition SplitOpen :: "seal_crypto \<Rightarrow> bytes \<Rightarrow> bytes \<Rightarrow> binding \<Rightarrow> seal_error + bytes" where
  "SplitOpen X blob browserHalf b =
     (if \<not> validate b then Inl SealBadBinding
      else
        (let n = length splitPrefix + SplitHalfLen in
         if length browserHalf \<noteq> SplitHalfLen \<or> length blob < n \<or> \<not> HasPrefix blob splitPrefix then Inl ErrOpen
         else if browserHalf = zero_half then Inl ErrOpen
         else aeadOpen X (splitIKM (take SplitHalfLen (drop (length splitPrefix) blob)) browserHalf) ''split'' (drop n blob) b))"

section \<open>Bindings\<close>

lemma str_bytes_inj: "str_bytes s = str_bytes t \<longleftrightarrow> s = t"
proof
  assume "str_bytes s = str_bytes t"
  moreover have "inj (\<lambda>c :: char. of_nat (of_char c) :: byte)"
  proof (rule injI)
    fix c d :: char
    assume "(of_nat (of_char c) :: byte) = of_nat (of_char d)"
    then have "take_bit 8 (of_char c :: nat) = take_bit 8 (of_char d)"
      by (simp add: word_of_nat_eq_iff)
    moreover have "(of_char c :: nat) < 256" "(of_char d :: nat) < 256" by simp_all
    ultimately show "c = d" by (simp add: take_bit_eq_mod)
  qed
  ultimately show "s = t" unfolding str_bytes_def by (metis inj_map_eq_map)
qed simp

lemma be32_of_nat:
  assumes "m < 2 ^ 32" "n < 2 ^ 32" "be32 (of_nat m) = be32 (of_nat n)"
  shows "m = n"
proof -
  have "unat (of_nat m :: 32 word) = unat (of_nat n :: 32 word)" using be32_inj [OF assms(3)] by simp
  then show ?thesis using assms(1,2) by (simp add: unat_of_nat take_bit_eq_mod unsigned_of_nat)
qed

text \<open>The binding is encoded without ambiguity, as long as its parts are shorter than 4 GiB.\<close>

definition short_binding :: "binding \<Rightarrow> bool" where
  "short_binding b \<longleftrightarrow> length (bd_pubkey b) < 2 ^ 32 \<and> length (bd_session_id b) < 2 ^ 32"

lemma Bytes_inj:
  assumes "short_binding a" "short_binding b" "Bytes a = Bytes b"
  shows "a = b"
proof -
  have l: "be32 (of_nat (length (bd_pubkey a))) = be32 (of_nat (length (bd_pubkey b)))"
    and rest: "str_bytes (bd_pubkey a) @ be32 (of_nat (length (bd_session_id a))) @ str_bytes (bd_session_id a) =
      str_bytes (bd_pubkey b) @ be32 (of_nat (length (bd_session_id b))) @ str_bytes (bd_session_id b)"
    using assms(3) by (simp_all add: Bytes_def)
  have "length (bd_pubkey a) = length (bd_pubkey b)"
    using be32_of_nat [OF _ _ l] assms(1,2) by (simp add: short_binding_def)
  with rest have "bd_pubkey a = bd_pubkey b"
    "be32 (of_nat (length (bd_session_id a))) @ str_bytes (bd_session_id a) =
     be32 (of_nat (length (bd_session_id b))) @ str_bytes (bd_session_id b)"
    by (simp_all add: str_bytes_inj)
  moreover then have "bd_session_id a = bd_session_id b" by (simp add: str_bytes_inj)
  ultimately show ?thesis by simp
qed

section \<open>Seals open again, and only where they belong\<close>

lemma aeadOpen_iff:
  assumes X: "seal_laws X" and n: "length nonce = nonce_size"
  shows "aeadOpen X ikm purpose (nonce @ c) b = Inr p \<longleftrightarrow>
    c = sx_gcm_seal X (derivedKey X ikm purpose b) nonce p (Bytes b)"
proof -
  have len: "length (sx_gcm_seal X k m q a) = length q + 16" for k m q a using X by (simp add: seal_laws_def)
  have op: "sx_gcm_open X k m c a = Some q \<longleftrightarrow> c = sx_gcm_seal X k m q a" for k m c a q
    using X by (simp add: seal_laws_def)
  show ?thesis
    using n op len by (auto simp: aeadOpen_def gcm_overhead_def)
qed

lemma aead_roundtrip:
  "seal_laws X \<Longrightarrow> length nonce = nonce_size \<Longrightarrow> aeadOpen X ikm purpose (aeadSeal X nonce ikm purpose p b) b = Inr p"
  by (simp add: aeadSeal_def aeadOpen_iff)

lemma keyfile_seal_open:
  assumes "keyfileSeal X nonce k fp p b = Inr blob"
  shows "keyfileOpen X k fp blob b' = (if validate b' then aeadOpen X k ''keyfile'' (aeadSeal X nonce k ''keyfile'' p b) b' else Inl SealBadBinding)"
  using assms by (auto simp: keyfileSeal_def keyfileOpen_def HasPrefix_def Let_def split: if_splits)

lemma split_seal_open:
  assumes "SplitSeal X server nonce p half b = Inr blob" "length server = SplitHalfLen"
  shows "SplitOpen X blob half' b' =
    (if \<not> validate b' then Inl SealBadBinding
     else if length half' \<noteq> SplitHalfLen \<or> half' = zero_half then Inl ErrOpen
     else aeadOpen X (splitIKM server half') ''split'' (aeadSeal X nonce (splitIKM server half) ''split'' p b) b')"
  using assms by (auto simp: SplitSeal_def SplitOpen_def HasPrefix_def Let_def split: if_splits)


definition toy_tag :: "bytes \<Rightarrow> bytes \<Rightarrow> bytes" where
  "toy_tag k a = take 16 (k @ a @ replicate 16 0)"

definition toy_seal_crypto :: seal_crypto where
  "toy_seal_crypto = \<lparr>sx_gcm_seal = (\<lambda>k n p a. p @ toy_tag k a),
     sx_gcm_open = (\<lambda>k n c a.
       if 16 \<le> length c \<and> drop (length c - 16) c = toy_tag k a then Some (take (length c - 16) c) else None),
     sx_hkdf = (\<lambda>ikm info. take 8 (rev info)),
     sx_transit_encrypt = (\<lambda>k p c. Some (c @ p)),
     sx_transit_decrypt = (\<lambda>k d c. if HasPrefix d c then Inr (drop (length c) d) else Inl True)\<rparr>"

lemma toy_seal_laws: "seal_laws toy_seal_crypto"
proof -
  have len: "length (toy_tag k a) = 16" for k a by (simp add: toy_tag_def)
  have split: "c = p @ t \<longleftrightarrow> 16 \<le> length c \<and> drop (length c - 16) c = t \<and> p = take (length c - 16) c"
    if "length t = 16" for c p t :: bytes
    using that by (metis append_eq_conv_conj append_take_drop_id diff_add_inverse2 le_add2 length_append)
  show ?thesis
    by (auto simp: seal_laws_def toy_seal_crypto_def HasPrefix_def len split [OF len])
qed

definition toy_binding :: "string \<Rightarrow> binding" where
  "toy_binding s = \<lparr>bd_pubkey = ''ab'', bd_session_id = s\<rparr>"


end
