(* ===== verification/Base64.thy ===== *)
theory Base64
  imports Prelude
begin

text \<open>
  \<open>base64.StdEncoding\<close> of the Go library, which every stored ciphertext goes through: encoding with
  padding, and the decoder, which skips line breaks and does not look at the bits after the last byte.
\<close>

definition b64_alphabet :: string where
  "b64_alphabet = ''ABCDEFGHIJKLMNOPQRSTUVWXYZabcdefghijklmnopqrstuvwxyz0123456789+/''"

definition b64_char :: "nat \<Rightarrow> char" where
  "b64_char n = b64_alphabet ! n"

definition b64_val :: "char \<Rightarrow> nat option" where
  "b64_val c = map_of (zip b64_alphabet [0..<64]) c"

text \<open>The four digits of three bytes, and back.\<close>

definition digit1 :: "byte \<Rightarrow> nat" where "digit1 a = unat a div 4"
definition digit2 :: "byte \<Rightarrow> byte \<Rightarrow> nat" where "digit2 a b = unat a mod 4 * 16 + unat b div 16"
definition digit3 :: "byte \<Rightarrow> byte \<Rightarrow> nat" where "digit3 b c = unat b mod 16 * 4 + unat c div 64"
definition digit4 :: "byte \<Rightarrow> nat" where "digit4 c = unat c mod 64"

definition octet1 :: "nat \<Rightarrow> nat \<Rightarrow> byte" where "octet1 w x = of_nat (w * 4 + x div 16)"
definition octet2 :: "nat \<Rightarrow> nat \<Rightarrow> byte" where "octet2 x y = of_nat (x mod 16 * 16 + y div 4)"
definition octet3 :: "nat \<Rightarrow> nat \<Rightarrow> byte" where "octet3 y z = of_nat (y mod 4 * 64 + z)"

fun b64_encode :: "bytes \<Rightarrow> string" where
  "b64_encode [] = ''''"
| "b64_encode [a] = [b64_char (digit1 a), b64_char (digit2 a 0), CHR ''='', CHR ''='']"
| "b64_encode [a, b] = [b64_char (digit1 a), b64_char (digit2 a b), b64_char (digit3 b 0), CHR ''='']"
| "b64_encode (a # b # c # rest) =
     b64_char (digit1 a) # b64_char (digit2 a b) # b64_char (digit3 b c) # b64_char (digit4 c) # b64_encode rest"

fun b64_quanta :: "string \<Rightarrow> bytes option" where
  "b64_quanta [] = Some []"
| "b64_quanta (p # q # r # s # rest) =
     (case (b64_val p, b64_val q) of
        (Some w, Some x) \<Rightarrow>
          if r = CHR ''='' then (if s = CHR ''='' \<and> rest = [] then Some [octet1 w x] else None)
          else (case b64_val r of
             None \<Rightarrow> None
           | Some y \<Rightarrow>
               if s = CHR ''='' then (if rest = [] then Some [octet1 w x, octet2 x y] else None)
               else (case (b64_val s, b64_quanta rest) of
                  (Some z, Some bs) \<Rightarrow> Some (octet1 w x # octet2 x y # octet3 y z # bs)
                | _ \<Rightarrow> None))
      | _ \<Rightarrow> None)"
| "b64_quanta _ = None"

definition b64_decode :: "string \<Rightarrow> bytes option" where
  "b64_decode s = b64_quanta (filter (\<lambda>c. c \<noteq> CHR 0x0A \<and> c \<noteq> CHR 0x0D) s)"

subsection \<open>Round trip\<close>

lemma b64_table: "list_all (\<lambda>n. b64_val (b64_char n) = Some n \<and> b64_char n \<noteq> CHR ''='' \<and>
    b64_char n \<noteq> CHR 0x0A \<and> b64_char n \<noteq> CHR 0x0D) [0..<64]"
  by code_simp

lemma b64_char [simp]:
  assumes "n < 64"
  shows "b64_val (b64_char n) = Some n" "b64_char n \<noteq> CHR ''=''" "b64_char n \<noteq> CHR 0x0A" "b64_char n \<noteq> CHR 0x0D"
  using b64_table assms by (auto simp: list_all_iff)

lemma byte_less: "unat (a :: byte) < 256"
  using unsigned_less [of a, where ?'a = nat] by simp

lemma digits_less [simp]: "digit1 a < 64" "digit2 a b < 64" "digit3 b c < 64" "digit4 c < 64"
proof -
  have "unat a div 4 < 64" "unat b div 16 < 16" "unat c div 64 < 4"
    using byte_less [of a] byte_less [of b] byte_less [of c] by linarith+
  moreover have "unat a mod 4 < 4" "unat b mod 16 < 16" "unat c mod 64 < 64" by simp_all
  ultimately show "digit1 a < 64" "digit2 a b < 64" "digit3 b c < 64" "digit4 c < 64"
    unfolding digit1_def digit2_def digit3_def digit4_def by linarith+
qed

lemma octets_digits [simp]:
  "octet1 (digit1 a) (digit2 a b) = a" "octet2 (digit2 a b) (digit3 b c) = b" "octet3 (digit3 b c) (digit4 c) = c"
proof -
  have d: "unat b div 16 < 16" "unat c div 64 < 4" using byte_less [of b] byte_less [of c] by linarith+
  have "digit1 a * 4 + digit2 a b div 16 = unat a" using d by (simp add: digit1_def digit2_def)
  then show "octet1 (digit1 a) (digit2 a b) = a" by (simp only: octet1_def) simp
  have "digit2 a b mod 16 * 16 + digit3 b c div 4 = unat b" using d by (simp add: digit2_def digit3_def)
  then show "octet2 (digit2 a b) (digit3 b c) = b" by (simp only: octet2_def)  simp
  have "digit3 b c mod 4 * 64 + digit4 c = unat c" using d by (simp add: digit3_def digit4_def)
  then show "octet3 (digit3 b c) (digit4 c) = c" by (simp only: octet3_def) simp
qed

lemma b64_encode_no_break: "filter (\<lambda>c. c \<noteq> CHR 0x0A \<and> c \<noteq> CHR 0x0D) (b64_encode bs) = b64_encode bs"
  by (induction bs rule: b64_encode.induct) simp_all

lemma b64_quanta_encode: "b64_quanta (b64_encode bs) = Some bs"
  by (induction bs rule: b64_encode.induct) simp_all

lemma b64_decode_encode [simp]: "b64_decode (b64_encode bs) = Some bs"
  by (simp add: b64_decode_def b64_encode_no_break b64_quanta_encode)

end
