(* ===== verification/KeyCrypto.thy ===== *)
theory KeyCrypto
  imports Seal Base64
begin

text \<open>
  Encryption of private keys at rest (\<open>internal/crypto\<close>): under the server's key (\<open>enc:\<close>), under a
  key derived from the user's password (\<open>pbk:\<close>) and by Vault transit with the user's token
  (\<open>vault:\<close>); the derivation of platform keys; recovery phrases.

  AES-GCM, PBKDF2, HKDF, Vault and BIP-39 are parameters; nonces and salts are arguments. The laws say
  that AES-GCM opens exactly what it sealed under the same key (as in \<open>Seal\<close>), and that Vault decrypts
  what it encrypted for the same token and key, into a text with its prefix.
\<close>

record key_crypto =
  kc_gcm :: seal_crypto
  kc_pbkdf2 :: "bytes \<Rightarrow> bytes \<Rightarrow> int \<Rightarrow> nat \<Rightarrow> bytes"
  kc_hkdf :: "bytes \<Rightarrow> bytes \<Rightarrow> bytes \<Rightarrow> nat \<Rightarrow> bytes option"
  kc_transit_encrypt :: "string \<Rightarrow> string \<Rightarrow> string \<Rightarrow> string option"
  kc_transit_decrypt :: "string \<Rightarrow> string \<Rightarrow> string \<Rightarrow> string option"
  kc_transit_rewrap :: "string \<Rightarrow> string \<Rightarrow> string \<Rightarrow> string option"

datatype crypto_error =
    ErrInvalidKey | ErrInvalidCiphertext | ErrDecryptionFailed | ErrEmptyPassphrase | ErrRandom | ErrTransit
  | ErrInvalidSeed | ErrInvalidPhrase

definition bytes_str :: "bytes \<Rightarrow> string" where
  "bytes_str bs = map (\<lambda>b. char_of (unat b)) bs"

definition has_prefix :: "string \<Rightarrow> string \<Rightarrow> bool" where
  "has_prefix p s \<longleftrightarrow> take (length p) s = p"

definition key_crypto_laws :: "key_crypto \<Rightarrow> bool" where
  "key_crypto_laws K \<longleftrightarrow>
     (\<forall>k n c a p. sx_gcm_open (kc_gcm K) k n c a = Some p \<longleftrightarrow> c = sx_gcm_seal (kc_gcm K) k n p a) \<and>
     (\<forall>t k p c. kc_transit_encrypt K t k p = Some c \<longrightarrow>
        kc_transit_decrypt K t k c = Some p \<and> has_prefix ''vault:'' c)"

definition TrimPrefix :: "string \<Rightarrow> string \<Rightarrow> string" where
  "TrimPrefix s p = (if has_prefix p s then drop (length p) s else s)"

section \<open>Telling the methods apart\<close>

definition IsEncrypted :: "string \<Rightarrow> bool" where
  "IsEncrypted v \<longleftrightarrow> has_prefix ''enc:'' v"

definition IsVaultEncrypted :: "string \<Rightarrow> bool" where
  "IsVaultEncrypted v \<longleftrightarrow> has_prefix ''vault:'' v"

definition IsPassphraseEncrypted :: "string \<Rightarrow> bool" where
  "IsPassphraseEncrypted v \<longleftrightarrow> has_prefix ''pbk:'' v"

datatype encryption_method = EncryptionMethodLocal | EncryptionMethodVault | EncryptionMethodPassphrase

fun method_name :: "encryption_method \<Rightarrow> string" where
  "method_name EncryptionMethodLocal = ''local''"
| "method_name EncryptionMethodVault = ''vault''"
| "method_name EncryptionMethodPassphrase = ''passphrase''"

definition UserHeld :: "encryption_method \<Rightarrow> bool" where
  "UserHeld m \<longleftrightarrow> m = EncryptionMethodVault \<or> m = EncryptionMethodPassphrase"

definition DetectEncryptionMethod :: "string \<Rightarrow> encryption_method" where
  "DetectEncryptionMethod c =
     (if IsVaultEncrypted c then EncryptionMethodVault
      else if IsPassphraseEncrypted c then EncryptionMethodPassphrase
      else if IsEncrypted c then EncryptionMethodLocal
      else EncryptionMethodLocal)"

section \<open>The server's key\<close>

definition NewEncryptor :: "string \<Rightarrow> crypto_error + bytes" where
  "NewEncryptor hexKey =
     (case hex_decode hexKey of
        None \<Rightarrow> Inl ErrInvalidKey
      | Some k \<Rightarrow> if length k \<noteq> 32 then Inl ErrInvalidKey else Inr k)"

definition localEncryptBytes :: "key_crypto \<Rightarrow> bytes option \<Rightarrow> bytes \<Rightarrow> bytes \<Rightarrow> crypto_error + bytes" where
  "localEncryptBytes K random key plaintext =
     (case random of
        None \<Rightarrow> Inl ErrRandom
      | Some nonce \<Rightarrow> Inr (nonce @ sx_gcm_seal (kc_gcm K) key nonce plaintext []))"

definition localDecryptBytes :: "key_crypto \<Rightarrow> bytes \<Rightarrow> bytes \<Rightarrow> crypto_error + bytes" where
  "localDecryptBytes K key ciphertext =
     (if length ciphertext < nonce_size then Inl ErrInvalidCiphertext
      else or_err ErrDecryptionFailed
             (sx_gcm_open (kc_gcm K) key (take nonce_size ciphertext) (drop nonce_size ciphertext) []))"

definition localEncrypt :: "key_crypto \<Rightarrow> bytes option \<Rightarrow> bytes \<Rightarrow> string \<Rightarrow> crypto_error + string" where
  "localEncrypt K random key plaintext =
     (case random of
        None \<Rightarrow> Inl ErrRandom
      | Some nonce \<Rightarrow>
          Inr (''enc:'' @ b64_encode (nonce @ sx_gcm_seal (kc_gcm K) key nonce (str_bytes plaintext) [])))"

definition localDecrypt :: "key_crypto \<Rightarrow> bytes \<Rightarrow> string \<Rightarrow> crypto_error + string" where
  "localDecrypt K key ciphertext =
     (case b64_decode (TrimPrefix ciphertext ''enc:'') of
        None \<Rightarrow> Inl ErrInvalidCiphertext
      | Some blob \<Rightarrow>
          if length blob < nonce_size then Inl ErrInvalidCiphertext
          else (case sx_gcm_open (kc_gcm K) key (take nonce_size blob) (drop nonce_size blob) [] of
                  None \<Rightarrow> Inl ErrDecryptionFailed | Some plaintext \<Rightarrow> Inr (bytes_str plaintext)))"

section \<open>The user's password\<close>

definition pbkdf2SaltLen :: nat where "pbkdf2SaltLen = 16"
definition pbkdf2KeyLen :: nat where "pbkdf2KeyLen = 32"
definition DefaultPBKDF2Iterations :: int where "DefaultPBKDF2Iterations = 600000"

definition NewPassphraseEncryptor :: "string \<Rightarrow> crypto_error + string" where
  "NewPassphraseEncryptor passphrase = (if passphrase = '''' then Inl ErrEmptyPassphrase else Inr passphrase)"

definition deriveKEK :: "key_crypto \<Rightarrow> string \<Rightarrow> bytes \<Rightarrow> bytes" where
  "deriveKEK K passphrase salt = kc_pbkdf2 K (str_bytes passphrase) salt DefaultPBKDF2Iterations pbkdf2KeyLen"

text \<open>The random bytes are the salt and the nonce.\<close>

definition passEncryptBytes :: "key_crypto \<Rightarrow> (bytes \<times> bytes) option \<Rightarrow> string \<Rightarrow> bytes \<Rightarrow> crypto_error + bytes" where
  "passEncryptBytes K random p plaintext =
     (case random of
        None \<Rightarrow> Inl ErrRandom
      | Some (salt, nonce) \<Rightarrow> Inr (salt @ nonce @ sx_gcm_seal (kc_gcm K) (deriveKEK K p salt) nonce plaintext []))"

definition passDecryptBytes :: "key_crypto \<Rightarrow> string \<Rightarrow> bytes \<Rightarrow> crypto_error + bytes" where
  "passDecryptBytes K p ciphertext =
     (if length ciphertext < pbkdf2SaltLen then Inl ErrInvalidCiphertext
      else
        (let salt = take pbkdf2SaltLen ciphertext; rest = drop pbkdf2SaltLen ciphertext in
         if length rest < nonce_size then Inl ErrInvalidCiphertext
         else or_err ErrInvalidCiphertext
                (sx_gcm_open (kc_gcm K) (deriveKEK K p salt) (take nonce_size rest) (drop nonce_size rest) [])))"

definition passEncrypt :: "key_crypto \<Rightarrow> (bytes \<times> bytes) option \<Rightarrow> string \<Rightarrow> string \<Rightarrow> crypto_error + string" where
  "passEncrypt K random p plaintext =
     (case passEncryptBytes K random p (str_bytes plaintext) of
        Inl e \<Rightarrow> Inl e | Inr raw \<Rightarrow> Inr (''pbk:'' @ b64_encode raw))"

definition passDecrypt :: "key_crypto \<Rightarrow> string \<Rightarrow> string \<Rightarrow> crypto_error + string" where
  "passDecrypt K p ciphertext =
     (case b64_decode (TrimPrefix ciphertext ''pbk:'') of
        None \<Rightarrow> Inl ErrInvalidCiphertext
      | Some raw \<Rightarrow> (case passDecryptBytes K p raw of Inl e \<Rightarrow> Inl e | Inr pt \<Rightarrow> Inr (bytes_str pt)))"

definition ReWrap :: "key_crypto \<Rightarrow> (bytes \<times> bytes) option \<Rightarrow> string \<Rightarrow> string \<Rightarrow> string \<Rightarrow> crypto_error + string" where
  "ReWrap K random oldPassphrase newPassphrase ciphertext =
     rbind (NewPassphraseEncryptor oldPassphrase) (\<lambda>oldEnc.
     rbind (NewPassphraseEncryptor newPassphrase) (\<lambda>newEnc.
     rbind (passDecrypt K oldEnc ciphertext) (\<lambda>plaintext. passEncrypt K random newEnc plaintext)))"

section \<open>Vault transit\<close>

record vault_encryptor =
  ve_user_id :: string
  ve_token :: string

definition UserTransitKeyName :: "string \<Rightarrow> string" where
  "UserTransitKeyName userID = ''cloistr-user-'' @ userID"

definition vaultEncrypt :: "key_crypto \<Rightarrow> vault_encryptor \<Rightarrow> string \<Rightarrow> crypto_error + string" where
  "vaultEncrypt K v plaintext =
     or_err ErrTransit (kc_transit_encrypt K (ve_token v) (UserTransitKeyName (ve_user_id v)) (b64_encode (str_bytes plaintext)))"

definition vaultDecrypt :: "key_crypto \<Rightarrow> vault_encryptor \<Rightarrow> string \<Rightarrow> crypto_error + string" where
  "vaultDecrypt K v ciphertext =
     (case kc_transit_decrypt K (ve_token v) (UserTransitKeyName (ve_user_id v)) ciphertext of
        None \<Rightarrow> Inl ErrTransit
      | Some b64 \<Rightarrow> (case b64_decode b64 of None \<Rightarrow> Inl ErrInvalidCiphertext | Some pt \<Rightarrow> Inr (bytes_str pt)))"

definition vaultDecryptRaw :: "key_crypto \<Rightarrow> vault_encryptor \<Rightarrow> string \<Rightarrow> crypto_error + string" where
  "vaultDecryptRaw K v ciphertext =
     or_err ErrTransit (kc_transit_decrypt K (ve_token v) (UserTransitKeyName (ve_user_id v)) ciphertext)"

definition vaultRewrap :: "key_crypto \<Rightarrow> vault_encryptor \<Rightarrow> string \<Rightarrow> crypto_error + string" where
  "vaultRewrap K v ciphertext =
     or_err ErrTransit (kc_transit_rewrap K (ve_token v) (UserTransitKeyName (ve_user_id v)) ciphertext)"

definition vaultEncryptBytes :: "key_crypto \<Rightarrow> vault_encryptor \<Rightarrow> bytes \<Rightarrow> crypto_error + bytes" where
  "vaultEncryptBytes K v plaintext =
     (case kc_transit_encrypt K (ve_token v) (UserTransitKeyName (ve_user_id v)) (b64_encode plaintext) of
        None \<Rightarrow> Inl ErrTransit | Some c \<Rightarrow> Inr (str_bytes c))"

definition vaultDecryptBytes :: "key_crypto \<Rightarrow> vault_encryptor \<Rightarrow> bytes \<Rightarrow> crypto_error + bytes" where
  "vaultDecryptBytes K v ciphertext =
     (case kc_transit_decrypt K (ve_token v) (UserTransitKeyName (ve_user_id v)) (bytes_str ciphertext) of
        None \<Rightarrow> Inl ErrTransit | Some b64 \<Rightarrow> or_err ErrInvalidCiphertext (b64_decode b64))"

section \<open>Derived keys and recovery phrases\<close>

definition DeriveNostrKey :: "key_crypto \<Rightarrow> string \<Rightarrow> string \<Rightarrow> string \<Rightarrow> crypto_error + string" where
  "DeriveNostrKey K seedHex identifier ctx =
     (case hex_decode seedHex of
        None \<Rightarrow> Inl ErrInvalidSeed
      | Some seed \<Rightarrow>
          (case kc_hkdf K seed (str_bytes ctx) (str_bytes identifier) 32 of
             None \<Rightarrow> Inl ErrInvalidSeed | Some k \<Rightarrow> Inr (hex_encode k)))"

record bip39 =
  bp_mnemonic :: "bytes \<Rightarrow> string option"
  bp_valid :: "string \<Rightarrow> bool"
  bp_seed :: "string \<Rightarrow> string \<Rightarrow> bytes"

definition PhraseWordCount :: nat where "PhraseWordCount = 24"

definition GenerateRecoveryPhrase :: "bip39 \<Rightarrow> bytes option \<Rightarrow> crypto_error + string" where
  "GenerateRecoveryPhrase B entropy =
     (case entropy of None \<Rightarrow> Inl ErrRandom | Some e \<Rightarrow> or_err ErrInvalidPhrase (bp_mnemonic B e))"

text \<open>The loop of \<open>countWords\<close>, with its counter and its flag.\<close>

fun count_words :: "nat \<Rightarrow> bool \<Rightarrow> string \<Rightarrow> nat" where
  "count_words n inWord [] = (if inWord then n + 1 else n)"
| "count_words n inWord (c # cs) =
     (if c = CHR '' '' \<or> c = CHR 0x09 \<or> c = CHR 0x0A
      then count_words (if inWord then n + 1 else n) False cs
      else count_words n True cs)"

definition countWords :: "string \<Rightarrow> nat" where
  "countWords s = count_words 0 False s"

definition ValidateRecoveryPhrase :: "bip39 \<Rightarrow> string \<Rightarrow> crypto_error + unit" where
  "ValidateRecoveryPhrase B phrase =
     (if phrase = '''' then Inl ErrInvalidPhrase
      else if \<not> bp_valid B phrase then Inl ErrInvalidPhrase
      else if countWords phrase \<noteq> PhraseWordCount then Inl ErrInvalidPhrase
      else Inr ())"

definition PhraseToSeed :: "bip39 \<Rightarrow> string \<Rightarrow> string \<Rightarrow> crypto_error + bytes" where
  "PhraseToSeed B phrase passphrase =
     (case ValidateRecoveryPhrase B phrase of Inl e \<Rightarrow> Inl e | Inr _ \<Rightarrow> Inr (bp_seed B phrase passphrase))"

section \<open>Round trips\<close>

lemma bytes_str_bytes [simp]: "bytes_str (str_bytes s) = s"
proof -
  have "char_of (unat (of_nat (of_char c) :: byte)) = c" for c
    by (simp add: unat_of_nat)
  then show ?thesis by (simp add: bytes_str_def str_bytes_def comp_def map_idI)
qed

lemma has_prefix_append [simp]: "has_prefix p (p @ s)"
  by (simp add: has_prefix_def)

lemma TrimPrefix_append [simp]: "TrimPrefix (p @ s) p = s"
  by (simp add: TrimPrefix_def)

lemma prefixes_differ [simp]:
  "\<not> IsVaultEncrypted (''pbk:'' @ s)" "\<not> IsVaultEncrypted (''enc:'' @ s)" "\<not> IsPassphraseEncrypted (''enc:'' @ s)"
  "IsPassphraseEncrypted (''pbk:'' @ s)" "IsEncrypted (''enc:'' @ s)" "\<not> IsEncrypted (''pbk:'' @ s)"
  by (simp_all add: IsVaultEncrypted_def IsPassphraseEncrypted_def IsEncrypted_def has_prefix_def)

lemma gcm_opens:
  assumes "key_crypto_laws K"
  shows "sx_gcm_open (kc_gcm K) k n (sx_gcm_seal (kc_gcm K) k n p a) a = Some p"
    "sx_gcm_open (kc_gcm K) k n c a = Some p \<Longrightarrow> c = sx_gcm_seal (kc_gcm K) k n p a"
  using assms by (auto simp: key_crypto_laws_def)

lemma localDecrypt_Encrypt:
  assumes "key_crypto_laws K" "length nonce = nonce_size" "localEncrypt K (Some nonce) key plaintext = Inr c"
  shows "localDecrypt K key c = Inr plaintext \<and> DetectEncryptionMethod c = EncryptionMethodLocal"
proof -
  have "c = ''enc:'' @ b64_encode (nonce @ sx_gcm_seal (kc_gcm K) key nonce (str_bytes plaintext) [])"
    using assms(3) by (simp add: localEncrypt_def)
  then show ?thesis
    using assms(2) gcm_opens(1) [OF assms(1)] TrimPrefix_append [of "''enc:''"] prefixes_differ
    by (simp add: localDecrypt_def DetectEncryptionMethod_def del: append_Cons)
qed

lemma passDecrypt_Encrypt:
  assumes "key_crypto_laws K" "length salt = pbkdf2SaltLen" "length nonce = nonce_size"
    and "passEncrypt K (Some (salt, nonce)) p plaintext = Inr c"
  shows "passDecrypt K p c = Inr plaintext \<and> DetectEncryptionMethod c = EncryptionMethodPassphrase"
proof -
  have "c = ''pbk:'' @ b64_encode (salt @ nonce @ sx_gcm_seal (kc_gcm K) (deriveKEK K p salt) nonce (str_bytes plaintext) [])"
    using assms(4) by (simp add: passEncrypt_def passEncryptBytes_def)
  then show ?thesis
    using assms(2,3) gcm_opens(1) [OF assms(1)] TrimPrefix_append [of "''pbk:''"] prefixes_differ
    by (simp add: passDecrypt_def passDecryptBytes_def DetectEncryptionMethod_def del: append_Cons)
qed

lemma vaultDecrypt_Encrypt:
  assumes "key_crypto_laws K" "vaultEncrypt K v plaintext = Inr c"
  shows "vaultDecrypt K v c = Inr plaintext \<and> DetectEncryptionMethod c = EncryptionMethodVault"
  using assms by (auto simp: key_crypto_laws_def vaultEncrypt_def vaultDecrypt_def DetectEncryptionMethod_def
      IsVaultEncrypted_def)

end
