(* ===== verification/Stores.thy ===== *)
theory Stores
  imports Grants SessionTable
begin

text \<open>
  The other tables of the in-memory store that request handling uses
  (\<open>internal/storage/storage.go\<close>): client sessions, policies with their usage-counted rules, and
  pending approval requests. Policy rules are shared objects: a policy lists pointers and the
  rule index points to the same objects.
\<close>

subsection \<open>Client sessions\<close>

record client_session =
  se_id :: string
  se_key_id :: string
  se_client_pubkey :: string
  se_permissions :: "string list"
  se_created_at :: time
  se_expires_at :: time
  se_vault_token :: string

type_synonym session_store = "(string \<times> client_session) list"

definition CreateSession :: "client_session \<Rightarrow> session_store \<Rightarrow> session_store" where
  "CreateSession s st = AList.update (se_id s) s st"

definition GetSession :: "time \<Rightarrow> string \<Rightarrow> session_store \<Rightarrow> storage_error + client_session" where
  "GetSession now i st =
     (case map_of st i of
        None \<Rightarrow> Inl ErrSessionNotFound
      | Some s \<Rightarrow> if now > se_expires_at s then Inl ErrSessionNotFound else Inr s)"

fun GetSessionByClient :: "time \<Rightarrow> string \<Rightarrow> string \<Rightarrow> session_store \<Rightarrow> storage_error + client_session" where
  "GetSessionByClient now keyID clientPubkey [] = Inl ErrSessionNotFound"
| "GetSessionByClient now keyID clientPubkey ((i, s) # st) =
     (if se_key_id s = keyID \<and> se_client_pubkey s = clientPubkey \<and> \<not> now > se_expires_at s
      then Inr s else GetSessionByClient now keyID clientPubkey st)"

definition DeleteSession :: "string \<Rightarrow> session_store \<Rightarrow> session_store" where
  "DeleteSession i st = AList.delete i st"

definition CleanExpiredSessions :: "time \<Rightarrow> session_store \<Rightarrow> session_store" where
  "CleanExpiredSessions now st = filter (\<lambda>(i, s). \<not> now > se_expires_at s) st"

subsection \<open>Policies\<close>

record policy_rule =
  pr_id :: string
  pr_policy_id :: string
  pr_method :: string
  pr_allowed_kinds :: "int list"
  pr_max_usage :: int
  pr_current_usage :: int

record policy =
  pl_id :: string
  pl_name :: string
  pl_description :: string
  pl_rules :: "addr list"
  pl_expires_at :: "time option"
  pl_created_at :: time
  pl_created_by :: string

record policy_store =
  ps_rules :: "addr \<rightharpoonup> policy_rule"
  ps_policies :: "(string \<times> policy) list"
  ps_rule_index :: "string \<rightharpoonup> addr"

definition rule_at :: "policy_store \<Rightarrow> addr \<Rightarrow> policy_rule" where
  "rule_at st r = the (ps_rules st r)"

definition CreatePolicy :: "policy \<Rightarrow> policy_store \<Rightarrow> policy_store" where
  "CreatePolicy p st =
     st\<lparr>ps_policies := AList.update (pl_id p) p (ps_policies st),
        ps_rule_index := foldl (\<lambda>ix r. ix(pr_id (rule_at st r) \<mapsto> r)) (ps_rule_index st) (pl_rules p)\<rparr>"

definition GetPolicy :: "time \<Rightarrow> string \<Rightarrow> policy_store \<Rightarrow> storage_error + policy" where
  "GetPolicy now i st =
     (case map_of (ps_policies st) i of
        None \<Rightarrow> Inl ErrPolicyNotFound
      | Some p \<Rightarrow>
          if (case pl_expires_at p of None \<Rightarrow> False | Some t \<Rightarrow> now > t) then Inl ErrPolicyNotFound
          else Inr p)"

definition ListPolicies :: "time \<Rightarrow> policy_store \<Rightarrow> policy list" where
  "ListPolicies now st =
     filter (\<lambda>p. case pl_expires_at p of None \<Rightarrow> True | Some t \<Rightarrow> now < t) (map snd (ps_policies st))"

definition DeletePolicy :: "string \<Rightarrow> policy_store \<Rightarrow> policy_store \<times> (storage_error + unit)" where
  "DeletePolicy i st =
     (case map_of (ps_policies st) i of
        None \<Rightarrow> (st, Inl ErrPolicyNotFound)
      | Some p \<Rightarrow>
          (st\<lparr>ps_rule_index := foldl (\<lambda>ix r. ix(pr_id (rule_at st r) := None)) (ps_rule_index st) (pl_rules p),
              ps_policies := AList.delete i (ps_policies st)\<rparr>, Inr ()))"

definition IncrementRuleUsage :: "string \<Rightarrow> policy_store \<Rightarrow> policy_store \<times> (storage_error + unit)" where
  "IncrementRuleUsage ruleID st =
     (case ps_rule_index st ruleID of
        None \<Rightarrow> (st, Inl ErrPolicyNotFound)
      | Some r \<Rightarrow>
          (st\<lparr>ps_rules := (ps_rules st)(r \<mapsto> (rule_at st r)\<lparr>pr_current_usage := pr_current_usage (rule_at st r) + 1\<rparr>)\<rparr>,
           Inr ()))"

subsection \<open>Pending approval requests\<close>

record pending_request =
  pq_id :: string
  pq_key_pubkey :: string
  pq_client_pubkey :: string
  pq_method :: string
  pq_params :: "string option"
  pq_event_kind :: "int option"
  pq_expires_at :: time
  pq_created_at :: time

type_synonym pending_store = "(string \<times> pending_request) list"

definition CreatePendingRequest :: "pending_request \<Rightarrow> pending_store \<Rightarrow> pending_store" where
  "CreatePendingRequest q st = AList.update (pq_id q) q st"

definition GetPendingRequest :: "time \<Rightarrow> string \<Rightarrow> pending_store \<Rightarrow> storage_error + pending_request" where
  "GetPendingRequest now i st =
     (case map_of st i of
        None \<Rightarrow> Inl ErrRequestNotFound
      | Some q \<Rightarrow> if now > pq_expires_at q then Inl ErrRequestExpired else Inr q)"

definition ListPendingRequests :: "time \<Rightarrow> string \<Rightarrow> pending_store \<Rightarrow> pending_request list" where
  "ListPendingRequests now keyPubkey st =
     filter (\<lambda>q. pq_key_pubkey q = keyPubkey \<and> now < pq_expires_at q) (map snd st)"

definition DeletePendingRequest :: "string \<Rightarrow> pending_store \<Rightarrow> pending_store" where
  "DeletePendingRequest i st = AList.delete i st"

definition CleanExpiredRequests :: "time \<Rightarrow> pending_store \<Rightarrow> pending_store" where
  "CleanExpiredRequests now st = filter (\<lambda>(i, q). \<not> now > pq_expires_at q) st"

text \<open>Both tables are session tables in the sense of the shared contract, given distinct ids.\<close>

lemma map_of_filter_value:
  "distinct (map fst st) \<Longrightarrow> map_of (filter (\<lambda>(i, v). \<not> P v) st) = sweep P (map_of st)"
proof (induction st)
  case Nil
  show ?case by (auto simp: sweep_def)
next
  case (Cons e st)
  obtain i v where e: "e = (i, v)" by (cases e)
  have i: "map_of st i = None" using Cons.prems by (simp add: e map_of_eq_None_iff)
  show ?case
  proof
    fix k show "map_of (filter (\<lambda>(i, v). \<not> P v) (e # st)) k = sweep P (map_of (e # st)) k"
      using Cons i by (auto simp: e sweep_def)
  qed
qed

subsection \<open>Facts\<close>

lemma GetSession_live: "GetSession now i st = Inr s \<longleftrightarrow> map_of st i = Some s \<and> now \<le> se_expires_at s"
  by (auto simp: GetSession_def split: option.splits)

lemma GetSessionByClient_sound:
  "GetSessionByClient now k c st = Inr s \<Longrightarrow>
     se_key_id s = k \<and> se_client_pubkey s = c \<and> now \<le> se_expires_at s \<and> (\<exists>i. (i, s) \<in> set st)"
  by (induction st) (auto split: if_splits)

lemma GetSessionByClient_complete:
  "(i, s) \<in> set st \<Longrightarrow> now \<le> se_expires_at s \<Longrightarrow> ok (GetSessionByClient now (se_key_id s) (se_client_pubkey s) st)"
  by (induction st) auto

lemma CleanExpiredSessions_sweep:
  "distinct (map fst st) \<Longrightarrow> map_of (CleanExpiredSessions now st) = sweep (\<lambda>s. now > se_expires_at s) (map_of st)"
  unfolding CleanExpiredSessions_def by (rule map_of_filter_value)

lemma CleanExpiredRequests_sweep:
  "distinct (map fst st) \<Longrightarrow> map_of (CleanExpiredRequests now st) = sweep (\<lambda>q. now > pq_expires_at q) (map_of st)"
  unfolding CleanExpiredRequests_def by (rule map_of_filter_value)

lemma clean_keeps_pending:
  assumes "distinct (map fst st)" "now \<le> now'"
  shows "GetPendingRequest now' i (CleanExpiredRequests now st) = Inr q \<longleftrightarrow> GetPendingRequest now' i st = Inr q"
  using assms by (auto simp: GetPendingRequest_def CleanExpiredRequests_sweep sweep_def split: option.splits)

end
