(* ===== verification/Nip46.thy ===== *)
theory Nip46
  imports Users Stores
begin

text \<open>
  \<open>internal/signer/signer.go\<close>: what happens to a NIP-46 request. The dispatcher finds the client's
  grant, \<open>processRequest\<close> decides whether to answer, refuse or ask for approval, and
  \<open>handleRequest\<close> carries the request out, counts policy usage and writes the audit records.

  Parameters (the record \<open>world\<close>): the go-nostr event codec and signature, the NIP-04 and NIP-44
  primitives, \<open>net/url\<close>, the network exchanges with an upstream signer, with the FROST coordinator
  and with the user's device, and the ECDH tag. Response delays (jitter), metrics and log lines
  have no model. Public keys shorter than the prefixes that log lines cut off do not occur.
\<close>

record nostr_event =
  ev_id :: string
  ev_pubkey :: string
  ev_created_at :: int
  ev_kind :: int
  ev_tags :: "string list list"
  ev_content :: string
  ev_sig :: string

record nip46_request =
  rq_id :: string
  rq_method :: string
  rq_params :: "string list"

datatype response = Result string string | Error string string

datatype nip_error =
    MissingEvent | InvalidEvent | KindNotAllowed int | KindRefused int | SigningFailed | MarshalFailed
  | AtIndex nat nip_error | MissingParams | SharedSecretFailed | EncryptionFailed | DecryptionFailed
  | DisposableNip04 | UsageLimitExceeded string | UnknownMethod string | NotForInternalProxy string
  | NotForFrost string | NoCoordinator | BadBunkerURI | UpstreamFailed string | FrostFailed string
  | EcdhTagFailed string

record world =
  w_parse_event :: "string \<Rightarrow> nostr_event option"         \<comment> \<open>\<open>json.Unmarshal\<close> into a \<open>nostr.Event\<close>\<close>
  w_render_event :: "nostr_event \<Rightarrow> string option"         \<comment> \<open>\<open>json.Marshal\<close>\<close>
  w_render_list :: "string list \<Rightarrow> string option"
  w_parse_ref :: "string \<Rightarrow> (string \<times> int) option"         \<comment> \<open>the id and kind of a signed event\<close>
  w_parse_refs :: "string \<Rightarrow> (string \<times> int) list option"
  w_parse_kind :: "string \<Rightarrow> int option"
  w_sign :: "string \<Rightarrow> nostr_event \<Rightarrow> nostr_event option"     \<comment> \<open>\<open>event.Sign(privateKey)\<close>\<close>
  w_event_hash :: "nostr_event \<Rightarrow> string"                 \<comment> \<open>\<open>event.GetID()\<close>, 64 hex digits\<close>
  w_nip04_secret :: "string \<Rightarrow> string \<Rightarrow> bytes option"
  w_nip04_encrypt :: "string \<Rightarrow> bytes \<Rightarrow> string option"
  w_nip04_decrypt :: "string \<Rightarrow> bytes \<Rightarrow> string option"
  w_nip44_key :: "string \<Rightarrow> string \<Rightarrow> bytes option"
  w_nip44_encrypt :: "string \<Rightarrow> bytes \<Rightarrow> string option"
  w_nip44_decrypt :: "string \<Rightarrow> bytes \<Rightarrow> string option"
  w_url_host :: "string \<Rightarrow> string option"                 \<comment> \<open>\<open>url.Parse\<close>, the \<open>Host\<close>\<close>
  w_upstream :: "string \<Rightarrow> string \<Rightarrow> string \<Rightarrow> string list \<Rightarrow> string + string"
  w_upstream_pubkey :: "string \<Rightarrow> string \<Rightarrow> string + string"
  w_frost_sign :: "string \<Rightarrow> bytes \<Rightarrow> string + string"       \<comment> \<open>\<open>frostCoordinator.SignEvent\<close>\<close>
  w_frost_available :: bool
  w_user_cosign :: "key \<Rightarrow> string \<Rightarrow> nostr_event \<Rightarrow> string + string"
  w_ecdh_tag :: "string \<Rightarrow> string list \<Rightarrow> string + string"
  w_relays_json :: string

record audit_entry =
  ae_completed :: bool
  ae_client :: string
  ae_key :: string
  ae_method :: string
  ae_kind :: int
  ae_event_id :: "string option"
  ae_reason :: "nip_error option"
  ae_upstream :: "string option"
  ae_delegate :: string

record signer =
  sn_keys :: "(string \<times> string) list"
  sn_proxy_keys :: "string \<rightharpoonup> string"
  sn_frost_keys :: "string \<rightharpoonup> string"
  sn_key_relays :: "string \<rightharpoonup> string list"
  sn_seen :: "(string \<times> time) list"
  sn_store :: grant_store
  sn_policies :: policy_store
  sn_sessions :: session_store
  sn_users :: user_store
  sn_secrets :: bunker_store
  sn_audit :: "audit_entry list"
  sn_audit_logger :: bool                                \<comment> \<open>an audit logger is configured\<close>
  sn_require_approval :: bool                            \<comment> \<open>\<open>config.Auth.RequireApproval\<close>\<close>

subsection \<open>Small decisions\<close>

definition normalizePubkey :: "string \<Rightarrow> string" where
  "normalizePubkey pubkey =
     (if length pubkey = 66 \<and> (take 2 pubkey = ''02'' \<or> take 2 pubkey = ''03'')
      then drop 2 pubkey else pubkey)"

definition isMethodAllowed :: "permission \<Rightarrow> string \<Rightarrow> bool" where
  "isMethodAllowed perm method \<longleftrightarrow>
     list_ex (\<lambda>m. m = method \<or> m = ''*'' \<or> m = ''all'') (pm_methods perm)"

definition key_of :: "string \<Rightarrow> grant_store \<Rightarrow> key option" where
  "key_of pubkey st = (case GetKeyByPubkey pubkey st of Inl _ \<Rightarrow> None | Inr r \<Rightarrow> Some (deref st r))"

definition shouldRequireApproval :: "signer \<Rightarrow> string \<Rightarrow> permission option \<Rightarrow> bool" where
  "shouldRequireApproval sn targetPubkey perm =
     (case perm of
        Some p \<Rightarrow> pm_require_approval p = Some True
      | None \<Rightarrow>
          (case key_of targetPubkey (sn_store sn) of
             Some k \<Rightarrow> if k_require_approval k then True else sn_require_approval sn
           | None \<Rightarrow> sn_require_approval sn))"

text \<open>The first rule that names the method (or all methods) decides.\<close>

fun first_rule :: "policy_store \<Rightarrow> string \<Rightarrow> addr list \<Rightarrow> policy_rule option" where
  "first_rule st method [] = None"
| "first_rule st method (r # rs) =
     (if pr_method (rule_at st r) = method \<or> pr_method (rule_at st r) = ''*''
      then Some (rule_at st r) else first_rule st method rs)"

definition checkPolicyUsage :: "time \<Rightarrow> policy_store \<Rightarrow> string \<Rightarrow> string \<Rightarrow> bool \<times> string" where
  "checkPolicyUsage now st policyID method =
     (case GetPolicy now policyID st of
        Inl _ \<Rightarrow> (True, '''')
      | Inr policy \<Rightarrow>
          (case first_rule st method (pl_rules policy) of
             None \<Rightarrow> (True, '''')
           | Some rule \<Rightarrow>
               if pr_max_usage rule > 0 \<and> pr_current_usage rule \<ge> pr_max_usage rule then (False, '''')
               else (True, pr_id rule)))"

definition shouldAuditMethod :: "string \<Rightarrow> bool" where
  "shouldAuditMethod method \<longleftrightarrow>
     method \<in> {''sign_event'', ''batch_sign'', ''nip04_encrypt'', ''nip04_decrypt'',
               ''nip44_encrypt'', ''nip44_decrypt'', ''cloistr_ecdh_tag''}"

definition shouldProxyMethod :: "string \<Rightarrow> bool" where
  "shouldProxyMethod method \<longleftrightarrow>
     method \<in> {''sign_event'', ''nip04_encrypt'', ''nip04_decrypt'', ''nip44_encrypt'', ''nip44_decrypt''}"

definition signedEventsInResult :: "world \<Rightarrow> string \<Rightarrow> string \<Rightarrow> (string \<times> int) list" where
  "signedEventsInResult W method result =
     (if method = ''sign_event'' then
        (case w_parse_ref W result of
           None \<Rightarrow> [] | Some (i, k) \<Rightarrow> if i = '''' then [] else [(i, k)])
      else if method = ''batch_sign'' then
        (case w_parse_refs W result of None \<Rightarrow> [] | Some evs \<Rightarrow> evs)
      else [])"

definition extractEventKind :: "world \<Rightarrow> nip46_request \<Rightarrow> int" where
  "extractEventKind W req =
     (if rq_method req \<noteq> ''sign_event'' \<or> length (rq_params req) < 1 then 0
      else case w_parse_kind W (hd (rq_params req)) of None \<Rightarrow> 0 | Some k \<Rightarrow> k)"

text \<open>\<open>bunker.Parse\<close> (\<open>internal/bunker\<close>), as far as the signer uses it: the signer's public key.\<close>

definition bunker_signer :: "world \<Rightarrow> string \<Rightarrow> string option" where
  "bunker_signer W uri =
     (if take 9 uri \<noteq> ''bunker://'' then None
      else case w_url_host W uri of
        None \<Rightarrow> None
      | Some pubkey \<Rightarrow>
          if length pubkey \<noteq> 64 \<or> hex_decode pubkey = None then None else Some pubkey)"

subsection \<open>Signing\<close>

definition disposableKindRefusal :: "int \<Rightarrow> bool" where
  "disposableKindRefusal kind \<longleftrightarrow> kind \<in> {0, 3, 10002, 4}"

definition keyIsDisposable :: "signer \<Rightarrow> string \<Rightarrow> bool" where
  "keyIsDisposable sn targetPubkey =
     (case key_of targetPubkey (sn_store sn) of None \<Rightarrow> False | Some k \<Rightarrow> k_disposable_mode k)"

definition stripFingerprintTags :: "nostr_event \<Rightarrow> nostr_event" where
  "stripFingerprintTags ev =
     ev\<lparr>ev_tags := filter (\<lambda>tag. \<not> (length tag > 0 \<and> hd tag = ''client'')) (ev_tags ev)\<rparr>"

definition kind_allowed :: "permission \<Rightarrow> int \<Rightarrow> bool" where
  \<comment> \<open>the allowed-kinds loop of \<open>handleSignEvent\<close> and \<open>handleBatchSign\<close>\<close>
  "kind_allowed perm kind \<longleftrightarrow> pm_allowed_kinds perm = [] \<or> list_ex (\<lambda>k. k = kind) (pm_allowed_kinds perm)"

definition lift_err :: "('a \<Rightarrow> 'e) \<Rightarrow> 'a + 'b \<Rightarrow> 'e + 'b" where
  "lift_err f r = (case r of Inl e \<Rightarrow> Inl (f e) | Inr x \<Rightarrow> Inr x)"

definition frost_user_key :: "signer \<Rightarrow> string \<Rightarrow> key option" where
  \<comment> \<open>the key, when it is stored and of type FROST-user\<close>
  "frost_user_key sn targetPubkey =
     (case key_of targetPubkey (sn_store sn) of
        None \<Rightarrow> None
      | Some key \<Rightarrow> if k_key_type key = KeyTypeFrostUser then Some key else None)"

definition handleSignEvent ::
    "world \<Rightarrow> signer \<Rightarrow> string \<Rightarrow> string \<Rightarrow> string \<Rightarrow> string list \<Rightarrow> permission \<Rightarrow> nip_error + string" where
  "handleSignEvent W sn targetPubkey privateKey clientPubkey params perm =
     (if length params < 1 then Inl MissingEvent
      else case w_parse_event W (hd params) of
        None \<Rightarrow> Inl InvalidEvent
      | Some event \<Rightarrow>
          if \<not> kind_allowed perm (ev_kind event) then Inl (KindNotAllowed (ev_kind event))
          else
            (let disposable = keyIsDisposable sn targetPubkey in
             if disposable \<and> disposableKindRefusal (ev_kind event) then Inl (KindRefused (ev_kind event))
             else
               (let event = (if disposable then stripFingerprintTags event else event) in
                case frost_user_key sn targetPubkey of
                  Some key \<Rightarrow> lift_err FrostFailed (w_user_cosign W key clientPubkey event)
                | None \<Rightarrow>
                    (case w_sign W privateKey (event\<lparr>ev_pubkey := targetPubkey\<rparr>) of
                       None \<Rightarrow> Inl SigningFailed
                     | Some sev \<Rightarrow> or_err MarshalFailed (w_render_event W sev)))))"

fun batch_loop ::
    "world \<Rightarrow> bool \<Rightarrow> string \<Rightarrow> string \<Rightarrow> permission \<Rightarrow> nat \<Rightarrow> string list \<Rightarrow> nip_error + string list" where
  "batch_loop W disposable targetPubkey privateKey perm i [] = Inr []"
| "batch_loop W disposable targetPubkey privateKey perm i (param # params) =
     (case w_parse_event W param of
        None \<Rightarrow> Inl (AtIndex i InvalidEvent)
      | Some event \<Rightarrow>
          if \<not> kind_allowed perm (ev_kind event) then Inl (AtIndex i (KindNotAllowed (ev_kind event)))
          else if disposable \<and> disposableKindRefusal (ev_kind event)
          then Inl (AtIndex i (KindRefused (ev_kind event)))
          else
            (let event = (if disposable then stripFingerprintTags event else event) in
             case w_sign W privateKey (event\<lparr>ev_pubkey := targetPubkey\<rparr>) of
               None \<Rightarrow> Inl (AtIndex i SigningFailed)
             | Some sev \<Rightarrow>
                 (case w_render_event W sev of
                    None \<Rightarrow> Inl (AtIndex i MarshalFailed)
                  | Some text \<Rightarrow>
                      (case batch_loop W disposable targetPubkey privateKey perm (Suc i) params of
                         Inl e \<Rightarrow> Inl e
                       | Inr rest \<Rightarrow> Inr (text # rest)))))"

definition handleBatchSign ::
    "world \<Rightarrow> signer \<Rightarrow> string \<Rightarrow> string \<Rightarrow> string list \<Rightarrow> permission \<Rightarrow> nip_error + string" where
  "handleBatchSign W sn targetPubkey privateKey params perm =
     (if length params < 1 then Inl MissingEvent
      else case batch_loop W (keyIsDisposable sn targetPubkey) targetPubkey privateKey perm 0 params of
        Inl e \<Rightarrow> Inl e
      | Inr texts \<Rightarrow> or_err MarshalFailed (w_render_list W texts))"

definition handleNIP04Encrypt :: "world \<Rightarrow> signer \<Rightarrow> string \<Rightarrow> string \<Rightarrow> string list \<Rightarrow> nip_error + string" where
  "handleNIP04Encrypt W sn targetPubkey privateKey params =
     (if length params < 2 then Inl MissingParams
      else if keyIsDisposable sn targetPubkey then Inl DisposableNip04
      else case w_nip04_secret W (params ! 0) privateKey of
        None \<Rightarrow> Inl SharedSecretFailed
      | Some secret \<Rightarrow> or_err EncryptionFailed (w_nip04_encrypt W (params ! 1) secret))"

definition handleNIP04Decrypt :: "world \<Rightarrow> string \<Rightarrow> string list \<Rightarrow> nip_error + string" where
  "handleNIP04Decrypt W privateKey params =
     (if length params < 2 then Inl MissingParams
      else case w_nip04_secret W (params ! 0) privateKey of
        None \<Rightarrow> Inl SharedSecretFailed
      | Some secret \<Rightarrow> or_err DecryptionFailed (w_nip04_decrypt W (params ! 1) secret))"

definition handleNIP44Encrypt :: "world \<Rightarrow> string \<Rightarrow> string list \<Rightarrow> nip_error + string" where
  "handleNIP44Encrypt W privateKey params =
     (if length params < 2 then Inl MissingParams
      else case w_nip44_key W (normalizePubkey (params ! 0)) privateKey of
        None \<Rightarrow> Inl SharedSecretFailed
      | Some k \<Rightarrow> or_err EncryptionFailed (w_nip44_encrypt W (params ! 1) k))"

definition handleNIP44Decrypt :: "world \<Rightarrow> string \<Rightarrow> string list \<Rightarrow> nip_error + string" where
  "handleNIP44Decrypt W privateKey params =
     (if length params < 2 then Inl MissingParams
      else case w_nip44_key W (normalizePubkey (params ! 0)) privateKey of
        None \<Rightarrow> Inl SharedSecretFailed
      | Some k \<Rightarrow> or_err DecryptionFailed (w_nip44_decrypt W (params ! 1) k))"

subsection \<open>Proxy keys\<close>

definition virtual_perm :: "string \<Rightarrow> string \<Rightarrow> string \<Rightarrow> permission" where
  \<comment> \<open>the permission \<open>handleInternalProxy\<close> makes for the proxy key\<close>
  "virtual_perm upstreamPubkey proxyPubkey originalClient =
     \<lparr>pm_key_id = upstreamPubkey, pm_user_pubkey = proxyPubkey, pm_slot = '''',
      pm_methods = [''sign_event'', ''nip04_encrypt'', ''nip04_decrypt'', ''nip44_encrypt'',
                    ''nip44_decrypt'', ''cloistr_ecdh_tag'', ''get_public_key''],
      pm_allowed_kinds = [], pm_expires_at = None, pm_policy_id = '''', pm_require_approval = None,
      pm_delegate_pubkey = originalClient, pm_app_name = '''', pm_app_url = '''', pm_app_image = '''',
      pm_custom_name = '''', pm_created_at = None, pm_last_used_at = None, pm_revoked_at = None,
      pm_revoked_by = '''', pm_sliding_expiry = False\<rparr>"

definition handleInternalProxy ::
    "world \<Rightarrow> signer \<Rightarrow> string \<Rightarrow> string \<Rightarrow> string \<Rightarrow> nip46_request \<Rightarrow> string \<Rightarrow> nip_error + string" where
  "handleInternalProxy W sn upstreamPubkey upstreamPrivkey proxyPubkey req originalClient =
     (let perm = virtual_perm upstreamPubkey proxyPubkey originalClient; m = rq_method req in
      if m = ''sign_event'' then handleSignEvent W sn upstreamPubkey upstreamPrivkey '''' (rq_params req) perm
      else if m = ''nip04_encrypt'' then handleNIP04Encrypt W sn upstreamPubkey upstreamPrivkey (rq_params req)
      else if m = ''nip04_decrypt'' then handleNIP04Decrypt W upstreamPrivkey (rq_params req)
      else if m = ''nip44_encrypt'' then handleNIP44Encrypt W upstreamPrivkey (rq_params req)
      else if m = ''nip44_decrypt'' then handleNIP44Decrypt W upstreamPrivkey (rq_params req)
      else if m = ''get_public_key'' then Inr upstreamPubkey
      else Inl (NotForInternalProxy m))"

definition handleFrostSignEvent ::
    "world \<Rightarrow> string \<Rightarrow> string \<Rightarrow> string list \<Rightarrow> nip_error + string" where
  "handleFrostSignEvent W targetPubkey frostKeyID params =
     (if length params < 1 then Inl MissingEvent
      else case w_parse_event W (hd params) of
        None \<Rightarrow> Inl InvalidEvent
      | Some event \<Rightarrow>
          (let event = event\<lparr>ev_pubkey := targetPubkey\<rparr>; eventHash = w_event_hash W event in
           case hex_decode eventHash of
             None \<Rightarrow> Inl InvalidEvent
           | Some hashBytes \<Rightarrow>
               (case w_frost_sign W frostKeyID hashBytes of
                  Inl e \<Rightarrow> Inl (FrostFailed e)
                | Inr signature \<Rightarrow>
                    or_err MarshalFailed (w_render_event W (event\<lparr>ev_id := eventHash, ev_sig := signature\<rparr>)))))"

definition handleFrostProxy ::
    "world \<Rightarrow> string \<Rightarrow> string \<Rightarrow> nip46_request \<Rightarrow> nip_error + string" where
  "handleFrostProxy W upstreamPubkey frostKeyID req =
     (if \<not> w_frost_available W then Inl NoCoordinator
      else if rq_method req = ''sign_event'' then handleFrostSignEvent W upstreamPubkey frostKeyID (rq_params req)
      else if rq_method req = ''get_public_key'' then Inr upstreamPubkey
      else Inl (NotForFrost (rq_method req)))"

definition handleProxyRequest ::
    "world \<Rightarrow> signer \<Rightarrow> string \<Rightarrow> string \<Rightarrow> string \<Rightarrow> nip46_request \<Rightarrow> string \<Rightarrow> nip_error + string" where
  "handleProxyRequest W sn targetPubkey privateKey bunkerURI req clientPubkey =
     (case bunker_signer W bunkerURI of
        None \<Rightarrow> Inl BadBunkerURI
      | Some up \<Rightarrow>
          (case map_of (sn_keys sn) up of
             Some upstreamPrivkey \<Rightarrow> handleInternalProxy W sn up upstreamPrivkey targetPubkey req clientPubkey
           | None \<Rightarrow>
               (case sn_frost_keys sn up of
                  Some frostKeyID \<Rightarrow> handleFrostProxy W up frostKeyID req
                | None \<Rightarrow> lift_err UpstreamFailed (w_upstream W bunkerURI privateKey (rq_method req) (rq_params req)))))"

definition getUpstreamPubkey :: "world \<Rightarrow> signer \<Rightarrow> string \<Rightarrow> string \<Rightarrow> nip_error + string" where
  "getUpstreamPubkey W sn privateKey bunkerURI =
     (case bunker_signer W bunkerURI of
        None \<Rightarrow> Inl BadBunkerURI
      | Some up \<Rightarrow>
          if map_of (sn_keys sn) up \<noteq> None \<or> sn_frost_keys sn up \<noteq> None then Inr up
          else lift_err UpstreamFailed (w_upstream_pubkey W bunkerURI privateKey))"

subsection \<open>Carrying out a request\<close>

definition lookupVaultTokenForKey :: "time \<Rightarrow> signer \<Rightarrow> string \<Rightarrow> string" where
  "lookupVaultTokenForKey now sn targetPubkey =
     (case key_of targetPubkey (sn_store sn) of
        None \<Rightarrow> ''''
      | Some key \<Rightarrow>
          if k_owner_id key = '''' then ''''
          else (case filter (\<lambda>us. us_vault_token us \<noteq> '''' \<and> \<not> us_expires_at us < now)
                       (ListUserSessions now (k_owner_id key) (sn_users sn)) of
                  [] \<Rightarrow> ''''
                | us # _ \<Rightarrow> us_vault_token us))"

definition handleConnect ::
    "time \<Rightarrow> signer \<Rightarrow> string \<Rightarrow> string \<Rightarrow> permission \<Rightarrow> signer \<times> (nip_error + string)" where
  "handleConnect now sn targetPubkey clientPubkey perm =
     (sn\<lparr>sn_sessions := CreateSession
           \<lparr>se_id = take 8 targetPubkey @ '':'' @ take 8 clientPubkey, se_key_id = targetPubkey,
            se_client_pubkey = clientPubkey, se_permissions = pm_methods perm, se_created_at = now,
            se_expires_at = now + hours 24, se_vault_token = lookupVaultTokenForKey now sn targetPubkey\<rparr>
           (sn_sessions sn)\<rparr>, Inr ''ack'')"

text \<open>The dispatch on the method, after the usage check.\<close>

definition dispatch ::
    "world \<Rightarrow> time \<Rightarrow> signer \<Rightarrow> string \<Rightarrow> string \<Rightarrow> string \<Rightarrow> nip46_request \<Rightarrow> permission \<Rightarrow>
     signer \<times> (nip_error + string)" where
  "dispatch W now sn targetPubkey privateKey clientPubkey req perm =
     (let proxy = sn_proxy_keys sn targetPubkey; m = rq_method req; params = rq_params req in
      case (if shouldProxyMethod m then proxy else None) of
        Some bunkerURI \<Rightarrow> (sn, handleProxyRequest W sn targetPubkey privateKey bunkerURI req clientPubkey)
      | None \<Rightarrow>
          if m = ''connect'' then handleConnect now sn targetPubkey clientPubkey perm
          else (sn,
            if m = ''ping'' then Inr ''pong''
            else if m = ''get_public_key'' then
              (case proxy of Some bunkerURI \<Rightarrow> getUpstreamPubkey W sn privateKey bunkerURI
               | None \<Rightarrow> Inr targetPubkey)
            else if m = ''get_relays'' then Inr (w_relays_json W)
            else if m = ''sign_event'' then handleSignEvent W sn targetPubkey privateKey clientPubkey params perm
            else if m = ''batch_sign'' then handleBatchSign W sn targetPubkey privateKey params perm
            else if m = ''nip04_encrypt'' then handleNIP04Encrypt W sn targetPubkey privateKey params
            else if m = ''nip04_decrypt'' then handleNIP04Decrypt W privateKey params
            else if m = ''nip44_encrypt'' then handleNIP44Encrypt W privateKey params
            else if m = ''nip44_decrypt'' then handleNIP44Decrypt W privateKey params
            else if m = ''cloistr_ecdh_tag'' then lift_err EcdhTagFailed (w_ecdh_tag W privateKey params)
            else Inl (UnknownMethod m)))"

definition audit_entries ::
    "world \<Rightarrow> signer \<Rightarrow> string \<Rightarrow> string \<Rightarrow> nip46_request \<Rightarrow> permission \<Rightarrow> nip_error + string \<Rightarrow> audit_entry list" where
  "audit_entries W sn targetPubkey clientPubkey req perm res =
     (if \<not> sn_audit_logger sn \<or> \<not> shouldAuditMethod (rq_method req) then []
      else
        (let upstream = (case sn_proxy_keys sn targetPubkey of None \<Rightarrow> None | Some uri \<Rightarrow> bunker_signer W uri);
             entry = (\<lambda>done kind i reason.
               \<lparr>ae_completed = done, ae_client = clientPubkey, ae_key = targetPubkey,
                ae_method = rq_method req, ae_kind = kind, ae_event_id = i, ae_reason = reason,
                ae_upstream = upstream, ae_delegate = pm_delegate_pubkey perm\<rparr>)
         in case res of
              Inl e \<Rightarrow> [entry False (extractEventKind W req) None (Some e)]
            | Inr result \<Rightarrow>
                (case signedEventsInResult W (rq_method req) result of
                   [] \<Rightarrow> [entry True (extractEventKind W req) None None]
                 | evs \<Rightarrow> map (\<lambda>(i, k). entry True k (Some i) None) evs)))"

definition handleRequest ::
    "world \<Rightarrow> time \<Rightarrow> signer \<Rightarrow> string \<Rightarrow> string \<Rightarrow> string \<Rightarrow> nip46_request \<Rightarrow> permission \<Rightarrow>
     signer \<times> (nip_error + string)" where
  "handleRequest W now sn targetPubkey privateKey clientPubkey req perm =
     (let (allowed, ruleID) =
            (if pm_policy_id perm \<noteq> '''' then checkPolicyUsage now (sn_policies sn) (pm_policy_id perm) (rq_method req)
             else (True, ''''));
          (sn1, res) =
            (if \<not> allowed then (sn, Inl (UsageLimitExceeded (rq_method req)))
             else dispatch W now sn targetPubkey privateKey clientPubkey req perm);
          sn2 = (if allowed \<and> ruleID \<noteq> ''''
                 then sn1\<lparr>sn_policies := fst (IncrementRuleUsage ruleID (sn_policies sn1))\<rparr> else sn1)
      in (sn2\<lparr>sn_audit := sn_audit sn2 @ audit_entries W sn2 targetPubkey clientPubkey req perm res\<rparr>, res))"

subsection \<open>Approval\<close>

text \<open>
  What a waiting request sees, in order: an administrator's decision through the channel, a poll
  of the database (with the clock and the store at that moment), the deadline, or the context
  ending. The channel carries the permission of the request's own context.
\<close>

datatype wait_event = Decision bool | PollTick time grant_store | Deadline | ContextDone

datatype wait_result = Approved "permission option" | Denied | TimedOut | StillWaiting

fun waitForAuthorization ::
    "string \<Rightarrow> string \<Rightarrow> permission option \<Rightarrow> wait_event list \<Rightarrow> wait_result" where
  "waitForAuthorization targetPubkey clientPubkey perm [] = StillWaiting"
| "waitForAuthorization targetPubkey clientPubkey perm (Decision approved # evs) =
     (if approved then Approved perm else Denied)"
| "waitForAuthorization targetPubkey clientPubkey perm (PollTick now st # evs) =
     (case GetPermission now targetPubkey clientPubkey st of
        Inr p \<Rightarrow> Approved (Some p)
      | Inl _ \<Rightarrow> waitForAuthorization targetPubkey clientPubkey perm evs)"
| "waitForAuthorization targetPubkey clientPubkey perm (Deadline # evs) = TimedOut"
| "waitForAuthorization targetPubkey clientPubkey perm (ContextDone # evs) = TimedOut"

definition bare_perm :: "string \<Rightarrow> string \<Rightarrow> string list \<Rightarrow> permission" where
  \<comment> \<open>a \<open>Permission\<close> literal with only these three fields set\<close>
  "bare_perm keyID userPubkey methods =
     \<lparr>pm_key_id = keyID, pm_user_pubkey = userPubkey, pm_slot = '''', pm_methods = methods,
      pm_allowed_kinds = [], pm_expires_at = None, pm_policy_id = '''', pm_require_approval = None,
      pm_delegate_pubkey = '''', pm_app_name = '''', pm_app_url = '''', pm_app_image = '''',
      pm_custom_name = '''', pm_created_at = None, pm_last_used_at = None, pm_revoked_at = None,
      pm_revoked_by = '''', pm_sliding_expiry = False\<rparr>"

text \<open>The texts of \<open>err.Error()\<close> are abstracted to one function of the error.\<close>

definition handlePendingApproval ::
    "world \<Rightarrow> (nip_error \<Rightarrow> string) \<Rightarrow> time \<Rightarrow> wait_event list \<Rightarrow> signer \<Rightarrow> string \<Rightarrow> string \<Rightarrow> string \<Rightarrow>
     nip46_request \<Rightarrow> permission option \<Rightarrow> signer \<times> response option" where
  "handlePendingApproval W err_text now waits sn targetPubkey privateKey clientPubkey req perm =
     (case waitForAuthorization targetPubkey clientPubkey perm waits of
        StillWaiting \<Rightarrow> (sn, None)
      | TimedOut \<Rightarrow> (sn, Some (Error (rq_id req) ''authorization timeout''))
      | Denied \<Rightarrow> (sn, Some (Error (rq_id req) ''request denied''))
      | Approved approvedPerm \<Rightarrow>
          (let permToUse =
             (case approvedPerm of
                Some p \<Rightarrow> p
              | None \<Rightarrow> (case perm of Some p \<Rightarrow> p
                         | None \<Rightarrow> bare_perm targetPubkey clientPubkey [rq_method req]))
           in case handleRequest W now sn targetPubkey privateKey clientPubkey req permToUse of
                (sn, Inl e) \<Rightarrow> (sn, Some (Error (rq_id req) (err_text e)))
              | (sn, Inr result) \<Rightarrow> (sn, Some (Result (rq_id req) result))))"

definition answer ::
    "world \<Rightarrow> (nip_error \<Rightarrow> string) \<Rightarrow> time \<Rightarrow> signer \<Rightarrow> string \<Rightarrow> string \<Rightarrow> string \<Rightarrow>
     nip46_request \<Rightarrow> permission \<Rightarrow> signer \<times> response option" where
  \<comment> \<open>\<open>handleRequest\<close>, then \<open>sendError\<close>, or \<open>UpdatePermissionLastUsed\<close> and \<open>sendResult\<close>\<close>
  "answer W err_text now sn targetPubkey privateKey clientPubkey req perm =
     (case handleRequest W now sn targetPubkey privateKey clientPubkey req perm of
        (sn, Inl e) \<Rightarrow> (sn, Some (Error (rq_id req) (err_text e)))
      | (sn, Inr result) \<Rightarrow>
          (sn\<lparr>sn_store := UpdatePermissionLastUsed now targetPubkey clientPubkey (sn_store sn)\<rparr>,
           Some (Result (rq_id req) result)))"

definition unknown_client ::
    "world \<Rightarrow> (nip_error \<Rightarrow> string) \<Rightarrow> time \<Rightarrow> wait_event list \<Rightarrow> signer \<Rightarrow> string \<Rightarrow> string \<Rightarrow> string \<Rightarrow>
     nip46_request \<Rightarrow> signer \<times> response option" where
  "unknown_client W err_text now waits sn targetPubkey privateKey clientPubkey req =
     (if \<not> shouldRequireApproval sn targetPubkey None
      then (sn, Some (Error (rq_id req) ''unauthorized''))
      else handlePendingApproval W err_text now waits sn targetPubkey privateKey clientPubkey req None)"

definition processRequest ::
    "world \<Rightarrow> (nip_error \<Rightarrow> string) \<Rightarrow> time \<Rightarrow> wait_event list \<Rightarrow> signer \<Rightarrow> string \<Rightarrow> string \<Rightarrow> string \<Rightarrow>
     nip46_request \<Rightarrow> storage_error + permission \<Rightarrow> signer \<times> response option" where
  "processRequest W err_text now waits sn targetPubkey privateKey clientPubkey req permRes =
     (case permRes of
        Inr perm \<Rightarrow>
          if \<not> isMethodAllowed perm (rq_method req)
          then (sn, Some (Error (rq_id req) ''method not allowed''))
          else if shouldRequireApproval sn targetPubkey (Some perm)
          then handlePendingApproval W err_text now waits sn targetPubkey privateKey clientPubkey req (Some perm)
          else answer W err_text now sn targetPubkey privateKey clientPubkey req perm
      | Inl permErr \<Rightarrow>
          if permErr = ErrPermissionExpired then (sn, Some (Error (rq_id req) ''grant expired''))
          else if rq_method req = ''connect'' \<and> length (rq_params req) \<ge> 2 \<and> rq_params req ! 1 \<noteq> '''' then
            (case ValidateBunkerSecret (now, targetPubkey) (rq_params req ! 1) (sn_secrets sn) of
               (secrets, Inr _) \<Rightarrow>
                 (let sn = sn\<lparr>sn_secrets := secrets\<rparr>;
                      fullPerm = bare_perm targetPubkey clientPubkey [''*''];
                      sn = sn\<lparr>sn_store := fst (SetPermission now fullPerm (sn_store sn))\<rparr>
                  in answer W err_text now sn targetPubkey privateKey clientPubkey req fullPerm)
             | (secrets, Inl _) \<Rightarrow>
                 unknown_client W err_text now waits (sn\<lparr>sn_secrets := secrets\<rparr>) targetPubkey privateKey clientPubkey req)
          else unknown_client W err_text now waits sn targetPubkey privateKey clientPubkey req)"

subsection \<open>Keys in memory\<close>

definition RegisterKey :: "string \<Rightarrow> string \<Rightarrow> signer \<Rightarrow> signer" where
  "RegisterKey pubkey privateKeyHex sn = sn\<lparr>sn_keys := AList.update pubkey privateKeyHex (sn_keys sn)\<rparr>"

definition RegisterProxyKey :: "string \<Rightarrow> string \<Rightarrow> string \<Rightarrow> signer \<Rightarrow> signer" where
  "RegisterProxyKey pubkey privateKeyHex bunkerURI sn =
     sn\<lparr>sn_keys := AList.update pubkey privateKeyHex (sn_keys sn),
        sn_proxy_keys := (sn_proxy_keys sn)(pubkey \<mapsto> bunkerURI)\<rparr>"

definition UnregisterKey :: "string \<Rightarrow> signer \<Rightarrow> signer" where
  "UnregisterKey pubkey sn =
     sn\<lparr>sn_keys := AList.delete pubkey (sn_keys sn), sn_proxy_keys := (sn_proxy_keys sn)(pubkey := None),
        sn_key_relays := (sn_key_relays sn)(pubkey := None), sn_frost_keys := (sn_frost_keys sn)(pubkey := None)\<rparr>"

definition IsKeyLoaded :: "string \<Rightarrow> signer \<Rightarrow> bool" where
  "IsKeyLoaded pubkey sn \<longleftrightarrow> map_of (sn_keys sn) pubkey \<noteq> None"

definition LoadedKeyPubkeys :: "signer \<Rightarrow> string list" where
  "LoadedKeyPubkeys sn = map fst (sn_keys sn)"

definition RegisterFrostKey :: "string \<Rightarrow> string \<Rightarrow> signer \<Rightarrow> signer" where
  "RegisterFrostKey pubkey frostKeyID sn = sn\<lparr>sn_frost_keys := (sn_frost_keys sn)(pubkey \<mapsto> frostKeyID)\<rparr>"

definition UnregisterFrostKey :: "string \<Rightarrow> signer \<Rightarrow> signer" where
  "UnregisterFrostKey pubkey sn = sn\<lparr>sn_frost_keys := (sn_frost_keys sn)(pubkey := None)\<rparr>"

definition evictIfKeyDeleted :: "string \<Rightarrow> signer \<Rightarrow> signer \<times> bool" where
  "evictIfKeyDeleted pubkey sn =
     (if \<not> IsKeyLoaded pubkey sn then (sn, False)
      else case GetKeyByPubkey pubkey (sn_store sn) of
        Inl ErrKeyNotFound \<Rightarrow> (UnregisterKey pubkey sn, True)
      | _ \<Rightarrow> (sn, False))"

subsection \<open>Receiving an event\<close>

abbreviation KindNIP46Request :: int where "KindNIP46Request \<equiv> 24133"

definition seen_window :: time where "seen_window = seconds (5 * 60)"

fun find_target :: "(string \<times> string) list \<Rightarrow> string list list \<Rightarrow> string" where
  "find_target keys [] = ''''"
| "find_target keys (tag # tags) =
     (if length tag \<ge> 2 \<and> tag ! 0 = ''p'' \<and> map_of keys (tag ! 1) \<noteq> None then tag ! 1
      else find_target keys tags)"

text \<open>
  \<open>handleEventWithRelay\<close> up to the hand-over to the claim coordinator: the target key and its
  private key, when the event is to be processed.
\<close>

definition handleEventWithRelay :: "time \<Rightarrow> nostr_event \<Rightarrow> signer \<Rightarrow> signer \<times> (string \<times> string) option" where
  "handleEventWithRelay now ev sn =
     (if ev_kind ev \<noteq> KindNIP46Request then (sn, None)
      else if map_of (sn_seen sn) (ev_id ev) \<noteq> None then (sn, None)
      else
        (let sn = sn\<lparr>sn_seen := filter (\<lambda>(i, t). \<not> now - t > seen_window)
                       (AList.update (ev_id ev) now (sn_seen sn))\<rparr>
         in if map_of (sn_keys sn) (ev_pubkey ev) \<noteq> None then (sn, None)
            else (let target = find_target (sn_keys sn) (ev_tags ev) in
                  if target = '''' then (sn, None)
                  else (sn, Some (target, the (map_of (sn_keys sn) target))))))"

text \<open>
  \<open>decryptAndDispatch\<close> once the content is decrypted and parsed: the grant is looked up, a key
  whose account is gone is evicted without an answer, and the request is processed.
\<close>

definition dispatch_request ::
    "world \<Rightarrow> (nip_error \<Rightarrow> string) \<Rightarrow> time \<Rightarrow> wait_event list \<Rightarrow> signer \<Rightarrow> string \<Rightarrow> string \<Rightarrow> string \<Rightarrow>
     nip46_request \<Rightarrow> signer \<times> response option" where
  "dispatch_request W err_text now waits sn targetPubkey privateKey clientPubkey req =
     (let permRes = GetPermission now targetPubkey clientPubkey (sn_store sn) in
      case (if ok permRes then (sn, False) else evictIfKeyDeleted targetPubkey sn) of
        (sn, True) \<Rightarrow> (sn, None)
      | (sn, False) \<Rightarrow>
          processRequest W err_text now waits sn targetPubkey privateKey clientPubkey req permRes)"

subsection \<open>Facts\<close>

lemma key_of_some:
  "gs_by_pubkey st pk = Some r \<Longrightarrow> key_of pk st = Some (deref st r)"
  by (simp add: key_of_def GetKeyByPubkey_def)

lemma dispatch_frame:
  assumes "dispatch W now sn tgt sk cl req perm = (sn', res)"
  shows "sn_store sn' = sn_store sn" "sn_policies sn' = sn_policies sn" "sn_audit sn' = sn_audit sn"
    "sn_audit_logger sn' = sn_audit_logger sn" "sn_keys sn' = sn_keys sn" "sn_proxy_keys sn' = sn_proxy_keys sn" "sn_secrets sn' = sn_secrets sn"
  using assms
  by (auto simp: dispatch_def Let_def handleConnect_def split: option.splits if_splits)

lemma dispatch_not_connect:
  "dispatch W now sn tgt sk cl req perm = (sn', res) \<Longrightarrow> rq_method req \<noteq> ''connect'' \<Longrightarrow> sn' = sn"
  by (auto simp: dispatch_def Let_def split: option.splits if_splits)

text \<open>\<open>handleRequest\<close> in its three cases.\<close>

lemma handleRequest_refused:
  assumes "pm_policy_id perm \<noteq> ''''"
    "checkPolicyUsage now (sn_policies sn) (pm_policy_id perm) (rq_method req) = (False, r)"
  shows "handleRequest W now sn tgt sk cl req perm =
    (sn\<lparr>sn_audit := sn_audit sn @ audit_entries W sn tgt cl req perm (Inl (UsageLimitExceeded (rq_method req)))\<rparr>,
     Inl (UsageLimitExceeded (rq_method req)))"
  using assms by (simp add: handleRequest_def)

lemma handleRequest_uncounted:
  assumes "pm_policy_id perm = '''' \<or>
    checkPolicyUsage now (sn_policies sn) (pm_policy_id perm) (rq_method req) = (True, '''')"
    and "dispatch W now sn tgt sk cl req perm = (sn1, res)"
  shows "handleRequest W now sn tgt sk cl req perm =
    (sn1\<lparr>sn_audit := sn_audit sn1 @ audit_entries W sn1 tgt cl req perm res\<rparr>, res)"
  using assms by (auto simp: handleRequest_def)

lemma handleRequest_counted:
  assumes "pm_policy_id perm \<noteq> ''''" "rid \<noteq> ''''"
    "checkPolicyUsage now (sn_policies sn) (pm_policy_id perm) (rq_method req) = (True, rid)"
    and "dispatch W now sn tgt sk cl req perm = (sn1, res)"
  shows "handleRequest W now sn tgt sk cl req perm =
    (sn1\<lparr>sn_policies := fst (IncrementRuleUsage rid (sn_policies sn1)),
         sn_audit := sn_audit sn1 @ audit_entries W (sn1\<lparr>sn_policies := fst (IncrementRuleUsage rid (sn_policies sn1))\<rparr>)
           tgt cl req perm res\<rparr>, res)"
  using assms by (simp add: handleRequest_def Let_def)

lemma handleRequest_res:
  assumes "handleRequest W now sn tgt sk cl req perm = (sn', res)"
  shows "(\<exists>sn1. dispatch W now sn tgt sk cl req perm = (sn1, res)) \<or> res = Inl (UsageLimitExceeded (rq_method req))"
  using assms by (auto simp: handleRequest_def Let_def split: prod.splits if_splits)

lemma handleRequest_audit:
  assumes "handleRequest W now sn tgt sk cl req perm = (sn', res)"
  shows "\<exists>sn2. sn_audit_logger sn2 = sn_audit_logger sn \<and> sn_audit sn' = sn_audit sn @ audit_entries W sn2 tgt cl req perm res"
proof -
  obtain allowed ruleID where c: "(if pm_policy_id perm \<noteq> '''' then checkPolicyUsage now (sn_policies sn) (pm_policy_id perm) (rq_method req)
             else (True, '''')) = (allowed, ruleID)"
    by (rule prod.exhaust)
  obtain sn1 r1 where d: "(if \<not> allowed then (sn, Inl (UsageLimitExceeded (rq_method req)))
      else dispatch W now sn tgt sk cl req perm) = (sn1, r1)"
    by (rule prod.exhaust)
  have same: "sn_audit sn1 = sn_audit sn" "sn_audit_logger sn1 = sn_audit_logger sn"
    using d dispatch_frame(3,4) by (auto split: if_splits)
  let ?sn2 = "if allowed \<and> ruleID \<noteq> ''''
      then sn1\<lparr>sn_policies := fst (IncrementRuleUsage ruleID (sn_policies sn1))\<rparr> else sn1"
  have "sn' = ?sn2\<lparr>sn_audit := sn_audit ?sn2 @ audit_entries W ?sn2 tgt cl req perm r1\<rparr>" "res = r1"
    using assms unfolding handleRequest_def c Let_def split d prod.inject by blast+
  then show ?thesis by (intro exI [of _ ?sn2]) (simp add: same)
qed

subsection \<open>A concrete signer\<close>

text \<open>
  For the witnesses: two events, a signature that names the private key, ciphers that do nothing,
  and a signer that holds the two keys of \<open>toy_store\<close> and an upstream key.
\<close>

definition toy_event :: "int \<Rightarrow> nostr_event" where
  "toy_event kind = \<lparr>ev_id = '''', ev_pubkey = '''', ev_created_at = 0, ev_kind = kind,
     ev_tags = [], ev_content = ''hello'', ev_sig = ''''\<rparr>"

definition toy_world :: world where
  "toy_world = \<lparr>
     w_parse_event = (\<lambda>s. if s = ''note'' then Some (toy_event 1)
                          else if s = ''article'' then Some (toy_event 30023) else None),
     w_render_event = (\<lambda>ev. Some (ev_sig ev)), w_render_list = (\<lambda>ts. Some (concat ts)),
     w_parse_ref = (\<lambda>_. Some (''id'', 1)), w_parse_refs = (\<lambda>_. None), w_parse_kind = (\<lambda>_. None),
     w_sign = (\<lambda>sk ev. Some (ev\<lparr>ev_id := ''id'', ev_sig := sk @ ''-sig''\<rparr>)), w_event_hash = (\<lambda>_. ''00''),
     w_nip04_secret = (\<lambda>_ _. Some []), w_nip04_encrypt = (\<lambda>s _. Some s), w_nip04_decrypt = (\<lambda>s _. Some s),
     w_nip44_key = (\<lambda>_ _. Some []), w_nip44_encrypt = (\<lambda>s _. Some s), w_nip44_decrypt = (\<lambda>s _. Some s),
     w_url_host = (\<lambda>u. Some (drop 9 u)), w_upstream = (\<lambda>_ _ _ _. Inl ''offline''),
     w_upstream_pubkey = (\<lambda>_ _. Inl ''offline''), w_frost_sign = (\<lambda>_ _. Inl ''offline''),
     w_frost_available = False, w_user_cosign = (\<lambda>_ _ _. Inl ''offline''), w_ecdh_tag = (\<lambda>_ _. Inl ''offline''),
     w_relays_json = ''{}''\<rparr>"

definition toy_upstream :: string where "toy_upstream = replicate 64 (CHR ''0'')"

definition toy_signer :: signer where
  "toy_signer = \<lparr>sn_keys = [(''role'', ''sk1''), (''user'', ''sk2''), (toy_upstream, ''sk3'')],
     sn_proxy_keys = [''user'' \<mapsto> ''bunker://'' @ toy_upstream], sn_frost_keys = Map.empty,
     sn_key_relays = Map.empty, sn_seen = [],
     sn_store = fst (SetPermission 10 ((toy_perm ''user'' ''carol'')\<lparr>pm_require_approval := Some True\<rparr>) toy_store),
     sn_policies = \<lparr>ps_rules = [1 \<mapsto> \<lparr>pr_id = ''r'', pr_policy_id = ''p'', pr_method = ''sign_event'',
         pr_allowed_kinds = [], pr_max_usage = 1, pr_current_usage = 0\<rparr>],
       ps_policies = [(''p'', \<lparr>pl_id = ''p'', pl_name = '''', pl_description = '''', pl_rules = [1],
         pl_expires_at = None, pl_created_at = 0, pl_created_by = ''''\<rparr>)],
       ps_rule_index = [''r'' \<mapsto> 1]\<rparr>,
     sn_sessions = [],
     sn_users = \<lparr>ut_heap = Map.empty, ut_users = [], ut_by_username = Map.empty, ut_by_email = Map.empty,
       ut_sessions = [], ut_seals = []\<rparr>,
     sn_secrets = [], sn_audit = [], sn_audit_logger = True, sn_require_approval = False\<rparr>"

definition toy_request :: "string \<Rightarrow> string list \<Rightarrow> nip46_request" where
  "toy_request m ps = \<lparr>rq_id = ''q'', rq_method = m, rq_params = ps\<rparr>"

lemma toy_request_sel [simp]: "rq_method (toy_request m ps) = m" "rq_params (toy_request m ps) = ps"
  "rq_id (toy_request m ps) = ''q''"
  by (simp_all add: toy_request_def)

lemma run_eq: "snd r = res \<Longrightarrow> r = (fst r, res)"
  by (cases r) simp

subsection \<open>Properties\<close>





text \<open>What a successful signing handler has checked and signed.\<close>

definition signed_under ::
    "world \<Rightarrow> signer \<Rightarrow> string \<Rightarrow> string \<Rightarrow> permission \<Rightarrow> string \<Rightarrow> bool" where
  "signed_under W sn tgt sk perm param \<longleftrightarrow>
     (\<exists>ev sev. w_parse_event W param = Some ev \<and> kind_allowed perm (ev_kind ev) \<and>
        (keyIsDisposable sn tgt \<longrightarrow> \<not> disposableKindRefusal (ev_kind ev)) \<and>
        w_sign W sk ((if keyIsDisposable sn tgt then stripFingerprintTags ev else ev)\<lparr>ev_pubkey := tgt\<rparr>) = Some sev)"

lemma handleSignEvent_signed:
  assumes "handleSignEvent W sn tgt sk cl params perm = Inr text" "frost_user_key sn tgt = None"
  shows "params \<noteq> [] \<and> signed_under W sn tgt sk perm (hd params)"
  using assms
  by (auto simp: handleSignEvent_def signed_under_def Let_def split: if_splits option.splits)

lemma batch_loop_signed:
  "batch_loop W (keyIsDisposable sn tgt) tgt sk perm i params = Inr texts \<Longrightarrow>
     length texts = length params \<and> (\<forall>param\<in>set params. signed_under W sn tgt sk perm param)"
  by (induction params arbitrary: i texts)
     (auto simp: signed_under_def Let_def split: if_splits option.splits sum.splits)



text \<open>
  A grant on a proxy key is not limited to its kinds: when the upstream key is held by the same
  signer, a sign request is answered with the signature of the upstream key for any event the
  upstream key would sign, whatever kinds the grant of the client allows.
\<close>

theorem proxy_ignores_allowed_kinds:
  assumes m: "rq_method req = ''sign_event''" "rq_params req = [param]" and pol: "pm_policy_id perm = ''''"
    and up: "sn_proxy_keys sn tgt = Some uri" "bunker_signer W uri = Some upk" "map_of (sn_keys sn) upk = Some upsk"
    and local_key: "frost_user_key sn upk = None" "\<not> keyIsDisposable sn upk"
    and ev: "w_parse_event W param = Some ev" "w_sign W upsk (ev\<lparr>ev_pubkey := upk\<rparr>) = Some sev"
      "w_render_event W sev = Some text"
  shows "snd (handleRequest W now sn tgt sk cl req (perm\<lparr>pm_allowed_kinds := kinds\<rparr>)) = Inr text"
proof -
  have "dispatch W now sn tgt sk cl req (perm\<lparr>pm_allowed_kinds := kinds\<rparr>) = (sn, Inr text)"
    using assms
    by (simp add: dispatch_def Let_def shouldProxyMethod_def handleProxyRequest_def handleInternalProxy_def
        handleSignEvent_def virtual_perm_def kind_allowed_def)
  with handleRequest_uncounted [OF _ this] pol show ?thesis by simp
qed

theorem proxy_ignores_allowed_kinds_witness:
  "snd (handleRequest toy_world 20 toy_signer ''user'' ''sk2'' ''alice'' (toy_request ''sign_event'' [''article''])
     ((toy_perm ''user'' ''alice'')\<lparr>pm_allowed_kinds := [1]\<rparr>)) = Inr ''sk3-sig''"
proof (rule proxy_ignores_allowed_kinds)
  show "sn_proxy_keys toy_signer ''user'' = Some (''bunker://'' @ toy_upstream)" by (simp add: toy_signer_def)
  show "bunker_signer toy_world (''bunker://'' @ toy_upstream) = Some toy_upstream" by code_simp
  show "map_of (sn_keys toy_signer) toy_upstream = Some ''sk3''" by code_simp
  show "frost_user_key toy_signer toy_upstream = None" by code_simp
  show "\<not> keyIsDisposable toy_signer toy_upstream" by code_simp
  show "w_parse_event toy_world ''article'' = Some (toy_event 30023)" by (simp add: toy_world_def)
  show "w_sign toy_world ''sk3'' ((toy_event 30023)\<lparr>ev_pubkey := toy_upstream\<rparr>) =
    Some ((toy_event 30023)\<lparr>ev_pubkey := toy_upstream, ev_id := ''id'', ev_sig := ''sk3-sig''\<rparr>)"
    by (simp add: toy_world_def toy_event_def)
  show "w_render_event toy_world ((toy_event 30023)\<lparr>ev_pubkey := toy_upstream, ev_id := ''id'', ev_sig := ''sk3-sig''\<rparr>)
    = Some ''sk3-sig''" by (simp add: toy_world_def)
qed (simp_all add: toy_perm_def)







text \<open>
  A deleted key keeps signing: the delete-key API only removes the key from the store. Its grants
  survive (they are filed under the public key) and the key stays in the signer's memory, and a
  live grant is all the dispatcher asks for, so the client's next request is still signed; a
  disposable key has even lost its kind refusals and tag stripping.
\<close>

theorem deleted_key_still_signs:
  assumes key: "map_of (gs_keys (sn_store sn)) kid = Some r" "k_pubkey (deref (sn_store sn) r) = tgt" "kid \<noteq> tgt"
    and del: "DeleteKey kid (sn_store sn) = (st1, Inr ())"
    and g: "GetPermission now tgt cl (sn_store sn) = Inr perm" "isMethodAllowed perm ''sign_event''"
      "pm_require_approval perm \<noteq> Some True" "pm_policy_id perm = ''''"
    and m: "rq_method req = ''sign_event''" "rq_params req = [param]" and proxy: "sn_proxy_keys sn tgt = None"
    and ev: "w_parse_event W param = Some ev" "kind_allowed perm (ev_kind ev)"
      "w_sign W sk (ev\<lparr>ev_pubkey := tgt\<rparr>) = Some sev" "w_render_event W sev = Some text"
  shows "GetKeyByPubkey tgt st1 = Inl ErrKeyNotFound \<and>
    snd (dispatch_request W err now waits (sn\<lparr>sn_store := st1\<rparr>) tgt sk cl req) = Some (Result (rq_id req) text)"
proof -
  let ?sn = "sn\<lparr>sn_store := st1\<rparr>"
  have gone: "gs_by_pubkey st1 tgt = None" and perms: "gs_permissions st1 tgt = gs_permissions (sn_store sn) tgt"
    using del key by (auto simp: DeleteKey_def Let_def)
  have none: "key_of tgt st1 = None" using gone by (simp add: key_of_def GetKeyByPubkey_def)
  have p: "GetPermission now tgt cl st1 = Inr perm" using g(1) perms by (simp add: GetPermission_def)
  have d: "dispatch W now ?sn tgt sk cl req perm = (?sn, Inr text)"
    using m proxy ev
    by (simp add: dispatch_def Let_def handleSignEvent_def keyIsDisposable_def frost_user_key_def none)
  note run = handleRequest_uncounted [OF disjI1 [OF g(4)] d]
  have "\<not> shouldRequireApproval ?sn tgt (Some perm)" using g(3) by (simp add: shouldRequireApproval_def)
  then show ?thesis
    using p g m run gone
    by (simp add: dispatch_request_def processRequest_def answer_def GetKeyByPubkey_def)
qed

theorem deleted_key_still_signs_witness:
  "snd (dispatch_request toy_world (\<lambda>_. ''failed'') 20 []
     (toy_signer\<lparr>sn_store := fst (DeleteKey ''ro'' (sn_store toy_signer))\<rparr>) ''role'' ''sk1'' ''alice''
     (toy_request ''sign_event'' [''note''])) = Some (Result ''q'' ''sk1-sig'')"
proof -
  let ?st = "sn_store toy_signer"
  have key: "map_of (gs_keys ?st) ''ro'' = Some 1" "k_pubkey (deref ?st 1) = ''role''" "''ro'' \<noteq> ''role''" by code_simp+
  have "snd (DeleteKey ''ro'' ?st) = Inr ()" by code_simp
  note del = run_eq [OF this]
  have ok: "ok (GetPermission 20 ''role'' ''alice'' ?st)"
    "isMethodAllowed (projr (GetPermission 20 ''role'' ''alice'' ?st)) ''sign_event''"
    "pm_require_approval (projr (GetPermission 20 ''role'' ''alice'' ?st)) = None"
    "pm_policy_id (projr (GetPermission 20 ''role'' ''alice'' ?st)) = ''''"
    "kind_allowed (projr (GetPermission 20 ''role'' ''alice'' ?st)) (ev_kind (toy_event 1))"
    by code_simp+
  obtain perm where p: "GetPermission 20 ''role'' ''alice'' ?st = Inr perm" using ok(1) by (auto simp: ok_iff)
  have g: "isMethodAllowed perm ''sign_event''" "pm_require_approval perm \<noteq> Some True" "pm_policy_id perm = ''''"
    "kind_allowed perm (ev_kind (toy_event 1))" using ok p by simp_all
  have proxy: "sn_proxy_keys toy_signer ''role'' = None" by (simp add: toy_signer_def)
  have ev: "w_parse_event toy_world ''note'' = Some (toy_event 1)"
    "w_sign toy_world ''sk1'' ((toy_event 1)\<lparr>ev_pubkey := ''role''\<rparr>) =
       Some ((toy_event 1)\<lparr>ev_pubkey := ''role'', ev_id := ''id'', ev_sig := ''sk1-sig''\<rparr>)"
    "w_render_event toy_world ((toy_event 1)\<lparr>ev_pubkey := ''role'', ev_id := ''id'', ev_sig := ''sk1-sig''\<rparr>) = Some ''sk1-sig''"
    by (simp_all add: toy_world_def toy_event_def)
  from deleted_key_still_signs [OF key del p g(1-3) toy_request_sel(1,2) proxy ev(1) g(4) ev(2,3)]
  show ?thesis by simp
qed

lemma find_target_loaded:
  "find_target keys tags \<noteq> '''' \<Longrightarrow> map_of keys (find_target keys tags) \<noteq> None"
  by (induction tags) (auto split: if_splits)

lemma handleEventWithRelay_target:
  assumes "handleEventWithRelay now ev sn = (sn', Some (tgt, sk))"
  shows "map_of (sn_keys sn) tgt = Some sk"
  using assms find_target_loaded [of "sn_keys sn" "ev_tags ev"]
  by (auto simp: handleEventWithRelay_def Let_def split: if_splits)

text \<open>
  Without a grant a deleted key is evicted: the first request of a client with no live grant gets no
  answer, removes the private key, its proxy and FROST entries from memory and changes nothing in
  the store, and from then on no event is ever dispatched to that key.
\<close>

theorem ungranted_deleted_key_evicted:
  assumes "\<not> ok (GetPermission now tgt cl (sn_store sn))" "GetKeyByPubkey tgt (sn_store sn) = Inl ErrKeyNotFound"
    "IsKeyLoaded tgt sn"
  shows "\<exists>sn'. dispatch_request W err now waits sn tgt sk cl req = (sn', None) \<and>
    sn_store sn' = sn_store sn \<and> \<not> IsKeyLoaded tgt sn' \<and> sn_proxy_keys sn' tgt = None \<and> sn_frost_keys sn' tgt = None \<and>
    (\<forall>now' ev sn'' t s. handleEventWithRelay now' ev sn' = (sn'', Some (t, s)) \<longrightarrow>
       t \<noteq> tgt \<and> map_of (sn_keys sn) t = Some s)"
proof -
  have *: "dispatch_request W err now waits sn tgt sk cl req = (UnregisterKey tgt sn, None)"
    using assms by (simp add: dispatch_request_def evictIfKeyDeleted_def)
  have keys: "sn_keys (UnregisterKey tgt sn) = AList.delete tgt (sn_keys sn)" by (simp add: UnregisterKey_def)
  have later: "t \<noteq> tgt \<and> map_of (sn_keys sn) t = Some s"
    if "handleEventWithRelay now' ev (UnregisterKey tgt sn) = (sn'', Some (t, s))" for now' ev sn'' t s
    using handleEventWithRelay_target [OF that]
    unfolding keys by (auto simp: AList.delete_conv' split: if_splits)
  show ?thesis
    unfolding * by (rule exI, rule conjI, rule refl)
      (use later in \<open>auto simp: UnregisterKey_def IsKeyLoaded_def AList.delete_conv'\<close>)
qed

theorem ungranted_deleted_key_evicted_witness:
  "snd (dispatch_request toy_world (\<lambda>_. ''failed'') 20 []
     (toy_signer\<lparr>sn_store := fst (DeleteKey ''ro'' (sn_store toy_signer))\<rparr>) ''role'' ''sk1'' ''mallory''
     (toy_request ''sign_event'' [''note''])) = None"
proof -
  let ?sn = "toy_signer\<lparr>sn_store := fst (DeleteKey ''ro'' (sn_store toy_signer))\<rparr>"
  have 1: "\<not> ok (GetPermission 20 ''role'' ''mallory'' (sn_store ?sn))" by code_simp
  have 2: "GetKeyByPubkey ''role'' (sn_store ?sn) = Inl ErrKeyNotFound" by code_simp
  have 3: "IsKeyLoaded ''role'' ?sn" by code_simp
  from ungranted_deleted_key_evicted [OF 1 2 3, of toy_world "\<lambda>_. ''failed''" "[]" "''sk1''"
      "toy_request ''sign_event'' [''note'']"]
  show ?thesis by auto
qed

subsection \<open>Duplicate events\<close>

text \<open>The events the relays deliver, each with the clock at its arrival.\<close>

fun receive :: "(time \<times> nostr_event) list \<Rightarrow> signer \<Rightarrow> (string \<times> (string \<times> string) option) list" where
  "receive [] sn = []"
| "receive ((now, ev) # evs) sn =
     (case handleEventWithRelay now ev sn of (sn', r) \<Rightarrow> (ev_id ev, r) # receive evs sn')"

definition accepted :: "string \<Rightarrow> (string \<times> (string \<times> string) option) list \<Rightarrow> nat" where
  "accepted i rs = length (filter (\<lambda>(j, r). j = i \<and> r \<noteq> None) rs)"

definition seen_since :: "time \<Rightarrow> string \<Rightarrow> signer \<Rightarrow> bool" where
  "seen_since t0 i sn \<longleftrightarrow> distinct (map fst (sn_seen sn)) \<and> (\<exists>t\<ge>t0. map_of (sn_seen sn) i = Some t)"

lemma map_of_filter_Some:
  "distinct (map fst xs) \<Longrightarrow> map_of xs i = Some v \<Longrightarrow> P (i, v) \<Longrightarrow> map_of (filter P xs) i = Some v"
  by (metis (no_types, lifting) distinct_map_filter map_of_eq_Some_iff mem_Collect_eq set_filter)

lemma distinct_seen:
  assumes "distinct (map fst (sn_seen sn))"
  shows "distinct (map fst (sn_seen (fst (handleEventWithRelay now ev sn))))"
  using assms by (auto simp: handleEventWithRelay_def Let_def distinct_update distinct_map_filter)

lemma seen_since_kept:
  assumes s: "seen_since t0 i sn" and now: "now \<le> t0 + seen_window"
  shows "seen_since t0 i (fst (handleEventWithRelay now ev sn))"
proof -
  obtain t where t: "t0 \<le> t" "map_of (sn_seen sn) i = Some t" and d: "distinct (map fst (sn_seen sn))"
    using s by (auto simp: seen_since_def)
  show ?thesis
  proof (cases "ev_kind ev = KindNIP46Request \<and> map_of (sn_seen sn) (ev_id ev) = None")
    case False
    then show ?thesis using s by (auto simp: handleEventWithRelay_def)
  next
    case True
    then have ne: "ev_id ev \<noteq> i" using t by auto
    let ?seen = "filter (\<lambda>(i, t). \<not> now - t > seen_window) (AList.update (ev_id ev) now (sn_seen sn))"
    have eq: "sn_seen (fst (handleEventWithRelay now ev sn)) = ?seen"
      using True by (simp add: handleEventWithRelay_def Let_def)
    have "map_of ?seen i = Some t"
      by (rule map_of_filter_Some) (use t d ne now in \<open>auto simp: distinct_update update_conv'\<close>)
    moreover have "distinct (map fst ?seen)" by (rule distinct_map_filter) (simp add: distinct_update d)
    ultimately show ?thesis using t(1) unfolding seen_since_def eq by blast
  qed
qed

lemma seen_since_refused: "seen_since t0 (ev_id ev) sn \<Longrightarrow> snd (handleEventWithRelay now ev sn) = None"
  by (auto simp: seen_since_def handleEventWithRelay_def)

lemma accepted_seen:
  assumes "distinct (map fst (sn_seen sn))" "handleEventWithRelay now ev sn = (sn', Some r)"
  shows "seen_since now (ev_id ev) sn'"
proof -
  have seen: "sn_seen sn' = filter (\<lambda>(i, t). \<not> now - t > seen_window) (AList.update (ev_id ev) now (sn_seen sn))"
    using assms(2) by (auto simp: handleEventWithRelay_def Let_def split: if_splits)
  have d: "distinct (map fst (AList.update (ev_id ev) now (sn_seen sn)))" by (rule distinct_update [OF assms(1)])
  have "map_of (sn_seen sn') (ev_id ev) = Some now"
    unfolding seen by (rule map_of_filter_Some [OF d]) (simp_all add: update_conv' seen_window_def)
  moreover have "distinct (map fst (sn_seen sn'))" unfolding seen by (rule distinct_map_filter [OF d])
  ultimately show ?thesis by (auto simp: seen_since_def)
qed

lemma no_more_accepted:
  "seen_since t0 i sn \<Longrightarrow> \<forall>(now, ev) \<in> set evs. now \<le> t0 + seen_window \<Longrightarrow> accepted i (receive evs sn) = 0"
proof (induction evs arbitrary: sn)
  case Nil
  then show ?case by (simp add: accepted_def)
next
  case (Cons e evs)
  obtain now ev where e: "e = (now, ev)" by (cases e)
  obtain sn' r where h: "handleEventWithRelay now ev sn = (sn', r)" by (cases "handleEventWithRelay now ev sn")
  have "seen_since t0 i sn'" using seen_since_kept [OF Cons.prems(1), of now ev] Cons.prems(2) h by (simp add: e)
  moreover have "ev_id ev = i \<Longrightarrow> r = None" using seen_since_refused [of t0 ev sn now] Cons.prems(1) h by simp
  ultimately show ?case using Cons.IH [of sn'] Cons.prems(2) by (auto simp: e h accepted_def)
qed

text \<open>
  An event that several relays deliver is processed at most once: among the deliveries of a stretch of
  time no longer than the five minutes the signer remembers, whatever their order and number, at
  most one with a given event id goes past the duplicate check.
\<close>

theorem duplicates_dropped:
  assumes "distinct (map fst (sn_seen sn))" "\<forall>(now, ev) \<in> set evs. t0 \<le> now \<and> now \<le> t0 + seen_window"
  shows "accepted i (receive evs sn) \<le> 1"
  using assms
proof (induction evs arbitrary: sn)
  case Nil
  then show ?case by (simp add: accepted_def)
next
  case (Cons e evs)
  obtain now ev where e: "e = (now, ev)" by (cases e)
  obtain sn' r where h: "handleEventWithRelay now ev sn = (sn', r)" by (cases "handleEventWithRelay now ev sn")
  have d: "distinct (map fst (sn_seen sn'))" using distinct_seen [OF Cons.prems(1), of now ev] h by simp
  show ?case
  proof (cases "ev_id ev = i \<and> r \<noteq> None")
    case True
    then have "seen_since now i sn'" using accepted_seen [OF Cons.prems(1)] h by auto
    moreover have "\<forall>(n, ev) \<in> set evs. n \<le> now + seen_window"
      using Cons.prems(2) by (fastforce simp: e)
    ultimately have "accepted i (receive evs sn') = 0" by (rule no_more_accepted)
    then show ?thesis by (simp add: e h accepted_def)
  next
    case False
    then show ?thesis using Cons.IH [OF d] Cons.prems(2) by (auto simp: e h accepted_def)
  qed
qed

theorem duplicates_dropped_witness:
  "accepted ''e'' (receive
     [(5, (toy_event KindNIP46Request)\<lparr>ev_id := ''e'', ev_tags := [[''p'', ''role'']]\<rparr>),
      (9, (toy_event KindNIP46Request)\<lparr>ev_id := ''e'', ev_tags := [[''p'', ''role'']]\<rparr>)] toy_signer) \<le> 1"
  by (rule duplicates_dropped [where ?t0.0 = 5]) (simp_all add: toy_signer_def seen_window_def)

end
