(* ===== verification/StaySignedIn.thy ===== *)
theory StaySignedIn
  imports KeyCrypto Nip46
begin

text \<open>
  "Stay signed in" (\<open>internal/api/stay_signed_in.go\<close>), signing out and deleting an account
  (\<open>internal/api/handler.go\<close>, \<open>account_delete.go\<close>): how the keys in a replica's memory follow the
  seals and sign-in sessions in the shared store.

  A \<open>handler\<close> is one replica: its signer (which shows the shared store), its sealer, its leases (why
  it holds a key) and its back-off of lazy restores. Whether the session store answers for a session
  and the derivation of a public key are arguments. Vault tokens, cookies, app consents, the location
  registry and the messages to other replicas are left out; the store changes other replicas make
  happen between the steps.
\<close>

record lease =
  ls_user_id :: string
  ls_at :: time

record handler =
  hd_signer :: signer
  hd_sealer :: "sealer option"                \<comment> \<open>\<open>None\<close>: the feature is not wired\<close>
  hd_leases :: "(string \<times> lease) list"
  hd_miss_until :: "(string \<times> time) list"

record stay_config =
  yc_split :: bool
  yc_max_days :: int
  yc_idle_days :: int

record stay_env =
  ye_crypto :: seal_crypto
  ye_pubkey :: "string \<Rightarrow> string option"      \<comment> \<open>\<open>nostr.GetPublicKey\<close>\<close>
  ye_session_fails :: "string \<Rightarrow> bool"         \<comment> \<open>the session store fails for this session\<close>

abbreviation hd_users :: "handler \<Rightarrow> user_store" where "hd_users h \<equiv> sn_users (hd_signer h)"
abbreviation hd_keys :: "handler \<Rightarrow> grant_store" where "hd_keys h \<equiv> sn_store (hd_signer h)"

definition set_users :: "user_store \<Rightarrow> handler \<Rightarrow> handler" where
  "set_users st h = h\<lparr>hd_signer := (hd_signer h)\<lparr>sn_users := st\<rparr>\<rparr>"

definition on_signer :: "(signer \<Rightarrow> signer) \<Rightarrow> handler \<Rightarrow> handler" where
  "on_signer f h = h\<lparr>hd_signer := f (hd_signer h)\<rparr>"

definition lazyRestoreBackoff :: int where "lazyRestoreBackoff = seconds 5"
definition slideRenewEvery :: int where "slideRenewEvery = seconds 3600"

section \<open>What a sign-in is granted\<close>

definition stayChoices :: "string list" where
  "stayChoices = [''session'', ''1d'', ''30d'', ''until_signout'']"

definition validStayChoice :: "string \<Rightarrow> bool" where
  "validStayChoice c \<longleftrightarrow> c = '''' \<or> c \<in> set stayChoices"

record stay_grant =
  sg_choice :: string
  sg_mode :: string
  sg_expires_at :: time
  sg_sliding :: bool
  sg_half :: "bytes option"

definition days :: "int \<Rightarrow> int" where "days n = seconds (n * 24 * 3600)"

definition truncate_second :: "time \<Rightarrow> time" where "truncate_second t = seconds (t div seconds 1)"

definition idleWindow :: "stay_config \<Rightarrow> int" where
  "idleWindow cfg = days (if yc_idle_days cfg < 1 then 90 else yc_idle_days cfg)"

definition capAtMaxDays :: "stay_config \<Rightarrow> time \<Rightarrow> time \<Rightarrow> time" where
  "capAtMaxDays cfg signedInAt expiry =
     (if yc_max_days cfg > 0 \<and> expiry > signedInAt + days (yc_max_days cfg)
      then signedInAt + days (yc_max_days cfg) else expiry)"

text \<open>The mode (and half) a choice can have here; \<open>random\<close> is a new split half or a failure to make one.\<close>

definition grantStaySignedIn ::
    "stay_config \<Rightarrow> time \<Rightarrow> bytes option \<Rightarrow> string \<Rightarrow> bool \<Rightarrow> handler \<Rightarrow> stay_grant option" where
  "grantStaySignedIn cfg now random choice split h =
     (if choice = '''' \<or> choice = ''session'' then None
      else case hd_sealer h of
        None \<Rightarrow> None
      | Some sealer \<Rightarrow>
     (case (if split \<and> yc_split cfg then map_option (\<lambda>half. (''split'', Some half)) random
            else if \<not> split \<and> sealerEnabled sealer then Some (sealerMode sealer, None)
            else None) of
        None \<Rightarrow> None
      | Some (mode, half) \<Rightarrow>
          (let (expiry, sliding) =
             (if choice = ''1d'' then (now + days 1, False)
              else if choice = ''30d'' then (now + days 30, False)
              else if choice = ''until_signout'' then (now + idleWindow cfg, True)
              else (0, False))
           in Some \<lparr>sg_choice = choice, sg_mode = mode, sg_expires_at = truncate_second (capAtMaxDays cfg now expiry),
                    sg_sliding = sliding, sg_half = half\<rparr>)))"

section \<open>Sealing at sign-in\<close>

definition take_lease :: "time \<Rightarrow> string \<Rightarrow> string \<Rightarrow> handler \<Rightarrow> handler" where
  "take_lease now pubkey userID h =
     h\<lparr>hd_leases := AList.update pubkey \<lparr>ls_user_id = userID, ls_at = now\<rparr> (hd_leases h),
       hd_miss_until := AList.delete pubkey (hd_miss_until h)\<rparr>"

text \<open>One key: \<open>nonce\<close> and \<open>server\<close> are the random bytes of its seal, \<open>sealID\<close> its id.\<close>

definition seal_one ::
    "stay_env \<Rightarrow> time \<Rightarrow> bytes \<Rightarrow> bytes \<Rightarrow> string \<Rightarrow> string \<Rightarrow> string \<Rightarrow> stay_grant \<Rightarrow> key \<Rightarrow> handler \<Rightarrow> handler" where
  "seal_one V now nonce server sealID userID sessionID g k h =
     (if \<not> UserHeld (DetectEncryptionMethod (k_encrypted_nsec k)) then h
      else case map_of (sn_keys (hd_signer h)) (k_pubkey k) of
        None \<Rightarrow> h
      | Some priv \<Rightarrow>
     (let b = \<lparr>bd_pubkey = k_pubkey k, bd_session_id = sessionID\<rparr> in
      case (if sg_mode g = ''split'' then SplitSeal (ye_crypto V) server nonce (str_bytes priv) (the (sg_half g)) b
            else sealerSeal (ye_crypto V) nonce (the (hd_sealer h)) (str_bytes priv) b) of
        Inl _ \<Rightarrow> h
      | Inr blob \<Rightarrow>
          take_lease now (k_pubkey k) userID
            (set_users (UpsertSessionSeal
               \<lparr>sl_id = sealID, sl_user_id = userID, sl_key_id = k_id k, sl_pubkey = k_pubkey k,
                sl_session_id = sessionID, sl_mode = sg_mode g, sl_sliding = sg_sliding g, sl_sealed = blob,
                sl_expires_at = sg_expires_at g, sl_created_at = now\<rparr> (hd_users h)) h)))"

definition sealSessionKeys ::
    "stay_env \<Rightarrow> time \<Rightarrow> (nat \<Rightarrow> bytes \<times> bytes \<times> string) \<Rightarrow> string \<Rightarrow> string \<Rightarrow> stay_grant option \<Rightarrow> handler \<Rightarrow> handler" where
  "sealSessionKeys V now random userID sessionID g h =
     (case (g, hd_sealer h) of
        (Some g, Some _) \<Rightarrow>
          foldl (\<lambda>h (i, k). case random i of (nonce, server, sealID) \<Rightarrow>
                   seal_one V now nonce server sealID userID sessionID g k h)
            h (enumerate 0 (map (deref (hd_keys h)) (ListKeys userID (hd_keys h))))
      | _ \<Rightarrow> h)"

section \<open>Restoring and dropping\<close>

text \<open>
  \<open>liveSeals\<close>: the unexpired seals whose sign-in session is live, and the keys whose session could not
  be checked; the seals of ended sessions are deleted.
\<close>

definition session_live :: "stay_env \<Rightarrow> time \<Rightarrow> user_store \<Rightarrow> string \<Rightarrow> bool option" where
  "session_live V now st sid =
     (if ye_session_fails V sid then None
      else case GetUserSession now sid st of Inr _ \<Rightarrow> Some True | Inl _ \<Rightarrow> Some False)"

definition liveSeals :: "stay_env \<Rightarrow> time \<Rightarrow> handler \<Rightarrow> handler \<times> session_seal list \<times> string list" where
  "liveSeals V now h =
     (let st = hd_users h; rows = ListLiveSessionSeals now st;
          ended = filter (\<lambda>sid. session_live V now st sid = Some False) (remdups (map sl_session_id rows))
      in (set_users (foldl (\<lambda>st sid. fst (DeleteSessionSealsBySession sid st)) st ended) h,
          filter (\<lambda>sl. session_live V now st (sl_session_id sl) = Some True) rows,
          map sl_pubkey (filter (\<lambda>sl. session_live V now st (sl_session_id sl) = None) rows)))"

definition installSealedKey :: "stay_env \<Rightarrow> time \<Rightarrow> session_seal \<Rightarrow> string \<Rightarrow> handler \<Rightarrow> handler \<times> bool" where
  "installSealedKey V now sl priv h =
     (if ye_pubkey V priv \<noteq> Some (sl_pubkey sl) then (h, False)
      else case GetKeyByPubkey (sl_pubkey sl) (hd_keys h) of
        Inl _ \<Rightarrow> (h, False)
      | Inr r \<Rightarrow>
          (let k = deref (hd_keys h) r;
               h = (if IsProxy k then on_signer (RegisterProxyKey (k_pubkey k) priv (k_bunker_uri k)) h
                    else on_signer (RegisterKey (k_pubkey k) priv) h)
           in (take_lease now (sl_pubkey sl) (sl_user_id sl) h, True)))"

fun restoreFromSeals :: "stay_env \<Rightarrow> time \<Rightarrow> session_seal list \<Rightarrow> handler \<Rightarrow> handler \<times> bool" where
  "restoreFromSeals V now [] h = (h, False)"
| "restoreFromSeals V now (sl # seals) h =
     (if sl_mode sl = ''split'' then restoreFromSeals V now seals h
      else case hd_sealer h of
        None \<Rightarrow> (h, False)
      | Some sealer \<Rightarrow>
          if sl_mode sl \<noteq> sealerMode sealer then restoreFromSeals V now seals h
          else case sealerOpen (ye_crypto V) sealer (sl_sealed sl)
                      \<lparr>bd_pubkey = sl_pubkey sl, bd_session_id = sl_session_id sl\<rparr> of
            Inl _ \<Rightarrow> restoreFromSeals V now seals h
          | Inr pt \<Rightarrow>
              (case installSealedKey V now sl (bytes_str pt) h of
                 (h, True) \<Rightarrow> (h, True)
               | (h, False) \<Rightarrow> restoreFromSeals V now seals h))"

definition unloadSealedKey :: "string \<Rightarrow> handler \<Rightarrow> handler" where
  "unloadSealedKey pubkey h =
     (if IsKeyLoaded pubkey (hd_signer h) then on_signer (UnregisterKey pubkey) h else h)"

definition lockSealedKey :: "string \<Rightarrow> handler \<Rightarrow> handler" where
  "lockSealedKey pubkey h = unloadSealedKey pubkey (h\<lparr>hd_leases := AList.delete pubkey (hd_leases h)\<rparr>)"

definition lockSealedKeyIfStale :: "time \<Rightarrow> string \<Rightarrow> handler \<Rightarrow> handler" where
  "lockSealedKeyIfStale passStart pubkey h =
     (case map_of (hd_leases h) pubkey of
        None \<Rightarrow> h
      | Some l \<Rightarrow> if \<not> ls_at l < passStart then h else lockSealedKey pubkey h)"

text \<open>One pass: drop what has no live seal, restore what has one, sweep.\<close>

definition reconcileSeals :: "stay_env \<Rightarrow> time \<Rightarrow> handler \<Rightarrow> handler" where
  "reconcileSeals V passStart h =
     (if hd_sealer h = None then h
      else
        (let (h, live, unsure) = liveSeals V passStart h;
             held = map fst (filter (\<lambda>(pk, l). pk \<notin> set (map sl_pubkey live) \<and> pk \<notin> set unsure \<and> ls_at l < passStart)
                      (hd_leases h));
             h = foldl (\<lambda>h pk. lockSealedKeyIfStale passStart pk h) h held;
             h = foldl (\<lambda>h pk. if IsKeyLoaded pk (hd_signer h) then h
                               else fst (restoreFromSeals V passStart (filter (\<lambda>sl. sl_pubkey sl = pk) live) h))
                   h (remdups (map sl_pubkey live));
             h = h\<lparr>hd_miss_until := filter (\<lambda>(pk, until). \<not> passStart > until) (hd_miss_until h)\<rparr>
         in set_users (fst (DeleteExpiredSessionSeals passStart (hd_users h))) h))"

text \<open>The lazy path: a request needs a locked key now.\<close>

definition restoreSealedKey :: "stay_env \<Rightarrow> time \<Rightarrow> string \<Rightarrow> handler \<Rightarrow> handler \<times> bool" where
  "restoreSealedKey V now pubkey h =
     (if hd_sealer h = None then (h, False)
      else if (case map_of (hd_miss_until h) pubkey of None \<Rightarrow> False | Some until \<Rightarrow> now < until) then (h, False)
      else
        (let (h, live, unsure) = liveSeals V now h in
         case restoreFromSeals V now (filter (\<lambda>sl. sl_pubkey sl = pubkey) live) h of
           (h, True) \<Rightarrow> (h, True)
         | (h, False) \<Rightarrow>
             (h\<lparr>hd_miss_until := AList.update pubkey (now + lazyRestoreBackoff) (hd_miss_until h)\<rparr>, False)))"

definition revokeUserSeals :: "time \<Rightarrow> string \<Rightarrow> handler \<Rightarrow> handler \<times> nat" where
  "revokeUserSeals now userID h =
     (if hd_sealer h = None then (h, 0)
      else
        (let seals = ListSessionSealsByUser now userID (hd_users h);
             (st, n) = DeleteSessionSealsByUser userID (hd_users h);
             pks = map sl_pubkey seals @ map fst (filter (\<lambda>(pk, l). ls_user_id l = userID) (hd_leases h))
         in (foldl (\<lambda>h pk. lockSealedKey pk h) (set_users st h) (remdups pks), n)))"

section \<open>Sliding sessions\<close>

text \<open>
  \<open>slideSession\<close>: an until-sign-out session moves to now plus the idle window, at most an hour's step
  at a time, and never past the operator's limit; the result is the new expiry of the token.
\<close>

definition slideSession :: "stay_config \<Rightarrow> time \<Rightarrow> bool \<Rightarrow> string \<Rightarrow> handler \<Rightarrow> handler \<times> time option" where
  "slideSession cfg now force sessionID h =
     (if hd_sealer h = None \<or> sessionID = '''' then (h, None)
      else if \<not> list_ex sl_sliding (ListSessionSealsBySession now sessionID (hd_users h)) then (h, None)
      else case GetUserSession now sessionID (hd_users h) of
        Inl _ \<Rightarrow> (h, None)
      | Inr sess \<Rightarrow>
          (let next = truncate_second (capAtMaxDays cfg (us_created_at sess) (now + idleWindow cfg)) in
           if next - us_expires_at sess \<ge> slideRenewEvery then
             (case ExtendUserSession now (us_id sess) next (hd_users h) of
                (st, Inl _) \<Rightarrow> (set_users st h, None)
              | (st, Inr _) \<Rightarrow> (set_users (fst (ExtendSessionSeals (us_id sess) next st)) h, Some (truncate_second next)))
           else if \<not> force then (h, None)
           else (h, Some (truncate_second (us_expires_at sess)))))"

text \<open>A fresh grant for a session that holds seals (password change).\<close>

definition regrantForSession :: "time \<Rightarrow> bytes option \<Rightarrow> string \<Rightarrow> handler \<Rightarrow> stay_grant option" where
  "regrantForSession now random sessionID h =
     (case hd_sealer h of
        None \<Rightarrow> None
      | Some sealer \<Rightarrow>
     (if sessionID = '''' then None
      else case ListSessionSealsBySession now sessionID (hd_users h) of
        [] \<Rightarrow> None
      | sl # _ \<Rightarrow>
          (let g = \<lparr>sg_choice = ''re-seal'', sg_mode = sl_mode sl, sg_expires_at = sl_expires_at sl,
                    sg_sliding = sl_sliding sl, sg_half = None\<rparr> in
           if sl_mode sl = ''split'' then map_option (\<lambda>half. g\<lparr>sg_half := Some half\<rparr>) random
           else if \<not> sealerEnabled sealer \<or> sealerMode sealer \<noteq> sl_mode sl then None
           else Some g)))"

datatype unseal_result = NoSplitSeal | SealMismatch | Restored nat

text \<open>Split mode: the browser hands its half back. \<open>half\<close> is the decoded 32 bytes.\<close>

fun unseal_loop :: "stay_env \<Rightarrow> time \<Rightarrow> string \<Rightarrow> bytes \<Rightarrow> session_seal list \<Rightarrow> handler \<Rightarrow> handler \<times> nat \<times> nat" where
  "unseal_loop V now userID half [] h = (h, 0, 0)"
| "unseal_loop V now userID half (sl # seals) h =
     (if sl_mode sl \<noteq> ''split'' \<or> sl_user_id sl \<noteq> userID then unseal_loop V now userID half seals h
      else
        (let (h, ok) =
           (case SplitOpen (ye_crypto V) (sl_sealed sl) half \<lparr>bd_pubkey = sl_pubkey sl, bd_session_id = sl_session_id sl\<rparr> of
              Inl _ \<Rightarrow> (h, False)
            | Inr pt \<Rightarrow>
                if IsKeyLoaded (sl_pubkey sl) (hd_signer h) then (take_lease now (sl_pubkey sl) (sl_user_id sl) h, True)
                else installSealedKey V now sl (bytes_str pt) h);
             (h, found, restored) = unseal_loop V now userID half seals h
         in (h, found + 1, if ok then restored + 1 else restored)))"

definition handleSessionUnseal ::
    "stay_env \<Rightarrow> time \<Rightarrow> string \<Rightarrow> string \<Rightarrow> bytes \<Rightarrow> handler \<Rightarrow> handler \<times> unseal_result" where
  "handleSessionUnseal V now userID sessionID half h =
     (if hd_sealer h = None \<or> sessionID = '''' then (h, NoSplitSeal)
      else case unseal_loop V now userID half (ListSessionSealsBySession now sessionID (hd_users h)) h of
        (h, found, restored) \<Rightarrow>
          (h, if found = 0 then NoSplitSeal else if restored = 0 then SealMismatch else Restored restored))"

section \<open>Signing out and deleting an account\<close>

definition unloadUserVaultKeys :: "string \<Rightarrow> handler \<Rightarrow> handler" where
  "unloadUserVaultKeys userID h =
     foldl (\<lambda>h k. if IsVaultEncrypted (k_encrypted_nsec k) then on_signer (UnregisterKey (k_pubkey k)) h else h)
       h (map (deref (hd_keys h)) (ListKeys userID (hd_keys h)))"

definition endSessions :: "time \<Rightarrow> string \<Rightarrow> string \<Rightarrow> handler \<Rightarrow> handler" where
  "endSessions now userID keep h =
     set_users (foldl (\<lambda>st s. if us_id s = keep then st else DeleteUserSession (us_id s) st)
       (hd_users h) (ListUserSessions now userID (hd_users h))) h"

definition hasLiveSession :: "time \<Rightarrow> string \<Rightarrow> handler \<Rightarrow> bool" where
  "hasLiveSession now userID h \<longleftrightarrow>
     list_ex (\<lambda>s. us_expires_at s > now) (ListUserSessions now userID (hd_users h))"

text \<open>Sign out everywhere.\<close>

definition handleUserLogout :: "time \<Rightarrow> string \<Rightarrow> handler \<Rightarrow> handler" where
  "handleUserLogout now userID h =
     (let h = unloadUserVaultKeys userID h; h = fst (revokeUserSeals now userID h)
      in set_users (DeleteUserSessions userID (hd_users h)) h)"

text \<open>Sign out of one session; with the last one the keys go as well.\<close>

definition handleSessionLogout :: "time \<Rightarrow> string \<Rightarrow> string \<Rightarrow> handler \<Rightarrow> handler" where
  "handleSessionLogout now userID sessionID h =
     (if sessionID = '''' then h
      else case GetUserSession now sessionID (hd_users h) of
        Inl _ \<Rightarrow> h
      | Inr sess \<Rightarrow>
          if us_user_id sess \<noteq> userID then h
          else
            (let h = set_users (fst (DeleteSessionSealsBySession (us_id sess) (hd_users h))) h;
                 h = set_users (DeleteUserSession (us_id sess) (hd_users h)) h
             in if hasLiveSession now userID h then h
                else fst (revokeUserSeals now userID (unloadUserVaultKeys userID h))))"

text \<open>The grants of a key are revoked one by one, and the key is dropped from memory.\<close>

definition delete_key_grants :: "key \<Rightarrow> handler \<Rightarrow> handler" where
  "delete_key_grants k h =
     on_signer (UnregisterKey (k_pubkey k))
       (on_signer (\<lambda>sn. sn\<lparr>sn_store := foldl (\<lambda>st p. DeletePermission (k_pubkey k) (pm_user_pubkey p) st)
                                   (sn_store sn) (ListPermissions (k_pubkey k) (sn_store sn))\<rparr>) h)"

text \<open>The in-memory store cannot fail in steps 1 and 3; the Vault steps are left out.\<close>

definition deleteAccount :: "time \<Rightarrow> string \<Rightarrow> handler \<Rightarrow> handler" where
  "deleteAccount now userID h =
     (let h = set_users (DeleteUserSessions userID (hd_users h)) h;
          h = fst (revokeUserSeals now userID h);
          keys = map (deref (hd_keys h)) (ListKeys userID (hd_keys h));
          h = foldl (\<lambda>h k. delete_key_grants k h) h keys;
          h = on_signer (\<lambda>sn. sn\<lparr>sn_store := foldl (\<lambda>st k. fst (DeleteKey (k_id k) st)) (sn_store sn) keys\<rparr>) h
      in set_users (fst (DeleteUser userID (hd_users h))) h)"

end
