(* ===== verification/KeyLifetime.thy ===== *)
theory KeyLifetime
  imports StaySignedIn
begin

text \<open>
  How long a user's key stays in memory: what a reconcile pass does, what signing out unloads and
  keeps unloaded, and what deleting an account leaves.
\<close>

abbreviation mem :: "handler \<Rightarrow> string \<Rightarrow> string option" where
  "mem h \<equiv> map_of (sn_keys (hd_signer h))"

abbreviation hd_seals :: "handler \<Rightarrow> session_seal list" where
  "hd_seals h \<equiv> map snd (ut_seals (hd_users h))"

lemma loaded_iff: "IsKeyLoaded pk (hd_signer h) \<longleftrightarrow> mem h pk \<noteq> None"
  by (simp add: IsKeyLoaded_def)

section \<open>Effects of the steps\<close>

lemma set_users_simps [simp]:
  "hd_users (set_users st h) = st" "mem (set_users st h) = mem h" "hd_keys (set_users st h) = hd_keys h"
  "hd_sealer (set_users st h) = hd_sealer h" "hd_leases (set_users st h) = hd_leases h"
  "hd_miss_until (set_users st h) = hd_miss_until h"
  by (simp_all add: set_users_def)

lemma take_lease_simps [simp]:
  "hd_signer (take_lease now pk u h) = hd_signer h" "hd_sealer (take_lease now pk u h) = hd_sealer h"
  "map_of (hd_leases (take_lease now pk u h)) = (map_of (hd_leases h))(pk \<mapsto> \<lparr>ls_user_id = u, ls_at = now\<rparr>)"
  by (simp_all add: take_lease_def update_conv')

lemma unregister_simps [simp]:
  "map_of (sn_keys (UnregisterKey pk sn)) = (map_of (sn_keys sn))(pk := None)"
  "sn_users (UnregisterKey pk sn) = sn_users sn" "sn_store (UnregisterKey pk sn) = sn_store sn"
  by (simp_all add: UnregisterKey_def delete_conv')

lemma on_signer_simps [simp]:
  "hd_signer (on_signer f h) = f (hd_signer h)" "hd_sealer (on_signer f h) = hd_sealer h"
  "hd_leases (on_signer f h) = hd_leases h" "hd_miss_until (on_signer f h) = hd_miss_until h"
  by (simp_all add: on_signer_def)

lemma unload_simps [simp]:
  "mem (unloadSealedKey pk h) = (mem h)(pk := None)" "hd_users (unloadSealedKey pk h) = hd_users h"
  "hd_keys (unloadSealedKey pk h) = hd_keys h" "hd_sealer (unloadSealedKey pk h) = hd_sealer h"
  "hd_leases (unloadSealedKey pk h) = hd_leases h"
  by (auto simp: unloadSealedKey_def IsKeyLoaded_def fun_upd_idem)

lemma lock_simps [simp]:
  "mem (lockSealedKey pk h) = (mem h)(pk := None)" "hd_users (lockSealedKey pk h) = hd_users h"
  "hd_keys (lockSealedKey pk h) = hd_keys h" "hd_sealer (lockSealedKey pk h) = hd_sealer h"
  "map_of (hd_leases (lockSealedKey pk h)) = (map_of (hd_leases h))(pk := None)"
  by (simp_all add: lockSealedKey_def delete_conv')

lemma register_simps [simp]:
  "map_of (sn_keys (RegisterKey pk priv sn)) = (map_of (sn_keys sn))(pk \<mapsto> priv)"
  "map_of (sn_keys (RegisterProxyKey pk priv uri sn)) = (map_of (sn_keys sn))(pk \<mapsto> priv)"
  "sn_users (RegisterKey pk priv sn) = sn_users sn" "sn_users (RegisterProxyKey pk priv uri sn) = sn_users sn"
  "sn_store (RegisterKey pk priv sn) = sn_store sn" "sn_store (RegisterProxyKey pk priv uri sn) = sn_store sn"
  by (simp_all add: RegisterKey_def RegisterProxyKey_def update_conv')

lemma drop_seals [simp]:
  "map snd (ut_seals (fst (dropSessionSealsLocked P st))) = filter (\<lambda>sl. \<not> P sl) (map snd (ut_seals st))"
  "ut_sessions (fst (dropSessionSealsLocked P st)) = ut_sessions st"
  by (simp_all add: dropSessionSealsLocked_def Let_def filter_map comp_def split_def)

text \<open>Keys on the heap are stored under their own public key.\<close>

definition keys_filed :: "handler \<Rightarrow> bool" where
  "keys_filed h \<longleftrightarrow> (\<forall>pk r. GetKeyByPubkey pk (hd_keys h) = Inr r \<longrightarrow> k_pubkey (deref (hd_keys h) r) = pk)"

lemma install_cases:
  assumes "installSealedKey V now sl priv h = (h', b)" "keys_filed h"
  shows "hd_users h' = hd_users h" "hd_keys h' = hd_keys h" "hd_sealer h' = hd_sealer h"
    "b \<longleftrightarrow> ye_pubkey V priv = Some (sl_pubkey sl) \<and> (\<exists>r. GetKeyByPubkey (sl_pubkey sl) (hd_keys h) = Inr r)"
    "\<not> b \<Longrightarrow> h' = h"
    "b \<Longrightarrow> mem h' = (mem h)(sl_pubkey sl \<mapsto> priv) \<and>
       map_of (hd_leases h') = (map_of (hd_leases h))(sl_pubkey sl \<mapsto> \<lparr>ls_user_id = sl_user_id sl, ls_at = now\<rparr>)"
  using assms by (auto simp: installSealedKey_def keys_filed_def Let_def split: if_splits sum.splits)

section \<open>A reconcile pass\<close>

text \<open>A seal that this replica can open by itself, and the key it holds.\<close>

definition restorable :: "stay_env \<Rightarrow> sealer option \<Rightarrow> session_seal \<Rightarrow> string \<Rightarrow> bool" where
  "restorable V sealer sl priv \<longleftrightarrow> sl_mode sl \<noteq> ''split'' \<and>
     (\<exists>s pt. sealer = Some s \<and> sl_mode sl = sealerMode s \<and> priv = bytes_str pt \<and>
        sealerOpen (ye_crypto V) s (sl_sealed sl) \<lparr>bd_pubkey = sl_pubkey sl, bd_session_id = sl_session_id sl\<rparr> = Inr pt \<and>
        ye_pubkey V priv = Some (sl_pubkey sl))"

definition known :: "handler \<Rightarrow> string \<Rightarrow> bool" where
  "known h pk \<longleftrightarrow> (\<exists>r. GetKeyByPubkey pk (hd_keys h) = Inr r)"

definition same_store :: "handler \<Rightarrow> handler \<Rightarrow> bool" where
  "same_store h h' \<longleftrightarrow> hd_users h' = hd_users h \<and> hd_keys h' = hd_keys h \<and> hd_sealer h' = hd_sealer h"

lemma same_storeD:
  assumes "same_store h h'"
  shows "hd_users h' = hd_users h" "hd_keys h' = hd_keys h" "hd_sealer h' = hd_sealer h"
    "keys_filed h' = keys_filed h" "known h' = known h"
  using assms by (auto simp: same_store_def keys_filed_def known_def)

lemma restore_outcome:
  assumes "restoreFromSeals V now seals h = (h', b)" "keys_filed h" "\<forall>sl \<in> set seals. sl_pubkey sl = pk"
  shows "same_store h h'"
    "b \<longleftrightarrow> known h pk \<and> (\<exists>sl \<in> set seals. \<exists>priv. restorable V (hd_sealer h) sl priv)"
    "\<not> b \<Longrightarrow> h' = h"
    "b \<Longrightarrow> \<exists>sl \<in> set seals. \<exists>priv. restorable V (hd_sealer h) sl priv \<and> mem h' = (mem h)(pk \<mapsto> priv)"
proof -
  have *: "same_store h h' \<and> (b \<longleftrightarrow> known h pk \<and> (\<exists>sl \<in> set seals. \<exists>priv. restorable V (hd_sealer h) sl priv)) \<and>
      (\<not> b \<longrightarrow> h' = h) \<and>
      (b \<longrightarrow> (\<exists>sl \<in> set seals. \<exists>priv. restorable V (hd_sealer h) sl priv \<and> mem h' = (mem h)(pk \<mapsto> priv)))"
    using assms
  proof (induction seals)
    case Nil
    then show ?case by (auto simp: same_store_def)
  next
    case (Cons sl seals)
    show ?case
    proof (cases "\<exists>priv. restorable V (hd_sealer h) sl priv")
      case True
      then obtain s pt where r: "sl_mode sl \<noteq> ''split''" "hd_sealer h = Some s" "sl_mode sl = sealerMode s"
          "sealerOpen (ye_crypto V) s (sl_sealed sl) \<lparr>bd_pubkey = sl_pubkey sl, bd_session_id = sl_session_id sl\<rparr> = Inr pt"
          "ye_pubkey V (bytes_str pt) = Some pk"
        using Cons.prems by (auto simp: restorable_def)
      obtain h1 b1 where i: "installSealedKey V now sl (bytes_str pt) h = (h1, b1)" by force
      have rs: "restorable V (hd_sealer h) sl (bytes_str pt)" using r Cons.prems by (auto simp: restorable_def)
      note ic = install_cases [OF i Cons.prems(2)]
      show ?thesis
      proof (cases b1)
        case True
        then have "h' = h1" "b" using Cons.prems(1) r i by auto
        then show ?thesis using True ic rs Cons.prems r by (auto simp: same_store_def known_def)
      next
        case False
        then have "restoreFromSeals V now seals h = (h', b)" "\<not> known h pk"
          using Cons.prems ic r i by (auto simp: known_def)
        then show ?thesis using Cons by auto
      qed
    next
      case False
      then have "restoreFromSeals V now seals h = (h', b) \<or> (hd_sealer h = None \<and> h' = h \<and> \<not> b)"
        using Cons.prems(1,3) install_cases [OF _ Cons.prems(2)]
        by (auto simp: restorable_def split: if_splits option.splits sum.splits prod.splits bool.splits) fastforce+
      moreover have "\<not> restorable V None sl' priv" for sl' priv by (simp add: restorable_def)
      ultimately show ?thesis using Cons False by (auto simp: same_store_def)
    qed
  qed
  show "same_store h h'" "b \<longleftrightarrow> known h pk \<and> (\<exists>sl \<in> set seals. \<exists>priv. restorable V (hd_sealer h) sl priv)"
    using * by blast+
  show "\<not> b \<Longrightarrow> h' = h" using * by blast
  show "b \<Longrightarrow> \<exists>sl \<in> set seals. \<exists>priv. restorable V (hd_sealer h) sl priv \<and> mem h' = (mem h)(pk \<mapsto> priv)"
    using * by blast
qed

lemma restore_leases:
  "\<forall>sl \<in> set seals. sl_pubkey sl = pk \<Longrightarrow> q \<noteq> pk \<Longrightarrow>
     map_of (hd_leases (fst (restoreFromSeals V now seals h))) q = map_of (hd_leases h) q"
proof (induction seals)
  case (Cons sl seals)
  have "map_of (hd_leases (fst (installSealedKey V now sl priv h))) q = map_of (hd_leases h) q" for priv
    using Cons.prems by (auto simp: installSealedKey_def Let_def split: sum.splits)
  moreover have "snd (installSealedKey V now sl priv h) \<or> fst (installSealedKey V now sl priv h) = h" for priv
    by (auto simp: installSealedKey_def Let_def split: sum.splits)
  ultimately show ?case
    using Cons by (auto split: option.splits sum.splits prod.splits bool.splits) (metis fst_conv snd_conv)+
qed simp

lemma restore_loop_leases:
  "pk \<notin> set pks \<Longrightarrow> map_of (hd_leases (foldl (\<lambda>h pk. if IsKeyLoaded pk (hd_signer h) then h
       else fst (restoreFromSeals V t (filter (\<lambda>sl. sl_pubkey sl = pk) live) h)) h pks)) pk = map_of (hd_leases h) pk"
proof (induction pks arbitrary: h)
  case (Cons a pks)
  then show ?case by (simp add: restore_leases [of "filter (\<lambda>sl. sl_pubkey sl = a) live" a pk])
qed simp

lemma restore_loop:
  fixes live :: "session_seal list"
  defines "pass V t \<equiv> (\<lambda>h pk. if IsKeyLoaded pk (hd_signer h) then h
                     else fst (restoreFromSeals V t (filter (\<lambda>sl. sl_pubkey sl = pk) live) h))"
  assumes "keys_filed h"
  shows "same_store h (foldl (pass V t) h pks)" (is ?S)
    "mem h pk = Some priv \<Longrightarrow> mem (foldl (pass V t) h pks) pk = Some priv"
    "mem h pk = None \<Longrightarrow>
       mem (foldl (pass V t) h pks) pk \<noteq> None \<longleftrightarrow>
         pk \<in> set pks \<and> known h pk \<and> (\<exists>sl \<in> set live. sl_pubkey sl = pk \<and> (\<exists>priv. restorable V (hd_sealer h) sl priv))"
    "mem h pk = None \<Longrightarrow> mem (foldl (pass V t) h pks) pk = Some priv \<Longrightarrow>
       \<exists>sl \<in> set live. sl_pubkey sl = pk \<and> restorable V (hd_sealer h) sl priv"
proof -
  have step: "same_store h (pass V t h q) \<and>
      mem (pass V t h q) pk = (if pk = q then mem (pass V t h q) q else mem h pk) \<and>
      (mem h q \<noteq> None \<longrightarrow> pass V t h q = h) \<and>
      (mem h q = None \<longrightarrow>
         (mem (pass V t h q) q \<noteq> None \<longleftrightarrow>
            known h q \<and> (\<exists>sl \<in> set live. sl_pubkey sl = q \<and> (\<exists>priv. restorable V (hd_sealer h) sl priv))) \<and>
         (\<forall>priv. mem (pass V t h q) q = Some priv \<longrightarrow>
            (\<exists>sl \<in> set live. sl_pubkey sl = q \<and> restorable V (hd_sealer h) sl priv)))"
    if "keys_filed h" for h q pk
  proof (cases "mem h q = None")
    case True
    obtain h1 b where r: "restoreFromSeals V t (filter (\<lambda>sl. sl_pubkey sl = q) live) h = (h1, b)" by force
    have p: "pass V t h q = h1" using True r by (simp add: pass_def IsKeyLoaded_def)
    note ro = restore_outcome [OF r that, of q]
    show ?thesis
    proof (cases b)
      case b: True
      then obtain sl priv where "sl \<in> set live" "sl_pubkey sl = q" "restorable V (hd_sealer h) sl priv"
          "mem h1 = (mem h)(q \<mapsto> priv)" using ro(4) by auto
      then show ?thesis using True b ro(1,2) p by auto
    next
      case False
      then have "h1 = h" using ro(3) by simp
      then show ?thesis using True False ro(1,2) p by auto
    qed
  qed (auto simp: pass_def IsKeyLoaded_def same_store_def)
  have *: "same_store h (foldl (pass V t) h pks) \<and>
    (\<forall>priv. mem h pk = Some priv \<longrightarrow> mem (foldl (pass V t) h pks) pk = Some priv) \<and>
    (mem h pk = None \<longrightarrow>
       (mem (foldl (pass V t) h pks) pk \<noteq> None \<longleftrightarrow>
         pk \<in> set pks \<and> known h pk \<and> (\<exists>sl \<in> set live. sl_pubkey sl = pk \<and> (\<exists>priv. restorable V (hd_sealer h) sl priv))) \<and>
       (\<forall>priv. mem (foldl (pass V t) h pks) pk = Some priv \<longrightarrow>
          (\<exists>sl \<in> set live. sl_pubkey sl = pk \<and> restorable V (hd_sealer h) sl priv)))"
    for pk
    using assms(2)
  proof (induction pks arbitrary: h)
    case (Cons q pks)
    note s = step [OF Cons.prems, where q = q and pk = pk]
    have st: "same_store h (pass V t h q)" using s by blast
    have kf: "keys_filed (pass V t h q)" using same_storeD(4) [OF st] Cons.prems by simp
    note IH = Cons.IH [OF kf]
    note sd = same_storeD [OF st]
    show ?case
    proof (cases "pk = q")
      case True
      show ?thesis
      proof (cases "mem h q")
        case (Some x)
        then have "pass V t h q = h" using s by simp
        then show ?thesis using IH True Some by simp
      next
        case None
        then show ?thesis using s IH sd True by (cases "mem (pass V t h q) q") (auto simp: same_store_def)
      qed
    next
      case False
      then show ?thesis using s IH sd by (auto simp: same_store_def)
    qed
  qed (simp add: same_store_def)
  show ?S using * by blast
  show "mem h pk = Some priv \<Longrightarrow> mem (foldl (pass V t) h pks) pk = Some priv" using * by blast
  show "mem h pk = None \<Longrightarrow>
       mem (foldl (pass V t) h pks) pk \<noteq> None \<longleftrightarrow>
         pk \<in> set pks \<and> known h pk \<and> (\<exists>sl \<in> set live. sl_pubkey sl = pk \<and> (\<exists>priv. restorable V (hd_sealer h) sl priv))"
    using * by blast
  show "mem h pk = None \<Longrightarrow> mem (foldl (pass V t) h pks) pk = Some priv \<Longrightarrow>
       \<exists>sl \<in> set live. sl_pubkey sl = pk \<and> restorable V (hd_sealer h) sl priv"
    using * by blast
qed

lemma lock_loop:
  "same_store h (foldl (\<lambda>h pk. lockSealedKeyIfStale t pk h) h pks)"
  "mem (foldl (\<lambda>h pk. lockSealedKeyIfStale t pk h) h pks) pk =
     (if pk \<in> set pks \<and> (\<exists>l. map_of (hd_leases h) pk = Some l \<and> ls_at l < t) then None else mem h pk)"
  "map_of (hd_leases (foldl (\<lambda>h pk. lockSealedKeyIfStale t pk h) h pks)) pk =
     (if pk \<in> set pks \<and> (\<exists>l. map_of (hd_leases h) pk = Some l \<and> ls_at l < t) then None else map_of (hd_leases h) pk)"
  by (induction pks arbitrary: h)
     (auto simp: lockSealedKeyIfStale_def same_store_def split: option.splits)

lemma drop_sessions_seals:
  "map snd (ut_seals (foldl (\<lambda>st sid. fst (DeleteSessionSealsBySession sid st)) st sids)) =
     filter (\<lambda>sl. sl_session_id sl \<notin> set sids) (map snd (ut_seals st))"
  "ut_sessions (foldl (\<lambda>st sid. fst (DeleteSessionSealsBySession sid st)) st sids) = ut_sessions st"
  by (induction sids arbitrary: st) (auto simp: DeleteSessionSealsBySession_def filter_filter conj_commute intro!: filter_cong)

lemma liveSeals_spec:
  assumes "liveSeals V now h = (h', live, unsure)"
  shows "hd_signer h' = (hd_signer h)\<lparr>sn_users := hd_users h'\<rparr>" "hd_sealer h' = hd_sealer h"
    "hd_leases h' = hd_leases h" "hd_miss_until h' = hd_miss_until h" "hd_keys h' = hd_keys h" "mem h' = mem h"
    "live = filter (\<lambda>sl. session_live V now (hd_users h) (sl_session_id sl) = Some True) (ListLiveSessionSeals now (hd_users h))"
    "unsure = map sl_pubkey (filter (\<lambda>sl. session_live V now (hd_users h) (sl_session_id sl) = None)
       (ListLiveSessionSeals now (hd_users h)))"
    "hd_seals h' = filter (\<lambda>sl. \<not> (session_live V now (hd_users h) (sl_session_id sl) = Some False \<and>
         sl_session_id sl \<in> sl_session_id ` set (ListLiveSessionSeals now (hd_users h)))) (hd_seals h)"
    "ut_sessions (hd_users h') = ut_sessions (hd_users h)"
proof -
  let ?ended = "filter (\<lambda>sid. session_live V now (hd_users h) sid = Some False)
    (remdups (map sl_session_id (ListLiveSessionSeals now (hd_users h))))"
  have h': "h' = set_users (foldl (\<lambda>st sid. fst (DeleteSessionSealsBySession sid st)) (hd_users h) ?ended) h"
    and l: "live = filter (\<lambda>sl. session_live V now (hd_users h) (sl_session_id sl) = Some True) (ListLiveSessionSeals now (hd_users h))"
    and u: "unsure = map sl_pubkey (filter (\<lambda>sl. session_live V now (hd_users h) (sl_session_id sl) = None)
       (ListLiveSessionSeals now (hd_users h)))"
    using assms by (simp_all add: liveSeals_def Let_def)
  show "hd_signer h' = (hd_signer h)\<lparr>sn_users := hd_users h'\<rparr>" "hd_sealer h' = hd_sealer h"
    "hd_leases h' = hd_leases h" "hd_miss_until h' = hd_miss_until h" "hd_keys h' = hd_keys h" "mem h' = mem h"
    by (simp_all add: h' set_users_def)
  show "hd_seals h' = filter (\<lambda>sl. \<not> (session_live V now (hd_users h) (sl_session_id sl) = Some False \<and>
         sl_session_id sl \<in> sl_session_id ` set (ListLiveSessionSeals now (hd_users h)))) (hd_seals h)"
    unfolding h' set_users_simps(1) drop_sessions_seals(1) by (rule filter_cong) auto
  show "ut_sessions (hd_users h') = ut_sessions (hd_users h)"
    unfolding h' set_users_simps(1) drop_sessions_seals(2) ..
  show "live = filter (\<lambda>sl. session_live V now (hd_users h) (sl_session_id sl) = Some True) (ListLiveSessionSeals now (hd_users h))"
    by (rule l)
  show "unsure = map sl_pubkey (filter (\<lambda>sl. session_live V now (hd_users h) (sl_session_id sl) = None)
       (ListLiveSessionSeals now (hd_users h)))" by (rule u)
qed

text \<open>The seals that keep a key unlocked, and the keys the pass cannot decide about.\<close>

definition backing :: "stay_env \<Rightarrow> time \<Rightarrow> handler \<Rightarrow> string \<Rightarrow> session_seal set" where
  "backing V now h pk = {sl \<in> set (ListLiveSessionSeals now (hd_users h)).
     sl_pubkey sl = pk \<and> session_live V now (hd_users h) (sl_session_id sl) = Some True}"

definition undecided :: "stay_env \<Rightarrow> time \<Rightarrow> handler \<Rightarrow> string \<Rightarrow> bool" where
  "undecided V now h pk \<longleftrightarrow> (\<exists>sl \<in> set (ListLiveSessionSeals now (hd_users h)).
     sl_pubkey sl = pk \<and> session_live V now (hd_users h) (sl_session_id sl) = None)"

text \<open>A key held only because of seals that are gone.\<close>

definition overdue :: "stay_env \<Rightarrow> time \<Rightarrow> handler \<Rightarrow> string \<Rightarrow> bool" where
  "overdue V now h pk \<longleftrightarrow> (\<exists>l. map_of (hd_leases h) pk = Some l \<and> ls_at l < now) \<and>
     backing V now h pk = {} \<and> \<not> undecided V now h pk"

lemma reconcile_unfold:
  fixes V now h
  assumes "hd_sealer h \<noteq> None" "keys_filed h"
  defines "h' \<equiv> reconcileSeals V now h"
  shows "\<exists>h1 h2 live pks.
     live = filter (\<lambda>sl. session_live V now (hd_users h) (sl_session_id sl) = Some True) (ListLiveSessionSeals now (hd_users h)) \<and>
     mem h1 = (\<lambda>pk. if overdue V now h pk then None else mem h pk) \<and> keys_filed h1 \<and> known h1 = known h \<and>
     map_of (hd_leases h1) = (\<lambda>pk. if overdue V now h pk then None else map_of (hd_leases h) pk) \<and>
     hd_sealer h1 = hd_sealer h \<and> set pks = sl_pubkey ` set live \<and>
     h2 = foldl (\<lambda>h pk. if IsKeyLoaded pk (hd_signer h) then h
             else fst (restoreFromSeals V now (filter (\<lambda>sl. sl_pubkey sl = pk) live) h)) h1 pks \<and>
     mem h' = mem h2 \<and> hd_leases h' = hd_leases h2 \<and> hd_keys h' = hd_keys h \<and> hd_sealer h' = hd_sealer h \<and>
     ut_sessions (hd_users h') = ut_sessions (hd_users h) \<and>
     hd_seals h' = filter (\<lambda>sl. sl_expires_at sl > now \<and> session_live V now (hd_users h) (sl_session_id sl) \<noteq> Some False)
       (hd_seals h)"
proof -
  obtain h0 live unsure where ls: "liveSeals V now h = (h0, live, unsure)" by (metis prod_cases3)
  note l0 = liveSeals_spec [OF ls]
  define held where "held = map fst (filter (\<lambda>(pk, l). pk \<notin> set (map sl_pubkey live) \<and> pk \<notin> set unsure \<and> ls_at l < now) (hd_leases h0))"
  define h1 where "h1 = foldl (\<lambda>h pk. lockSealedKeyIfStale now pk h) h0 held"
  define pks where "pks = remdups (map sl_pubkey live)"
  define h2 where "h2 = foldl (\<lambda>h pk. if IsKeyLoaded pk (hd_signer h) then h
             else fst (restoreFromSeals V now (filter (\<lambda>sl. sl_pubkey sl = pk) live) h)) h1 pks"
  have s1: "same_store h0 h1" unfolding h1_def by (rule lock_loop(1))
  have kf1: "keys_filed h1" using assms(2) same_storeD(4) [OF s1] l0(5) by (simp add: keys_filed_def)
  have k0: "known h0 = known h" using l0(5) by (simp add: fun_eq_iff known_def)
  have s2: "same_store h1 h2" unfolding h2_def by (rule restore_loop(1) [OF kf1])
  have h': "h' = (let h3 = h2\<lparr>hd_miss_until := filter (\<lambda>(pk, until). \<not> now > until) (hd_miss_until h2)\<rparr>
      in set_users (fst (DeleteExpiredSessionSeals now (hd_users h3))) h3)"
    unfolding h'_def h2_def h1_def pks_def held_def reconcileSeals_def ls Let_def prod.case using assms(1) by (simp only: if_False)
  have od: "overdue V now h pk \<longleftrightarrow> pk \<in> set held \<and> (\<exists>l. map_of (hd_leases h) pk = Some l \<and> ls_at l < now)" for pk
    using l0(3,7,8)
    by (auto simp: held_def overdue_def backing_def undecided_def image_iff dest: map_of_SomeD)
  have seals: "hd_seals h' = filter (\<lambda>sl. sl_expires_at sl > now \<and> session_live V now (hd_users h) (sl_session_id sl) \<noteq> Some False)
       (hd_seals h)"
    using same_storeD(1) [OF s1] same_storeD(1) [OF s2] l0(9)
    by (auto simp: h' Let_def DeleteExpiredSessionSeals_def filter_filter ListLiveSessionSeals_def listSeals_def
        intro!: filter_cong)
  have ss: "ut_sessions (hd_users h') = ut_sessions (hd_users h)"
    using same_storeD(1) [OF s1] same_storeD(1) [OF s2] l0(10)
    by (simp add: h' Let_def DeleteExpiredSessionSeals_def)
  have m: "mem h' = mem h2" "hd_leases h' = hd_leases h2" by (simp_all add: h' Let_def)
  have st: "hd_keys h' = hd_keys h" "hd_sealer h' = hd_sealer h" "hd_sealer h1 = hd_sealer h" "known h1 = known h"
    using same_storeD [OF s1] same_storeD [OF s2] l0(2,5) by (simp_all add: h' Let_def k0)
  have m1: "mem h1 = (\<lambda>pk. if overdue V now h pk then None else mem h pk)"
    by (rule ext) (auto simp: h1_def lock_loop(2) od l0(3,6))
  have l1: "map_of (hd_leases h1) = (\<lambda>pk. if overdue V now h pk then None else map_of (hd_leases h) pk)"
    by (rule ext) (auto simp: h1_def lock_loop(3) od l0(3))
  have p: "set pks = sl_pubkey ` set live" by (simp add: pks_def)
  show ?thesis
    apply (rule exI [of _ h1], rule exI [of _ h2], rule exI [of _ live], rule exI [of _ pks])
    by (intro conjI l0(7) m1 kf1 st l1 p h2_def m ss seals)
qed

text \<open>
  C22. A reconcile pass makes the keys in a replica's memory follow the seals in the store. A key held
  only because of seals that are gone, expired or of an ended session is dropped, with its lease; every
  other loaded key stays. A key that was not loaded is loaded exactly if the store knows it and some
  live seal opens here to a private key of that public key, and then it is such a private key. Seals
  that expired or whose session ended are deleted, no others; a session that could not be checked
  changes nothing.
\<close>

theorem reconcile_follows_seals:
  assumes "hd_sealer h \<noteq> None" "keys_filed h"
  shows "(overdue V now h pk \<longrightarrow> mem (reconcileSeals V now h) pk = None \<and> map_of (hd_leases (reconcileSeals V now h)) pk = None) \<and>
    (\<not> overdue V now h pk \<and> mem h pk = Some priv \<longrightarrow> mem (reconcileSeals V now h) pk = Some priv) \<and>
    (mem h pk = None \<longrightarrow>
       (mem (reconcileSeals V now h) pk \<noteq> None \<longleftrightarrow>
          known h pk \<and> (\<exists>sl \<in> backing V now h pk. \<exists>priv. restorable V (hd_sealer h) sl priv)) \<and>
       (mem (reconcileSeals V now h) pk = Some priv \<longrightarrow> (\<exists>sl \<in> backing V now h pk. restorable V (hd_sealer h) sl priv))) \<and>
    hd_seals (reconcileSeals V now h) =
      filter (\<lambda>sl. sl_expires_at sl > now \<and> session_live V now (hd_users h) (sl_session_id sl) \<noteq> Some False) (hd_seals h)"
proof -
  obtain h1 h2 live pks where
    live: "live = filter (\<lambda>sl. session_live V now (hd_users h) (sl_session_id sl) = Some True) (ListLiveSessionSeals now (hd_users h))"
    and h1: "mem h1 = (\<lambda>pk. if overdue V now h pk then None else mem h pk)" "keys_filed h1" "known h1 = known h"
      "map_of (hd_leases h1) = (\<lambda>pk. if overdue V now h pk then None else map_of (hd_leases h) pk)" "hd_sealer h1 = hd_sealer h"
    and pks: "set pks = sl_pubkey ` set live"
    and h2: "h2 = foldl (\<lambda>h pk. if IsKeyLoaded pk (hd_signer h) then h
             else fst (restoreFromSeals V now (filter (\<lambda>sl. sl_pubkey sl = pk) live) h)) h1 pks"
    and h': "mem (reconcileSeals V now h) = mem h2" "hd_leases (reconcileSeals V now h) = hd_leases h2"
      "hd_seals (reconcileSeals V now h) = filter (\<lambda>sl. sl_expires_at sl > now \<and>
         session_live V now (hd_users h) (sl_session_id sl) \<noteq> Some False) (hd_seals h)"
    using reconcile_unfold [OF assms, of V now] by blast
  have b: "sl \<in> backing V now h q \<longleftrightarrow> sl \<in> set live \<and> sl_pubkey sl = q" for sl q
    by (auto simp: backing_def live)
  note loop = restore_loop [OF h1(2), where live = live and V = V and t = now and pks = pks, folded h2]
  have od: "pk \<notin> set pks" if "overdue V now h pk" using that b pks by (auto simp: overdue_def)
  have leases: "map_of (hd_leases h2) pk = map_of (hd_leases h1) pk" if "pk \<notin> set pks"
    using restore_loop_leases [OF that] h2 by simp
  have 1: "mem h2 pk = None \<and> map_of (hd_leases h2) pk = None" if "overdue V now h pk"
    using leases od that loop(3) [of pk] h1(1,4) by (cases "mem h2 pk") simp_all
  have 2: "mem h2 pk = Some priv" if "\<not> overdue V now h pk" "mem h pk = Some priv"
    using loop(2) that h1(1) by simp
  have 3: "mem h2 pk \<noteq> None \<longleftrightarrow> known h pk \<and> (\<exists>sl \<in> backing V now h pk. \<exists>priv. restorable V (hd_sealer h) sl priv)"
    if "mem h pk = None"
    using loop(3) [of pk] that h1(1,3,5) pks by (auto simp: Bex_def b)
  have 4: "\<exists>sl \<in> backing V now h pk. restorable V (hd_sealer h) sl priv" if "mem h pk = None" "mem h2 pk = Some priv"
    using loop(4) [of pk] that h1(1,5) by (auto simp: Bex_def b)
  show ?thesis using 1 2 3 4 h' by simp
qed

text \<open>
  A replica of user \<open>o\<close> with three keys: \<open>role\<close> (in Vault) is loaded on an old lease whose seal has
  expired, \<open>user\<close> is sealed by a key file under the live session \<open>s1\<close> and not loaded, \<open>pass\<close> was
  unlocked with the passphrase by a session-only sign-in.
\<close>

definition toy_keyfile :: sealer where
  "toy_keyfile = SealKeyfile [1] [9, 9]"

definition toy_seal :: "string \<Rightarrow> string \<Rightarrow> time \<Rightarrow> session_seal" where
  "toy_seal pk priv e = \<lparr>sl_id = pk, sl_user_id = ''o'', sl_key_id = take 2 pk, sl_pubkey = pk, sl_session_id = ''s1'',
     sl_mode = ''keyfile'', sl_sliding = True,
     sl_sealed = projr (sealerSeal toy_seal_crypto (replicate 12 2) toy_keyfile (str_bytes priv)
       \<lparr>bd_pubkey = pk, bd_session_id = ''s1''\<rparr>),
     sl_expires_at = e, sl_created_at = 0\<rparr>"

definition toy_owner_keys :: grant_store where
  "toy_owner_keys =
     \<lparr>gs_heap = [1 \<mapsto> (toy_key ''role'' True)\<lparr>k_encrypted_nsec := ''vault:v1:x''\<rparr>,
        2 \<mapsto> (toy_key ''user'' False)\<lparr>k_encrypted_nsec := ''pbk:x''\<rparr>,
        3 \<mapsto> (toy_key ''pass'' False)\<lparr>k_encrypted_nsec := ''pbk:y''\<rparr>],
      gs_keys = [(''ro'', 1), (''us'', 2), (''pa'', 3)], gs_by_pubkey = [''role'' \<mapsto> 1, ''user'' \<mapsto> 2, ''pass'' \<mapsto> 3],
      gs_by_name = Map.empty, gs_permissions = [''user'' \<mapsto> [(''alice'', toy_perm ''user'' ''alice'')]]\<rparr>"

definition toy_replica :: handler where
  "toy_replica =
     \<lparr>hd_signer = toy_signer\<lparr>sn_keys := [(''role'', ''sk1''), (''pass'', ''sk3'')], sn_store := toy_owner_keys,
        sn_users := toy_users\<lparr>ut_sessions := [(''s1'', toy_sess ''s1'' ''o'')],
          ut_seals := [(''x'', toy_seal ''role'' ''sk1'' 20), (''y'', toy_seal ''user'' ''sk2'' 90)]\<rparr>\<rparr>,
      hd_sealer = Some toy_keyfile, hd_leases = [(''role'', \<lparr>ls_user_id = ''o'', ls_at = 5\<rparr>)], hd_miss_until = []\<rparr>"

definition toy_stay :: stay_env where
  "toy_stay = \<lparr>ye_crypto = toy_seal_crypto,
     ye_pubkey = [''sk1'' \<mapsto> ''role'', ''sk2'' \<mapsto> ''user'', ''sk3'' \<mapsto> ''pass''], ye_session_fails = (\<lambda>_. False)\<rparr>"

lemma toy_filed: "keys_filed toy_replica"
  by (auto simp: keys_filed_def GetKeyByPubkey_def deref_def toy_replica_def toy_owner_keys_def toy_key_def split: if_splits)

theorem reconcile_follows_seals_witness:
  "mem (reconcileSeals toy_stay 50 toy_replica) ''role'' = None \<and>
   mem (reconcileSeals toy_stay 50 toy_replica) ''pass'' = Some ''sk3'' \<and>
   mem (reconcileSeals toy_stay 50 toy_replica) ''user'' \<noteq> None"
proof -
  have s: "hd_sealer toy_replica \<noteq> None" by (simp add: toy_replica_def)
  have live: "ListLiveSessionSeals 50 (hd_users toy_replica) = [toy_seal ''user'' ''sk2'' 90]"
    by (simp add: ListLiveSessionSeals_def listSeals_def toy_replica_def toy_seal_def)
  have sess: "session_live toy_stay 50 (hd_users toy_replica) ''s1'' = Some True"
    by code_simp
  have b: "backing toy_stay 50 toy_replica ''role'' = {}" "\<not> undecided toy_stay 50 toy_replica ''role''"
    "toy_seal ''user'' ''sk2'' 90 \<in> backing toy_stay 50 toy_replica ''user''"
    by (auto simp: backing_def undecided_def live sess toy_seal_def)
  have 1: "overdue toy_stay 50 toy_replica ''role''"
    using b by (simp add: overdue_def toy_replica_def)
  have 2: "\<not> overdue toy_stay 50 toy_replica ''pass''" "mem toy_replica ''pass'' = Some ''sk3''"
    by (simp_all add: overdue_def toy_replica_def)
  have "sealerOpen toy_seal_crypto toy_keyfile (sl_sealed (toy_seal ''user'' ''sk2'' 90))
      \<lparr>bd_pubkey = ''user'', bd_session_id = ''s1''\<rparr> = Inr (str_bytes ''sk2'')" by code_simp
  moreover have t: "bytes_str (str_bytes ''sk2'') = ''sk2''" by code_simp
  ultimately have "restorable toy_stay (hd_sealer toy_replica) (toy_seal ''user'' ''sk2'' 90) ''sk2''"
    unfolding restorable_def
    by (intro conjI exI [of _ toy_keyfile] exI [of _ "str_bytes ''sk2''"])
       (simp_all add: toy_replica_def toy_stay_def toy_seal_def, simp add: toy_keyfile_def)
  moreover have 3: "mem toy_replica ''user'' = None" "known toy_replica ''user''"
    by (simp_all add: toy_replica_def known_def GetKeyByPubkey_def toy_owner_keys_def)
  ultimately have "mem (reconcileSeals toy_stay 50 toy_replica) ''user'' \<noteq> None"
    using reconcile_follows_seals [OF s toy_filed, of toy_stay 50 "''user''"] b(3) by blast
  then show ?thesis
    using reconcile_follows_seals [OF s toy_filed, of toy_stay 50 "''role''"]
      reconcile_follows_seals [OF s toy_filed, of toy_stay 50 "''pass''" "''sk3''"] 1 2 by blast
qed

section \<open>Signing out\<close>

lemma lock_all:
  "same_store h (foldl (\<lambda>h pk. lockSealedKey pk h) h pks)"
  "mem (foldl (\<lambda>h pk. lockSealedKey pk h) h pks) pk = (if pk \<in> set pks then None else mem h pk)"
  "map_of (hd_leases (foldl (\<lambda>h pk. lockSealedKey pk h) h pks)) pk =
     (if pk \<in> set pks then None else map_of (hd_leases h) pk)"
  by (induction pks arbitrary: h) (auto simp: same_store_def)

lemma unload_vault:
  "hd_users (unloadUserVaultKeys u h) = hd_users h" "hd_keys (unloadUserVaultKeys u h) = hd_keys h"
  "hd_sealer (unloadUserVaultKeys u h) = hd_sealer h" "hd_leases (unloadUserVaultKeys u h) = hd_leases h"
  "mem (unloadUserVaultKeys u h) pk =
     (if \<exists>r \<in> set (ListKeys u (hd_keys h)). IsVaultEncrypted (k_encrypted_nsec (deref (hd_keys h) r)) \<and>
           k_pubkey (deref (hd_keys h) r) = pk
      then None else mem h pk)"
proof -
  have *: "hd_users h' = hd_users g \<and> hd_keys h' = hd_keys g \<and> hd_sealer h' = hd_sealer g \<and> hd_leases h' = hd_leases g \<and>
      mem h' pk = (if \<exists>k \<in> set ks. IsVaultEncrypted (k_encrypted_nsec k) \<and> k_pubkey k = pk then None else mem g pk)"
    if "h' = foldl (\<lambda>h k. if IsVaultEncrypted (k_encrypted_nsec k) then on_signer (UnregisterKey (k_pubkey k)) h else h) g ks"
    for ks g h'
    unfolding that by (induction ks arbitrary: g) auto
  from * [OF unloadUserVaultKeys_def]
  show "hd_users (unloadUserVaultKeys u h) = hd_users h" "hd_keys (unloadUserVaultKeys u h) = hd_keys h"
    "hd_sealer (unloadUserVaultKeys u h) = hd_sealer h" "hd_leases (unloadUserVaultKeys u h) = hd_leases h"
    "mem (unloadUserVaultKeys u h) pk =
       (if \<exists>r \<in> set (ListKeys u (hd_keys h)). IsVaultEncrypted (k_encrypted_nsec (deref (hd_keys h) r)) \<and>
             k_pubkey (deref (hd_keys h) r) = pk
        then None else mem h pk)"
    by auto
qed

text \<open>The keys that this replica holds for a user because of a seal.\<close>

definition held_for :: "time \<Rightarrow> string \<Rightarrow> handler \<Rightarrow> string \<Rightarrow> bool" where
  "held_for now u h pk \<longleftrightarrow> (\<exists>sl \<in> set (ListSessionSealsByUser now u (hd_users h)). sl_pubkey sl = pk) \<or>
     (\<exists>l. (pk, l) \<in> set (hd_leases h) \<and> ls_user_id l = u)"

lemma revoke_seals:
  assumes "hd_sealer h \<noteq> None"
  shows "hd_users (fst (revokeUserSeals now u h)) = fst (DeleteSessionSealsByUser u (hd_users h))"
    "hd_keys (fst (revokeUserSeals now u h)) = hd_keys h" "hd_sealer (fst (revokeUserSeals now u h)) = hd_sealer h"
    "mem (fst (revokeUserSeals now u h)) pk = (if held_for now u h pk then None else mem h pk)"
    "map_of (hd_leases (fst (revokeUserSeals now u h))) pk = (if held_for now u h pk then None else map_of (hd_leases h) pk)"
proof -
  let ?pks = "remdups (map sl_pubkey (ListSessionSealsByUser now u (hd_users h)) @
    map fst (filter (\<lambda>(pk, l). ls_user_id l = u) (hd_leases h)))"
  have r: "fst (revokeUserSeals now u h) =
      foldl (\<lambda>h pk. lockSealedKey pk h) (set_users (fst (DeleteSessionSealsByUser u (hd_users h))) h) ?pks"
    using assms by (auto simp: revokeUserSeals_def Let_def split_def)
  have p: "pk \<in> set ?pks \<longleftrightarrow> held_for now u h pk" for pk
    by (force simp: held_for_def)
  show "hd_users (fst (revokeUserSeals now u h)) = fst (DeleteSessionSealsByUser u (hd_users h))"
    "hd_keys (fst (revokeUserSeals now u h)) = hd_keys h" "hd_sealer (fst (revokeUserSeals now u h)) = hd_sealer h"
    unfolding r by (simp_all only: same_storeD [OF lock_all(1)] set_users_simps)
  show "mem (fst (revokeUserSeals now u h)) pk = (if held_for now u h pk then None else mem h pk)"
    "map_of (hd_leases (fst (revokeUserSeals now u h))) pk = (if held_for now u h pk then None else map_of (hd_leases h) pk)"
    unfolding r lock_all(2,3) p by simp_all
qed

lemma sessions_of_filter:
  "sessions_of v (st\<lparr>ut_sessions := filter (\<lambda>(i, s). us_user_id s \<noteq> u) (ut_sessions st)\<rparr>) =
     (if v = u then [] else sessions_of v st)"
  by (auto simp: sessions_of_def filter_filter split_def filter_empty_conv intro: filter_cong)

lemma DeleteUserSessions_spec:
  "ListUserSessions t v (DeleteUserSessions u st) = (if v = u then [] else ListUserSessions t v st)"
  "ut_seals (DeleteUserSessions u st) = ut_seals st"
  by (simp_all add: DeleteUserSessions_def ListUserSessions_def sessions_of_filter)

lemma ListUserSessions_cong: "ut_sessions st' = ut_sessions st \<Longrightarrow> ListUserSessions t v st' = ListUserSessions t v st"
  by (simp add: ListUserSessions_def sessions_of_def)

text \<open>
  C23. Signing out everywhere ends every session of the account and deletes every one of its seals,
  those of no other account. From memory it removes exactly the account's Vault-encrypted keys and the
  keys held for it because of a seal; every other key stays loaded.
\<close>

theorem sign_out_everywhere:
  assumes "hd_sealer h \<noteq> None"
  shows "ListUserSessions t v (hd_users (handleUserLogout now u h)) = (if v = u then [] else ListUserSessions t v (hd_users h)) \<and>
    hd_seals (handleUserLogout now u h) = filter (\<lambda>sl. sl_user_id sl \<noteq> u) (hd_seals h) \<and>
    mem (handleUserLogout now u h) pk =
      (if held_for now u h pk \<or> (\<exists>r \<in> set (ListKeys u (hd_keys h)).
            IsVaultEncrypted (k_encrypted_nsec (deref (hd_keys h) r)) \<and> k_pubkey (deref (hd_keys h) r) = pk)
       then None else mem h pk)"
proof -
  let ?h1 = "unloadUserVaultKeys u h"
  have s: "hd_sealer ?h1 \<noteq> None" using assms by (simp add: unload_vault)
  have out: "handleUserLogout now u h = set_users (DeleteUserSessions u (hd_users (fst (revokeUserSeals now u ?h1))))
      (fst (revokeUserSeals now u ?h1))"
    by (simp add: handleUserLogout_def Let_def)
  have held: "held_for now u ?h1 pk \<longleftrightarrow> held_for now u h pk" by (simp add: held_for_def unload_vault)
  have "ListUserSessions t v (hd_users (fst (revokeUserSeals now u ?h1))) = ListUserSessions t v (hd_users h)"
    by (rule ListUserSessions_cong) (simp add: revoke_seals [OF s] unload_vault DeleteSessionSealsByUser_def)
  then show ?thesis
    by (auto simp: out DeleteUserSessions_spec revoke_seals [OF s] held unload_vault DeleteSessionSealsByUser_def)
qed

theorem sign_out_everywhere_witness:
  "ListUserSessions 10 ''o'' (hd_users toy_replica) \<noteq> [] \<and>
   ListUserSessions 10 ''o'' (hd_users (handleUserLogout 10 ''o'' toy_replica)) = [] \<and>
   mem (handleUserLogout 10 ''o'' toy_replica) ''role'' = None \<and>
   mem (handleUserLogout 10 ''o'' toy_replica) ''pass'' = Some ''sk3''"
proof -
  have s: "hd_sealer toy_replica \<noteq> None" by (simp add: toy_replica_def)
  have h: "held_for 10 ''o'' toy_replica ''role''" "\<not> held_for 10 ''o'' toy_replica ''pass''"
    "mem toy_replica ''pass'' = Some ''sk3''"
    by (simp_all add: held_for_def ListSessionSealsByUser_def listSeals_def toy_replica_def toy_seal_def)
  have p: "\<not> (\<exists>r \<in> set (ListKeys ''o'' (hd_keys toy_replica)).
      IsVaultEncrypted (k_encrypted_nsec (deref (hd_keys toy_replica) r)) \<and>
      k_pubkey (deref (hd_keys toy_replica) r) = ''pass'')"
    by (simp add: ListKeys_def toy_replica_def toy_owner_keys_def deref_def toy_key_def IsVaultEncrypted_def has_prefix_def)
  have "ListUserSessions 10 ''o'' (hd_users toy_replica) \<noteq> []" by code_simp
  then show ?thesis
    using sign_out_everywhere [OF s, of 10 "''o''" 10 "''o''" "''role''"]
      sign_out_everywhere [OF s, of 10 "''o''" 10 "''o''" "''pass''"] h p by simp
qed

section \<open>What signing out unloads stays out\<close>

text \<open>Everything a replica does on its own or for users that have not signed in again.\<close>

inductive stay_step :: "stay_env \<Rightarrow> handler \<Rightarrow> handler \<Rightarrow> bool" for V where
  ss_reconcile: "stay_step V h (reconcileSeals V now h)"
| ss_restore: "stay_step V h (fst (restoreSealedKey V now pk h))"
| ss_unseal: "stay_step V h (fst (handleSessionUnseal V now u sid half h))"
| ss_slide: "stay_step V h (fst (slideSession cfg now force sid h))"
| ss_seal: "stay_step V h (sealSessionKeys V now random u sid g h)"
| ss_sign_out: "stay_step V h (handleUserLogout now u h)"
| ss_sign_out_one: "stay_step V h (handleSessionLogout now u sid h)"
| ss_delete: "stay_step V h (deleteAccount now u h)"

definition sealed_off :: "string \<Rightarrow> handler \<Rightarrow> bool" where
  "sealed_off pk h \<longleftrightarrow> mem h pk = None \<and> (\<forall>sl \<in> set (hd_seals h). sl_pubkey sl \<noteq> pk) \<and> keys_filed h"

lemma sealed_off_mono:
  "sealed_off pk h \<Longrightarrow> mem h' pk = None \<Longrightarrow> set (hd_seals h') \<subseteq> set (hd_seals h) \<Longrightarrow> hd_keys h' = hd_keys h \<Longrightarrow>
     sealed_off pk h'"
  unfolding sealed_off_def keys_filed_def by (metis subsetD)

lemma reconcile_keys: "hd_sealer h \<noteq> None \<Longrightarrow> keys_filed h \<Longrightarrow> hd_keys (reconcileSeals V now h) = hd_keys h"
  using reconcile_unfold [of h V now] by blast

lemma sealed_off_reconcile:
  assumes "sealed_off pk h"
  shows "sealed_off pk (reconcileSeals V now h)"
proof (cases "hd_sealer h = None")
  case False
  have kf: "keys_filed h" and m: "mem h pk = None" and no: "backing V now h pk = {}"
    using assms by (auto simp: sealed_off_def backing_def ListLiveSessionSeals_def listSeals_def)
  obtain h1 h2 live pks where
    live: "live = filter (\<lambda>sl. session_live V now (hd_users h) (sl_session_id sl) = Some True) (ListLiveSessionSeals now (hd_users h))"
    and h1: "mem h1 = (\<lambda>pk. if overdue V now h pk then None else mem h pk)" "keys_filed h1"
    and h2: "h2 = foldl (\<lambda>h pk. if IsKeyLoaded pk (hd_signer h) then h
             else fst (restoreFromSeals V now (filter (\<lambda>sl. sl_pubkey sl = pk) live) h)) h1 pks"
    and h': "mem (reconcileSeals V now h) = mem h2"
      "hd_seals (reconcileSeals V now h) = filter (\<lambda>sl. sl_expires_at sl > now \<and>
         session_live V now (hd_users h) (sl_session_id sl) \<noteq> Some False) (hd_seals h)"
    using reconcile_unfold [OF False kf, of V now] by blast
  have m1: "mem h1 pk = None" using h1(1) m by simp
  have "mem h2 pk = None"
    using restore_loop(3) [OF h1(2) m1, where live = live and V = V and t = now and pks = pks, folded h2] no
    by (cases "mem h2 pk") (auto simp: live backing_def)
  then show ?thesis
    by (intro sealed_off_mono [OF assms]) (auto simp: h' reconcile_keys [OF False kf])
qed (use assms in \<open>simp add: reconcileSeals_def\<close>)

lemma sealed_off_restore:
  assumes "sealed_off pk h"
  shows "sealed_off pk (fst (restoreSealedKey V now q h))"
proof -
  obtain h0 live unsure where ls: "liveSeals V now h = (h0, live, unsure)" by (metis prod_cases3)
  note l0 = liveSeals_spec [OF ls]
  have s0: "sealed_off pk h0"
    using l0(6,9) assms by (intro sealed_off_mono [OF assms _ _ l0(5)]) (auto simp: sealed_off_def)
  obtain h1 b where r: "restoreFromSeals V now (filter (\<lambda>sl. sl_pubkey sl = q) live) h0 = (h1, b)" by force
  have no: "\<forall>sl \<in> set live. sl_pubkey sl \<noteq> pk"
    using assms l0(7) by (auto simp: sealed_off_def ListLiveSessionSeals_def listSeals_def)
  note ro = restore_outcome [OF r, of q]
  have kf: "keys_filed h0" using s0 by (simp add: sealed_off_def)
  have "sealed_off pk h1"
  proof (rule sealed_off_mono [OF s0])
    show "mem h1 pk = None"
      using ro(3,4) [OF kf] s0 no by (cases b) (auto simp: sealed_off_def)
  qed (use same_storeD [OF ro(1) [OF kf]] in simp_all)
  then show ?thesis
    using assms by (auto simp: restoreSealedKey_def ls r Let_def sealed_off_def keys_filed_def split: bool.splits prod.splits)
qed

lemma sealed_off_unseal_loop:
  "sealed_off pk h \<Longrightarrow> \<forall>sl \<in> set seals. sl_pubkey sl \<noteq> pk \<Longrightarrow> sealed_off pk (fst (unseal_loop V now u half seals h))"
proof (induction seals arbitrary: h)
  case (Cons sl seals)
  have inst: "sealed_off pk (fst (installSealedKey V now sl priv h))" for priv
  proof -
    obtain h1 b where i: "installSealedKey V now sl priv h = (h1, b)" by force
    have kf: "keys_filed h" using Cons.prems by (simp add: sealed_off_def)
    note ic = install_cases [OF i kf]
    show ?thesis
      using Cons.prems ic(5,6) by (intro sealed_off_mono [OF Cons.prems(1)]) (cases b; auto simp: i ic(1,2) sealed_off_def)+
  qed
  have lease: "sealed_off pk (take_lease now q v h)" for q v
    using Cons.prems(1) by (simp add: sealed_off_def keys_filed_def)
  have "sealed_off pk h1" if "(case SplitOpen (ye_crypto V) (sl_sealed sl) half
         \<lparr>bd_pubkey = sl_pubkey sl, bd_session_id = sl_session_id sl\<rparr> of
            Inl _ \<Rightarrow> (h, False)
          | Inr pt \<Rightarrow> if IsKeyLoaded (sl_pubkey sl) (hd_signer h) then (take_lease now (sl_pubkey sl) (sl_user_id sl) h, True)
              else installSealedKey V now sl (bytes_str pt) h) = (h1, b)" for h1 b
    using that inst lease Cons.prems(1) by (auto split: sum.splits if_splits) (metis fst_conv)
  then show ?case
    using Cons by (auto simp: Let_def split: prod.splits) (metis fst_conv)+
qed simp

lemma sealed_off_unseal:
  assumes "sealed_off pk h"
  shows "sealed_off pk (fst (handleSessionUnseal V now u sid half h))"
proof -
  have "\<forall>sl \<in> set (ListSessionSealsBySession now sid (hd_users h)). sl_pubkey sl \<noteq> pk"
    using assms by (auto simp: sealed_off_def ListSessionSealsBySession_def listSeals_def)
  from sealed_off_unseal_loop [OF assms this, of V now u half] show ?thesis
    using assms by (auto simp: handleSessionUnseal_def split: prod.splits)
qed

lemma extend_seals_pubkeys:
  "sl_pubkey ` set (map snd (ut_seals (fst (ExtendSessionSeals sid e st)))) = sl_pubkey ` set (map snd (ut_seals st))"
  by (force simp: ExtendSessionSeals_def image_iff)

lemma sealed_off_pubkeys:
  "sealed_off pk h \<longleftrightarrow> mem h pk = None \<and> pk \<notin> sl_pubkey ` set (hd_seals h) \<and> keys_filed h"
  by (auto simp: sealed_off_def)

lemma sealed_off_slide: "sealed_off pk h \<Longrightarrow> sealed_off pk (fst (slideSession cfg now force sid h))"
proof -
  assume so: "sealed_off pk h"
  have ext: "ut_seals st = ut_seals (hd_users h)" if "ExtendUserSession now i e (hd_users h) = (st, r)" for st i e r
    using that by (auto simp: ExtendUserSession_def split: option.splits if_splits)
  show ?thesis
    using so ext
    by (fastforce simp: slideSession_def sealed_off_pubkeys keys_filed_def Let_def extend_seals_pubkeys
        simp del: set_map split: sum.splits prod.splits)
qed

lemma upsert_pubkeys:
  "sl_pubkey ` set (map snd (ut_seals (UpsertSessionSeal seal st))) \<subseteq> insert (sl_pubkey seal) (sl_pubkey ` set (map snd (ut_seals st)))"
proof -
  have "snd ` set (AList.update k v xs) \<subseteq> insert v (snd ` set xs)" for k :: string and v :: session_seal and xs
    using set_update_subset [of k v xs] by auto
  then show ?thesis
    by (force simp: UpsertSessionSeal_def Let_def dropSessionSealsLocked_def)
qed

lemma sealed_off_seal_one:
  assumes "sealed_off pk h"
  shows "sealed_off pk (seal_one V now nonce server i u sid g k h)"
proof -
  have "sealed_off pk (take_lease now q u (set_users (UpsertSessionSeal seal (hd_users h)) h))"
    if "sl_pubkey seal \<noteq> pk" for seal q
    using assms that upsert_pubkeys [of seal "hd_users h"]
    unfolding sealed_off_pubkeys by (auto simp: keys_filed_def simp del: set_map)
  moreover have "k_pubkey k \<noteq> pk" if "mem h (k_pubkey k) = Some priv" for priv
    using that assms by (auto simp: sealed_off_def)
  ultimately show ?thesis
    using assms by (simp add: seal_one_def Let_def split: option.split sum.split)
qed

lemma sealed_off_seal: "sealed_off pk h \<Longrightarrow> sealed_off pk (sealSessionKeys V now random u sid g h)"
proof -
  have "sealed_off pk h \<Longrightarrow> sealed_off pk (foldl (\<lambda>h (i, k). case random i of (nonce, server, sealID) \<Rightarrow>
      seal_one V now nonce server sealID u sid g' k h) h iks)" for g' iks
    by (induction iks arbitrary: h) (auto simp: sealed_off_seal_one split: prod.splits)
  then show "sealed_off pk h \<Longrightarrow> sealed_off pk (sealSessionKeys V now random u sid g h)"
    by (auto simp: sealSessionKeys_def split: option.splits)
qed

lemma sealed_off_unload: "sealed_off pk h \<Longrightarrow> sealed_off pk (unloadUserVaultKeys u h)"
  by (rule sealed_off_mono) (auto simp: unload_vault sealed_off_def)

lemma sealed_off_revoke: "sealed_off pk h \<Longrightarrow> sealed_off pk (fst (revokeUserSeals now u h))"
proof (cases "hd_sealer h = None")
  case False
  assume so: "sealed_off pk h"
  show ?thesis
    by (rule sealed_off_mono [OF so])
       (use so in \<open>auto simp: revoke_seals [OF False] DeleteSessionSealsByUser_def sealed_off_def\<close>)
qed (simp add: revokeUserSeals_def)

lemma sealed_off_set_users:
  "sealed_off pk h \<Longrightarrow> ut_seals st = ut_seals (hd_users h) \<Longrightarrow> sealed_off pk (set_users st h)"
  by (simp add: sealed_off_def keys_filed_def)

lemma sealed_off_sign_out: "sealed_off pk h \<Longrightarrow> sealed_off pk (handleUserLogout now u h)"
  unfolding handleUserLogout_def Let_def
  by (intro sealed_off_set_users sealed_off_revoke sealed_off_unload) (simp_all add: DeleteUserSessions_def)

lemma sealed_off_sign_out_one: "sealed_off pk h \<Longrightarrow> sealed_off pk (handleSessionLogout now u sid h)"
proof -
  assume so: "sealed_off pk h"
  have *: "sealed_off pk (set_users (DeleteUserSession i (fst (DeleteSessionSealsBySession i (hd_users h))))
      (set_users (fst (DeleteSessionSealsBySession i (hd_users h))) h))" for i
    using so by (auto simp: sealed_off_def keys_filed_def DeleteUserSession_def DeleteSessionSealsBySession_def)
  then show ?thesis
    using so by (auto simp: handleSessionLogout_def Let_def intro!: sealed_off_revoke sealed_off_unload split: sum.splits)
qed

subsection \<open>Deleting an account\<close>

lemma deletePermission_simps [simp]:
  "gs_heap (DeletePermission k c st) = gs_heap st" "gs_keys (DeletePermission k c st) = gs_keys st"
  "gs_by_pubkey (DeletePermission k c st) = gs_by_pubkey st"
  "grants_of q (DeletePermission k c st) = (if q = k then AList.delete c (grants_of k st) else grants_of q st)"
  by (auto simp: DeletePermission_def grants_of_def split: option.splits)

lemma delete_permissions:
  defines "del k \<equiv> (\<lambda>st p. DeletePermission k (pm_user_pubkey p) st)"
  shows "gs_heap (foldl (del k) st ps) = gs_heap st" "gs_keys (foldl (del k) st ps) = gs_keys st"
    "gs_by_pubkey (foldl (del k) st ps) = gs_by_pubkey st"
    "grants_of q (foldl (del k) st ps) =
       (if q = k then filter (\<lambda>e. fst e \<notin> pm_user_pubkey ` set ps) (grants_of k st) else grants_of q st)"
proof -
  have "gs_heap (foldl (del k) st ps) = gs_heap st \<and> gs_keys (foldl (del k) st ps) = gs_keys st \<and>
    gs_by_pubkey (foldl (del k) st ps) = gs_by_pubkey st \<and> grants_of q (foldl (del k) st ps) =
       (if q = k then filter (\<lambda>e. fst e \<notin> pm_user_pubkey ` set ps) (grants_of k st) else grants_of q st)" for st
    by (induction ps arbitrary: st)
       (auto simp: del_def AList.delete_eq filter_filter split_def conj_commute intro!: filter_cong)
  then show "gs_heap (foldl (del k) st ps) = gs_heap st" "gs_keys (foldl (del k) st ps) = gs_keys st"
    "gs_by_pubkey (foldl (del k) st ps) = gs_by_pubkey st"
    "grants_of q (foldl (del k) st ps) =
       (if q = k then filter (\<lambda>e. fst e \<notin> pm_user_pubkey ` set ps) (grants_of k st) else grants_of q st)"
    by simp_all
qed

text \<open>A grant is filed under the client it names.\<close>

definition grants_filed :: "grant_store \<Rightarrow> bool" where
  "grants_filed st \<longleftrightarrow> (\<forall>k. \<forall>(c, p) \<in> set (grants_of k st). pm_user_pubkey p = c)"

definition all_revoked :: "string \<Rightarrow> grant_store \<Rightarrow> bool" where
  "all_revoked k st \<longleftrightarrow> (\<forall>e \<in> set (grants_of k st). pm_revoked_at (snd e) \<noteq> None)"

lemma all_revoked_refused: "all_revoked k st \<Longrightarrow> \<not> ok (GetPermission t k c st)"
  by (fastforce simp: all_revoked_def GetPermission_def grants_of_def split: option.splits dest: map_of_SomeD)

lemma delete_key_grants:
  defines "h' k h \<equiv> delete_key_grants k h"
  assumes "grants_filed (hd_keys h)"
  shows "hd_users (h' k h) = hd_users h" "hd_sealer (h' k h) = hd_sealer h" "hd_leases (h' k h) = hd_leases h"
    "mem (h' k h) = (mem h)(k_pubkey k := None)"
    "gs_heap (hd_keys (h' k h)) = gs_heap (hd_keys h)" "gs_keys (hd_keys (h' k h)) = gs_keys (hd_keys h)"
    "gs_by_pubkey (hd_keys (h' k h)) = gs_by_pubkey (hd_keys h)"
    "q \<noteq> k_pubkey k \<Longrightarrow> grants_of q (hd_keys (h' k h)) = grants_of q (hd_keys h)"
    "all_revoked (k_pubkey k) (hd_keys (h' k h))" "grants_filed (hd_keys (h' k h))"
proof -
  let ?ps = "ListPermissions (k_pubkey k) (hd_keys h)"
  have ps: "?ps = filter (\<lambda>p. pm_revoked_at p = None) (map snd (grants_of (k_pubkey k) (hd_keys h)))"
    by (auto simp: ListPermissions_def grants_of_def split: option.splits)
  show "hd_users (h' k h) = hd_users h" "hd_sealer (h' k h) = hd_sealer h" "hd_leases (h' k h) = hd_leases h"
    "mem (h' k h) = (mem h)(k_pubkey k := None)"
    "gs_heap (hd_keys (h' k h)) = gs_heap (hd_keys h)" "gs_keys (hd_keys (h' k h)) = gs_keys (hd_keys h)"
    "gs_by_pubkey (hd_keys (h' k h)) = gs_by_pubkey (hd_keys h)"
    "q \<noteq> k_pubkey k \<Longrightarrow> grants_of q (hd_keys (h' k h)) = grants_of q (hd_keys h)"
    by (simp_all add: h'_def delete_key_grants_def delete_permissions)
  have g: "grants_of q (hd_keys (h' k h)) = (if q = k_pubkey k
      then filter (\<lambda>e. fst e \<notin> pm_user_pubkey ` set ?ps) (grants_of q (hd_keys h)) else grants_of q (hd_keys h))" for q
    by (simp add: h'_def delete_key_grants_def delete_permissions)
  show "grants_filed (hd_keys (h' k h))" using assms(2) by (auto simp: grants_filed_def g)
  have "fst e \<in> pm_user_pubkey ` set ?ps" if "e \<in> set (grants_of (k_pubkey k) (hd_keys h))" "pm_revoked_at (snd e) = None" for e
  proof (rule image_eqI)
    show "fst e = pm_user_pubkey (snd e)" using that assms(2) by (auto simp: grants_filed_def split_def)
    show "snd e \<in> set ?ps" using that by (simp add: ps)
  qed
  then show "all_revoked (k_pubkey k) (hd_keys (h' k h))"
    using g [of "k_pubkey k"] by (simp only: all_revoked_def if_True refl set_filter) blast
qed

lemma delete_all_grants:
  assumes "h' = foldl (\<lambda>h k. delete_key_grants k h) h ks" "grants_filed (hd_keys h)"
  shows "hd_users h' = hd_users h" "hd_sealer h' = hd_sealer h"
    "mem h' pk = (if pk \<in> k_pubkey ` set ks then None else mem h pk)"
    "gs_heap (hd_keys h') = gs_heap (hd_keys h)" "gs_keys (hd_keys h') = gs_keys (hd_keys h)"
    "gs_by_pubkey (hd_keys h') = gs_by_pubkey (hd_keys h)"
    "pk \<notin> k_pubkey ` set ks \<Longrightarrow> grants_of pk (hd_keys h') = grants_of pk (hd_keys h)"
    "pk \<in> k_pubkey ` set ks \<or> all_revoked pk (hd_keys h) \<Longrightarrow> all_revoked pk (hd_keys h')"
proof -
  have "hd_users h' = hd_users h \<and> hd_sealer h' = hd_sealer h \<and>
    mem h' pk = (if pk \<in> k_pubkey ` set ks then None else mem h pk) \<and>
    gs_heap (hd_keys h') = gs_heap (hd_keys h) \<and> gs_keys (hd_keys h') = gs_keys (hd_keys h) \<and>
    gs_by_pubkey (hd_keys h') = gs_by_pubkey (hd_keys h) \<and>
    (pk \<notin> k_pubkey ` set ks \<longrightarrow> grants_of pk (hd_keys h') = grants_of pk (hd_keys h)) \<and>
    (pk \<in> k_pubkey ` set ks \<or> all_revoked pk (hd_keys h) \<longrightarrow> all_revoked pk (hd_keys h'))"
    using assms
  proof (induction ks arbitrary: h)
    case (Cons k ks)
    note d = delete_key_grants [OF Cons.prems(2), where k = k]
    have *: "all_revoked pk (hd_keys (delete_key_grants k h))" if "all_revoked pk (hd_keys h)"
      using that d(8) [of pk] d(9) by (cases "pk = k_pubkey k") (simp_all add: all_revoked_def)
    show ?case using Cons.IH [OF _ d(10)] Cons.prems(1) d * by auto
  qed simp
  then show "hd_users h' = hd_users h" "hd_sealer h' = hd_sealer h"
    "mem h' pk = (if pk \<in> k_pubkey ` set ks then None else mem h pk)"
    "gs_heap (hd_keys h') = gs_heap (hd_keys h)" "gs_keys (hd_keys h') = gs_keys (hd_keys h)"
    "gs_by_pubkey (hd_keys h') = gs_by_pubkey (hd_keys h)"
    "pk \<notin> k_pubkey ` set ks \<Longrightarrow> grants_of pk (hd_keys h') = grants_of pk (hd_keys h)"
    "pk \<in> k_pubkey ` set ks \<or> all_revoked pk (hd_keys h) \<Longrightarrow> all_revoked pk (hd_keys h')"
    by blast+
qed

text \<open>Keys are stored under their ids and public keys, and no id is a public key.\<close>

definition keys_wf :: "grant_store \<Rightarrow> bool" where
  "keys_wf st \<longleftrightarrow> distinct (map fst (gs_keys st)) \<and>
     (\<forall>(i, r) \<in> set (gs_keys st). k_id (deref st r) = i \<and> gs_by_pubkey st (k_pubkey (deref st r)) = Some r) \<and>
     (\<forall>pk r. gs_by_pubkey st pk = Some r \<longrightarrow> k_pubkey (deref st r) = pk) \<and>
     (\<forall>(i, r) \<in> set (gs_keys st). gs_by_pubkey st i = None)"

lemma delete_key_spec:
  assumes "DeleteKey i st = (st', res)"
  shows "gs_heap st' = gs_heap st" "gs_keys st' = AList.delete i (gs_keys st)"
    "gs_by_pubkey st' = (case map_of (gs_keys st) i of None \<Rightarrow> gs_by_pubkey st
       | Some r \<Rightarrow> (gs_by_pubkey st)(k_pubkey (deref st r) := None))"
    "q \<noteq> i \<Longrightarrow> grants_of q st' = grants_of q st" "all_revoked q st \<Longrightarrow> all_revoked q st'"
proof -
  have idem: "AList.delete i (gs_keys st) = gs_keys st" if "map_of (gs_keys st) i = None"
    using that by (simp add: map_of_eq_None_iff)
  show "gs_heap st' = gs_heap st" "gs_keys st' = AList.delete i (gs_keys st)"
    "gs_by_pubkey st' = (case map_of (gs_keys st) i of None \<Rightarrow> gs_by_pubkey st
       | Some r \<Rightarrow> (gs_by_pubkey st)(k_pubkey (deref st r) := None))"
    using assms idem by (auto simp: DeleteKey_def Let_def split: option.splits)
  have g: "grants_of q st' = grants_of q st \<or> q = i \<and> grants_of q st' = []" for q
    using assms by (cases "q = i") (auto simp: DeleteKey_def Let_def grants_of_def split: option.splits)
  show "q \<noteq> i \<Longrightarrow> grants_of q st' = grants_of q st" "all_revoked q st \<Longrightarrow> all_revoked q st'"
    using g [of q] by (auto simp: all_revoked_def)
qed

lemma delete_all_keys:
  defines "del \<equiv> foldl (\<lambda>st k. fst (DeleteKey (k_id k) st))"
  assumes "\<forall>k \<in> set ks. map_of (gs_keys st) (k_id k) = None \<or>
      (\<exists>r. map_of (gs_keys st) (k_id k) = Some r \<and> k_pubkey (deref st r) = k_pubkey k)"
  shows "gs_heap (del st ks) = gs_heap st" "gs_keys (del st ks) = filter (\<lambda>e. fst e \<notin> k_id ` set ks) (gs_keys st)"
    "gs_by_pubkey (del st ks) pk =
       (if \<exists>k \<in> set ks. k_pubkey k = pk \<and> map_of (gs_keys st) (k_id k) \<noteq> None then None else gs_by_pubkey st pk)"
    "q \<notin> k_id ` set ks \<Longrightarrow> grants_of q (del st ks) = grants_of q st" "all_revoked q st \<Longrightarrow> all_revoked q (del st ks)"
proof -
  have "gs_heap (del st ks) = gs_heap st \<and> gs_keys (del st ks) = filter (\<lambda>e. fst e \<notin> k_id ` set ks) (gs_keys st) \<and>
    gs_by_pubkey (del st ks) pk =
       (if \<exists>k \<in> set ks. k_pubkey k = pk \<and> map_of (gs_keys st) (k_id k) \<noteq> None then None else gs_by_pubkey st pk) \<and>
    (q \<notin> k_id ` set ks \<longrightarrow> grants_of q (del st ks) = grants_of q st) \<and> (all_revoked q st \<longrightarrow> all_revoked q (del st ks))"
    using assms(2)
  proof (induction ks arbitrary: st)
    case (Cons k ks)
    obtain st1 res where d: "DeleteKey (k_id k) st = (st1, res)" by force
    note s = delete_key_spec [OF d]
    have dr: "deref st1 r = deref st r" for r using s(1) by (simp add: deref_def)
    have m: "map_of (gs_keys st1) = (map_of (gs_keys st))(k_id k := None)" using s(2) by (simp add: delete_conv')
    have prem: "\<forall>k \<in> set ks. map_of (gs_keys st1) (k_id k) = None \<or>
        (\<exists>r. map_of (gs_keys st1) (k_id k) = Some r \<and> k_pubkey (deref st1 r) = k_pubkey k)"
      using Cons.prems by (auto simp: m dr)
    have e: "del st (k # ks) = del st1 ks" by (simp add: del_def d)
    note IH = Cons.IH [OF prem]
    have keys: "gs_keys (del st1 ks) = filter (\<lambda>e. fst e \<notin> k_id ` set (k # ks)) (gs_keys st)"
      using IH s(2) by (auto simp: AList.delete_eq filter_filter split_def intro!: filter_cong)
    have pub: "gs_by_pubkey (del st1 ks) pk =
       (if \<exists>k \<in> set (k # ks). k_pubkey k = pk \<and> map_of (gs_keys st) (k_id k) \<noteq> None then None else gs_by_pubkey st pk)"
    proof (cases "map_of (gs_keys st) (k_id k)")
      case None
      then show ?thesis using IH s(3) m by auto
    next
      case (Some r)
      then have pk: "k_pubkey (deref st r) = k_pubkey k" using Cons.prems by auto
      show ?thesis
      proof (cases "pk = k_pubkey k")
        case True
        then show ?thesis using IH s(3) Some pk by (auto split: if_splits)
      next
        case False
        have "map_of (gs_keys st1) (k_id k') = map_of (gs_keys st) (k_id k')" if "k' \<in> set ks" "k_pubkey k' = pk" for k'
          using that Cons.prems Some False by (auto simp: m)
        then have "(\<exists>k \<in> set (k # ks). k_pubkey k = pk \<and> map_of (gs_keys st) (k_id k) \<noteq> None) \<longleftrightarrow>
            (\<exists>k \<in> set ks. k_pubkey k = pk \<and> map_of (gs_keys st1) (k_id k) \<noteq> None)"
          using False by auto
        then show ?thesis using IH s(3) Some False pk by auto
      qed
    qed
    show ?case using IH s e keys pub by auto
  qed (simp add: del_def)
  then show "gs_heap (del st ks) = gs_heap st" "gs_keys (del st ks) = filter (\<lambda>e. fst e \<notin> k_id ` set ks) (gs_keys st)"
    "gs_by_pubkey (del st ks) pk =
       (if \<exists>k \<in> set ks. k_pubkey k = pk \<and> map_of (gs_keys st) (k_id k) \<noteq> None then None else gs_by_pubkey st pk)"
    "q \<notin> k_id ` set ks \<Longrightarrow> grants_of q (del st ks) = grants_of q st" "all_revoked q st \<Longrightarrow> all_revoked q (del st ks)"
    by blast+
qed

lemma deleteAccount_unfold:
  fixes now u h
  assumes "hd_sealer h \<noteq> None"
  defines "h1 \<equiv> fst (revokeUserSeals now u (set_users (DeleteUserSessions u (hd_users h)) h))"
  shows "\<exists>ks h2. ks = map (deref (hd_keys h)) (ListKeys u (hd_keys h)) \<and>
    h2 = foldl (\<lambda>h k. delete_key_grants k h) h1 ks \<and>
    hd_keys h1 = hd_keys h \<and> mem h1 = (\<lambda>pk. if held_for now u h pk then None else mem h pk) \<and>
    mem (deleteAccount now u h) = mem h2 \<and>
    hd_keys (deleteAccount now u h) = foldl (\<lambda>st k. fst (DeleteKey (k_id k) st)) (hd_keys h2) ks \<and>
    hd_users (deleteAccount now u h) = fst (DeleteUser u (hd_users h2)) \<and>
    hd_users h1 = fst (DeleteSessionSealsByUser u (DeleteUserSessions u (hd_users h)))"
proof -
  let ?g = "set_users (DeleteUserSessions u (hd_users h)) h"
  have s: "hd_sealer ?g \<noteq> None" using assms by simp
  have held: "held_for now u ?g pk \<longleftrightarrow> held_for now u h pk" for pk
    by (simp add: held_for_def ListSessionSealsByUser_def listSeals_def DeleteUserSessions_def)
  have k: "hd_keys h1 = hd_keys h" by (simp add: h1_def revoke_seals [OF s])
  show ?thesis
    unfolding deleteAccount_def Let_def h1_def [symmetric] k
    using revoke_seals [OF s, of now u] held
    by (intro exI conjI refl) (auto simp: h1_def [symmetric] k fun_eq_iff)
qed



lemma map_leD: "m \<subseteq>\<^sub>m m' \<Longrightarrow> m x = Some y \<Longrightarrow> m' x = Some y"
  by (auto simp: map_le_def dom_def)

lemma sealed_off_delete:
  assumes "sealed_off pk h"
  shows "sealed_off pk (deleteAccount now u h)"
proof -
  define h1 where "h1 = fst (revokeUserSeals now u (set_users (DeleteUserSessions u (hd_users h)) h))"
  define ks where "ks = map (deref (hd_keys h1)) (ListKeys u (hd_keys h1))"
  define h2 where "h2 = foldl (\<lambda>h k. delete_key_grants k h) h1 ks"
  define h3 where "h3 = on_signer (\<lambda>sn. sn\<lparr>sn_store := foldl (\<lambda>st k. fst (DeleteKey (k_id k) st)) (sn_store sn) ks\<rparr>) h2"
  have del: "deleteAccount now u h = set_users (fst (DeleteUser u (hd_users h3))) h3"
    by (simp add: deleteAccount_def Let_def h3_def h2_def ks_def h1_def)
  have "sealed_off pk h1"
    unfolding h1_def by (intro sealed_off_revoke sealed_off_set_users assms) (simp add: DeleteUserSessions_def)
  moreover have "sealed_off pk (foldl (\<lambda>h k. delete_key_grants k h) g ks)" if "sealed_off pk g" for g ks
    using that
  proof (induction ks arbitrary: g)
    case (Cons k ks)
    have "sealed_off pk (delete_key_grants k g)"
      using Cons.prems
      by (auto simp: sealed_off_def keys_filed_def delete_key_grants_def delete_permissions GetKeyByPubkey_def deref_def)
    then show ?case using Cons.IH by simp
  qed simp
  ultimately have s2: "sealed_off pk h2" by (simp add: h2_def)
  have fold: "gs_heap (foldl (\<lambda>st k. fst (DeleteKey (k_id k) st)) st ks) = gs_heap st \<and>
      gs_by_pubkey (foldl (\<lambda>st k. fst (DeleteKey (k_id k) st)) st ks) \<subseteq>\<^sub>m gs_by_pubkey st" for st ks
  proof (induction ks arbitrary: st)
    case (Cons k ks)
    obtain st1 res where d: "DeleteKey (k_id k) st = (st1, res)" by force
    have "gs_by_pubkey st1 \<subseteq>\<^sub>m gs_by_pubkey st"
      by (auto simp: delete_key_spec(3) [OF d] map_le_def split: option.splits)
    then show ?case using Cons [of st1] delete_key_spec(1) [OF d] d by (auto intro: map_le_trans)
  qed simp
  have heap: "gs_heap (hd_keys h3) = gs_heap (hd_keys h2)" and pub: "gs_by_pubkey (hd_keys h3) \<subseteq>\<^sub>m gs_by_pubkey (hd_keys h2)"
    using fold [of "hd_keys h2" ks] by (simp_all add: h3_def)
  have kf: "keys_filed h2" using s2 by (simp add: sealed_off_def)
  have "keys_filed h3"
    unfolding keys_filed_def
  proof (intro allI impI)
    fix q r assume "GetKeyByPubkey q (hd_keys h3) = Inr r"
    then have "gs_by_pubkey (hd_keys h3) q = Some r" by (simp add: GetKeyByPubkey_def)
    with pub have "gs_by_pubkey (hd_keys h2) q = Some r" by (rule map_leD)
    then have "k_pubkey (deref (hd_keys h2) r) = q" using kf by (simp only: keys_filed_def GetKeyByPubkey_def or_err_Inr_iff)
    then show "k_pubkey (deref (hd_keys h3) r) = q" using heap by (simp add: deref_def)
  qed
  then have "sealed_off pk h3" using s2 by (simp add: sealed_off_def h3_def)
  then show ?thesis
    unfolding del
  proof (rule sealed_off_mono)
    show "mem (set_users (fst (DeleteUser u (hd_users h3))) h3) pk = None"
      using \<open>sealed_off pk h3\<close> by (simp add: sealed_off_def)
    show "set (hd_seals (set_users (fst (DeleteUser u (hd_users h3))) h3)) \<subseteq> set (hd_seals h3)"
      by (auto simp: DeleteUser_def Let_def dropSessionSealsLocked_def split: option.splits)
  qed simp
qed

lemma sealed_off_step: "stay_step V h h' \<Longrightarrow> sealed_off pk h \<Longrightarrow> sealed_off pk h'"
  by (induction rule: stay_step.induct)
     (auto intro: sealed_off_reconcile sealed_off_restore sealed_off_unseal sealed_off_slide sealed_off_seal
        sealed_off_sign_out sealed_off_sign_out_one sealed_off_delete)

lemma sealed_off_run: "(stay_step V)\<^sup>*\<^sup>* h h' \<Longrightarrow> sealed_off pk h \<Longrightarrow> sealed_off pk h'"
  by (induction rule: rtranclp_induct) (auto intro: sealed_off_step)



section \<open>How long a sign-in lasts\<close>

text \<open>The uses of a session, each at a time and forced (an explicit refresh) or not.\<close>

fun slides :: "stay_config \<Rightarrow> string \<Rightarrow> (time \<times> bool) list \<Rightarrow> handler \<Rightarrow> handler" where
  "slides cfg sid [] h = h"
| "slides cfg sid ((now, force) # uses) h = slides cfg sid uses (fst (slideSession cfg now force sid h))"

abbreviation session_of :: "string \<Rightarrow> handler \<Rightarrow> user_session option" where
  "session_of sid h \<equiv> map_of (ut_sessions (hd_users h)) sid"

lemma truncate_second_le: "truncate_second t \<le> t"
  by (simp add: truncate_second_def minus_mod_eq_div_mult [symmetric])

lemma capAtMaxDays_le:
  "capAtMaxDays cfg t e \<le> e" "0 < yc_max_days cfg \<Longrightarrow> capAtMaxDays cfg t e \<le> t + days (yc_max_days cfg)"
  by (auto simp: capAtMaxDays_def)

lemma slide_once:
  fixes cfg now force sid h
  assumes "session_of sid h = Some s" "us_id s = sid"
  defines "h' \<equiv> fst (slideSession cfg now force sid h)"
  shows "h' = h \<or>
    (now \<le> us_expires_at s \<and> list_ex sl_sliding (ListSessionSealsBySession now sid (hd_users h)) \<and>
     (\<exists>e. e = truncate_second (capAtMaxDays cfg (us_created_at s) (now + idleWindow cfg)) \<and>
        us_expires_at s + slideRenewEvery \<le> e \<and> session_of sid h' = Some (s\<lparr>us_expires_at := e\<rparr>) \<and>
        (\<forall>sl \<in> set (hd_seals h'). sl_session_id sl = sid \<longrightarrow> sl_expires_at sl = e)))"
proof -
  let ?e = "truncate_second (capAtMaxDays cfg (us_created_at s) (now + idleWindow cfg))"
  let ?st = "(hd_users h)\<lparr>ut_sessions := AList.update sid (s\<lparr>us_expires_at := ?e\<rparr>) (ut_sessions (hd_users h))\<rparr>"
  let ?renew = "now \<le> us_expires_at s \<and> list_ex sl_sliding (ListSessionSealsBySession now sid (hd_users h)) \<and>
    slideRenewEvery \<le> ?e - us_expires_at s"
  show ?thesis
  proof (cases "h' = h")
    case False
    have get: "GetUserSession now sid (hd_users h) = (if us_expires_at s < now then Inl ErrSessionNotFound else Inr s)"
      using assms(1) by (simp add: GetUserSession_def)
    have ext: "ExtendUserSession now sid ?e (hd_users h) = (?st, Inr ())" if "now \<le> us_expires_at s"
      using assms(1) that by (simp add: ExtendUserSession_def)
    have renew: "?renew" and h': "h' = set_users (fst (ExtendSessionSeals sid ?e ?st)) h"
      using False ext by (auto simp: h'_def slideSession_def get assms(2) Let_def split: if_splits)
    have "session_of sid h' = Some (s\<lparr>us_expires_at := ?e\<rparr>)"
      by (simp add: h' ExtendSessionSeals_def update_conv')
    moreover have "\<forall>sl \<in> set (hd_seals h'). sl_session_id sl = sid \<longrightarrow> sl_expires_at sl = ?e"
      by (auto simp: h' ExtendSessionSeals_def)
    ultimately show ?thesis using renew by fastforce
  qed simp
qed

lemma slides_bounds:
  assumes "session_of sid h = Some s" "us_id s = sid"
    and "0 < yc_max_days cfg \<longrightarrow> us_expires_at s \<le> us_created_at s + days (yc_max_days cfg)"
  shows "\<exists>s'. session_of sid (slides cfg sid uses h) = Some s' \<and> us_expires_at s \<le> us_expires_at s' \<and>
    (0 < yc_max_days cfg \<longrightarrow> us_expires_at s' \<le> us_created_at s + days (yc_max_days cfg)) \<and>
    (s' = s \<or> (\<exists>(now, force) \<in> set uses. now \<le> us_expires_at s' \<and> us_expires_at s' \<le> now + idleWindow cfg))"
  using assms
proof (induction uses arbitrary: h s)
  case (Cons use uses)
  obtain now force where use: "use = (now, force)" by force
  let ?h1 = "fst (slideSession cfg now force sid h)"
  from slide_once [OF Cons.prems(1,2), of cfg now force] show ?case
  proof (elim disjE conjE exE)
    assume "?h1 = h"
    then show ?thesis using Cons.IH [OF Cons.prems] use by (auto split: prod.splits)
  next
    fix e assume now: "now \<le> us_expires_at s" and e: "e = truncate_second (capAtMaxDays cfg (us_created_at s) (now + idleWindow cfg))"
      "us_expires_at s + slideRenewEvery \<le> e" "session_of sid ?h1 = Some (s\<lparr>us_expires_at := e\<rparr>)"
    have le: "us_expires_at s \<le> e" using e(2) by (simp add: slideRenewEvery_def)
    have b: "e \<le> now + idleWindow cfg" "0 < yc_max_days cfg \<Longrightarrow> e \<le> us_created_at s + days (yc_max_days cfg)"
      using truncate_second_le [of "capAtMaxDays cfg (us_created_at s) (now + idleWindow cfg)"]
        capAtMaxDays_le [of cfg "us_created_at s" "now + idleWindow cfg"] e(1) by auto
    have "\<exists>s'. session_of sid (slides cfg sid uses ?h1) = Some s' \<and> e \<le> us_expires_at s' \<and>
        (0 < yc_max_days cfg \<longrightarrow> us_expires_at s' \<le> us_created_at s + days (yc_max_days cfg)) \<and>
        (s' = s\<lparr>us_expires_at := e\<rparr> \<or> (\<exists>(now, force) \<in> set uses. now \<le> us_expires_at s' \<and> us_expires_at s' \<le> now + idleWindow cfg))"
      using Cons.IH [of ?h1 "s\<lparr>us_expires_at := e\<rparr>"] e(3) Cons.prems(2) b(2) by simp
    then show ?thesis using use now le b(1) by fastforce
  qed
qed auto

lemma slides_idle:
  assumes "session_of sid h = Some s" "us_id s = sid"
    and "(\<forall>sl \<in> set (hd_seals h). sl_session_id sl = sid \<longrightarrow> \<not> sl_sliding sl) \<or>
      (\<forall>(now, force) \<in> set uses. us_expires_at s < now)"
  shows "slides cfg sid uses h = h"
  using assms(3)
proof (induction uses)
  case (Cons use uses)
  obtain now force where use: "use = (now, force)" by force
  have "fst (slideSession cfg now force sid h) = h"
    using slide_once [OF assms(1,2), of cfg now force] Cons.prems use
    by (auto simp: list_ex_iff ListSessionSealsBySession_def listSeals_def)
  then show ?case using Cons use by auto
qed simp

text \<open>
  C26. However often it is used, a sign-in session that was granted a lifetime is never shortened by
  use and never outlives the operator's maximum counted from the sign-in; it is renewed only by a use
  before its expiry, to at most the idle window after that use; and a session without a sliding seal
  is never renewed.
\<close>

theorem sign_in_lifetime:
  assumes grant: "grantStaySignedIn cfg t0 random choice split h0 = Some g" "t0 \<le> us_created_at s"
    and s: "session_of sid h = Some s" "us_id s = sid" "us_expires_at s = sg_expires_at g"
  shows "\<exists>s'. session_of sid (slides cfg sid uses h) = Some s' \<and> us_expires_at s \<le> us_expires_at s' \<and>
    (0 < yc_max_days cfg \<longrightarrow> us_expires_at s' \<le> us_created_at s + days (yc_max_days cfg)) \<and>
    (s' = s \<or> (\<exists>(now, force) \<in> set uses. now \<le> us_expires_at s' \<and> us_expires_at s' \<le> now + idleWindow cfg)) \<and>
    ((\<forall>sl \<in> set (hd_seals h). sl_session_id sl = sid \<longrightarrow> \<not> sl_sliding sl) \<or>
     (\<forall>(now, force) \<in> set uses. us_expires_at s < now) \<longrightarrow> slides cfg sid uses h = h)"
proof -
  obtain e where "sg_expires_at g = truncate_second (capAtMaxDays cfg t0 e)"
    using grant(1) by (auto simp: grantStaySignedIn_def Let_def split: if_splits option.splits prod.splits)
  then have "0 < yc_max_days cfg \<longrightarrow> us_expires_at s \<le> us_created_at s + days (yc_max_days cfg)"
    using s(3) grant(2) truncate_second_le [of "capAtMaxDays cfg t0 e"] capAtMaxDays_le(2) [of cfg t0 e] by auto
  from slides_bounds [OF s(1,2) this, of uses] slides_idle [OF s(1,2), of uses cfg] show ?thesis by blast
qed

definition toy_stay_config :: stay_config where
  "toy_stay_config = \<lparr>yc_split = False, yc_max_days = 100, yc_idle_days = 30\<rparr>"

definition toy_sliding :: handler where
  "toy_sliding = set_users ((hd_users toy_replica)
     \<lparr>ut_sessions := [(''s1'', (toy_sess ''s1'' ''o'')\<lparr>us_expires_at := days 30\<rparr>)],
      ut_seals := [(''y'', toy_seal ''user'' ''sk2'' (days 30))]\<rparr>) toy_replica"

theorem sign_in_lifetime_witness:
  "\<exists>s'. session_of ''s1'' (slides toy_stay_config ''s1'' [(days 20, False), (days 45, True), (days 70, False), (days 90, False)]
       toy_sliding) = Some s' \<and> us_expires_at s' \<le> days 100 \<and> session_of ''s1'' toy_sliding \<noteq> Some s'"
proof -
  let ?uses = "[(days 20, False), (days 45, True), (days 70, False), (days 90, False)]"
  let ?s = "(toy_sess ''s1'' ''o'')\<lparr>us_expires_at := days 30\<rparr>"
  obtain g where g: "grantStaySignedIn toy_stay_config 0 None ''until_signout'' False toy_sliding = Some g"
    "sg_expires_at g = days 30"
    by (simp add: grantStaySignedIn_def toy_sliding_def toy_replica_def toy_keyfile_def toy_stay_config_def idleWindow_def
        capAtMaxDays_def truncate_second_def days_def set_users_def)
  have s: "session_of ''s1'' toy_sliding = Some ?s" by (simp add: toy_sliding_def)
  have id: "us_id ?s = ''s1''" "us_created_at ?s = 0" "yc_max_days toy_stay_config = 100"
    by (simp_all add: toy_sess_def toy_stay_config_def)
  have moved: "session_of ''s1'' (slides toy_stay_config ''s1'' ?uses toy_sliding) \<noteq> session_of ''s1'' toy_sliding"
    by code_simp
  show ?thesis
    using sign_in_lifetime [OF g(1) _ s id(1), of ?uses] moved g(2) id s by auto
qed

end
