(* ===== verification/Passwords.thy ===== *)
theory Passwords
  imports KeyLifetime SignIn
begin

text \<open>
  Where a password carries keys (\<open>internal/api/handler.go\<close>): registration with its first key, what a
  sign-in unlocks, and the change of a password, which re-wraps the keys encrypted under it.

  bcrypt, bech32, the derivation of public keys, the Vault client and \<open>strings.TrimSpace\<close> are parameters.
  The store is the in-memory one. Relay subscriptions, the platform user table (which that store does not
  have), cookies, the revocation of Vault tokens and log lines are left out.
\<close>

record account_env =
  ac_keys :: key_crypto
  ac_sign :: sign_in_crypto
  ac_stay :: stay_env
  ac_hash :: "string \<Rightarrow> string option"
  ac_nip19 :: "string \<Rightarrow> (string \<times> string) option"
  ac_trim :: "string \<Rightarrow> string"
  ac_local_key :: "bytes option"                   \<comment> \<open>\<open>h.encryptor\<close>\<close>
  ac_has_vault :: bool                                 \<comment> \<open>a Vault client is configured and enabled\<close>
  ac_set_userpass :: "string \<Rightarrow> string \<Rightarrow> bool"     \<comment> \<open>setting the userpass password works\<close>

abbreviation derive_pubkey :: "account_env \<Rightarrow> string \<Rightarrow> string option" where
  "derive_pubkey E \<equiv> ye_pubkey (ac_stay E)"

definition set_keys :: "grant_store \<Rightarrow> handler \<Rightarrow> handler" where
  "set_keys st h = on_signer (\<lambda>sn. sn\<lparr>sn_store := st\<rparr>) h"

definition load_key :: "key \<Rightarrow> string \<Rightarrow> handler \<Rightarrow> handler" where
  \<comment> \<open>the branch on \<open>IsProxy\<close> with which every loader ends\<close>
  "load_key k priv h =
     (if IsProxy k then on_signer (RegisterProxyKey (k_pubkey k) priv (k_bunker_uri k)) h
      else on_signer (RegisterKey (k_pubkey k) priv) h)"

section \<open>Unlocking at sign-in\<close>

definition decryptAndVerifyVaultKey :: "account_env \<Rightarrow> vault_encryptor \<Rightarrow> key \<Rightarrow> string option" where
  "decryptAndVerifyVaultKey E v k =
     (let std = (case vaultDecrypt (ac_keys E) v (k_encrypted_nsec k) of
                   Inl _ \<Rightarrow> None
                 | Inr priv \<Rightarrow> if derive_pubkey E priv = Some (k_pubkey k) then Some priv else None)
      in case std of
           Some priv \<Rightarrow> Some priv
         | None \<Rightarrow>
             (case vaultDecryptRaw (ac_keys E) v (k_encrypted_nsec k) of
                Inl _ \<Rightarrow> None
              | Inr priv \<Rightarrow> if derive_pubkey E priv = Some (k_pubkey k) then Some priv else None))"

definition loadUserVaultKeys :: "account_env \<Rightarrow> string \<Rightarrow> string \<Rightarrow> handler \<Rightarrow> handler" where
  "loadUserVaultKeys E userID vaultToken h =
     (if \<not> ac_has_vault E \<or> vaultToken = '''' then h
      else foldl (\<lambda>h r.
             let k = deref (hd_keys h) r in
             if \<not> IsVaultEncrypted (k_encrypted_nsec k) then h
             else case decryptAndVerifyVaultKey E \<lparr>ve_user_id = userID, ve_token = vaultToken\<rparr> k of
               None \<Rightarrow> h | Some priv \<Rightarrow> load_key k priv h)
           h (ListKeys userID (hd_keys h)))"

definition loadUserPassphraseKeys :: "account_env \<Rightarrow> string \<Rightarrow> string \<Rightarrow> handler \<Rightarrow> handler" where
  "loadUserPassphraseKeys E userID passphrase h =
     (if passphrase = '''' then h
      else case NewPassphraseEncryptor passphrase of
        Inl _ \<Rightarrow> h
      | Inr pe \<Rightarrow>
          foldl (\<lambda>h r.
             let k = deref (hd_keys h) r in
             if \<not> IsPassphraseEncrypted (k_encrypted_nsec k) then h
             else case passDecrypt (ac_keys E) pe (k_encrypted_nsec k) of
               Inl _ \<Rightarrow> h | Inr priv \<Rightarrow> load_key k priv h)
           h (ListKeys userID (hd_keys h)))"

text \<open>\<open>rnd i\<close> is the salt and nonce drawn for the key with id \<open>i\<close>.\<close>

definition rewrap_legacy_one ::
    "account_env \<Rightarrow> (string \<Rightarrow> (bytes \<times> bytes) option) \<Rightarrow> bytes \<Rightarrow> string \<Rightarrow> handler \<Rightarrow> addr \<Rightarrow> handler \<times> bool" where
  "rewrap_legacy_one E rnd server pe h r =
     (let k = deref (hd_keys h) r in
      if \<not> IsEncrypted (k_encrypted_nsec k) then (h, False)
      else case localDecrypt (ac_keys E) server (k_encrypted_nsec k) of
        Inl _ \<Rightarrow> (h, False)
      | Inr priv \<Rightarrow>
          if derive_pubkey E priv \<noteq> Some (k_pubkey k) then (h, False)
          else case passEncrypt (ac_keys E) (rnd (k_id k)) pe priv of
            Inl _ \<Rightarrow> (h, False)
          | Inr c \<Rightarrow>
              (case UpdateKeyEncryption (k_id k) c ''passphrase'' (hd_keys h) of
                 (st, Inl _) \<Rightarrow> (set_keys st h, False)
               | (st, Inr _) \<Rightarrow> (load_key k priv (set_keys st h), True)))"

definition rewrapLegacyLocalKeys ::
    "account_env \<Rightarrow> (string \<Rightarrow> (bytes \<times> bytes) option) \<Rightarrow> string \<Rightarrow> string \<Rightarrow> handler \<Rightarrow> handler \<times> nat" where
  "rewrapLegacyLocalKeys E rnd userID passphrase h =
     (case ac_local_key E of
        None \<Rightarrow> (h, 0)
      | Some server \<Rightarrow>
          if passphrase = '''' then (h, 0)
          else case NewPassphraseEncryptor passphrase of
            Inl _ \<Rightarrow> (h, 0)
          | Inr pe \<Rightarrow>
              foldl (\<lambda>(h, n) r. case rewrap_legacy_one E rnd server pe h r of (h, b) \<Rightarrow> (h, if b then n + 1 else n))
                (h, 0) (ListKeys userID (hd_keys h)))"

section \<open>Registration\<close>

definition DeriveUserPubkey :: "account_env \<Rightarrow> string \<Rightarrow> string option" where
  "DeriveUserPubkey E userID =
     (case DeriveNostrKey (ac_keys E) (replicate 64 CHR ''0'') userID ''cloistr-platform-identity'' of
        Inl _ \<Rightarrow> None | Inr sk \<Rightarrow> derive_pubkey E sk)"

text \<open>
  \<open>createInitialSigningKey\<close>: \<open>generated\<close> is the key pair it would generate, \<open>r\<close> the address of the new
  key object, \<open>rnd\<close> the random bytes of the encryption (salt and nonce, or nonce).
\<close>

definition initial_private_key :: "account_env \<Rightarrow> string \<Rightarrow> string \<Rightarrow> string option" where
  "initial_private_key E generated importPriv =
     (let s = ac_trim E importPriv in
      if s = '''' then Some generated
      else if has_prefix ''nsec1'' s then
        (case ac_nip19 E s of None \<Rightarrow> None | Some (prefix, v) \<Rightarrow> if prefix \<noteq> ''nsec'' then None else Some v)
      else Some s)"

definition wrap_initial ::
    "account_env \<Rightarrow> (bytes \<times> bytes) option \<Rightarrow> string \<Rightarrow> string \<Rightarrow> crypto_error + string \<times> string" where
  "wrap_initial E rnd passphrase priv =
     (if passphrase \<noteq> '''' then
        rbind (NewPassphraseEncryptor passphrase) (\<lambda>pe.
        rbind (passEncrypt (ac_keys E) rnd pe priv) (\<lambda>c. Inr (c, ''passphrase'')))
      else case ac_local_key E of
        Some server \<Rightarrow> rbind (localEncrypt (ac_keys E) (map_option snd rnd) server priv) (\<lambda>c. Inr (c, ''local''))
      | None \<Rightarrow> Inr (priv, ''local''))"

definition createInitialSigningKey ::
    "account_env \<Rightarrow> time \<Rightarrow> addr \<Rightarrow> (bytes \<times> bytes) option \<Rightarrow> string \<Rightarrow> string \<Rightarrow> string \<Rightarrow> string \<Rightarrow> string \<Rightarrow> handler \<Rightarrow>
     handler \<times> key option" where
  "createInitialSigningKey E now r rnd generated ownerID name importPriv passphrase h =
     (case initial_private_key E generated importPriv of
        None \<Rightarrow> (h, None)
      | Some priv \<Rightarrow>
     (case derive_pubkey E priv of
        None \<Rightarrow> (h, None)
      | Some pubkey \<Rightarrow>
     (case wrap_initial E rnd passphrase priv of
        Inl _ \<Rightarrow> (h, None)
      | Inr (c, method) \<Rightarrow>
          (let k = \<lparr>k_id = take 16 pubkey, k_name = name, k_pubkey = pubkey, k_key_type = KeyTypeLocal,
                    k_encrypted_nsec = c, k_encryption_method = method, k_bunker_uri = '''', k_upstream_pubkey = '''',
                    k_require_approval = False, k_disposable_mode = False, k_cover_traffic = False,
                    k_tor_egress = False, k_relays = [], k_relay_mode = '''', k_created_at = now, k_created_by = '''',
                    k_owner_id = ownerID, k_is_primary = False, k_single_grant = False\<rparr>
           in case CreateKey r ((hd_keys h)\<lparr>gs_heap := (gs_heap (hd_keys h))(r \<mapsto> k)\<rparr>) of
                (st, Inl _) \<Rightarrow> (set_keys st h, None)
              | (st, Inr _) \<Rightarrow> (on_signer (RegisterKey pubkey priv) (set_keys st h), Some k)))))"

record register_request =
  rr_username :: string
  rr_email :: string
  rr_password :: string
  rr_import_nsec :: string

datatype register_reply =
    ShortUsername | ColonInUsername | ShortPassword | UsernameTaken | EmailTaken | RegisterFailed | Registered user

definition handleUserRegister ::
    "account_env \<Rightarrow> time \<Rightarrow> addr \<times> addr \<Rightarrow> (bytes \<times> bytes) option \<Rightarrow> string option \<Rightarrow> string \<Rightarrow> register_request \<Rightarrow>
     handler \<Rightarrow> handler \<times> register_reply" where
  "handleUserRegister E now fresh rnd userID generated req h =
     (if length (rr_username req) < 3 then (h, ShortUsername)
      else if CHR '':'' \<in> set (rr_username req) then (h, ColonInUsername)
      else if length (rr_password req) < 8 then (h, ShortPassword)
      else if ok (GetUserByUsername (rr_username req) (hd_users h)) then (h, UsernameTaken)
      else if rr_email req \<noteq> '''' \<and> ok (GetUserByEmail (rr_email req) (hd_users h)) then (h, EmailTaken)
      else case ac_hash E (rr_password req) of
        None \<Rightarrow> (h, RegisterFailed)
      | Some hash \<Rightarrow>
     (case userID of
        None \<Rightarrow> (h, RegisterFailed)
      | Some i \<Rightarrow>
     (case DeriveUserPubkey E i of
        None \<Rightarrow> (h, RegisterFailed)
      | Some identity \<Rightarrow>
          (let u = \<lparr>u_id = i, u_username = rr_username req, u_email = rr_email req, u_pubkey = identity, u_role = '''',
                    u_password_hash = hash, u_mfa_secret = '''', u_mfa_enabled = False, u_backup_codes = [],
                    u_backup_codes_used = 0, u_failed_login_attempts = 0, u_locked_until = None,
                    u_last_login_at = None, u_last_login_ip = '''', u_created_at = now, u_updated_at = now\<rparr>
           in case CreateUser (fst fresh) u (hd_users h) of
                (st, Inl _) \<Rightarrow> (h, UsernameTaken)
              | (st, Inr _) \<Rightarrow>
                  (case createInitialSigningKey E now (snd fresh) rnd generated i ''Primary'' (rr_import_nsec req)
                          (rr_password req) (set_users st h) of
                     (h, None) \<Rightarrow> (h, Registered u)
                   | (h, Some k) \<Rightarrow>
                       (set_keys (fst (SetPrimaryKey i (k_id k) (hd_keys h))) h, Registered u))))))"

section \<open>Changing the password\<close>

text \<open>The new wrapping of every key is computed before any is written.\<close>

fun rewrap_pending ::
    "key_crypto \<Rightarrow> (string \<Rightarrow> (bytes \<times> bytes) option) \<Rightarrow> string \<Rightarrow> string \<Rightarrow> grant_store \<Rightarrow> addr list \<Rightarrow>
     crypto_error + (addr \<times> string \<times> string) list" where
  "rewrap_pending K rnd old new st [] = Inr []"
| "rewrap_pending K rnd old new st (r # rs) =
     (let k = deref st r in
      if \<not> IsPassphraseEncrypted (k_encrypted_nsec k) then rewrap_pending K rnd old new st rs
      else case ReWrap K (rnd (k_id k)) old new (k_encrypted_nsec k) of
        Inl e \<Rightarrow> Inl e
      | Inr newCT \<Rightarrow>
          (case rewrap_pending K rnd old new st rs of
             Inl e \<Rightarrow> Inl e | Inr todo \<Rightarrow> Inr ((r, k_encrypted_nsec k, newCT) # todo)))"

definition restore_wrapped :: "(addr \<times> string \<times> string) list \<Rightarrow> grant_store \<Rightarrow> grant_store" where
  "restore_wrapped done st =
     foldl (\<lambda>st (r, oldCT, newCT).
       let st = write_key r (\<lambda>k. k\<lparr>k_encrypted_nsec := oldCT\<rparr>) st
       in fst (UpdateKeyEncryption (k_id (deref st r)) oldCT ''passphrase'' st)) st done"

fun persist_wrapped ::
    "(addr \<times> string \<times> string) list \<Rightarrow> (addr \<times> string \<times> string) list \<Rightarrow> grant_store \<Rightarrow> grant_store \<times> bool" where
  "persist_wrapped done [] st = (st, True)"
| "persist_wrapped done ((r, oldCT, newCT) # todo) st =
     (let st = write_key r (\<lambda>k. k\<lparr>k_encrypted_nsec := newCT\<rparr>) st in
      case UpdateKeyEncryption (k_id (deref st r)) newCT ''passphrase'' st of
        (st, Inl _) \<Rightarrow> (restore_wrapped done st, False)
      | (st, Inr _) \<Rightarrow> persist_wrapped (done @ [(r, oldCT, newCT)]) todo st)"

text \<open>The store and, unless it failed, what \<open>restore\<close> would undo.\<close>

definition rewrapPassphraseKeys ::
    "key_crypto \<Rightarrow> (string \<Rightarrow> (bytes \<times> bytes) option) \<Rightarrow> string \<Rightarrow> string \<Rightarrow> string \<Rightarrow> grant_store \<Rightarrow>
     grant_store \<times> (addr \<times> string \<times> string) list option" where
  "rewrapPassphraseKeys K rnd userID old new st =
     (case rewrap_pending K rnd old new st (ListKeys userID st) of
        Inl _ \<Rightarrow> (st, None)
      | Inr todo \<Rightarrow> (case persist_wrapped [] todo st of (st, True) \<Rightarrow> (st, Some todo) | (st, False) \<Rightarrow> (st, None)))"

datatype change_reply =
    NewPasswordShort | NoSuchUser | CurrentWrong | HashFailed | RewrapFailed | UpdateFailed | PasswordChanged nat

text \<open>
  The answer is sent before the goroutine that unlocks the keys again and re-seals the session with
  \<open>stay\<close> (\<open>reopen_after_change\<close>).
\<close>

definition handleUserChangePassword ::
    "account_env \<Rightarrow> time \<Rightarrow> addr \<Rightarrow> (string \<Rightarrow> (bytes \<times> bytes) option) \<Rightarrow> bytes option \<Rightarrow> string \<Rightarrow> string \<Rightarrow> string \<Rightarrow>
     string \<Rightarrow> handler \<Rightarrow> handler \<times> change_reply \<times> stay_grant option" where
  "handleUserChangePassword E now r rnd half userID sessionID cur new h =
     (if length new < 8 then (h, NewPasswordShort, None)
      else case GetUser userID (hd_users h) of
        Inl _ \<Rightarrow> (h, NoSuchUser, None)
      | Inr user \<Rightarrow>
      if \<not> sc_verify_password (ac_sign E) cur (u_password_hash user) then (h, CurrentWrong, None)
      else case ac_hash E new of
        None \<Rightarrow> (h, HashFailed, None)
      | Some hash \<Rightarrow>
     (case rewrapPassphraseKeys (ac_keys E) rnd (u_id user) cur new (hd_keys h) of
        (keys, None) \<Rightarrow> (set_keys keys h, RewrapFailed, None)
      | (keys, Some wrapped) \<Rightarrow>
          (let h = set_keys keys h in
           case UpdateUser now r (user\<lparr>u_password_hash := hash\<rparr>) (hd_users h) of
             (st, Inl _) \<Rightarrow> (set_keys (restore_wrapped wrapped (hd_keys h)) (set_users st h), UpdateFailed, None)
           | (st, Inr _) \<Rightarrow>
               (let h = set_users st h;
                    stay = regrantForSession now half sessionID h;
                    h = endSessions now (u_id user) sessionID h;
                    h = fst (revokeUserSeals now (u_id user) h)
                in (h, PasswordChanged (length wrapped), stay)))))"

definition reopen_after_change ::
    "account_env \<Rightarrow> time \<Rightarrow> (nat \<Rightarrow> bytes \<times> bytes \<times> string) \<Rightarrow> string \<Rightarrow> string \<Rightarrow> string \<Rightarrow> stay_grant option \<Rightarrow> handler \<Rightarrow> handler" where
  "reopen_after_change E now random userID sessionID new stay h =
     (if hd_sealer h = None then h
      else
        (let token = (case GetUserSession now sessionID (hd_users h) of Inl _ \<Rightarrow> '''' | Inr s \<Rightarrow> us_vault_token s);
             h = loadUserPassphraseKeys E userID new h;
             h = loadUserVaultKeys E userID token h
         in sealSessionKeys (ac_stay E) now random userID sessionID stay h))"

section \<open>No key is lost\<close>

text \<open>What a user's key opens to, given the password of the account.\<close>

definition opened :: "account_env \<Rightarrow> string \<Rightarrow> key \<Rightarrow> string option" where
  "opened E p k =
     (if IsPassphraseEncrypted (k_encrypted_nsec k)
      then (case passDecrypt (ac_keys E) p (k_encrypted_nsec k) of Inl _ \<Rightarrow> None | Inr priv \<Rightarrow> Some priv)
      else if IsEncrypted (k_encrypted_nsec k)
      then (case ac_local_key E of
              None \<Rightarrow> None
            | Some server \<Rightarrow> (case localDecrypt (ac_keys E) server (k_encrypted_nsec k) of Inl _ \<Rightarrow> None | Inr priv \<Rightarrow> Some priv))
      else None)"

definition wrapped_as :: "string \<Rightarrow> key \<Rightarrow> key" where
  "wrapped_as c k = k\<lparr>k_encrypted_nsec := c, k_encryption_method := ''passphrase''\<rparr>"

lemma wrapped_as_simps [simp]:
  "k_encrypted_nsec (wrapped_as c k) = c" "k_id (wrapped_as c k) = k_id k" "k_pubkey (wrapped_as c k) = k_pubkey k"
  "k_owner_id (wrapped_as c k) = k_owner_id k"
  by (simp_all add: wrapped_as_def)

definition drawn :: "(string \<Rightarrow> (bytes \<times> bytes) option) \<Rightarrow> bool" where
  "drawn rnd \<longleftrightarrow> (\<forall>i. \<exists>salt nonce. rnd i = Some (salt, nonce) \<and> length salt = pbkdf2SaltLen \<and> length nonce = nonce_size)"

lemma write_key_simps [simp]:
  "deref (write_key r f st) q = (if q = r then f (deref st r) else deref st q)"
  "gs_keys (write_key r f st) = gs_keys st" "gs_by_pubkey (write_key r f st) = gs_by_pubkey st"
  by (simp_all add: write_key_def deref_def)

lemma ListKeys_cong:
  "gs_keys st' = gs_keys st \<Longrightarrow> (\<And>r. k_owner_id (deref st' r) = k_owner_id (deref st r)) \<Longrightarrow> ListKeys u st' = ListKeys u st"
  by (simp add: ListKeys_def)

lemma keys_wf_cong:
  assumes "gs_keys st' = gs_keys st" "gs_by_pubkey st' = gs_by_pubkey st"
    "\<And>r. k_id (deref st' r) = k_id (deref st r)" "\<And>r. k_pubkey (deref st' r) = k_pubkey (deref st r)"
  shows "keys_wf st' = keys_wf st"
  using assms by (simp add: keys_wf_def)

lemma keys_wfD:
  assumes "keys_wf st" "r \<in> snd ` set (gs_keys st)"
  shows "map_of (gs_keys st) (k_id (deref st r)) = Some r"
  using assms by (auto simp: keys_wf_def)

lemma refs_distinct:
  assumes "keys_wf st" shows "distinct (map snd (gs_keys st))"
proof -
  have "fst e = k_id (deref st (snd e))" if "e \<in> set (gs_keys st)" for e using assms that by (auto simp: keys_wf_def)
  then have "map fst (gs_keys st) = map (\<lambda>r. k_id (deref st r)) (map snd (gs_keys st))" by simp
  then show ?thesis using assms by (metis keys_wf_def distinct_map)
qed

lemma update_encryption:
  assumes "keys_wf st" "r \<in> snd ` set (gs_keys st)"
  shows "UpdateKeyEncryption (k_id (deref st r)) c ''passphrase'' st = (write_key r (wrapped_as c) st, Inr ())"
  using keys_wfD [OF assms] by (simp add: UpdateKeyEncryption_def wrapped_as_def [abs_def])

text \<open>A run of writes, each to another key.\<close>

definition write_wrapped :: "(addr \<times> string) list \<Rightarrow> grant_store \<Rightarrow> grant_store" where
  "write_wrapped ws st = foldl (\<lambda>st (r, c). write_key r (wrapped_as c) st) st ws"

lemma write_wrapped_simps:
  "gs_keys (write_wrapped ws st) = gs_keys st" "gs_by_pubkey (write_wrapped ws st) = gs_by_pubkey st"
  "distinct (map fst ws) \<Longrightarrow> deref (write_wrapped ws st) r =
     (case map_of ws r of None \<Rightarrow> deref st r | Some c \<Rightarrow> wrapped_as c (deref st r))"
  "k_id (deref (write_wrapped ws st) r) = k_id (deref st r)" "k_pubkey (deref (write_wrapped ws st) r) = k_pubkey (deref st r)"
  "k_owner_id (deref (write_wrapped ws st) r) = k_owner_id (deref st r)"
proof -
  show "gs_keys (write_wrapped ws st) = gs_keys st" "gs_by_pubkey (write_wrapped ws st) = gs_by_pubkey st"
    "k_id (deref (write_wrapped ws st) r) = k_id (deref st r)" "k_pubkey (deref (write_wrapped ws st) r) = k_pubkey (deref st r)"
    "k_owner_id (deref (write_wrapped ws st) r) = k_owner_id (deref st r)"
    by (induction ws arbitrary: st) (auto simp: write_wrapped_def)
  show "distinct (map fst ws) \<Longrightarrow> deref (write_wrapped ws st) r =
     (case map_of ws r of None \<Rightarrow> deref st r | Some c \<Rightarrow> wrapped_as c (deref st r))"
  proof (induction ws arbitrary: st)
    case (Cons w ws)
    have e: "write_wrapped (w # ws) st = write_wrapped ws (write_key (fst w) (wrapped_as (snd w)) st)"
      by (simp add: write_wrapped_def split_def)
    have "map_of ws (fst w) = None" using Cons.prems by (force simp: map_of_eq_None_iff)
    then show ?case using Cons.IH [of "write_key (fst w) (wrapped_as (snd w)) st"] Cons.prems
      unfolding e by (cases w) (auto split: option.splits)
  qed (simp add: write_wrapped_def)
qed

lemma persist_writes:
  assumes "keys_wf st" "fst ` set todo \<subseteq> snd ` set (gs_keys st)"
  shows "persist_wrapped done todo st = (write_wrapped (map (\<lambda>(r, old, new). (r, new)) todo) st, True)"
  using assms
proof (induction "done" todo st rule: persist_wrapped.induct)
  case (2 d r old new todo st)
  let ?st1 = "write_key r (\<lambda>k. k\<lparr>k_encrypted_nsec := new\<rparr>) st"
  have wf1: "keys_wf ?st1" using 2(2) by (subst keys_wf_cong [of _ st]) auto
  have r: "r \<in> snd ` set (gs_keys ?st1)" using 2(3) by auto
  note u = update_encryption [OF wf1 r, of new]
  have w: "write_key r (wrapped_as new) ?st1 = write_key r (wrapped_as new) st"
    by (simp add: write_key_def deref_def wrapped_as_def)
  let ?st2 = "write_key r (wrapped_as new) st"
  have "keys_wf ?st2" using 2(2) by (subst keys_wf_cong [of _ st]) auto
  moreover have "fst ` set todo \<subseteq> snd ` set (gs_keys ?st2)" using 2(3) by auto
  ultimately have "persist_wrapped (d @ [(r, old, new)]) todo ?st2 = (write_wrapped (map (\<lambda>(r, old, new). (r, new)) todo) ?st2, True)"
    using 2(1) [of ?st1 ?st2 "Inr ()" "()"] u w by simp
  then show ?case using u w by (simp add: write_wrapped_def)
qed (simp add: write_wrapped_def)

lemma ReWrap_keeps:
  assumes K: "key_crypto_laws K" and rnd: "drawn rnd" and "ReWrap K (rnd i) old new c = Inr c'"
  shows "\<exists>priv. passDecrypt K old c = Inr priv \<and> passDecrypt K new c' = Inr priv \<and> IsPassphraseEncrypted c'"
proof -
  obtain salt nonce where r: "rnd i = Some (salt, nonce)" "length salt = pbkdf2SaltLen" "length nonce = nonce_size"
    using rnd unfolding drawn_def by blast
  from assms(3) obtain priv where "passDecrypt K old c = Inr priv" "passEncrypt K (Some (salt, nonce)) new priv = Inr c'"
    by (auto simp: ReWrap_def NewPassphraseEncryptor_def r(1) split: if_splits)
  with passDecrypt_Encrypt [OF K r(2,3) this(2)] show ?thesis
    by (auto simp: DetectEncryptionMethod_def split: if_splits)
qed

lemma rewrap_pending_spec:
  assumes "rewrap_pending K rnd old new st rs = Inr todo"
  shows "map fst todo = filter (\<lambda>r. IsPassphraseEncrypted (k_encrypted_nsec (deref st r))) rs"
    "(r, o', n) \<in> set todo \<Longrightarrow> o' = k_encrypted_nsec (deref st r) \<and>
       ReWrap K (rnd (k_id (deref st r))) old new (k_encrypted_nsec (deref st r)) = Inr n"
proof -
  have "map fst todo = filter (\<lambda>r. IsPassphraseEncrypted (k_encrypted_nsec (deref st r))) rs \<and>
    (\<forall>(r, o', n) \<in> set todo. o' = k_encrypted_nsec (deref st r) \<and>
       ReWrap K (rnd (k_id (deref st r))) old new (k_encrypted_nsec (deref st r)) = Inr n)"
    using assms by (induction rs arbitrary: todo) (auto simp: Let_def split: if_splits sum.splits)
  then show "map fst todo = filter (\<lambda>r. IsPassphraseEncrypted (k_encrypted_nsec (deref st r))) rs"
    "(r, o', n) \<in> set todo \<Longrightarrow> o' = k_encrypted_nsec (deref st r) \<and>
       ReWrap K (rnd (k_id (deref st r))) old new (k_encrypted_nsec (deref st r)) = Inr n"
    by auto
qed

lemma rewrap_pending_stuck:
  assumes "r \<in> set rs" "IsPassphraseEncrypted (k_encrypted_nsec (deref st r))"
    "\<And>priv. passDecrypt K old (k_encrypted_nsec (deref st r)) \<noteq> Inr priv"
  shows "\<exists>e. rewrap_pending K rnd old new st rs = Inl e"
  using assms
proof (induction rs)
  case (Cons q rs)
  have "ReWrap K i old new (k_encrypted_nsec (deref st r)) \<noteq> Inr c" for i c
    using Cons.prems(3) by (auto simp: ReWrap_def NewPassphraseEncryptor_def split: if_splits)
  with Cons show ?case by (auto simp: Let_def split: sum.splits)
qed simp

lemma rewrapPassphraseKeys_spec:
  assumes K: "key_crypto_laws K" and rnd: "drawn rnd" and wf: "keys_wf st"
    and run: "rewrapPassphraseKeys K rnd u old new st = (st', res)"
  shows "res = None \<Longrightarrow> st' = st"
    "res \<noteq> None \<Longrightarrow> gs_keys st' = gs_keys st \<and> gs_by_pubkey st' = gs_by_pubkey st \<and>
       (\<forall>r \<in> snd ` set (gs_keys st).
          (if k_owner_id (deref st r) = u \<and> IsPassphraseEncrypted (k_encrypted_nsec (deref st r))
           then \<exists>c priv. deref st' r = wrapped_as c (deref st r) \<and> passDecrypt K old (k_encrypted_nsec (deref st r)) = Inr priv \<and>
             passDecrypt K new c = Inr priv \<and> IsPassphraseEncrypted c
           else deref st' r = deref st r))"
proof -
  have *: "(res = None \<longrightarrow> st' = st) \<and> (res \<noteq> None \<longrightarrow> gs_keys st' = gs_keys st \<and> gs_by_pubkey st' = gs_by_pubkey st \<and>
       (\<forall>r \<in> snd ` set (gs_keys st).
          (if k_owner_id (deref st r) = u \<and> IsPassphraseEncrypted (k_encrypted_nsec (deref st r))
           then \<exists>c priv. deref st' r = wrapped_as c (deref st r) \<and> passDecrypt K old (k_encrypted_nsec (deref st r)) = Inr priv \<and>
             passDecrypt K new c = Inr priv \<and> IsPassphraseEncrypted c
           else deref st' r = deref st r)))"
  proof (cases "rewrap_pending K rnd old new st (ListKeys u st)")
    case (Inl e)
    then show ?thesis using run by (auto simp: rewrapPassphraseKeys_def)
  next
    case (Inr todo)
    note p = rewrap_pending_spec [OF Inr]
    define ws where "ws = map (\<lambda>(r, o', n). (r, n)) todo"
    have f: "map fst ws = map fst todo" by (simp add: ws_def split_def comp_def)
    have d: "distinct (map fst ws)" using refs_distinct [OF wf] unfolding f p(1) by (simp add: ListKeys_def)
    have "fst ` set todo \<subseteq> snd ` set (gs_keys st)"
      unfolding set_map [symmetric] p(1) by (auto simp: ListKeys_def)
    from persist_writes [OF wf this] have out: "st' = write_wrapped ws st" "res = Some todo"
      using run Inr by (auto simp: rewrapPassphraseKeys_def ws_def)
    note w = write_wrapped_simps(3) [OF d]
    have "if k_owner_id (deref st r) = u \<and> IsPassphraseEncrypted (k_encrypted_nsec (deref st r))
           then \<exists>c priv. deref st' r = wrapped_as c (deref st r) \<and> passDecrypt K old (k_encrypted_nsec (deref st r)) = Inr priv \<and>
             passDecrypt K new c = Inr priv \<and> IsPassphraseEncrypted c
           else deref st' r = deref st r" if r: "r \<in> snd ` set (gs_keys st)" for r
    proof (cases "k_owner_id (deref st r) = u \<and> IsPassphraseEncrypted (k_encrypted_nsec (deref st r))")
      case True
      then have "r \<in> set (map fst todo)" using r unfolding p(1) by (simp add: ListKeys_def)
      then obtain o' n where t: "(r, o', n) \<in> set todo" by auto
      then have "(r, n) \<in> set ws" by (force simp: ws_def)
      with d have "map_of ws r = Some n" by simp
      then show ?thesis using True ReWrap_keeps [OF K rnd] p(2) [OF t] by (force simp: out w)
    next
      case False
      then have "r \<notin> set (map fst ws)" unfolding f p(1) by (auto simp: ListKeys_def)
      then have "map_of ws r = None" by (simp add: map_of_eq_None_iff)
      then show ?thesis using False by (auto simp: out w)
    qed
    moreover have "gs_keys st' = gs_keys st" "gs_by_pubkey st' = gs_by_pubkey st" "res \<noteq> None"
      by (simp_all add: out write_wrapped_simps)
    ultimately show ?thesis by blast
  qed
  show "res = None \<Longrightarrow> st' = st"
    "res \<noteq> None \<Longrightarrow> gs_keys st' = gs_keys st \<and> gs_by_pubkey st' = gs_by_pubkey st \<and>
       (\<forall>r \<in> snd ` set (gs_keys st).
          (if k_owner_id (deref st r) = u \<and> IsPassphraseEncrypted (k_encrypted_nsec (deref st r))
           then \<exists>c priv. deref st' r = wrapped_as c (deref st r) \<and> passDecrypt K old (k_encrypted_nsec (deref st r)) = Inr priv \<and>
             passDecrypt K new c = Inr priv \<and> IsPassphraseEncrypted c
           else deref st' r = deref st r))"
    using * by blast+
qed

text \<open>The parts of a replica's state that the accounts' operations rely on.\<close>

definition accounts_ok :: "account_env \<Rightarrow> handler \<Rightarrow> bool" where
  "accounts_ok E h \<longleftrightarrow> keys_wf (hd_keys h) \<and> hd_sealer h \<noteq> None \<and>
     (\<forall>i r. map_of (ut_users (hd_users h)) i = Some r \<longrightarrow> u_id (uderef (hd_users h) r) = i) \<and>
     distinct (map fst (ut_sessions (hd_users h))) \<and> (\<forall>(i, s) \<in> set (ut_sessions (hd_users h)). us_id s = i) \<and>
     (\<forall>p hash. ac_hash E p = Some hash \<longrightarrow> sc_verify_password (ac_sign E) p hash)"

lemma set_keys_simps [simp]:
  "hd_keys (set_keys st h) = st" "hd_users (set_keys st h) = hd_users h" "mem (set_keys st h) = mem h"
  "hd_sealer (set_keys st h) = hd_sealer h" "hd_leases (set_keys st h) = hd_leases h"
  by (simp_all add: set_keys_def)

lemma set_same [simp]: "set_keys (hd_keys h) h = h" "set_users (hd_users h) h = h"
  by (simp_all add: set_keys_def on_signer_def set_users_def)

lemma end_sessions:
  "ut_sessions (hd_users (endSessions now u keep h)) =
     filter (\<lambda>(i, s). \<forall>e \<in> set (ListUserSessions now u (hd_users h)). us_id e = keep \<or> us_id e \<noteq> i) (ut_sessions (hd_users h))"
  "ut_seals (hd_users (endSessions now u keep h)) = ut_seals (hd_users h)"
  "ut_users (hd_users (endSessions now u keep h)) = ut_users (hd_users h)"
  "ut_heap (hd_users (endSessions now u keep h)) = ut_heap (hd_users h)"
  "hd_keys (endSessions now u keep h) = hd_keys h" "hd_sealer (endSessions now u keep h) = hd_sealer h"
  "mem (endSessions now u keep h) = mem h"
proof -
  have *: "ut_sessions (foldl (\<lambda>st s. if us_id s = keep then st else DeleteUserSession (us_id s) st) st ss) =
      filter (\<lambda>(i, s). \<forall>e \<in> set ss. us_id e = keep \<or> us_id e \<noteq> i) (ut_sessions st) \<and>
    ut_seals (foldl (\<lambda>st s. if us_id s = keep then st else DeleteUserSession (us_id s) st) st ss) = ut_seals st \<and>
    ut_users (foldl (\<lambda>st s. if us_id s = keep then st else DeleteUserSession (us_id s) st) st ss) = ut_users st \<and>
    ut_heap (foldl (\<lambda>st s. if us_id s = keep then st else DeleteUserSession (us_id s) st) st ss) = ut_heap st"
    for st and ss :: "user_session list"
    by (induction ss arbitrary: st)
       (auto simp: DeleteUserSession_def AList.delete_eq filter_filter split_def intro!: filter_cong)
  show "ut_sessions (hd_users (endSessions now u keep h)) =
     filter (\<lambda>(i, s). \<forall>e \<in> set (ListUserSessions now u (hd_users h)). us_id e = keep \<or> us_id e \<noteq> i) (ut_sessions (hd_users h))"
  "ut_seals (hd_users (endSessions now u keep h)) = ut_seals (hd_users h)"
  "ut_users (hd_users (endSessions now u keep h)) = ut_users (hd_users h)"
  "ut_heap (hd_users (endSessions now u keep h)) = ut_heap (hd_users h)"
    using * by (simp_all add: endSessions_def)
qed (simp_all add: endSessions_def)

lemma sessions_left:
  assumes "distinct (map fst (ut_sessions (hd_users h)))" "\<forall>(i, s) \<in> set (ut_sessions (hd_users h)). us_id s = i"
  shows "ListUserSessions now v (hd_users (endSessions now u keep h)) =
    (if v = u then filter (\<lambda>s. us_id s = keep) (ListUserSessions now u (hd_users h)) else ListUserSessions now v (hd_users h))"
proof -
  let ?ss = "ListUserSessions now u (hd_users h)"
  have mem: "e \<in> set ?ss \<longleftrightarrow> (us_id e, e) \<in> set (ut_sessions (hd_users h)) \<and> us_user_id e = u \<and> now < us_expires_at e" for e
    using assms(2) by (force simp: ListUserSessions_def sessions_of_def)
  have same: "e = s" if "(us_id e, e) \<in> set (ut_sessions (hd_users h))" "(us_id e, s) \<in> set (ut_sessions (hd_users h))" for e s
    using assms(1) that by (rule eq_key_imp_eq_value)
  have kept: "(\<forall>e \<in> set ?ss. us_id e = keep \<or> us_id e \<noteq> i) \<longleftrightarrow> us_user_id s \<noteq> u \<or> us_id s = keep"
    if "(i, s) \<in> set (ut_sessions (hd_users h))" "now < us_expires_at s" for i s
  proof -
    have i: "us_id s = i" using assms(2) that(1) by auto
    have "e = s" if "e \<in> set ?ss" "us_id e = i" for e using same [of e s] mem that \<open>(i, s) \<in> _\<close> by simp
    then show ?thesis using mem [of s] i that by auto
  qed
  have "ListUserSessions now v (hd_users (endSessions now u keep h)) =
      map snd (filter (\<lambda>(i, s). us_user_id s = v \<and> now < us_expires_at s \<and>
        (\<forall>e \<in> set ?ss. us_id e = keep \<or> us_id e \<noteq> i)) (ut_sessions (hd_users h)))"
    by (simp add: ListUserSessions_def [of now v] sessions_of_def end_sessions filter_map filter_filter split_def comp_def conj_ac)
  also have "\<dots> = map snd (filter (\<lambda>(i, s). us_user_id s = v \<and> now < us_expires_at s \<and> (v \<noteq> u \<or> us_id s = keep))
        (ut_sessions (hd_users h)))"
    using kept by (intro arg_cong [where f = "map snd"] filter_cong) auto
  also have "\<dots> = (if v = u then filter (\<lambda>s. us_id s = keep) ?ss else ListUserSessions now v (hd_users h))"
    by (auto simp: ListUserSessions_def sessions_of_def filter_map filter_filter split_def comp_def conj_ac)
  finally show ?thesis .
qed

lemma change_password_cases:
  assumes K: "key_crypto_laws (ac_keys E)" and rnd: "drawn rnd" and okh: "accounts_ok E h"
    and run: "handleUserChangePassword E now q rnd half u sid cur new h = (h', reply, stay)"
  obtains (refused) "hd_users h' = hd_users h" "hd_keys h' = hd_keys h" "\<And>n. reply \<noteq> PasswordChanged n"
    | (changed) a hash keys w st where "GetUser u (hd_users h) = Inr a" "u_id a = u" "ac_hash E new = Some hash"
      "rewrapPassphraseKeys (ac_keys E) rnd u cur new (hd_keys h) = (keys, Some w)"
      "UpdateUser now q (a\<lparr>u_password_hash := hash\<rparr>) (hd_users h) = (st, Inr ())"
      "h' = fst (revokeUserSeals now u (endSessions now u sid (set_users st (set_keys keys h))))"
      "reply = PasswordChanged (length w)"
proof (cases "\<exists>n. reply = PasswordChanged n")
  case True
  have "u_id a = u" if "GetUser u (hd_users h) = Inr a" for a
    using that okh by (auto simp: GetUser_def accounts_ok_def split: option.splits)
  with True show ?thesis
    using run changed by (auto simp: handleUserChangePassword_def Let_def split: if_splits sum.splits option.splits prod.splits)
next
  case False
  have "UpdateUser now q (a\<lparr>u_password_hash := hash\<rparr>) st \<noteq> (st', Inl e)" if "GetUser u (hd_users h) = Inr a" "st = hd_users h" for a hash st st' e
    using that okh by (auto simp: GetUser_def UpdateUser_def Let_def accounts_ok_def split: option.splits)
  moreover have "keys = hd_keys h" if "rewrapPassphraseKeys (ac_keys E) rnd i cur new (hd_keys h) = (keys, None)" for i keys
    using rewrapPassphraseKeys_spec(1) [OF K rnd _ that] okh by (simp add: accounts_ok_def)
  ultimately show ?thesis
    using run False refused
    by (auto simp: handleUserChangePassword_def Let_def split: if_splits sum.splits option.splits prod.splits)
qed

text \<open>
  C31. A change of the password loses no key and leaves no other sign-in: every key of the account that
  was encrypted under the old password opens to the same private key under the new one, no other key
  is touched, the new password verifies, the only session left is the one that asked and every seal of
  the account is gone, while other accounts keep their sessions and seals. If the change is refused,
  for whatever reason, the stored keys and accounts are as before.
\<close>

theorem password_change_keeps_keys:
  assumes K: "key_crypto_laws (ac_keys E)" and rnd: "drawn rnd" and okh: "accounts_ok E h"
    and run: "handleUserChangePassword E now q rnd half u sid cur new h = (h', reply, stay)"
  shows "(case reply of
      PasswordChanged n \<Rightarrow>
        (\<exists>a. GetUser u (hd_users h') = Inr a \<and> sc_verify_password (ac_sign E) new (u_password_hash a)) \<and>
        (\<forall>r \<in> snd ` set (gs_keys (hd_keys h)).
           if k_owner_id (deref (hd_keys h) r) = u \<and> IsPassphraseEncrypted (k_encrypted_nsec (deref (hd_keys h) r))
           then opened E cur (deref (hd_keys h) r) \<noteq> None \<and>
             opened E new (deref (hd_keys h') r) = opened E cur (deref (hd_keys h) r)
           else deref (hd_keys h') r = deref (hd_keys h) r) \<and>
        (\<forall>v. ListUserSessions now v (hd_users h') =
           (if v = u then filter (\<lambda>s. us_id s = sid) (ListUserSessions now u (hd_users h)) else ListUserSessions now v (hd_users h))) \<and>
        hd_seals h' = filter (\<lambda>sl. sl_user_id sl \<noteq> u) (hd_seals h)
    | _ \<Rightarrow> hd_users h' = hd_users h \<and> hd_keys h' = hd_keys h)"
proof -
  have wf: "keys_wf (hd_keys h)" and s: "hd_sealer h \<noteq> None"
    and ss: "distinct (map fst (ut_sessions (hd_users h)))" "\<forall>(i, s) \<in> set (ut_sessions (hd_users h)). us_id s = i"
    using okh by (auto simp: accounts_ok_def)
  from K rnd okh run show ?thesis
  proof (cases rule: change_password_cases)
    case refused
    then show ?thesis by (simp split: change_reply.split)
  next
    case (changed a hash keys w st)
    let ?h1 = "set_users st (set_keys keys h)" let ?h2 = "endSessions now u sid ?h1"
    note h' = changed(6)
    have u: "map_of (ut_users st) u = Some q" "uderef st q = a\<lparr>u_password_hash := hash, u_updated_at := now\<rparr>"
      "ut_sessions st = ut_sessions (hd_users h)" "ut_seals st = ut_seals (hd_users h)"
      using changed(5,2) by (auto simp: UpdateUser_def Let_def uderef_def update_conv' split: option.splits)
    have s2: "hd_sealer ?h2 \<noteq> None" using s by (simp add: end_sessions)
    note rv = revoke_seals [OF s2, of now u] and es = end_sessions [of now u sid ?h1]
    have us: "hd_users h' = fst (DeleteSessionSealsByUser u (hd_users ?h2))" by (simp add: h' rv)
    have F1: "\<exists>b. GetUser u (hd_users h') = Inr b \<and> sc_verify_password (ac_sign E) new (u_password_hash b)"
      using u changed(3) okh es
      by (auto simp: us GetUser_def DeleteSessionSealsByUser_def dropSessionSealsLocked_def Let_def uderef_def accounts_ok_def)
    have F2: "ListUserSessions now v (hd_users h') =
        (if v = u then filter (\<lambda>s. us_id s = sid) (ListUserSessions now u (hd_users h)) else ListUserSessions now v (hd_users h))" for v
    proof -
      have c: "ListUserSessions now w (hd_users ?h1) = ListUserSessions now w (hd_users h)" for w
        by (rule ListUserSessions_cong) (simp add: u)
      have "ListUserSessions now v (hd_users h') = ListUserSessions now v (hd_users ?h2)"
        by (rule ListUserSessions_cong) (simp add: us DeleteSessionSealsByUser_def)
      also have "\<dots> = (if v = u then filter (\<lambda>s. us_id s = sid) (ListUserSessions now u (hd_users ?h1)) else ListUserSessions now v (hd_users ?h1))"
        by (rule sessions_left) (use ss u in simp_all)
      finally show ?thesis by (simp only: c)
    qed
    have F3: "hd_seals h' = filter (\<lambda>sl. sl_user_id sl \<noteq> u) (hd_seals h)"
      by (simp add: us DeleteSessionSealsByUser_def es u)
    have F4: "if k_owner_id (deref (hd_keys h) r) = u \<and> IsPassphraseEncrypted (k_encrypted_nsec (deref (hd_keys h) r))
           then opened E cur (deref (hd_keys h) r) \<noteq> None \<and>
             opened E new (deref (hd_keys h') r) = opened E cur (deref (hd_keys h) r)
           else deref (hd_keys h') r = deref (hd_keys h) r" if r: "r \<in> snd ` set (gs_keys (hd_keys h))" for r
    proof -
      have k: "hd_keys h' = keys" by (simp add: h' rv es)
      have "Some w \<noteq> None" by simp
      note sp = rewrapPassphraseKeys_spec(2) [OF K rnd wf changed(4) this]
      show ?thesis
        unfolding k using bspec [OF conjunct2 [OF conjunct2 [OF sp]] r] by (auto simp: opened_def split: if_splits)
    qed
    show ?thesis unfolding changed(7) change_reply.case by (intro conjI allI ballI F1 F2 F3 F4)
  qed
qed

text \<open>
  The account of the witnesses: one key under the password, one that is still under the server's key,
  two sessions.
\<close>

definition toy_key_crypto :: key_crypto where
  "toy_key_crypto = \<lparr>kc_gcm = toy_seal_crypto, kc_pbkdf2 = (\<lambda>p s i n. p), kc_hkdf = (\<lambda>s c i n. Some i),
     kc_transit_encrypt = (\<lambda>t k p. Some (''vault:'' @ p)), kc_transit_decrypt = (\<lambda>t k c. Some (drop 6 c)),
     kc_transit_rewrap = (\<lambda>t k c. Some c)\<rparr>"

definition toy_env :: account_env where
  "toy_env = \<lparr>ac_keys = toy_key_crypto, ac_sign = toy_crypto, ac_stay = toy_stay,
     ac_hash = (\<lambda>p. Some (''#'' @ p)), ac_nip19 = (\<lambda>s. None), ac_trim = id, ac_local_key = Some [1, 2, 3],
     ac_has_vault = False, ac_set_userpass = (\<lambda>u p. False)\<rparr>"

definition toy_random :: "string \<Rightarrow> (bytes \<times> bytes) option" where
  "toy_random i = Some (replicate 16 1, replicate 12 2)"

definition toy_account :: handler where
  "toy_account = toy_replica\<lparr>hd_signer := (hd_signer toy_replica)\<lparr>
     sn_store := toy_owner_keys\<lparr>
       gs_heap := [1 \<mapsto> (toy_key ''role'' True)\<lparr>k_owner_id := ''u'',
            k_encrypted_nsec := projr (localEncrypt toy_key_crypto (Some (replicate 12 3)) [1, 2, 3] ''sk1'')\<rparr>,
          2 \<mapsto> (toy_key ''user'' False)\<lparr>k_owner_id := ''u'',
            k_encrypted_nsec := projr (passEncrypt toy_key_crypto (toy_random '''') ''old-password'' ''sk2'')\<rparr>],
       gs_keys := [(''ro'', 1), (''us'', 2)], gs_by_pubkey := [''role'' \<mapsto> 1, ''user'' \<mapsto> 2]\<rparr>,
     sn_users := (fst (CreateUser 1 (toy_user\<lparr>u_password_hash := ''#old-password''\<rparr>)
         \<lparr>ut_heap = Map.empty, ut_users = [], ut_by_username = Map.empty, ut_by_email = Map.empty, ut_sessions = [], ut_seals = []\<rparr>))
       \<lparr>ut_sessions := [(''s1'', toy_sess ''s1'' ''u''), (''s2'', toy_sess ''s2'' ''u'')]\<rparr>\<rparr>\<rparr>"

lemma toy_key_crypto_laws: "key_crypto_laws toy_key_crypto"
  using toy_seal_laws by (simp add: key_crypto_laws_def seal_laws_def toy_key_crypto_def has_prefix_def)

lemma toy_env_laws: "key_crypto_laws (ac_keys toy_env)"
  by (simp add: toy_env_def toy_key_crypto_laws)

lemma toy_drawn: "drawn toy_random"
  by (simp add: drawn_def toy_random_def pbkdf2SaltLen_def nonce_size_def)

lemma toy_account_ok: "accounts_ok toy_env toy_account"
proof -
  have "keys_wf (hd_keys toy_account)"
    by (auto simp: keys_wf_def deref_def toy_account_def toy_replica_def toy_owner_keys_def toy_key_def split: if_splits)
  moreover have "hd_sealer toy_account \<noteq> None" by (simp add: toy_account_def toy_replica_def)
  moreover have "u_id (uderef (hd_users toy_account) r) = i" if "map_of (ut_users (hd_users toy_account)) i = Some r" for i r
    using that by (auto simp: toy_account_def toy_users_def toy_user_def CreateUser_def uderef_def split: if_splits)
  moreover have "ut_sessions (hd_users toy_account) = [(''s1'', toy_sess ''s1'' ''u''), (''s2'', toy_sess ''s2'' ''u'')]"
    by (simp add: toy_account_def)
  ultimately show ?thesis by (simp add: accounts_ok_def toy_env_def toy_crypto_def toy_sess_def)
qed

theorem password_change_keeps_keys_witness:
  "case handleUserChangePassword toy_env 5 2 toy_random None ''u'' ''s1'' ''old-password'' ''new-password'' toy_account of
     (h', reply, stay) \<Rightarrow> reply = PasswordChanged 1 \<and> opened toy_env ''new-password'' (deref (hd_keys h') 2) = Some ''sk2'' \<and>
       deref (hd_keys h') 1 = deref (hd_keys toy_account) 1 \<and> map us_id (ListUserSessions 5 ''u'' (hd_users h')) = [''s1'']"
proof -
  obtain h' reply stay where r: "handleUserChangePassword toy_env 5 2 toy_random None ''u'' ''s1'' ''old-password'' ''new-password'' toy_account =
      (h', reply, stay)" by (metis surj_pair)
  have "fst (snd (handleUserChangePassword toy_env 5 2 toy_random None ''u'' ''s1'' ''old-password'' ''new-password'' toy_account)) =
      PasswordChanged 1" by code_simp
  then have reply: "reply = PasswordChanged 1" using r by simp
  have c: "opened toy_env ''old-password'' (deref (hd_keys toy_account) 2) = Some ''sk2''"
    "IsPassphraseEncrypted (k_encrypted_nsec (deref (hd_keys toy_account) 2))"
    "\<not> IsPassphraseEncrypted (k_encrypted_nsec (deref (hd_keys toy_account) 1))"
    "k_owner_id (deref (hd_keys toy_account) 2) = ''u''"
    "map us_id (filter (\<lambda>s. us_id s = ''s1'') (ListUserSessions 5 ''u'' (hd_users toy_account))) = [''s1'']"
    "1 \<in> snd ` set (gs_keys (hd_keys toy_account))" "2 \<in> snd ` set (gs_keys (hd_keys toy_account))" by code_simp+
  have "(\<forall>r \<in> snd ` set (gs_keys (hd_keys toy_account)).
       if k_owner_id (deref (hd_keys toy_account) r) = ''u'' \<and> IsPassphraseEncrypted (k_encrypted_nsec (deref (hd_keys toy_account) r))
       then opened toy_env ''old-password'' (deref (hd_keys toy_account) r) \<noteq> None \<and>
         opened toy_env ''new-password'' (deref (hd_keys h') r) = opened toy_env ''old-password'' (deref (hd_keys toy_account) r)
       else deref (hd_keys h') r = deref (hd_keys toy_account) r) \<and>
    ListUserSessions 5 ''u'' (hd_users h') = filter (\<lambda>s. us_id s = ''s1'') (ListUserSessions 5 ''u'' (hd_users toy_account))"
    using password_change_keeps_keys [OF toy_env_laws toy_drawn toy_account_ok r] unfolding reply change_reply.case
    by (intro conjI) (blast, simp)
  then have all: "\<forall>r \<in> snd ` set (gs_keys (hd_keys toy_account)).
       if k_owner_id (deref (hd_keys toy_account) r) = ''u'' \<and> IsPassphraseEncrypted (k_encrypted_nsec (deref (hd_keys toy_account) r))
       then opened toy_env ''old-password'' (deref (hd_keys toy_account) r) \<noteq> None \<and>
         opened toy_env ''new-password'' (deref (hd_keys h') r) = opened toy_env ''old-password'' (deref (hd_keys toy_account) r)
       else deref (hd_keys h') r = deref (hd_keys toy_account) r"
    and ss: "ListUserSessions 5 ''u'' (hd_users h') = filter (\<lambda>s. us_id s = ''s1'') (ListUserSessions 5 ''u'' (hd_users toy_account))"
    by blast+
  have "opened toy_env ''new-password'' (deref (hd_keys h') 2) = Some ''sk2''"
    "deref (hd_keys h') 1 = deref (hd_keys toy_account) 1" "map us_id (ListUserSessions 5 ''u'' (hd_users h')) = [''s1'']"
    using bspec [OF all c(6)] bspec [OF all c(7)] c(1-5) ss by auto
  with reply r show ?thesis by simp
qed

section \<open>Migrating keys off the server's key\<close>

definition migratable :: "account_env \<Rightarrow> string \<Rightarrow> key \<Rightarrow> bool" where
  "migratable E p k \<longleftrightarrow> IsEncrypted (k_encrypted_nsec k) \<and>
     (\<exists>priv. opened E p k = Some priv \<and> derive_pubkey E priv = Some (k_pubkey k))"

lemma enc_not_pbk: "IsEncrypted v \<Longrightarrow> \<not> IsPassphraseEncrypted v"
  by (cases v; cases "tl v") (auto simp: IsEncrypted_def IsPassphraseEncrypted_def has_prefix_def)

lemma load_key_simps [simp]:
  "hd_keys (load_key k priv h) = hd_keys h" "mem (load_key k priv h) = (mem h)(k_pubkey k \<mapsto> priv)"
  by (auto simp: load_key_def)

lemma rewrap_legacy_one_spec:
  assumes K: "key_crypto_laws (ac_keys E)" and rnd: "drawn rnd" and wf: "keys_wf (hd_keys h)"
    and r: "r \<in> snd ` set (gs_keys (hd_keys h))" and server: "ac_local_key E = Some server"
    and run: "rewrap_legacy_one E rnd server p h r = (h', b)"
  shows "b \<longleftrightarrow> migratable E p (deref (hd_keys h) r)" "\<not> b \<Longrightarrow> h' = h"
    "b \<Longrightarrow> \<exists>c priv. hd_keys h' = write_key r (wrapped_as c) (hd_keys h) \<and> opened E p (deref (hd_keys h) r) = Some priv \<and>
       passDecrypt (ac_keys E) p c = Inr priv \<and> IsPassphraseEncrypted c \<and>
       mem h' = (mem h)(k_pubkey (deref (hd_keys h) r) \<mapsto> priv)"
proof -
  let ?k = "deref (hd_keys h) r"
  obtain salt nonce where rn: "rnd (k_id ?k) = Some (salt, nonce)" "length salt = pbkdf2SaltLen" "length nonce = nonce_size"
    using rnd unfolding drawn_def by blast
  obtain c where c: "passEncrypt (ac_keys E) (rnd (k_id ?k)) p = (\<lambda>priv. Inr (c priv))"
    by (simp add: rn passEncrypt_def [abs_def] passEncryptBytes_def)
  have d: "passDecrypt (ac_keys E) p (c priv) = Inr priv \<and> IsPassphraseEncrypted (c priv)" for priv
    using passDecrypt_Encrypt [OF K rn(2,3), of p priv "c priv"] c
    by (auto simp: rn(1) DetectEncryptionMethod_def split: if_splits)
  note u = update_encryption [OF wf r]
  have e: "opened E p ?k = (case localDecrypt (ac_keys E) server (k_encrypted_nsec ?k) of Inl _ \<Rightarrow> None | Inr priv \<Rightarrow> Some priv)"
    if "IsEncrypted (k_encrypted_nsec ?k)"
    using that enc_not_pbk [OF that] server by (simp add: opened_def)
  show "b \<longleftrightarrow> migratable E p ?k" "\<not> b \<Longrightarrow> h' = h"
    using run c u e by (auto simp: rewrap_legacy_one_def migratable_def Let_def split: if_splits sum.splits)
  show "b \<Longrightarrow> \<exists>c priv. hd_keys h' = write_key r (wrapped_as c) (hd_keys h) \<and> opened E p ?k = Some priv \<and>
       passDecrypt (ac_keys E) p c = Inr priv \<and> IsPassphraseEncrypted c \<and> mem h' = (mem h)(k_pubkey ?k \<mapsto> priv)"
    using run c u e d by (auto simp: rewrap_legacy_one_def Let_def split: if_splits sum.splits)
qed

lemma find_append: "find P (xs @ ys) = (case find P xs of None \<Rightarrow> find P ys | Some x \<Rightarrow> Some x)"
  by (induction xs) auto

lemma legacy_loop:
  assumes K: "key_crypto_laws (ac_keys E)" and rnd: "drawn rnd" and server: "ac_local_key E = Some server"
    and "keys_wf (hd_keys h)" "distinct rs" "set rs \<subseteq> snd ` set (gs_keys (hd_keys h))"
    and "foldl (\<lambda>(h, n) r. case rewrap_legacy_one E rnd server p h r of (h, b) \<Rightarrow> (h, if b then n + 1 else n)) (h, n) rs = (h', n')"
  shows "(\<forall>q. opened E p (deref (hd_keys h') q) = opened E p (deref (hd_keys h) q)) \<and>
    (\<forall>q. if q \<in> set rs \<and> migratable E p (deref (hd_keys h) q) then IsPassphraseEncrypted (k_encrypted_nsec (deref (hd_keys h') q))
         else deref (hd_keys h') q = deref (hd_keys h) q) \<and>
    (\<forall>pk. mem h' pk = (case find (\<lambda>q. k_pubkey (deref (hd_keys h) q) = pk \<and> migratable E p (deref (hd_keys h) q)) (rev rs) of
       None \<Rightarrow> mem h pk | Some q \<Rightarrow> opened E p (deref (hd_keys h) q)))"
  using assms(4-)
proof (induction rs arbitrary: h n)
  case (Cons r rs)
  obtain h1 b where o: "rewrap_legacy_one E rnd server p h r = (h1, b)" by force
  have r: "r \<in> snd ` set (gs_keys (hd_keys h))" using Cons.prems by auto
  note sp = rewrap_legacy_one_spec [OF K rnd Cons.prems(1) r server o]
  have run: "foldl (\<lambda>(h, n) r. case rewrap_legacy_one E rnd server p h r of (h, b) \<Rightarrow> (h, if b then n + 1 else n))
      (h1, if b then n + 1 else n) rs = (h', n')"
    using Cons.prems(4) o by simp
  have find: "find P (rev (r # rs)) = (case find P (rev rs) of None \<Rightarrow> if P r then Some r else None | Some q \<Rightarrow> Some q)" for P
    by (simp add: find_append split: option.split)
  show ?case
  proof (cases b)
    case False
    then have h1: "h1 = h" "\<not> migratable E p (deref (hd_keys h) r)" using sp by auto
    have "distinct rs" "set rs \<subseteq> snd ` set (gs_keys (hd_keys h1))" using Cons.prems h1 by auto
    from Cons.IH [OF _ this run] show ?thesis
      using Cons.prems h1 unfolding find by (auto split: option.splits)
  next
    case True
    let ?k = "deref (hd_keys h) r"
    obtain c priv where t: "hd_keys h1 = write_key r (wrapped_as c) (hd_keys h)" "opened E p ?k = Some priv"
      "passDecrypt (ac_keys E) p c = Inr priv" "IsPassphraseEncrypted c" "mem h1 = (mem h)(k_pubkey ?k \<mapsto> priv)"
      using sp True by blast
    have wf1: "keys_wf (hd_keys h1)" using Cons.prems(1) unfolding t(1) by (subst keys_wf_cong [of _ "hd_keys h"]) auto
    have same: "opened E p (deref (hd_keys h1) q) = opened E p (deref (hd_keys h) q)" for q
    proof -
      have "opened E p (wrapped_as c ?k) = Some priv" using t(3,4) by (simp add: opened_def)
      then show ?thesis by (simp add: t(1,2))
    qed
    have mig: "migratable E p (deref (hd_keys h1) q) \<longleftrightarrow> q \<noteq> r \<and> migratable E p (deref (hd_keys h) q)" for q
      using t(4) enc_not_pbk [of c] same [of q] by (auto simp: migratable_def t(1))
    have pub: "k_pubkey (deref (hd_keys h1) q) = k_pubkey (deref (hd_keys h) q)" for q by (simp add: t(1))
    have "distinct rs" "set rs \<subseteq> snd ` set (gs_keys (hd_keys h1))" using Cons.prems by (auto simp: t(1))
    note IH = Cons.IH [OF wf1 this run, unfolded same mig pub]
    have "r \<notin> set rs" using Cons.prems(2) by simp
    then have f: "find (\<lambda>q. k_pubkey (deref (hd_keys h) q) = pk \<and> q \<noteq> r \<and> migratable E p (deref (hd_keys h) q)) (rev rs) =
        find (\<lambda>q. k_pubkey (deref (hd_keys h) q) = pk \<and> migratable E p (deref (hd_keys h) q)) (rev rs)" for pk
      by (intro find_cong) auto
    have mr: "migratable E p ?k" using sp True by simp
    have A: "\<forall>q. opened E p (deref (hd_keys h') q) = opened E p (deref (hd_keys h) q)" using IH by blast
    have B: "if q \<in> set (r # rs) \<and> migratable E p (deref (hd_keys h) q) then IsPassphraseEncrypted (k_encrypted_nsec (deref (hd_keys h') q))
         else deref (hd_keys h') q = deref (hd_keys h) q" for q
      using IH \<open>r \<notin> set rs\<close> mr t(1,4) by (cases "q = r") auto
    have C: "mem h' pk = (case find (\<lambda>q. k_pubkey (deref (hd_keys h) q) = pk \<and> migratable E p (deref (hd_keys h) q)) (rev (r # rs)) of
       None \<Rightarrow> mem h pk | Some q \<Rightarrow> opened E p (deref (hd_keys h) q))" for pk
      using IH mr t(2,5) unfolding find f by (auto split: option.splits)
    show ?thesis using A B C by blast
  qed
qed auto

text \<open>
  C32. Signing in moves the account's keys off the server's key without losing one: every key of the
  store opens to the same private key as before, those of the account that were encrypted under the
  server's key and really open to their public key are now encrypted under the password and loaded,
  and nothing else about any key changes.
\<close>

theorem legacy_keys_migrated:
  assumes K: "key_crypto_laws (ac_keys E)" and rnd: "drawn rnd" and wf: "keys_wf (hd_keys h)"
    and server: "ac_local_key E = Some server" and p: "p \<noteq> ''''"
    and run: "rewrapLegacyLocalKeys E rnd u p h = (h', n)"
    and r: "r \<in> snd ` set (gs_keys (hd_keys h))"
  defines "k \<equiv> deref (hd_keys h) r" and "k' \<equiv> deref (hd_keys h') r"
  shows "opened E p k' = opened E p k \<and>
    (if k_owner_id k = u \<and> migratable E p k
     then IsPassphraseEncrypted (k_encrypted_nsec k') \<and> mem h' (k_pubkey k) = opened E p k
     else k' = k)"
proof -
  let ?rs = "ListKeys u (hd_keys h)"
  have rs: "distinct ?rs" "set ?rs \<subseteq> snd ` set (gs_keys (hd_keys h))"
    using refs_distinct [OF wf] by (auto simp: ListKeys_def)
  have "foldl (\<lambda>(h, n) r. case rewrap_legacy_one E rnd server p h r of (h, b) \<Rightarrow> (h, if b then n + 1 else n)) (h, 0) ?rs = (h', n)"
    using run server p by (simp add: rewrapLegacyLocalKeys_def NewPassphraseEncryptor_def)
  note L = legacy_loop [OF K rnd server wf rs this]
  have own: "r \<in> set ?rs \<longleftrightarrow> k_owner_id k = u" using r by (auto simp: ListKeys_def k_def)
  have "mem h' (k_pubkey k) = opened E p k" if m: "r \<in> set ?rs" "migratable E p k"
  proof -
    let ?P = "\<lambda>q. k_pubkey (deref (hd_keys h) q) = k_pubkey k \<and> migratable E p (deref (hd_keys h) q)"
    have "find ?P (rev ?rs) \<noteq> None" using m unfolding find_None_iff k_def by auto
    then obtain q where q: "find ?P (rev ?rs) = Some q" by auto
    then have "?P q" "q \<in> set (rev ?rs)" unfolding find_Some_iff by (auto simp del: set_rev)
    then have "?P q" "q \<in> set ?rs" by simp_all
    moreover have "gs_by_pubkey (hd_keys h) (k_pubkey (deref (hd_keys h) q)) = Some q" if x: "q \<in> set ?rs" for q
    proof -
      obtain i where "(i, q) \<in> set (gs_keys (hd_keys h))" using x rs(2) by fastforce
      then show ?thesis using wf by (auto simp: keys_wf_def)
    qed
    ultimately have "q = r" using m(1) by (metis k_def option.inject)
    moreover have "mem h' (k_pubkey k) = (case find ?P (rev ?rs) of None \<Rightarrow> mem h (k_pubkey k) | Some q \<Rightarrow> opened E p (deref (hd_keys h) q))"
      using L by blast
    ultimately show ?thesis unfolding q option.case by (simp add: k_def)
  qed
  moreover have "opened E p k' = opened E p k" using L by (simp add: k_def k'_def)
  moreover have "if r \<in> set ?rs \<and> migratable E p k then IsPassphraseEncrypted (k_encrypted_nsec k') else k' = k"
    using L unfolding k_def k'_def by blast
  ultimately show ?thesis unfolding own by auto
qed

theorem legacy_keys_migrated_witness:
  "case rewrapLegacyLocalKeys toy_env toy_random ''u'' ''new-password'' toy_account of
     (h', n) \<Rightarrow> opened toy_env ''new-password'' (deref (hd_keys h') 1) = Some ''sk1'' \<and>
       IsPassphraseEncrypted (k_encrypted_nsec (deref (hd_keys h') 1)) \<and> mem h' ''role'' = Some ''sk1''"
proof -
  obtain h' n where r: "rewrapLegacyLocalKeys toy_env toy_random ''u'' ''new-password'' toy_account = (h', n)" by force
  have c: "opened toy_env ''new-password'' (deref (hd_keys toy_account) 1) = Some ''sk1''"
    "k_owner_id (deref (hd_keys toy_account) 1) = ''u''" "k_pubkey (deref (hd_keys toy_account) 1) = ''role''"
    "IsEncrypted (k_encrypted_nsec (deref (hd_keys toy_account) 1))" "derive_pubkey toy_env ''sk1'' = Some ''role''"
    "1 \<in> snd ` set (gs_keys (hd_keys toy_account))" by code_simp+
  have wf: "keys_wf (hd_keys toy_account)" using toy_account_ok by (simp add: accounts_ok_def)
  have s: "ac_local_key toy_env = Some [1, 2, 3]" by (simp add: toy_env_def)
  have "migratable toy_env ''new-password'' (deref (hd_keys toy_account) 1)" using c by (simp add: migratable_def)
  then show ?thesis
    using legacy_keys_migrated [OF toy_env_laws toy_drawn wf s _ r c(6)] c(1-3) r by simp
qed

section \<open>A key that the password does not open\<close>

text \<open>The change of the password is refused while one of the account's keys is under another password.\<close>

lemma stranded_key_blocks_change:
  assumes K: "key_crypto_laws (ac_keys E)" and rnd: "drawn rnd" and okh: "accounts_ok E h"
    and k: "r \<in> set (ListKeys u (hd_keys h))" "IsPassphraseEncrypted (k_encrypted_nsec (deref (hd_keys h) r))"
      "opened E cur (deref (hd_keys h) r) = None"
    and run: "handleUserChangePassword E now q rnd half u sid cur new h = (h', reply, stay)"
  shows "(\<forall>n. reply \<noteq> PasswordChanged n) \<and> hd_users h' = hd_users h \<and> hd_keys h' = hd_keys h"
  using K rnd okh run
proof (cases rule: change_password_cases)
  case (changed a hash keys w st)
  have "passDecrypt (ac_keys E) cur (k_encrypted_nsec (deref (hd_keys h) r)) \<noteq> Inr priv" for priv
    using k(2,3) by (auto simp: opened_def)
  from rewrap_pending_stuck [OF k(1,2) this, of rnd new] changed(4) show ?thesis
    by (auto simp: rewrapPassphraseKeys_def)
qed simp

end
