(* ===== verification/Recovery.thy ===== *)
theory Recovery
  imports Passwords
begin

text \<open>
  Account recovery (\<open>internal/api/recovery.go\<close>): a challenge for a user name, and the reset of the
  password by a signature of the account's identity key over it.

  The JSON and the signature check of events, proof of work and the hashing of names are parameters, as
  are bcrypt and the rest of \<open>account_env\<close>; \<open>re_lower\<close> is \<open>strings.ToLower\<close>. The state is one replica
  with the store's recovery challenges and settings and the attempt budgets.
\<close>

definition recoveryChallengeTTL :: int where "recoveryChallengeTTL = seconds (5 * 60)"
definition recoveryAuthKind :: int where "recoveryAuthKind = 27235"

record recovery_env =
  re_account :: account_env
  re_event :: "string \<Rightarrow> nostr_event option"
  re_check_signature :: "nostr_event \<Rightarrow> bool option"
  re_difficulty :: "nostr_event \<Rightarrow> int"
  re_hash_key :: "string \<Rightarrow> string"
  re_lower :: "string \<Rightarrow> string"

record recovery_config =
  rf_pow_difficulty :: int
  rf_per_username_limit :: int
  rf_per_username_window :: int
  rf_global_limit :: int
  rf_global_window :: int
  rf_per_ip_limit :: int
  rf_per_ip_window :: int
  rf_proxy_header :: string

record 's recovery =
  rv_handler :: handler
  rv_challenges :: recovery_store
  rv_settings :: "string \<rightharpoonup> string"
  rv_budget :: "'s budget"

abbreviation re_trim :: "recovery_env \<Rightarrow> string \<Rightarrow> string" where
  "re_trim E \<equiv> ac_trim (re_account E)"

section \<open>Settings\<close>

definition GetSetting :: "string \<Rightarrow> (string \<rightharpoonup> string) \<Rightarrow> string option" where
  "GetSetting k st = st k"

definition SetSetting :: "string \<Rightarrow> string \<Rightarrow> (string \<rightharpoonup> string) \<Rightarrow> (string \<rightharpoonup> string)" where
  "SetSetting k v st = st(k \<mapsto> v)"

definition recoveryOptOutKey :: "string \<Rightarrow> string" where
  "recoveryOptOutKey userID = ''recovery_nsec_disabled:'' @ userID"

definition recoveryDisabled :: "string \<Rightarrow> 's recovery \<Rightarrow> bool" where
  "recoveryDisabled userID s = (case GetSetting (recoveryOptOutKey userID) (rv_settings s) of None \<Rightarrow> False | Some v \<Rightarrow> v = ''true'')"

text \<open>\<open>None\<close>: a request to read. The caller is authenticated; the answer is whether recovery is enabled.\<close>

definition handleRecoverySettings :: "string \<Rightarrow> bool option \<Rightarrow> 's recovery \<Rightarrow> 's recovery \<times> bool" where
  "handleRecoverySettings userID enabled s =
     (case enabled of
        None \<Rightarrow> (s, \<not> recoveryDisabled userID s)
      | Some e \<Rightarrow>
          (s\<lparr>rv_settings := SetSetting (recoveryOptOutKey userID) (if \<not> e then ''true'' else ''false'') (rv_settings s)\<rparr>, e))"

section \<open>The challenge\<close>

record challenge_request =
  cq_username :: string
  cq_pow_event :: string
  cq_header :: string                         \<comment> \<open>the trusted proxy header\<close>

datatype challenge_reply = ChallengeBadRequest | ChallengeTooMany | ChallengeFailed | ChallengeIssued string time

definition has_tag :: "string \<Rightarrow> string \<Rightarrow> nostr_event \<Rightarrow> bool" where
  "has_tag name v ev \<longleftrightarrow> list_ex (\<lambda>tag. length tag \<ge> 2 \<and> tag ! 0 = name \<and> tag ! 1 = v) (ev_tags ev)"

definition event_age :: "time \<Rightarrow> nostr_event \<Rightarrow> int" where
  "event_age now ev = now - seconds (ev_created_at ev)"

definition pow_accepted :: "recovery_env \<Rightarrow> recovery_config \<Rightarrow> time \<Rightarrow> string \<Rightarrow> string \<Rightarrow> bool" where
  "pow_accepted E F now username powEvent \<longleftrightarrow>
     (if rf_pow_difficulty F > 0 then
        powEvent \<noteq> '''' \<and>
        (case re_event E powEvent of
           None \<Rightarrow> False
         | Some ev \<Rightarrow> \<not> (event_age now ev > seconds (5 * 60) \<or> event_age now ev < - seconds (5 * 60)) \<and>
             has_tag ''u'' username ev \<and> \<not> re_difficulty E ev < rf_pow_difficulty F)
      else True)"

text \<open>
  Layers 2 to 4: the budgets afterwards and whether all of them allow the request (\<open>None\<close>: the hashing
  of the address panics).
\<close>

definition recovery_limits ::
    "recovery_env \<Rightarrow> recovery_config \<Rightarrow> 's limiter option \<Rightarrow> bool \<Rightarrow> time \<Rightarrow> bytes option \<Rightarrow> string \<Rightarrow> string \<Rightarrow>
     's budget \<Rightarrow> ('s budget \<times> bool) option" where
  "recovery_limits E F lm hasHasher now random username rawHeader b =
     (case lm of
        None \<Rightarrow> Some (b, True)
      | Some L \<Rightarrow>
     (case lm_allow L now ''recovery:global'' (rf_global_limit F) (rf_global_window F) (snd b) of
        (s, allowed, err) \<Rightarrow>
      if \<not> allowed then Some ((fst b, s), False)
      else
     (case lm_allow L now (''recovery:user:'' @ re_hash_key E username) (rf_per_username_limit F) (rf_per_username_window F) s of
        (s, allowed, err) \<Rightarrow>
      if \<not> allowed then Some ((fst b, s), False)
      else
     (let ip = re_trim E (takeWhile (\<lambda>c. c \<noteq> CHR '','') rawHeader) in
      if rf_proxy_header F \<noteq> '''' \<and> hasHasher \<and> rawHeader \<noteq> '''' \<and> ip \<noteq> '''' then
        (case AllowIP L (sc_ip_keys (ac_sign (re_account E))) now random '''' ip (rf_per_ip_limit F) (rf_per_ip_window F) (fst b) s of
           None \<Rightarrow> None
         | Some (h, s, allowed, key, err) \<Rightarrow> Some ((h, s), allowed))
      else Some ((fst b, s), True)))))"

definition handleRecoveryChallenge ::
    "recovery_env \<Rightarrow> recovery_config \<Rightarrow> 's limiter option \<Rightarrow> bool \<Rightarrow> time \<Rightarrow> bytes option \<Rightarrow> string option \<Rightarrow>
     challenge_request \<Rightarrow> 's recovery \<Rightarrow> ('s recovery \<times> challenge_reply) option" where
  "handleRecoveryChallenge E F lm hasHasher now random nonce req s =
     (let username = re_trim E (re_lower E (cq_username req)) in
      if username = '''' then Some (s, ChallengeBadRequest)
      else if \<not> pow_accepted E F now username (cq_pow_event req) then Some (s, ChallengeBadRequest)
      else case recovery_limits E F lm hasHasher now random username (cq_header req) (rv_budget s) of
        None \<Rightarrow> None
      | Some (b, False) \<Rightarrow> Some (s\<lparr>rv_budget := b\<rparr>, ChallengeTooMany)
      | Some (b, True) \<Rightarrow>
     (case nonce of
        None \<Rightarrow> Some (s\<lparr>rv_budget := b\<rparr>, ChallengeFailed)
      | Some nonce \<Rightarrow>
          (let expiresAt = now + recoveryChallengeTTL;
               s = s\<lparr>rv_budget := b\<rparr>;
               s = (case GetUserByUsername username (hd_users (rv_handler s)) of
                      Inl _ \<Rightarrow> s
                    | Inr user \<Rightarrow>
                        s\<lparr>rv_challenges := CreateRecoveryChallenge
                            \<lparr>rc_id = nonce, rc_user_id = u_id user, rc_expires_at = expiresAt, rc_created_at = now,
                             rc_used_at = None\<rparr> (rv_challenges s)\<rparr>)
           in Some (s, ChallengeIssued nonce expiresAt))))"

section \<open>The proof\<close>

definition verifyRecoveryProof :: "recovery_env \<Rightarrow> time \<Rightarrow> string \<Rightarrow> string \<Rightarrow> string option" where
  "verifyRecoveryProof E now signedEvent challenge =
     (if re_trim E signedEvent = '''' then None
      else case re_event E signedEvent of
        None \<Rightarrow> None
      | Some ev \<Rightarrow>
          if ev_kind ev \<noteq> recoveryAuthKind then None
          else if \<not> has_tag ''challenge'' challenge ev then None
          else if event_age now ev > recoveryChallengeTTL \<or> event_age now ev < - recoveryChallengeTTL then None
          else if re_check_signature E ev \<noteq> Some True then None
          else Some (ev_pubkey ev))"

definition resolveSigningPubkey :: "string \<Rightarrow> grant_store \<Rightarrow> string option" where
  "resolveSigningPubkey userID st =
     (let keys = ListKeys userID st in
      if keys = [] then None
      else
        (let chosen = (case find (\<lambda>r. k_is_primary (deref st r)) keys of Some r \<Rightarrow> r | None \<Rightarrow> keys ! (length keys - 1));
             pubkey = k_pubkey (deref st chosen)
         in if pubkey = '''' then None else Some pubkey))"

definition ownsPubkey :: "grant_store \<Rightarrow> addr list \<Rightarrow> string \<Rightarrow> bool" where
  "ownsPubkey st keys pubkey \<longleftrightarrow> list_ex (\<lambda>r. k_pubkey (deref st r) = pubkey) keys"

definition normalizePrivateKey :: "account_env \<Rightarrow> string \<Rightarrow> string option" where
  "normalizePrivateKey A inp =
     (let s = ac_trim A inp in
      if has_prefix ''nsec1'' s then
        (case ac_nip19 A s of None \<Rightarrow> None | Some (prefix, v) \<Rightarrow> if prefix \<noteq> ''nsec'' then None else Some v)
      else if length s \<noteq> 64 then None
      else if hex_decode s = None then None
      else Some s)"

definition rewrapKeyUnderPassphrase ::
    "account_env \<Rightarrow> (bytes \<times> bytes) option \<Rightarrow> addr list \<Rightarrow> string \<Rightarrow> string \<Rightarrow> string \<Rightarrow> handler \<Rightarrow> handler \<times> bool" where
  "rewrapKeyUnderPassphrase A rnd keys pubkey privateKey passphrase h =
     (case find (\<lambda>r. k_pubkey (deref (hd_keys h) r) = pubkey) keys of
        None \<Rightarrow> (h, False)
      | Some r \<Rightarrow>
     (case NewPassphraseEncryptor passphrase of
        Inl _ \<Rightarrow> (h, False)
      | Inr pe \<Rightarrow>
     (case passEncrypt (ac_keys A) rnd pe privateKey of
        Inl _ \<Rightarrow> (h, False)
      | Inr c \<Rightarrow>
     (case UpdateKeyEncryption (k_id (deref (hd_keys h) r)) c ''passphrase'' (hd_keys h) of
        (st, Inl _) \<Rightarrow> (set_keys st h, False)
      | (st, Inr _) \<Rightarrow> (load_key (deref st r) privateKey (set_keys st h), True)))))"

definition resetVaultCredential :: "account_env \<Rightarrow> string \<Rightarrow> string \<Rightarrow> bool" where
  "resetVaultCredential A userID newPassword \<longleftrightarrow> ac_has_vault A \<and> ac_set_userpass A userID newPassword"

section \<open>The reset\<close>

record complete_request =
  cr_challenge :: string
  cr_signed_event :: string
  cr_new_password :: string
  cr_nsec :: string

datatype complete_reply =
    CompleteBadRequest | BadChallenge | BadProof | RecoveryOff | CompleteFailed | BadNsec
  | Recovered nat "string list" bool

text \<open>The optional nsec: the proven key is wrapped again before the password is committed.\<close>

definition restore_proven ::
    "recovery_env \<Rightarrow> (bytes \<times> bytes) option \<Rightarrow> addr list \<Rightarrow> string \<Rightarrow> complete_request \<Rightarrow> handler \<Rightarrow>
     handler \<times> (complete_reply + nat)" where
  "restore_proven E rnd keys pubkey req h =
     (if re_trim E (cr_nsec req) = '''' then (h, Inr 0)
      else case normalizePrivateKey (re_account E) (cr_nsec req) of
        None \<Rightarrow> (h, Inl BadNsec)
      | Some priv \<Rightarrow>
          if derive_pubkey (re_account E) priv \<noteq> Some pubkey then (h, Inl BadNsec)
          else (case rewrapKeyUnderPassphrase (re_account E) rnd keys pubkey priv (cr_new_password req) h of
                  (h, False) \<Rightarrow> (h, Inl CompleteFailed)
                | (h, True) \<Rightarrow> (h, Inr 1)))"

definition commit_reset :: "account_env \<Rightarrow> time \<Rightarrow> addr \<Rightarrow> user \<Rightarrow> string \<Rightarrow> handler \<Rightarrow> handler \<times> bool" where
  "commit_reset A now q user new h =
     (case ac_hash A new of
        None \<Rightarrow> (h, False)
      | Some hash \<Rightarrow>
          (case UpdateUser now q (user\<lparr>u_password_hash := hash, u_failed_login_attempts := 0, u_locked_until := None\<rparr>) (hd_users h) of
             (st, Inl _) \<Rightarrow> (set_users st h, False)
           | (st, Inr _) \<Rightarrow> (set_users st h, True)))"

definition stranded_keys :: "grant_store \<Rightarrow> addr list \<Rightarrow> string \<Rightarrow> nat \<Rightarrow> string list" where
  "stranded_keys st keys pubkey recovered =
     map (\<lambda>r. k_pubkey (deref st r))
       (filter (\<lambda>r. \<not> (k_pubkey (deref st r) = pubkey \<and> recovered = 1) \<and> IsPassphraseEncrypted (k_encrypted_nsec (deref st r))) keys)"

definition handleRecoveryComplete ::
    "recovery_env \<Rightarrow> time \<Rightarrow> addr \<Rightarrow> (bytes \<times> bytes) option \<Rightarrow> complete_request \<Rightarrow> 's recovery \<Rightarrow>
     's recovery \<times> complete_reply" where
  "handleRecoveryComplete E now q rnd req s =
     (if length (cr_new_password req) < 8 then (s, CompleteBadRequest)
      else case ConsumeRecoveryChallenge now (cr_challenge req) (rv_challenges s) of
        (cs, Inl _) \<Rightarrow> (s\<lparr>rv_challenges := cs\<rparr>, BadChallenge)
      | (cs, Inr c) \<Rightarrow>
     (let s = s\<lparr>rv_challenges := cs\<rparr>; u = rc_user_id c; h = rv_handler s in
      case verifyRecoveryProof E now (cr_signed_event req) (cr_challenge req) of
        None \<Rightarrow> (s, BadProof)
      | Some pubkey \<Rightarrow>
      if recoveryDisabled u s then (s, RecoveryOff)
      else
     (let keys = ListKeys u (hd_keys h) in
      if resolveSigningPubkey u (hd_keys h) \<noteq> Some pubkey then (s, BadProof)
      else case GetUser u (hd_users h) of
        Inl _ \<Rightarrow> (s, CompleteFailed)
      | Inr user \<Rightarrow>
     (case restore_proven E rnd keys pubkey req h of
        (h, Inl e) \<Rightarrow> (s\<lparr>rv_handler := h\<rparr>, e)
      | (h, Inr recovered) \<Rightarrow>
     (case commit_reset (re_account E) now q user (cr_new_password req) h of
        (h, False) \<Rightarrow> (s\<lparr>rv_handler := h\<rparr>, CompleteFailed)
      | (h, True) \<Rightarrow>
          (s\<lparr>rv_handler := h\<rparr>,
           Recovered recovered (stranded_keys (hd_keys h) keys pubkey recovered)
             (resetVaultCredential (re_account E) (u_id user) (cr_new_password req))))))))"

section \<open>What a reset takes\<close>

text \<open>A live challenge of account \<open>u\<close>, signed by \<open>pubkey\<close>, its identity key.\<close>

definition proven :: "recovery_env \<Rightarrow> time \<Rightarrow> complete_request \<Rightarrow> 's recovery \<Rightarrow> string \<Rightarrow> string \<Rightarrow> bool" where
  "proven E now req s u pubkey \<longleftrightarrow>
     (\<exists>c ev. rv_challenges s (cr_challenge req) = Some c \<and> rc_used_at c = None \<and> now \<le> rc_expires_at c \<and> rc_user_id c = u \<and>
        re_event E (cr_signed_event req) = Some ev \<and> re_check_signature E ev = Some True \<and> ev_kind ev = recoveryAuthKind \<and>
        has_tag ''challenge'' (cr_challenge req) ev \<and> \<bar>event_age now ev\<bar> \<le> recoveryChallengeTTL \<and> ev_pubkey ev = pubkey) \<and>
     \<not> recoveryDisabled u s \<and> resolveSigningPubkey u (hd_keys (rv_handler s)) = Some pubkey"

lemma disabled_frame [simp]: "recoveryDisabled u (s\<lparr>rv_challenges := cs\<rparr>) = recoveryDisabled u s"
  by (simp add: recoveryDisabled_def)

lemma proof_given:
  assumes "ConsumeRecoveryChallenge now (cr_challenge req) (rv_challenges s) = (cs, Inr c)"
    "verifyRecoveryProof E now (cr_signed_event req) (cr_challenge req) = Some pubkey" "\<not> length (cr_new_password req) < 8"
    "\<not> recoveryDisabled (rc_user_id c) s" "resolveSigningPubkey (rc_user_id c) (hd_keys (rv_handler s)) = Some pubkey"
    "GetUser (rc_user_id c) (hd_users (rv_handler s)) = Inr a"
    and run: "handleRecoveryComplete E now q rnd req s = (s', reply)"
  obtains (restored) u pubkey a h e where "proven E now req s u pubkey" "GetUser u (hd_users (rv_handler s)) = Inr a"
      "restore_proven E rnd (ListKeys u (hd_keys (rv_handler s))) pubkey req (rv_handler s) = (h, Inl e)"
      "rv_handler s' = h" "reply = e"
  | (uncommitted) u pubkey a h n h' where "proven E now req s u pubkey" "GetUser u (hd_users (rv_handler s)) = Inr a"
      "restore_proven E rnd (ListKeys u (hd_keys (rv_handler s))) pubkey req (rv_handler s) = (h, Inr n)"
      "commit_reset (re_account E) now q a (cr_new_password req) h = (h', False)" "rv_handler s' = h'" "reply = CompleteFailed"
  | (committed) u pubkey a h n h' where "proven E now req s u pubkey" "GetUser u (hd_users (rv_handler s)) = Inr a"
      "restore_proven E rnd (ListKeys u (hd_keys (rv_handler s))) pubkey req (rv_handler s) = (h, Inr n)"
      "commit_reset (re_account E) now q a (cr_new_password req) h = (h', True)" "rv_handler s' = h'"
      "reply = Recovered n (stranded_keys (hd_keys h') (ListKeys u (hd_keys (rv_handler s))) pubkey n)
         (resetVaultCredential (re_account E) (u_id a) (cr_new_password req))"
proof -
  have p: "proven E now req s (rc_user_id c) pubkey"
    using assms(1,2,4,5) by (auto simp: proven_def ConsumeRecoveryChallenge_def verifyRecoveryProof_def Let_def split: option.splits if_splits)
  obtain h res where r: "restore_proven E rnd (ListKeys (rc_user_id c) (hd_keys (rv_handler s))) pubkey req (rv_handler s) = (h, res)" by force
  show ?thesis
  proof (cases res)
    case (Inl e)
    then show ?thesis using assms r by (intro restored [OF p assms(6)]) (auto simp: handleRecoveryComplete_def Let_def)
  next
    case (Inr n)
    obtain h' b where cm: "commit_reset (re_account E) now q a (cr_new_password req) h = (h', b)" by force
    show ?thesis
    proof (cases b)
      case False
      then show ?thesis using assms r cm Inr
        by (intro uncommitted [OF p assms(6)]) (auto simp: handleRecoveryComplete_def Let_def)
    next
      case True
      then show ?thesis using assms r cm Inr
        by (intro committed [OF p assms(6)]) (auto simp: handleRecoveryComplete_def Let_def)
    qed
  qed
qed

lemma complete_inv:
  assumes run: "handleRecoveryComplete E now q rnd req s = (s', reply)"
  obtains (quiet) "rv_handler s' = rv_handler s" "\<And>n st v. reply \<noteq> Recovered n st v"
  | (restored) u pubkey a h e where "proven E now req s u pubkey" "GetUser u (hd_users (rv_handler s)) = Inr a"
      "restore_proven E rnd (ListKeys u (hd_keys (rv_handler s))) pubkey req (rv_handler s) = (h, Inl e)"
      "rv_handler s' = h" "reply = e"
  | (uncommitted) u pubkey a h n h' where "proven E now req s u pubkey" "GetUser u (hd_users (rv_handler s)) = Inr a"
      "restore_proven E rnd (ListKeys u (hd_keys (rv_handler s))) pubkey req (rv_handler s) = (h, Inr n)"
      "commit_reset (re_account E) now q a (cr_new_password req) h = (h', False)" "rv_handler s' = h'" "reply = CompleteFailed"
  | (committed) u pubkey a h n h' where "proven E now req s u pubkey" "GetUser u (hd_users (rv_handler s)) = Inr a"
      "restore_proven E rnd (ListKeys u (hd_keys (rv_handler s))) pubkey req (rv_handler s) = (h, Inr n)"
      "commit_reset (re_account E) now q a (cr_new_password req) h = (h', True)" "rv_handler s' = h'"
      "reply = Recovered n (stranded_keys (hd_keys h') (ListKeys u (hd_keys (rv_handler s))) pubkey n)
         (resetVaultCredential (re_account E) (u_id a) (cr_new_password req))"
proof -
  obtain cs res where cr: "ConsumeRecoveryChallenge now (cr_challenge req) (rv_challenges s) = (cs, res)" by force
  show ?thesis
  proof (cases "length (cr_new_password req) < 8 \<or> \<not> ok res \<or> verifyRecoveryProof E now (cr_signed_event req) (cr_challenge req) = None")
    case True
    then show ?thesis
      by (intro quiet) (use run cr in \<open>auto simp: handleRecoveryComplete_def Let_def ok_iff split: if_splits sum.splits\<close>)
  next
    case False
    then obtain c pubkey where t: "ConsumeRecoveryChallenge now (cr_challenge req) (rv_challenges s) = (cs, Inr c)"
      "verifyRecoveryProof E now (cr_signed_event req) (cr_challenge req) = Some pubkey" "\<not> length (cr_new_password req) < 8"
      using cr by (auto simp: ok_iff)
    show ?thesis
    proof (cases "recoveryDisabled (rc_user_id c) s \<or> resolveSigningPubkey (rc_user_id c) (hd_keys (rv_handler s)) \<noteq> Some pubkey \<or>
        \<not> ok (GetUser (rc_user_id c) (hd_users (rv_handler s)))")
      case True
      then show ?thesis
        by (intro quiet) (use run t in \<open>auto simp: handleRecoveryComplete_def Let_def ok_iff split: if_splits sum.splits\<close>)
    next
      case False
      then obtain a where "\<not> recoveryDisabled (rc_user_id c) s"
        "resolveSigningPubkey (rc_user_id c) (hd_keys (rv_handler s)) = Some pubkey"
        "GetUser (rc_user_id c) (hd_users (rv_handler s)) = Inr a" by (auto simp: ok_iff)
      from t this run show ?thesis
        by (rule proof_given) (use restored uncommitted committed in metis)+
    qed
  qed
qed

lemma ListKeys_refs: "set (ListKeys u st) \<subseteq> snd ` set (gs_keys st)"
  by (auto simp: ListKeys_def)

lemma passphrase_wraps:
  assumes K: "key_crypto_laws K" and rnd: "rnd = Some (salt, nonce)" "length salt = pbkdf2SaltLen" "length nonce = nonce_size"
  shows "\<exists>c. passEncrypt K rnd p priv = Inr c \<and> passDecrypt K p c = Inr priv \<and> IsPassphraseEncrypted c"
  using passDecrypt_Encrypt [OF K rnd(2,3), of p priv] unfolding rnd(1)
  by (cases "passEncrypt K (Some (salt, nonce)) p priv")
     (auto simp: DetectEncryptionMethod_def passEncrypt_def passEncryptBytes_def split: if_splits)

lemma restore_proven_spec:
  assumes K: "key_crypto_laws (ac_keys (re_account E))" and wf: "keys_wf (hd_keys h)"
    and rnd: "rnd = Some (salt, nonce)" "length salt = pbkdf2SaltLen" "length nonce = nonce_size"
    and run: "restore_proven E rnd (ListKeys u (hd_keys h)) pubkey req h = (h', res)"
  shows "hd_users h' = hd_users h \<and> hd_sealer h' = hd_sealer h \<and> hd_leases h' = hd_leases h"
    "\<not> ok res \<Longrightarrow> h' = h" "res = Inr n \<Longrightarrow> n \<noteq> 1 \<Longrightarrow> h' = h \<and> n = 0"
    "res = Inr 1 \<Longrightarrow> \<exists>r \<in> set (ListKeys u (hd_keys h)). \<exists>c priv. k_pubkey (deref (hd_keys h) r) = pubkey \<and>
       hd_keys h' = write_key r (wrapped_as c) (hd_keys h) \<and> passDecrypt (ac_keys (re_account E)) (cr_new_password req) c = Inr priv \<and>
       IsPassphraseEncrypted c \<and> derive_pubkey (re_account E) priv = Some pubkey \<and> mem h' = (mem h)(pubkey \<mapsto> priv)"
proof -
  let ?K = "ac_keys (re_account E)" and ?p = "cr_new_password req" and ?find = "find (\<lambda>r. k_pubkey (deref (hd_keys h) r) = pubkey) (ListKeys u (hd_keys h))"
  note enc = passphrase_wraps [OF K rnd]
  have fnd: "r \<in> set (ListKeys u (hd_keys h)) \<and> k_pubkey (deref (hd_keys h) r) = pubkey \<and>
      UpdateKeyEncryption (k_id (deref (hd_keys h) r)) c ''passphrase'' (hd_keys h) = (write_key r (wrapped_as c) (hd_keys h), Inr ())"
    if "?find = Some r" for r c
  proof -
    have "r \<in> set (ListKeys u (hd_keys h)) \<and> k_pubkey (deref (hd_keys h) r) = pubkey"
      using that unfolding find_Some_iff by auto
    then show ?thesis using update_encryption [OF wf] ListKeys_refs by blast
  qed
  have "res = Inr 1 \<and> (\<exists>r \<in> set (ListKeys u (hd_keys h)). \<exists>c priv. k_pubkey (deref (hd_keys h) r) = pubkey \<and>
       hd_keys h' = write_key r (wrapped_as c) (hd_keys h) \<and> passDecrypt ?K ?p c = Inr priv \<and>
       IsPassphraseEncrypted c \<and> derive_pubkey (re_account E) priv = Some pubkey \<and> mem h' = (mem h)(pubkey \<mapsto> priv)) \<and>
     hd_users h' = hd_users h \<and> hd_sealer h' = hd_sealer h \<and> hd_leases h' = hd_leases h \<or> h' = h \<and> (res = Inr 0 \<or> \<not> ok res)"
  proof (cases "\<exists>priv r. re_trim E (cr_nsec req) \<noteq> '''' \<and> normalizePrivateKey (re_account E) (cr_nsec req) = Some priv \<and>
      derive_pubkey (re_account E) priv = Some pubkey \<and> ?find = Some r \<and> ?p \<noteq> ''''")
    case True
    then obtain priv r where t: "re_trim E (cr_nsec req) \<noteq> ''''" "normalizePrivateKey (re_account E) (cr_nsec req) = Some priv"
      "derive_pubkey (re_account E) priv = Some pubkey" "?find = Some r" "?p \<noteq> ''''" by blast
    obtain c where c: "passEncrypt ?K rnd ?p priv = Inr c" "passDecrypt ?K ?p c = Inr priv" "IsPassphraseEncrypted c"
      using enc by blast
    have "h' = load_key (wrapped_as c (deref (hd_keys h) r)) priv (set_keys (write_key r (wrapped_as c) (hd_keys h)) h)" "res = Inr 1"
      using run t c(1) fnd [OF t(4), of c]
      by (simp_all add: restore_proven_def rewrapKeyUnderPassphrase_def NewPassphraseEncryptor_def)
    then show ?thesis
      using fnd [OF t(4), of c] c(2,3) t(3) by (auto simp: load_key_def set_keys_def)
  next
    case False
    then show ?thesis
      using run by (auto simp: restore_proven_def rewrapKeyUnderPassphrase_def NewPassphraseEncryptor_def
          split: if_splits option.splits)
  qed
  then show "hd_users h' = hd_users h \<and> hd_sealer h' = hd_sealer h \<and> hd_leases h' = hd_leases h"
    "\<not> ok res \<Longrightarrow> h' = h" "res = Inr n \<Longrightarrow> n \<noteq> 1 \<Longrightarrow> h' = h \<and> n = 0"
    "res = Inr 1 \<Longrightarrow> \<exists>r \<in> set (ListKeys u (hd_keys h)). \<exists>c priv. k_pubkey (deref (hd_keys h) r) = pubkey \<and>
       hd_keys h' = write_key r (wrapped_as c) (hd_keys h) \<and> passDecrypt ?K ?p c = Inr priv \<and>
       IsPassphraseEncrypted c \<and> derive_pubkey (re_account E) priv = Some pubkey \<and> mem h' = (mem h)(pubkey \<mapsto> priv)"
    by auto
qed

lemma commit_reset_spec:
  assumes "accounts_ok A h" "GetUser u (hd_users h) = Inr a" "commit_reset A now q a new h = (h', b)"
  shows "b \<longleftrightarrow> ac_hash A new \<noteq> None" "\<not> b \<Longrightarrow> h' = h"
    "hd_keys h' = hd_keys h" "mem h' = mem h" "hd_leases h' = hd_leases h" "hd_sealer h' = hd_sealer h"
    "ut_sessions (hd_users h') = ut_sessions (hd_users h)" "ut_seals (hd_users h') = ut_seals (hd_users h)"
    "b \<Longrightarrow> \<exists>a'. GetUser u (hd_users h') = Inr a' \<and> sc_verify_password (ac_sign A) new (u_password_hash a') \<and>
       u_locked_until a' = None \<and> u_failed_login_attempts a' = 0"
    "v \<noteq> u \<Longrightarrow> map_of (ut_users (hd_users h)) v \<noteq> Some q \<Longrightarrow> GetUser v (hd_users h') = GetUser v (hd_users h)"
proof -
  have a: "u_id a = u" "map_of (ut_users (hd_users h)) u \<noteq> None"
    using assms(1,2) by (auto simp: GetUser_def accounts_ok_def split: option.splits)
  have "(b \<longleftrightarrow> ac_hash A new \<noteq> None) \<and> (\<not> b \<longrightarrow> h' = h) \<and>
    hd_keys h' = hd_keys h \<and> mem h' = mem h \<and> hd_leases h' = hd_leases h \<and> hd_sealer h' = hd_sealer h \<and>
    ut_sessions (hd_users h') = ut_sessions (hd_users h) \<and> ut_seals (hd_users h') = ut_seals (hd_users h) \<and>
    (b \<longrightarrow> (\<exists>a'. GetUser u (hd_users h') = Inr a' \<and> sc_verify_password (ac_sign A) new (u_password_hash a') \<and>
       u_locked_until a' = None \<and> u_failed_login_attempts a' = 0)) \<and>
    (v \<noteq> u \<longrightarrow> map_of (ut_users (hd_users h)) v \<noteq> Some q \<longrightarrow> GetUser v (hd_users h') = GetUser v (hd_users h))"
  proof (cases "ac_hash A new")
    case None
    then have "h' = h" "\<not> b" using assms(3) by (auto simp: commit_reset_def)
    with None show ?thesis by simp
  next
    case (Some hash)
    define w where "w = a\<lparr>u_password_hash := hash, u_failed_login_attempts := 0, u_locked_until := None\<rparr>"
    obtain st where st: "UpdateUser now q w (hd_users h) = (st, Inr ())"
      using a by (auto simp: UpdateUser_def Let_def w_def)
    then have out: "h' = set_users st h" "b" using assms(3) Some by (auto simp: commit_reset_def w_def)
    have "ut_users st = AList.update u q (ut_users (hd_users h))" "ut_heap st = (ut_heap (hd_users h))(q \<mapsto> w\<lparr>u_updated_at := now\<rparr>)"
      "ut_sessions st = ut_sessions (hd_users h)" "ut_seals st = ut_seals (hd_users h)"
      using st a by (auto simp: UpdateUser_def Let_def w_def)
    moreover from this have "GetUser u st = Inr (w\<lparr>u_updated_at := now\<rparr>)"
      by (simp add: GetUser_def uderef_def update_conv')
    moreover have "sc_verify_password (ac_sign A) new hash" using Some assms(1) by (simp add: accounts_ok_def)
    ultimately show ?thesis
      using Some out
      by (simp add: w_def) (auto simp: GetUser_def uderef_def update_conv' split: option.split)
  qed
  then
  show "b \<longleftrightarrow> ac_hash A new \<noteq> None" "\<not> b \<Longrightarrow> h' = h"
    "hd_keys h' = hd_keys h" "mem h' = mem h" "hd_leases h' = hd_leases h" "hd_sealer h' = hd_sealer h"
    "ut_sessions (hd_users h') = ut_sessions (hd_users h)" "ut_seals (hd_users h') = ut_seals (hd_users h)"
    "b \<Longrightarrow> \<exists>a'. GetUser u (hd_users h') = Inr a' \<and> sc_verify_password (ac_sign A) new (u_password_hash a') \<and>
       u_locked_until a' = None \<and> u_failed_login_attempts a' = 0"
    "v \<noteq> u \<Longrightarrow> map_of (ut_users (hd_users h)) v \<noteq> Some q \<Longrightarrow> GetUser v (hd_users h') = GetUser v (hd_users h)"
    by simp_all
qed

lemma complete_challenges:
  "handleRecoveryComplete E now q rnd req s = (s', reply) \<Longrightarrow> \<not> length (cr_new_password req) < 8 \<Longrightarrow>
   rv_challenges s' = fst (ConsumeRecoveryChallenge now (cr_challenge req) (rv_challenges s))"
  by (auto simp: handleRecoveryComplete_def Let_def split: sum.splits option.splits prod.splits if_splits bool.splits)

lemma complete_short: "length (cr_new_password req) < 8 \<Longrightarrow> handleRecoveryComplete E now q rnd req s = (s, CompleteBadRequest)"
  by (simp add: handleRecoveryComplete_def)

text \<open>What the operations of a reset rely on: the parameters, fresh randomness and a fresh address.\<close>

definition reset_ok :: "recovery_env \<Rightarrow> (bytes \<times> bytes) option \<Rightarrow> addr \<Rightarrow> 's recovery \<Rightarrow> bool" where
  "reset_ok E rnd q s \<longleftrightarrow> key_crypto_laws (ac_keys (re_account E)) \<and> accounts_ok (re_account E) (rv_handler s) \<and>
     (\<exists>salt nonce. rnd = Some (salt, nonce) \<and> length salt = pbkdf2SaltLen \<and> length nonce = nonce_size) \<and>
     (\<forall>v. map_of (ut_users (hd_users (rv_handler s))) v \<noteq> Some q)"

lemma restored_ok:
  assumes ok: "reset_ok E rnd q s"
    and run: "restore_proven E rnd (ListKeys u (hd_keys (rv_handler s))) pubkey req (rv_handler s) = (h, res)"
  shows "accounts_ok (re_account E) h" "hd_users h = hd_users (rv_handler s)" "gs_keys (hd_keys h) = gs_keys (hd_keys (rv_handler s))"
    "r \<in> snd ` set (gs_keys (hd_keys (rv_handler s))) \<Longrightarrow>
      (if res = Inr 1 \<and> k_owner_id (deref (hd_keys (rv_handler s)) r) = u \<and> k_pubkey (deref (hd_keys (rv_handler s)) r) = pubkey
       then \<exists>priv. opened (re_account E) (cr_new_password req) (deref (hd_keys h) r) = Some priv \<and>
         derive_pubkey (re_account E) priv = Some pubkey \<and> mem h pubkey = Some priv
       else deref (hd_keys h) r = deref (hd_keys (rv_handler s)) r)"
    "k_pubkey (deref (hd_keys h) r) = k_pubkey (deref (hd_keys (rv_handler s)) r)"
    "k_owner_id (deref (hd_keys h) r) = k_owner_id (deref (hd_keys (rv_handler s)) r)"
proof -
  let ?g = "hd_keys (rv_handler s)"
  obtain salt nonce where rn: "rnd = Some (salt, nonce)" "length salt = pbkdf2SaltLen" "length nonce = nonce_size"
    and K: "key_crypto_laws (ac_keys (re_account E))" and A: "accounts_ok (re_account E) (rv_handler s)"
    using ok unfolding reset_ok_def by blast
  have wf: "keys_wf ?g" using A by (simp add: accounts_ok_def)
  note sp = restore_proven_spec [OF K wf rn run]
  show us: "hd_users h = hd_users (rv_handler s)" using sp(1) by simp
  have *: "gs_keys (hd_keys h) = gs_keys ?g \<and> keys_wf (hd_keys h) \<and>
      (\<forall>r. k_pubkey (deref (hd_keys h) r) = k_pubkey (deref ?g r)) \<and> (\<forall>r. k_owner_id (deref (hd_keys h) r) = k_owner_id (deref ?g r)) \<and>
      (\<forall>r \<in> snd ` set (gs_keys ?g).
        (if res = Inr 1 \<and> k_owner_id (deref ?g r) = u \<and> k_pubkey (deref ?g r) = pubkey
         then \<exists>priv. opened (re_account E) (cr_new_password req) (deref (hd_keys h) r) = Some priv \<and>
           derive_pubkey (re_account E) priv = Some pubkey \<and> mem h pubkey = Some priv
         else deref (hd_keys h) r = deref ?g r))"
  proof (cases "res = Inr 1")
    case True
    from sp(4) [OF this] obtain p c priv where p: "p \<in> set (ListKeys u ?g)" "k_pubkey (deref ?g p) = pubkey"
      "hd_keys h = write_key p (wrapped_as c) ?g" "passDecrypt (ac_keys (re_account E)) (cr_new_password req) c = Inr priv"
      "IsPassphraseEncrypted c" "derive_pubkey (re_account E) priv = Some pubkey" "mem h = (mem (rv_handler s))(pubkey \<mapsto> priv)"
      by blast
    have one: "r = p" if "r \<in> snd ` set (gs_keys ?g)" "k_pubkey (deref ?g r) = pubkey" for r
    proof -
      have filed: "gs_by_pubkey ?g (k_pubkey (deref ?g x)) = Some x" if "x \<in> snd ` set (gs_keys ?g)" for x
      proof -
        from that obtain i where "(i, x) \<in> set (gs_keys ?g)" by fastforce
        then show ?thesis using wf by (auto simp: keys_wf_def)
      qed
      from filed [OF that(1)] have "gs_by_pubkey ?g pubkey = Some r" by (simp only: that(2))
      moreover have "p \<in> snd ` set (gs_keys ?g)" using p(1) ListKeys_refs by blast
      then have "gs_by_pubkey ?g pubkey = Some p" using filed p(2) by metis
      ultimately show ?thesis by simp
    qed
    have "keys_wf (hd_keys h)" using wf unfolding p(3) by (subst keys_wf_cong [of _ ?g]) auto
    moreover have "opened (re_account E) (cr_new_password req) (deref (hd_keys h) p) = Some priv"
      using p(4,5) by (simp add: p(3) opened_def)
    moreover have "k_owner_id (deref ?g p) = u" using p(1) by (simp add: ListKeys_def)
    moreover have "mem h pubkey = Some priv" using p(7) by simp
    moreover have "deref (hd_keys h) r = (if r = p then wrapped_as c (deref ?g p) else deref ?g r)" for r by (simp add: p(3))
    moreover have "r = p \<longleftrightarrow> k_owner_id (deref ?g r) = u \<and> k_pubkey (deref ?g r) = pubkey" if "r \<in> snd ` set (gs_keys ?g)" for r
      using one [OF that] p(1,2) by (auto simp: ListKeys_def)
    ultimately show ?thesis using True p(2,6) by (simp add: p(3))
  next
    case False
    then have "hd_keys h = ?g" using sp(2,3) by (cases res) auto
    with False wf show ?thesis by auto
  qed
  show "accounts_ok (re_account E) h" using A * sp(1) by (simp add: accounts_ok_def)
  show "gs_keys (hd_keys h) = gs_keys ?g" "k_pubkey (deref (hd_keys h) r) = k_pubkey (deref ?g r)"
    "k_owner_id (deref (hd_keys h) r) = k_owner_id (deref ?g r)" using * by blast+
  show "r \<in> snd ` set (gs_keys ?g) \<Longrightarrow>
      (if res = Inr 1 \<and> k_owner_id (deref ?g r) = u \<and> k_pubkey (deref ?g r) = pubkey
       then \<exists>priv. opened (re_account E) (cr_new_password req) (deref (hd_keys h) r) = Some priv \<and>
         derive_pubkey (re_account E) priv = Some pubkey \<and> mem h pubkey = Some priv
       else deref (hd_keys h) r = deref ?g r)" using * by blast
qed

text \<open>
  C33. Only the holder of the account's identity key can use recovery: if a request changes anything on
  the replica or in its store, it named a live, unused challenge of an account that has not opted out
  and carried an event of the right kind and age, with that challenge, validly signed by the account's
  identity key. The challenge is then spent; no other account's record changes; the only key that may
  change is the proven one, and only when the private key was supplied.
\<close>

theorem recovery_needs_identity_proof:
  assumes ok: "reset_ok E rnd q s" and run: "handleRecoveryComplete E now q rnd req s = (s', reply)"
    and changed: "rv_handler s' \<noteq> rv_handler s"
  shows "\<exists>u pubkey. proven E now req s u pubkey \<and>
    (\<exists>c. rv_challenges s' (cr_challenge req) = Some c \<and> rc_used_at c \<noteq> None) \<and>
    (\<forall>v. v \<noteq> u \<longrightarrow> GetUser v (hd_users (rv_handler s')) = GetUser v (hd_users (rv_handler s))) \<and>
    (\<forall>r \<in> snd ` set (gs_keys (hd_keys (rv_handler s))).
       deref (hd_keys (rv_handler s')) r = deref (hd_keys (rv_handler s)) r \<or>
       k_owner_id (deref (hd_keys (rv_handler s)) r) = u \<and> k_pubkey (deref (hd_keys (rv_handler s)) r) = pubkey \<and>
       re_trim E (cr_nsec req) \<noteq> '''')"
proof -
  have long: "\<not> length (cr_new_password req) < 8" using complete_short [of req E now q rnd s] run changed by auto
  have spent: "\<exists>c. rv_challenges s' (cr_challenge req) = Some c \<and> rc_used_at c \<noteq> None" if "proven E now req s u pubkey" for u pubkey
    using that complete_challenges [OF run long] by (auto simp: proven_def ConsumeRecoveryChallenge_def Let_def)
  have nsec: "re_trim E (cr_nsec req) \<noteq> ''''"
    if "restore_proven E rnd keys pubkey req h = (h', res)" "res = Inr 1 \<or> h' \<noteq> h" for keys pubkey h h' res
    using that by (auto simp: restore_proven_def)
  have A: "accounts_ok (re_account E) (rv_handler s)" and q: "\<And>v. map_of (ut_users (hd_users (rv_handler s))) v \<noteq> Some q"
    using ok by (auto simp: reset_ok_def)
  have keys: "deref (hd_keys h) r = deref (hd_keys (rv_handler s)) r \<or>
       k_owner_id (deref (hd_keys (rv_handler s)) r) = u \<and> k_pubkey (deref (hd_keys (rv_handler s)) r) = pubkey \<and> re_trim E (cr_nsec req) \<noteq> ''''"
    if "restore_proven E rnd (ListKeys u (hd_keys (rv_handler s))) pubkey req (rv_handler s) = (h, res)"
      "r \<in> snd ` set (gs_keys (hd_keys (rv_handler s)))" for u pubkey h res r
    using restored_ok(4) [OF ok that] nsec [OF that(1)] by (auto split: if_splits)
  have concl: ?thesis if "proven E now req s u pubkey"
      "\<And>v. v \<noteq> u \<Longrightarrow> GetUser v (hd_users (rv_handler s')) = GetUser v (hd_users (rv_handler s))"
      "restore_proven E rnd (ListKeys u (hd_keys (rv_handler s))) pubkey req (rv_handler s) = (h, res)"
      "hd_keys (rv_handler s') = hd_keys h" for u pubkey h res
  proof -
    have F: "\<forall>v. v \<noteq> u \<longrightarrow> GetUser v (hd_users (rv_handler s')) = GetUser v (hd_users (rv_handler s))" using that(2) by blast
    have G: "\<forall>r \<in> snd ` set (gs_keys (hd_keys (rv_handler s))).
       deref (hd_keys (rv_handler s')) r = deref (hd_keys (rv_handler s)) r \<or>
       k_owner_id (deref (hd_keys (rv_handler s)) r) = u \<and> k_pubkey (deref (hd_keys (rv_handler s)) r) = pubkey \<and>
       re_trim E (cr_nsec req) \<noteq> ''''"
      unfolding that(4) using keys [OF that(3)] by (intro ballI)
    show ?thesis using conjI [OF that(1) conjI [OF spent [OF that(1)] conjI [OF F G]]] by (intro exI)
  qed
  from run show ?thesis
  proof (cases rule: complete_inv)
    case (restored u pubkey a h e)
    then show ?thesis using restored_ok(2) [OF ok restored(3)] by (intro concl [OF restored(1) _ restored(3)]) simp_all
  next
    case (uncommitted u pubkey a h n h')
    note R = restored_ok [OF ok uncommitted(3)]
    have "h' = h" using commit_reset_spec(2) [OF R(1) _ uncommitted(4)] uncommitted(2) R(2) by simp
    then show ?thesis using uncommitted R(2) by (intro concl [OF uncommitted(1) _ uncommitted(3)]) simp_all
  next
    case (committed u pubkey a h n h')
    note R = restored_ok [OF ok committed(3)]
    have g: "GetUser u (hd_users h) = Inr a" using committed(2) R(2) by simp
    have "GetUser v (hd_users h') = GetUser v (hd_users (rv_handler s))" if "v \<noteq> u" for v
      using commit_reset_spec(10) [OF R(1) g committed(4) that] q R(2) by simp
    moreover have "hd_keys h' = hd_keys h" using commit_reset_spec(3) [OF R(1) g committed(4)] .
    ultimately show ?thesis using committed(5) by (intro concl [OF committed(1) _ committed(3)]) simp_all
  qed (use changed in simp)
qed

text \<open>The account of the witnesses, with a live challenge and its answer signed by the identity key.\<close>

definition toy_answer :: nostr_event where
  "toy_answer = \<lparr>ev_id = '''', ev_pubkey = ''user'', ev_created_at = 1, ev_kind = 27235, ev_tags = [[''challenge'', ''c1'']],
     ev_content = '''', ev_sig = ''s''\<rparr>"

definition toy_recovery_env :: recovery_env where
  "toy_recovery_env = \<lparr>re_account = toy_env\<lparr>ac_nip19 := (\<lambda>s. Some (''nsec'', ''sk2''))\<rparr>,
     re_event = (\<lambda>s. if s = ''signed'' then Some toy_answer else None),
     re_check_signature = (\<lambda>ev. Some (ev_sig ev = ''s'')), re_difficulty = (\<lambda>ev. 0), re_hash_key = id, re_lower = id\<rparr>"

definition toy_recovery :: "handler \<Rightarrow> (string \<rightharpoonup> int \<times> time option) recovery" where
  "toy_recovery h = \<lparr>rv_handler = h,
     rv_challenges = [''c1'' \<mapsto> \<lparr>rc_id = ''c1'', rc_user_id = ''u'', rc_expires_at = seconds 300, rc_created_at = 0, rc_used_at = None\<rparr>],
     rv_settings = Map.empty, rv_budget = (toy_hasher, Map.empty)\<rparr>"

definition toy_complete :: "string \<Rightarrow> complete_request" where
  "toy_complete nsec = \<lparr>cr_challenge = ''c1'', cr_signed_event = ''signed'', cr_new_password = ''new-password'', cr_nsec = nsec\<rparr>"

lemma toy_sel [simp]: "rv_handler (toy_recovery h) = h" "cr_new_password (toy_complete n) = ''new-password''"
  "cr_challenge (toy_complete n) = ''c1''" "cr_nsec (toy_complete n) = n" "cr_signed_event (toy_complete n) = ''signed''"
  by (simp_all add: toy_recovery_def toy_complete_def)

lemma toy_reset_ok: "reset_ok toy_recovery_env (toy_random ''x'') 2 (toy_recovery toy_account)"
proof -
  have "accounts_ok (re_account toy_recovery_env) toy_account"
    using toy_account_ok by (simp add: accounts_ok_def toy_recovery_env_def)
  moreover have "map_of (ut_users (hd_users toy_account)) v \<noteq> Some 2" for v
    by (simp add: toy_account_def toy_users_def toy_user_def CreateUser_def)
  moreover have "hd_users toy_account = sn_users (hd_signer toy_account)" by simp
  ultimately show ?thesis
    using toy_env_laws by (simp add: reset_ok_def toy_recovery_env_def toy_recovery_def toy_random_def pbkdf2SaltLen_def nonce_size_def)
qed

theorem recovery_needs_identity_proof_witness:
  "case handleRecoveryComplete toy_recovery_env (seconds 2) 2 (toy_random ''x'') (toy_complete ''nsec1x'') (toy_recovery toy_account) of
     (s', reply) \<Rightarrow> deref (hd_keys (rv_handler s')) 1 = deref (hd_keys toy_account) 1 \<and>
       (\<exists>c. rv_challenges s' ''c1'' = Some c \<and> rc_used_at c \<noteq> None)"
proof -
  let ?s = "toy_recovery toy_account"
  obtain s' reply where r: "handleRecoveryComplete toy_recovery_env (seconds 2) 2 (toy_random ''x'') (toy_complete ''nsec1x'') ?s = (s', reply)"
    by force
  let ?hash = "\<lambda>h. map_option u_password_hash (map_of (map (\<lambda>(i, r). (i, uderef (hd_users h) r)) (ut_users (hd_users h))) ''u'')"
  have "?hash (rv_handler (fst (handleRecoveryComplete toy_recovery_env (seconds 2) 2 (toy_random ''x'') (toy_complete ''nsec1x'') ?s))) =
    Some ''#new-password''" by code_simp
  then have new: "?hash (rv_handler s') = Some ''#new-password''" unfolding r fst_conv .
  have old: "?hash toy_account = Some ''#old-password''" by code_simp
  have "rv_handler s' \<noteq> rv_handler ?s"
  proof
    assume "rv_handler s' = rv_handler ?s"
    then have "rv_handler s' = toy_account" by (simp add: toy_recovery_def)
    with new old have "Some ''#new-password'' = Some ''#old-password''" by (simp only:)
    then show False by simp
  qed
  from recovery_needs_identity_proof [OF toy_reset_ok r this] obtain u pubkey where
    p: "proven toy_recovery_env (seconds 2) (toy_complete ''nsec1x'') ?s u pubkey"
      "\<exists>c. rv_challenges s' ''c1'' = Some c \<and> rc_used_at c \<noteq> None"
      "\<forall>r \<in> snd ` set (gs_keys (hd_keys toy_account)).
       deref (hd_keys (rv_handler s')) r = deref (hd_keys toy_account) r \<or> k_pubkey (deref (hd_keys toy_account) r) = pubkey"
    by (auto simp: toy_recovery_def toy_complete_def)
  have "pubkey = ''user''" using p(1) by (auto simp: proven_def toy_recovery_env_def toy_complete_def toy_answer_def split: if_splits)
  moreover have "1 \<in> snd ` set (gs_keys (hd_keys toy_account))" "k_pubkey (deref (hd_keys toy_account) 1) = ''role''" by code_simp+
  ultimately show ?thesis using p(2,3) r by auto
qed

text \<open>
  C34. What a successful recovery leaves: the account takes the new password and is no longer locked; the
  proven key, when it was supplied, opens under the new password and is loaded; the reply names exactly
  the other keys that are still under the forgotten password, none of which changes; and every session
  and every seal of the replica's store stays, those of whoever else was signed in to the account too.
\<close>

theorem recovery_outcome:
  assumes ok: "reset_ok E rnd q s" and run: "handleRecoveryComplete E now q rnd req s = (s', Recovered n stranded vault)"
  shows "\<exists>u pubkey a. proven E now req s u pubkey \<and>
    GetUser u (hd_users (rv_handler s')) = Inr a \<and> sc_verify_password (ac_sign (re_account E)) (cr_new_password req) (u_password_hash a) \<and>
    u_locked_until a = None \<and> u_failed_login_attempts a = 0 \<and>
    n = (if re_trim E (cr_nsec req) = '''' then 0 else 1) \<and>
    (\<forall>r \<in> snd ` set (gs_keys (hd_keys (rv_handler s))).
       if n = 1 \<and> k_owner_id (deref (hd_keys (rv_handler s)) r) = u \<and> k_pubkey (deref (hd_keys (rv_handler s)) r) = pubkey
       then \<exists>priv. opened (re_account E) (cr_new_password req) (deref (hd_keys (rv_handler s')) r) = Some priv \<and>
         derive_pubkey (re_account E) priv = Some pubkey \<and> mem (rv_handler s') pubkey = Some priv
       else deref (hd_keys (rv_handler s')) r = deref (hd_keys (rv_handler s)) r) \<and>
    stranded = map (\<lambda>r. k_pubkey (deref (hd_keys (rv_handler s')) r))
      (filter (\<lambda>r. IsPassphraseEncrypted (k_encrypted_nsec (deref (hd_keys (rv_handler s')) r)) \<and>
         \<not> (k_pubkey (deref (hd_keys (rv_handler s')) r) = pubkey \<and> n = 1)) (ListKeys u (hd_keys (rv_handler s)))) \<and>
    ut_sessions (hd_users (rv_handler s')) = ut_sessions (hd_users (rv_handler s)) \<and>
    ut_seals (hd_users (rv_handler s')) = ut_seals (hd_users (rv_handler s))"
  using run
proof (cases rule: complete_inv)
  case (committed u pubkey a h m h')
  note R = restored_ok [OF ok committed(3)]
  have g: "GetUser u (hd_users h) = Inr a" using committed(2) R(2) by simp
  note C = commit_reset_spec [OF R(1) g committed(4)]
  have m: "m = n" "stranded = stranded_keys (hd_keys h') (ListKeys u (hd_keys (rv_handler s))) pubkey n" using committed(6) by simp_all
  have h: "rv_handler s' = h'" "hd_keys h' = hd_keys h" "mem h' = mem h" using committed(5) C(3,4) by simp_all
  obtain a' where a': "GetUser u (hd_users h') = Inr a'" "sc_verify_password (ac_sign (re_account E)) (cr_new_password req) (u_password_hash a')"
    "u_locked_until a' = None" "u_failed_login_attempts a' = 0" using C(9) by blast
  have n: "n = (if re_trim E (cr_nsec req) = '''' then 0 else 1)"
    using committed(3) by (auto simp: restore_proven_def m split: if_splits option.splits prod.splits bool.splits)
  have F: "\<forall>r \<in> snd ` set (gs_keys (hd_keys (rv_handler s))).
       if n = 1 \<and> k_owner_id (deref (hd_keys (rv_handler s)) r) = u \<and> k_pubkey (deref (hd_keys (rv_handler s)) r) = pubkey
       then \<exists>priv. opened (re_account E) (cr_new_password req) (deref (hd_keys (rv_handler s')) r) = Some priv \<and>
         derive_pubkey (re_account E) priv = Some pubkey \<and> mem (rv_handler s') pubkey = Some priv
       else deref (hd_keys (rv_handler s')) r = deref (hd_keys (rv_handler s)) r"
    using R(4) unfolding h m(1) by (intro ballI) simp
  have G: "stranded = map (\<lambda>r. k_pubkey (deref (hd_keys (rv_handler s')) r))
      (filter (\<lambda>r. IsPassphraseEncrypted (k_encrypted_nsec (deref (hd_keys (rv_handler s')) r)) \<and>
         \<not> (k_pubkey (deref (hd_keys (rv_handler s')) r) = pubkey \<and> n = 1)) (ListKeys u (hd_keys (rv_handler s))))"
    unfolding m(2) h(1) stranded_keys_def by (simp add: conj_commute)
  have H: "ut_sessions (hd_users (rv_handler s')) = ut_sessions (hd_users (rv_handler s))"
    "ut_seals (hd_users (rv_handler s')) = ut_seals (hd_users (rv_handler s))" using C(7,8) R(2) h(1) by simp_all
  show ?thesis
    using conjI [OF committed(1) conjI [OF a'(1) [folded h(1)] conjI [OF a'(2) conjI [OF a'(3) conjI [OF a'(4) conjI [OF n conjI [OF F conjI [OF G conjI [OF H]]]]]]]]]
    by (intro exI)
next
  case (restored u pubkey a h e)
  then show ?thesis by (auto simp: restore_proven_def split: if_splits option.splits prod.splits bool.splits)
next
  case quiet
  then show ?thesis by blast
qed simp

theorem recovery_outcome_witness:
  "case handleRecoveryComplete toy_recovery_env (seconds 2) 2 (toy_random ''x'') (toy_complete ''nsec1x'') (toy_recovery toy_account) of
     (s', reply) \<Rightarrow> reply = Recovered 1 [] False \<and>
       opened (re_account toy_recovery_env) ''new-password'' (deref (hd_keys (rv_handler s')) 2) = Some ''sk2'' \<and>
       ut_sessions (hd_users (rv_handler s')) = ut_sessions (hd_users toy_account)"
proof -
  let ?s = "toy_recovery toy_account"
  obtain s' reply where r: "handleRecoveryComplete toy_recovery_env (seconds 2) 2 (toy_random ''x'') (toy_complete ''nsec1x'') ?s = (s', reply)"
    by force
  have "snd (handleRecoveryComplete toy_recovery_env (seconds 2) 2 (toy_random ''x'') (toy_complete ''nsec1x'') ?s) = Recovered 1 [] False"
    by code_simp
  then have reply: "reply = Recovered 1 [] False" unfolding r snd_conv .
  have c: "2 \<in> snd ` set (gs_keys (hd_keys toy_account))" "k_pubkey (deref (hd_keys toy_account) 2) = ''user''"
    "k_owner_id (deref (hd_keys toy_account) 2) = ''u''" by code_simp+
  obtain u pubkey a where p: "proven toy_recovery_env (seconds 2) (toy_complete ''nsec1x'') ?s u pubkey"
    "\<forall>r \<in> snd ` set (gs_keys (hd_keys toy_account)).
       if (1::nat) = 1 \<and> k_owner_id (deref (hd_keys toy_account) r) = u \<and> k_pubkey (deref (hd_keys toy_account) r) = pubkey
       then \<exists>priv. opened (re_account toy_recovery_env) ''new-password'' (deref (hd_keys (rv_handler s')) r) = Some priv \<and>
         derive_pubkey (re_account toy_recovery_env) priv = Some pubkey \<and> mem (rv_handler s') pubkey = Some priv
       else deref (hd_keys (rv_handler s')) r = deref (hd_keys toy_account) r"
    "ut_sessions (hd_users (rv_handler s')) = ut_sessions (hd_users toy_account)"
    using recovery_outcome [OF toy_reset_ok r [unfolded reply]] unfolding toy_sel by (elim exE conjE) (rule that)
  have "pubkey = ''user''" "u = ''u''"
    using p(1) by (auto simp: proven_def toy_recovery_env_def toy_complete_def toy_answer_def toy_recovery_def split: if_splits)
  then have "\<exists>priv. opened (re_account toy_recovery_env) ''new-password'' (deref (hd_keys (rv_handler s')) 2) = Some priv \<and>
         derive_pubkey (re_account toy_recovery_env) priv = Some ''user''"
    using bspec [OF p(2) c(1)] c(2,3) by auto
  moreover have "priv = ''sk2''" if "derive_pubkey (re_account toy_recovery_env) priv = Some ''user''" for priv
    using that by (simp add: toy_recovery_env_def toy_env_def toy_stay_def split: if_splits)
  ultimately show ?thesis using p(3) r reply by auto
qed

section \<open>A password that cannot be hashed\<close>

lemma identity_key_listed:
  assumes "resolveSigningPubkey u st = Some pubkey"
  shows "\<exists>r \<in> set (ListKeys u st). k_pubkey (deref st r) = pubkey"
proof (cases "find (\<lambda>r. k_is_primary (deref st r)) (ListKeys u st)")
  case None
  have "ListKeys u st \<noteq> []" using assms by (auto simp: resolveSigningPubkey_def split: if_splits)
  then have "ListKeys u st ! (length (ListKeys u st) - 1) \<in> set (ListKeys u st)" by simp
  then show ?thesis using assms None by (intro bexI) (simp_all add: resolveSigningPubkey_def Let_def split: if_splits)
next
  case (Some r)
  then have "r \<in> set (ListKeys u st)" unfolding find_Some_iff by auto
  then show ?thesis using assms Some by (intro bexI) (simp_all add: resolveSigningPubkey_def Let_def split: if_splits)
qed

text \<open>
  C35. A reset that fails at the hash of the password (bcrypt refuses more than 72 bytes) has already
  wrapped the supplied key under it: the account still has its old password, and its identity key opens
  under the password that was refused.
\<close>

theorem failed_reset_moves_key:
  assumes ok: "reset_ok E rnd q s" and p: "proven E now req s u pubkey" and len: "\<not> length (cr_new_password req) < 8"
    and user: "GetUser u (hd_users (rv_handler s)) = Inr a" and nohash: "ac_hash (re_account E) (cr_new_password req) = None"
    and signed_event: "re_trim E (cr_signed_event req) \<noteq> ''''"
    and nsec: "re_trim E (cr_nsec req) \<noteq> ''''" "normalizePrivateKey (re_account E) (cr_nsec req) = Some priv"
      "derive_pubkey (re_account E) priv = Some pubkey"
    and run: "handleRecoveryComplete E now q rnd req s = (s', reply)"
  shows "reply = CompleteFailed \<and> hd_users (rv_handler s') = hd_users (rv_handler s) \<and>
    (\<exists>r \<in> set (ListKeys u (hd_keys (rv_handler s))). k_pubkey (deref (hd_keys (rv_handler s)) r) = pubkey \<and>
       passDecrypt (ac_keys (re_account E)) (cr_new_password req) (k_encrypted_nsec (deref (hd_keys (rv_handler s')) r)) = Inr priv)"
proof -
  let ?g = "hd_keys (rv_handler s)" and ?K = "ac_keys (re_account E)" and ?p = "cr_new_password req"
  obtain salt nonce where rn: "rnd = Some (salt, nonce)" "length salt = pbkdf2SaltLen" "length nonce = nonce_size"
    and K: "key_crypto_laws ?K" and A: "accounts_ok (re_account E) (rv_handler s)"
    using ok unfolding reset_ok_def by blast
  have wf: "keys_wf ?g" using A by (simp add: accounts_ok_def)
  have "\<exists>r \<in> set (ListKeys u ?g). k_pubkey (deref ?g r) = pubkey"
    using p by (intro identity_key_listed) (simp add: proven_def)
  then obtain r where r: "find (\<lambda>r. k_pubkey (deref ?g r) = pubkey) (ListKeys u ?g) = Some r"
    by (cases "find (\<lambda>r. k_pubkey (deref ?g r) = pubkey) (ListKeys u ?g)") (auto simp only: find_None_iff)
  then have m: "r \<in> set (ListKeys u ?g)" "k_pubkey (deref ?g r) = pubkey" unfolding find_Some_iff by auto
  have ne: "?p \<noteq> ''''" using len by auto
  obtain c where c: "passEncrypt ?K rnd ?p priv = Inr c" "passDecrypt ?K ?p c = Inr priv"
    using passphrase_wraps [OF K rn, of ?p priv] by blast
  have up: "UpdateKeyEncryption (k_id (deref ?g r)) c ''passphrase'' ?g = (write_key r (wrapped_as c) ?g, Inr ())"
    using update_encryption [OF wf] ListKeys_refs m(1) by blast
  define h where "h = load_key (wrapped_as c (deref ?g r)) priv (set_keys (write_key r (wrapped_as c) ?g) (rv_handler s))"
  have rp: "restore_proven E rnd (ListKeys u ?g) pubkey req (rv_handler s) = (h, Inr 1)"
    using nsec r c(1) up ne by (simp add: restore_proven_def rewrapKeyUnderPassphrase_def NewPassphraseEncryptor_def h_def)
  have h: "hd_users h = hd_users (rv_handler s)" "hd_keys h = write_key r (wrapped_as c) ?g"
    by (auto simp: h_def load_key_def set_keys_def)
  obtain ch where ch: "rv_challenges s (cr_challenge req) = Some ch" "rc_used_at ch = None" "now \<le> rc_expires_at ch" "rc_user_id ch = u"
    using p by (auto simp: proven_def)
  have vp: "verifyRecoveryProof E now (cr_signed_event req) (cr_challenge req) = Some pubkey"
    using p signed_event by (auto simp: proven_def verifyRecoveryProof_def)
  have "commit_reset (re_account E) now q a ?p h = (h, False)" by (simp add: commit_reset_def nohash)
  moreover have "\<not> recoveryDisabled u s" "resolveSigningPubkey u ?g = Some pubkey" using p by (simp_all add: proven_def)
  moreover have "ConsumeRecoveryChallenge now (cr_challenge req) (rv_challenges s) =
      ((rv_challenges s)(cr_challenge req \<mapsto> ch\<lparr>rc_used_at := Some now\<rparr>), Inr (ch\<lparr>rc_used_at := Some now\<rparr>))"
    using ch(1-3) by (simp add: ConsumeRecoveryChallenge_def Let_def)
  ultimately have "reply = CompleteFailed \<and> rv_handler s' = h"
    using run by (auto simp: handleRecoveryComplete_def Let_def len vp user rp ch(4))
  then show ?thesis using h m c(2) by auto
qed

theorem failed_reset_moves_key_witness:
  "\<exists>s' reply. handleRecoveryComplete (toy_recovery_env\<lparr>re_account := (re_account toy_recovery_env)\<lparr>ac_hash := (\<lambda>p. None)\<rparr>\<rparr>)
       (seconds 2) 2 (toy_random ''x'') (toy_complete ''nsec1x'') (toy_recovery toy_account) = (s', reply) \<and>
     reply = CompleteFailed \<and> hd_users (rv_handler s') = hd_users toy_account \<and>
     passDecrypt toy_key_crypto ''new-password'' (k_encrypted_nsec (deref (hd_keys (rv_handler s')) 2)) = Inr ''sk2''"
proof -
  let ?E = "toy_recovery_env\<lparr>re_account := (re_account toy_recovery_env)\<lparr>ac_hash := (\<lambda>p. None)\<rparr>\<rparr>"
  let ?s = "toy_recovery toy_account"
  obtain s' reply where r: "handleRecoveryComplete ?E (seconds 2) 2 (toy_random ''x'') (toy_complete ''nsec1x'') ?s = (s', reply)" by force
  have ok: "reset_ok ?E (toy_random ''x'') 2 ?s"
    using toy_reset_ok by (simp add: reset_ok_def accounts_ok_def)
  have rs: "resolveSigningPubkey ''u'' (hd_keys toy_account) = Some ''user''" by code_simp
  have pr: "proven ?E (seconds 2) (toy_complete ''nsec1x'') ?s ''u'' ''user''"
    using rs by (simp add: proven_def toy_recovery_env_def toy_complete_def toy_answer_def toy_recovery_def has_tag_def event_age_def
        recoveryChallengeTTL_def recoveryAuthKind_def recoveryDisabled_def GetSetting_def)
  obtain a where a: "GetUser ''u'' (hd_users (rv_handler ?s)) = Inr a"
    by (auto simp: GetUser_def toy_recovery_def toy_account_def CreateUser_def toy_user_def)
  have ks: "ListKeys ''u'' (hd_keys toy_account) = [1, 2]" "k_pubkey (deref (hd_keys toy_account) 1) = ''role''" by code_simp+
  have n: "normalizePrivateKey (re_account ?E) ''nsec1x'' = Some ''sk2''" by code_simp
  from failed_reset_moves_key [OF ok pr _ a _ _ _ _ _ r, of "''sk2''"]
  have "reply = CompleteFailed \<and> hd_users (rv_handler s') = hd_users toy_account \<and>
    (\<exists>r \<in> set (ListKeys ''u'' (hd_keys toy_account)). k_pubkey (deref (hd_keys toy_account) r) = ''user'' \<and>
       passDecrypt toy_key_crypto ''new-password'' (k_encrypted_nsec (deref (hd_keys (rv_handler s')) r)) = Inr ''sk2'')"
    using n by (simp add: toy_recovery_env_def toy_complete_def toy_recovery_def toy_env_def toy_stay_def)
  with r ks show ?thesis by auto
qed

section \<open>What a stranger learns\<close>

lemma challenge_split:
  "handleRecoveryChallenge E F lm hasHasher now random nonce req s =
     (case handleRecoveryChallenge E F lm hasHasher now random nonce req (s\<lparr>rv_handler := h, rv_challenges := Map.empty, rv_settings := Map.empty\<rparr>) of
        None \<Rightarrow> None
      | Some (t, reply) \<Rightarrow> Some (s\<lparr>rv_budget := rv_budget t, rv_challenges := (case reply of
          ChallengeIssued i e \<Rightarrow> (case GetUserByUsername (re_trim E (re_lower E (cq_username req))) (hd_users (rv_handler s)) of
            Inl _ \<Rightarrow> rv_challenges s
          | Inr user \<Rightarrow> (rv_challenges s)(i \<mapsto> \<lparr>rc_id = i, rc_user_id = u_id user, rc_expires_at = e, rc_created_at = now, rc_used_at = None\<rparr>))
        | _ \<Rightarrow> rv_challenges s)\<rparr>, reply))"
  by (auto simp: handleRecoveryChallenge_def Let_def CreateRecoveryChallenge_def split: option.splits bool.splits sum.splits)

text \<open>
  The answer to a request for a challenge, and what it costs of the budgets, is the same whatever
  accounts, keys and challenges the replica and its store hold.
\<close>

theorem recovery_answers_alike:
  assumes "rv_budget s = rv_budget s'"
  shows "map_option (\<lambda>(t, reply). (rv_budget t, reply)) (handleRecoveryChallenge E F lm hasHasher now random nonce req s) =
    map_option (\<lambda>(t, reply). (rv_budget t, reply)) (handleRecoveryChallenge E F lm hasHasher now random nonce req s')"
proof -
  define h where "h = rv_handler s"
  have "s\<lparr>rv_handler := h, rv_challenges := Map.empty, rv_settings := Map.empty\<rparr> =
      s'\<lparr>rv_handler := h, rv_challenges := Map.empty, rv_settings := Map.empty\<rparr>"
    using assms by (cases s; cases s') simp
  then show ?thesis
    unfolding challenge_split [of E F lm hasHasher now random nonce req s h]
      challenge_split [of E F lm hasHasher now random nonce req s' h]
    by (simp split: option.split prod.split)
qed

definition toy_recovery_config :: recovery_config where
  "toy_recovery_config = \<lparr>rf_pow_difficulty = 0, rf_per_username_limit = 3, rf_per_username_window = 60, rf_global_limit = 5,
     rf_global_window = 60, rf_per_ip_limit = 0, rf_per_ip_window = 60, rf_proxy_header = ''''\<rparr>"

definition toy_ask :: challenge_request where
  "toy_ask = \<lparr>cq_username = ''n'', cq_pow_event = '''', cq_header = ''''\<rparr>"

theorem recovery_answers_alike_witness:
  "map_option (\<lambda>(t, reply). (rv_budget t, reply)) (handleRecoveryChallenge toy_recovery_env toy_recovery_config
      (Some (redisLimiter kv_redis True ''rl:'')) False 5 None (Some ''c2'') toy_ask (toy_recovery toy_account)) =
   map_option (\<lambda>(t, reply). (rv_budget t, reply)) (handleRecoveryChallenge toy_recovery_env toy_recovery_config
      (Some (redisLimiter kv_redis True ''rl:'')) False 5 None (Some ''c2'') toy_ask (toy_recovery toy_replica))"
  by (rule recovery_answers_alike) (simp add: toy_recovery_def)

text \<open>
  The second answer is not: a fresh challenge that is completed without a proof is answered with a
  bad proof when the account exists and with a bad challenge when it does not.
\<close>

theorem recovery_reveals_accounts:
  assumes issued: "handleRecoveryChallenge E F lm hasHasher now random (Some nonce) req s = Some (s', ChallengeIssued nonce t)"
    and fresh: "rv_challenges s nonce = None" and time: "later \<le> now + recoveryChallengeTTL"
    and probe: "cr_challenge c = nonce" "cr_signed_event c = ''''" "8 \<le> length (cr_new_password c)" and trim: "re_trim E '''' = ''''"
  shows "snd (handleRecoveryComplete E later q rnd c s') =
    (if ok (GetUserByUsername (re_trim E (re_lower E (cq_username req))) (hd_users (rv_handler s))) then BadProof else BadChallenge)"
proof -
  have t: "t = now + recoveryChallengeTTL"
    using issued by (auto simp: handleRecoveryChallenge_def Let_def split: option.splits bool.splits if_splits)
  have "rv_challenges s' nonce = (case GetUserByUsername (re_trim E (re_lower E (cq_username req))) (hd_users (rv_handler s)) of
      Inl _ \<Rightarrow> None
    | Inr user \<Rightarrow> Some \<lparr>rc_id = nonce, rc_user_id = u_id user, rc_expires_at = t, rc_created_at = now, rc_used_at = None\<rparr>)"
    using issued fresh unfolding challenge_split [of E F lm hasHasher now random "Some nonce" req s toy_account]
    by (auto split: option.splits sum.splits)
  then show ?thesis
    using probe trim time t
    by (auto simp: handleRecoveryComplete_def ConsumeRecoveryChallenge_def verifyRecoveryProof_def Let_def split: sum.splits)
qed

theorem recovery_reveals_accounts_witness:
  "\<exists>s'. handleRecoveryChallenge toy_recovery_env toy_recovery_config (Some (redisLimiter kv_redis True ''rl:'')) False 5 None (Some ''c2'')
       toy_ask (toy_recovery toy_account) = Some (s', ChallengeIssued ''c2'' (5 + recoveryChallengeTTL)) \<and>
     snd (handleRecoveryComplete toy_recovery_env 6 2 None
       \<lparr>cr_challenge = ''c2'', cr_signed_event = '''', cr_new_password = ''anything'', cr_nsec = ''''\<rparr> s') = BadProof"
proof -
  have "map_option snd (handleRecoveryChallenge toy_recovery_env toy_recovery_config (Some (redisLimiter kv_redis True ''rl:'')) False 5 None
      (Some ''c2'') toy_ask (toy_recovery toy_account)) = Some (ChallengeIssued ''c2'' (5 + recoveryChallengeTTL))" by code_simp
  then obtain s' where s': "handleRecoveryChallenge toy_recovery_env toy_recovery_config (Some (redisLimiter kv_redis True ''rl:'')) False 5 None
      (Some ''c2'') toy_ask (toy_recovery toy_account) = Some (s', ChallengeIssued ''c2'' (5 + recoveryChallengeTTL))" by auto
  have "ok (GetUserByUsername ''n'' (hd_users toy_account))"
    by (simp add: GetUserByUsername_def toy_account_def CreateUser_def toy_user_def)
  moreover have "re_trim toy_recovery_env x = x" "re_lower toy_recovery_env x = x" for x
    by (simp_all add: toy_recovery_env_def toy_env_def)
  ultimately show ?thesis
    using s' recovery_reveals_accounts [OF s', of 6 "\<lparr>cr_challenge = ''c2'', cr_signed_event = '''', cr_new_password = ''anything'', cr_nsec = ''''\<rparr>" 2 None]
    by (auto simp: toy_recovery_def toy_ask_def recoveryChallengeTTL_def)
qed

end
