(* ===== verification/Claim.thy ===== *)
theory Claim
  imports Redis
begin

text \<open>
  Which replica answers a request (\<open>internal/claim/claim.go\<close>): every replica receives every request,
  the first to set the request's key in Redis owns it and renews a short lease while it works, the
  others watch the key and take over if the lease runs out.

  The operations come first, one call of Redis each; then the replicas of a cluster as a step relation
  over a shared Redis, a clock and the phase of each replica.
\<close>

section \<open>The claimer\<close>

definition defaultTTL :: int where "defaultTTL = seconds 60"
definition doneValue :: string where "doneValue = ''done''"
definition defaultLeaseTTL :: int where "defaultLeaseTTL = seconds 8"
definition defaultHeartbeatIvl :: int where "defaultHeartbeatIvl = defaultLeaseTTL div 3"
definition defaultWatchPoll :: int where "defaultWatchPoll = seconds 1"
definition defaultWatchBudget :: int where "defaultWatchBudget = seconds 25"

record claimer =
  ci_ttl :: int
  ci_pod :: string
  ci_lease_ttl :: int
  ci_heartbeat_ivl :: int
  ci_watch_poll :: int
  ci_watch_budget :: int

definition NewClaimer :: "string \<Rightarrow> int \<Rightarrow> claimer" where
  "NewClaimer hostname ttl =
     \<lparr>ci_ttl = (if ttl \<le> 0 then defaultTTL else ttl), ci_pod = (if hostname = '''' then ''unknown'' else hostname),
      ci_lease_ttl = defaultLeaseTTL, ci_heartbeat_ivl = defaultHeartbeatIvl,
      ci_watch_poll = defaultWatchPoll, ci_watch_budget = defaultWatchBudget\<rparr>"

definition claimKey :: "string \<Rightarrow> string" where "claimKey eventID = ''nip46:claim:'' @ eventID"

text \<open>\<open>Claim\<close>, the form without a lease. No claimer and a Redis that does not answer grant the claim.\<close>

definition ClaimEvent :: "('r, string) redis \<Rightarrow> bool \<Rightarrow> claimer option \<Rightarrow> time \<Rightarrow> string \<Rightarrow> 'r \<Rightarrow> 'r \<times> bool" where
  "ClaimEvent R up c now eventID r =
     (case c of
        None \<Rightarrow> (r, True)
      | Some c \<Rightarrow> if \<not> up then (r, True) else redis_setnx R now (claimKey eventID) (ci_pod c) (ci_ttl c) r)"

definition tryClaim :: "('r, string) redis \<Rightarrow> bool \<Rightarrow> claimer \<Rightarrow> time \<Rightarrow> string \<Rightarrow> 'r \<Rightarrow> 'r \<times> bool option" where
  "tryClaim R up c now eventID r =
     (if \<not> up then (r, None)
      else let (r, won) = redis_setnx R now (claimKey eventID) (ci_pod c) (ci_lease_ttl c) r in (r, Some won))"

text \<open>What a call of \<open>Coordinate\<close> leads to in this replica.\<close>

datatype coordination = RunInline | RunOwned | WatchUntil time

definition Coordinate ::
    "('r, string) redis \<Rightarrow> bool \<Rightarrow> claimer option \<Rightarrow> time \<Rightarrow> string \<Rightarrow> 'r \<Rightarrow> 'r \<times> coordination" where
  "Coordinate R up c now eventID r =
     (case c of
        None \<Rightarrow> (r, RunInline)
      | Some c \<Rightarrow>
          (case tryClaim R up c now eventID r of
             (r, None) \<Rightarrow> (r, RunInline)
           | (r, Some won) \<Rightarrow> (r, if won then RunOwned else WatchUntil (now + ci_watch_budget c))))"

definition renewScript :: "('r, string) redis \<Rightarrow> time \<Rightarrow> string \<Rightarrow> string \<Rightarrow> int \<Rightarrow> 'r \<Rightarrow> 'r" where
  "renewScript R now key pod ttl r = (if redis_get R now key r = Some pod then redis_expire R now key ttl r else r)"

definition doneScript :: "('r, string) redis \<Rightarrow> time \<Rightarrow> string \<Rightarrow> string \<Rightarrow> string \<Rightarrow> int \<Rightarrow> 'r \<Rightarrow> 'r" where
  "doneScript R now key pod v ttl r = (if redis_get R now key r = Some pod then redis_set R now key v ttl r else r)"

text \<open>One beat; errors are only logged.\<close>

definition heartbeat :: "('r, string) redis \<Rightarrow> bool \<Rightarrow> claimer \<Rightarrow> time \<Rightarrow> string \<Rightarrow> 'r \<Rightarrow> 'r" where
  "heartbeat R up c now eventID r =
     (if up then renewScript R now (claimKey eventID) (ci_pod c) (milliseconds (ci_lease_ttl c)) r else r)"

definition markDone :: "('r, string) redis \<Rightarrow> bool \<Rightarrow> claimer \<Rightarrow> time \<Rightarrow> string \<Rightarrow> 'r \<Rightarrow> 'r" where
  "markDone R up c now eventID r =
     (if up then doneScript R now (claimKey eventID) (ci_pod c) doneValue (milliseconds (ci_ttl c)) r else r)"

subsection \<open>The watch loop\<close>

datatype watch_reply = NoKey | WatchErr | Held string

definition watchGet :: "('r, string) redis \<Rightarrow> bool \<Rightarrow> time \<Rightarrow> string \<Rightarrow> 'r \<Rightarrow> watch_reply" where
  "watchGet R up now eventID r =
     (if \<not> up then WatchErr
      else case redis_get R now (claimKey eventID) r of None \<Rightarrow> NoKey | Some v \<Rightarrow> Held v)"

datatype watch_outcome = TakenOver | TakeoverFailed | WatchFailed | OwnerDone | BudgetExhausted

text \<open>
  \<open>watchAndTakeOver\<close>: round \<open>i\<close> starts at \<open>clock i\<close>, sleeps, reads the key (\<open>reply i\<close>) and, when it is
  gone, tries to claim it (\<open>claim i\<close>, \<open>None\<close> for an error). The result is the outcome and the number of
  rounds; nothing in the code bounds them but the clock, so the loop is a partial function.
\<close>

partial_function (option) watchAndTakeOver ::
    "(nat \<Rightarrow> time) \<Rightarrow> (nat \<Rightarrow> watch_reply) \<Rightarrow> (nat \<Rightarrow> bool option) \<Rightarrow> time \<Rightarrow> nat \<Rightarrow> (watch_outcome \<times> nat) option" where
  "watchAndTakeOver clock reply claim deadline i =
     (if clock i < deadline then
        (case reply i of
           NoKey \<Rightarrow>
             (case claim i of
                None \<Rightarrow> Some (TakeoverFailed, i + 1)
              | Some won \<Rightarrow>
                  if won then Some (TakenOver, i + 1) else watchAndTakeOver clock reply claim deadline (i + 1))
         | WatchErr \<Rightarrow> Some (WatchFailed, i + 1)
         | Held v \<Rightarrow>
             if v = doneValue then Some (OwnerDone, i + 1)
             else watchAndTakeOver clock reply claim deadline (i + 1))
      else Some (BudgetExhausted, i))"

lemma watch_rounds:
  assumes poll: "0 < p" and clock: "\<And>i. clock i + p \<le> clock (Suc i)"
  shows "\<exists>outcome n. watchAndTakeOver clock reply claim deadline i = Some (outcome, n) \<and>
    (n = i \<or> i < n \<and> clock (n - 1) < deadline)"
proof (induction "nat (deadline - clock i)" arbitrary: i rule: less_induct)
  case less
  show ?case
  proof (cases "clock i < deadline")
    case True
    have "nat (deadline - clock (i + 1)) < nat (deadline - clock i)" using clock [of i] poll True by simp
    from less [OF this] obtain outcome n where
      n: "watchAndTakeOver clock reply claim deadline (i + 1) = Some (outcome, n)" "n = i + 1 \<or> i + 1 < n \<and> clock (n - 1) < deadline"
      by blast
    then have "n = i + 1 \<or> i < n \<and> clock (n - 1) < deadline" "i < n" by auto
    with True n(1) show ?thesis
      by (subst watchAndTakeOver.simps) (auto split: watch_reply.split option.split)
  qed (subst watchAndTakeOver.simps, simp)
qed

lemma clock_grows:
  assumes "\<And>i. clock i + p \<le> clock (Suc i)"
  shows "clock 0 + int n * p \<le> clock n"
proof (induction n)
  case (Suc n)
  then show ?case using assms [of n] by (simp add: algebra_simps)
qed simp

text \<open>
  C27. The watch of a request ends: if every round sleeps at least the poll interval, the loop returns
  whatever Redis answers, and the last of its rounds started before the budget was used up. With the
  default interval and budget it makes at most 25 rounds.
\<close>

theorem watch_terminates:
  assumes poll: "0 < ci_watch_poll c"
    and clock: "\<And>i. clock i + ci_watch_poll c \<le> clock (Suc i)"
  shows "\<exists>outcome n. watchAndTakeOver clock reply claim (clock 0 + ci_watch_budget c) 0 = Some (outcome, n) \<and>
    (0 < n \<longrightarrow> (int n - 1) * ci_watch_poll c < ci_watch_budget c) \<and>
    (c = NewClaimer hostname ttl \<longrightarrow> n \<le> 25)"
proof -
  obtain outcome n where w: "watchAndTakeOver clock reply claim (clock 0 + ci_watch_budget c) 0 = Some (outcome, n)"
    "n = 0 \<or> 0 < n \<and> clock (n - 1) < clock 0 + ci_watch_budget c"
    using watch_rounds [where clock = clock, OF poll clock] by metis
  have b: "(int n - 1) * ci_watch_poll c < ci_watch_budget c" if "0 < n"
    using clock_grows [where clock = clock and p = "ci_watch_poll c" and n = "n - 1", OF clock] w(2) that by (simp add: of_nat_diff)
  have "n \<le> 25" if "c = NewClaimer hostname ttl"
    using b that by (cases "n = 0") (simp_all add: NewClaimer_def defaultWatchPoll_def defaultWatchBudget_def)
  with w(1) b show ?thesis by blast
qed

theorem watch_terminates_witness:
  "\<exists>outcome n. watchAndTakeOver (\<lambda>i. seconds (int i)) (\<lambda>_. Held ''pod'') (\<lambda>_. None) (seconds 25) 0 = Some (outcome, n) \<and> n \<le> 25"
  using watch_terminates [of "NewClaimer ''a'' 0" "\<lambda>i. seconds (int i)" "\<lambda>_. Held ''pod''" "\<lambda>_. None" "''a''" 0]
  by (simp add: NewClaimer_def defaultWatchPoll_def defaultWatchBudget_def) blast

section \<open>A cluster of replicas\<close>

text \<open>
  One request, received by every replica. \<open>Owning b\<close> runs the request's \<open>process\<close> and last renewed its
  lease at \<open>b\<close>; \<open>Handed f a\<close> has returned from it at \<open>f\<close>: \<open>decryptAndDispatch\<close>
  (\<open>signer/signer.go\<close>) has started the goroutine that handles the request, and \<open>a\<close> says whether that
  goroutine has answered. Time passes between the steps (\<open>tick\<close>); the heartbeats are punctual, that is,
  time does not reach the end of the lease of a replica that still runs. Redis answers.
\<close>

datatype phase = Idle | Owning time | Handed time bool | Watching time | Claiming time | Stopped | Crashed

record 'r cluster =
  cs_redis :: 'r
  cs_now :: time
  cs_pod :: "string \<Rightarrow> phase"
  cs_answers :: nat

definition set_pod :: "string \<Rightarrow> phase \<Rightarrow> 'r cluster \<Rightarrow> 'r cluster" where
  "set_pod p ph s = s\<lparr>cs_pod := (cs_pod s)(p := ph)\<rparr>"

lemma set_pod_simps [simp]:
  "cs_pod (set_pod p ph s) = (cs_pod s)(p := ph)" "cs_redis (set_pod p ph s) = cs_redis s"
  "cs_now (set_pod p ph s) = cs_now s" "cs_answers (set_pod p ph s) = cs_answers s"
  by (simp_all add: set_pod_def)

inductive cluster_step :: "('r, string) redis \<Rightarrow> int \<Rightarrow> string \<Rightarrow> 'r cluster \<Rightarrow> 'r cluster \<Rightarrow> bool"
  for R ttl ev where
  tick: "0 \<le> d \<Longrightarrow> \<forall>p b. cs_pod s p = Owning b \<longrightarrow> cs_now s + d < b + defaultLeaseTTL \<Longrightarrow>
    cluster_step R ttl ev s (s\<lparr>cs_now := cs_now s + d\<rparr>)"
| deliver: "cs_pod s p = Idle \<Longrightarrow> p \<noteq> '''' \<Longrightarrow> p \<noteq> doneValue \<Longrightarrow>
    Coordinate R True (Some (NewClaimer p ttl)) (cs_now s) ev (cs_redis s) = (r, co) \<Longrightarrow>
    cluster_step R ttl ev s (set_pod p (case co of WatchUntil d \<Rightarrow> Watching d | _ \<Rightarrow> Owning (cs_now s)) (s\<lparr>cs_redis := r\<rparr>))"
| beat: "cs_pod s p = Owning b \<Longrightarrow>
    cluster_step R ttl ev s (set_pod p (Owning (cs_now s))
      (s\<lparr>cs_redis := heartbeat R True (NewClaimer p ttl) (cs_now s) ev (cs_redis s)\<rparr>))"
| hand: "cs_pod s p = Owning b \<Longrightarrow>
    cluster_step R ttl ev s (set_pod p (Handed (cs_now s) False)
      (s\<lparr>cs_redis := markDone R True (NewClaimer p ttl) (cs_now s) ev (cs_redis s)\<rparr>))"
| answer: "cs_pod s p = Handed f False \<Longrightarrow>
    cluster_step R ttl ev s (set_pod p (Handed f True) (s\<lparr>cs_answers := cs_answers s + 1\<rparr>))"
| poll: "cs_pod s p = Watching d \<Longrightarrow> cs_now s < d \<Longrightarrow>
    cluster_step R ttl ev s (set_pod p (case watchGet R True (cs_now s) ev (cs_redis s) of
      NoKey \<Rightarrow> Claiming d | WatchErr \<Rightarrow> Stopped | Held v \<Rightarrow> if v = doneValue then Stopped else Watching d) s)"
| reclaim: "cs_pod s p = Claiming d \<Longrightarrow> tryClaim R True (NewClaimer p ttl) (cs_now s) ev (cs_redis s) = (r, won) \<Longrightarrow>
    cluster_step R ttl ev s (set_pod p (case won of None \<Rightarrow> Stopped | Some w \<Rightarrow> if w then Owning (cs_now s) else Watching d)
      (s\<lparr>cs_redis := r\<rparr>))"
| give_up: "cs_pod s p = Watching d \<Longrightarrow> d \<le> cs_now s \<Longrightarrow> cluster_step R ttl ev s (set_pod p Stopped s)"
| crash: "cluster_step R ttl ev s (set_pod p Crashed s)"

definition fresh_cluster :: "('r, string) redis \<Rightarrow> string \<Rightarrow> 'r cluster \<Rightarrow> bool" where
  "fresh_cluster R ev s \<longleftrightarrow> cs_pod s = (\<lambda>_. Idle) \<and> cs_answers s = 0 \<and> rd_view R (cs_redis s) (cs_now s) (claimKey ev) = None"

subsection \<open>Invariants\<close>

text \<open>How long a request stays marked done.\<close>

definition done_ttl :: "int \<Rightarrow> int" where
  "done_ttl ttl = milliseconds (if ttl \<le> 0 then defaultTTL else ttl)"

abbreviation claim_view :: "('r, string) redis \<Rightarrow> string \<Rightarrow> 'r cluster \<Rightarrow> (string \<times> time option) option" where
  "claim_view R ev s \<equiv> rd_view R (cs_redis s) (cs_now s) (claimKey ev)"

definition cluster_ok :: "('r, string) redis \<Rightarrow> int \<Rightarrow> string \<Rightarrow> 'r cluster \<Rightarrow> bool" where
  "cluster_ok R ttl ev s \<longleftrightarrow>
     (\<forall>p b. cs_pod s p = Owning b \<longrightarrow> p \<noteq> '''' \<and> p \<noteq> doneValue \<and> b \<le> cs_now s \<and> cs_now s < b + defaultLeaseTTL \<and>
        claim_view R ev s = Some (p, Some (b + defaultLeaseTTL))) \<and>
     (\<forall>p d. cs_pod s p = Watching d \<or> cs_pod s p = Claiming d \<longrightarrow> p \<noteq> '''' \<and> p \<noteq> doneValue) \<and>
     (\<forall>p f a. cs_pod s p = Handed f a \<longrightarrow> f \<le> cs_now s \<and>
        (cs_now s < f + done_ttl ttl \<longrightarrow> claim_view R ev s = Some (doneValue, Some (f + done_ttl ttl)))) \<and>
     (\<forall>p q f g a b. cs_pod s p = Handed f a \<and> cs_pod s q = Handed g b \<and> p \<noteq> q \<longrightarrow>
        f + done_ttl ttl \<le> g \<or> g + done_ttl ttl \<le> f)"

lemma cluster_okD:
  assumes "cluster_ok R ttl ev s"
  shows "cs_pod s p = Owning b \<Longrightarrow> p \<noteq> '''' \<and> p \<noteq> doneValue \<and> b \<le> cs_now s \<and> cs_now s < b + defaultLeaseTTL \<and>
        claim_view R ev s = Some (p, Some (b + defaultLeaseTTL))"
    "cs_pod s p = Watching d \<or> cs_pod s p = Claiming d \<Longrightarrow> p \<noteq> '''' \<and> p \<noteq> doneValue"
    "cs_pod s p = Handed f a \<Longrightarrow> f \<le> cs_now s"
    "cs_pod s p = Handed f a \<Longrightarrow> cs_now s < f + done_ttl ttl \<Longrightarrow> claim_view R ev s = Some (doneValue, Some (f + done_ttl ttl))"
    "cs_pod s p = Handed f a \<Longrightarrow> cs_pod s q = Handed g a' \<Longrightarrow> p \<noteq> q \<Longrightarrow> f + done_ttl ttl \<le> g \<or> g + done_ttl ttl \<le> f"
  using assms unfolding cluster_ok_def by blast+

text \<open>What the calls do to the key, seen at the time of the call.\<close>

lemma setnx_view:
  assumes "redis_laws R" "redis_setnx R now k v ttl r = (r', won)" "0 < ttl"
  shows "won \<longleftrightarrow> rd_view R r now k = None" "\<not> won \<Longrightarrow> r' = r"
    "won \<Longrightarrow> rd_view R r' now k = Some (v, Some (now + ttl))"
  using assms by (auto simp: redis_setnx_def redis_set_def redis_put split: option.splits)

lemma NewClaimer_simps [simp]:
  "p \<noteq> '''' \<Longrightarrow> ci_pod (NewClaimer p ttl) = p" "ci_lease_ttl (NewClaimer p ttl) = defaultLeaseTTL"
  "milliseconds (ci_ttl (NewClaimer p ttl)) = done_ttl ttl" "milliseconds defaultLeaseTTL = defaultLeaseTTL"
  "0 < defaultLeaseTTL" "\<not> defaultLeaseTTL \<le> 0"
  by (simp_all add: NewClaimer_def done_ttl_def defaultLeaseTTL_def milliseconds_def)

lemma owner_view:
  assumes R: "redis_laws R" and v: "rd_view R r now (claimKey ev) = Some (p, e)" and p: "p \<noteq> ''''"
  shows "rd_view R (heartbeat R True (NewClaimer p ttl) now ev r) now (claimKey ev) = Some (p, Some (now + defaultLeaseTTL))"
    "rd_view R (markDone R True (NewClaimer p ttl) now ev r) now (claimKey ev) =
       (if 0 < done_ttl ttl then Some (doneValue, Some (now + done_ttl ttl)) else None)"
  using v p by (auto simp: heartbeat_def renewScript_def markDone_def doneScript_def redis_get_def redis_expire_def
      redis_set_def redis_put [OF R])

lemma view_later:
  assumes "redis_laws R" "0 \<le> d" "claim_view R ev s = Some (v, Some e)" "cs_now s + d < e"
  shows "rd_view R (cs_redis s) (cs_now s + d) (claimKey ev) = Some (v, Some e)"
  using redis_later [OF assms(1), of "cs_now s" "cs_now s + d" "cs_redis s" "claimKey ev"] assms by simp

lemma cluster_okI:
  assumes "\<And>p b. cs_pod s p = Owning b \<Longrightarrow> p \<noteq> '''' \<and> p \<noteq> doneValue \<and> b \<le> cs_now s \<and> cs_now s < b + defaultLeaseTTL \<and>
        claim_view R ev s = Some (p, Some (b + defaultLeaseTTL))"
    "\<And>p d. cs_pod s p = Watching d \<or> cs_pod s p = Claiming d \<Longrightarrow> p \<noteq> '''' \<and> p \<noteq> doneValue"
    "\<And>p f a. cs_pod s p = Handed f a \<Longrightarrow> f \<le> cs_now s"
    "\<And>p f a. cs_pod s p = Handed f a \<Longrightarrow> cs_now s < f + done_ttl ttl \<Longrightarrow>
      claim_view R ev s = Some (doneValue, Some (f + done_ttl ttl))"
    "\<And>p q f g a a'. cs_pod s p = Handed f a \<Longrightarrow> cs_pod s q = Handed g a' \<Longrightarrow> p \<noteq> q \<Longrightarrow>
      f + done_ttl ttl \<le> g \<or> g + done_ttl ttl \<le> f"
  shows "cluster_ok R ttl ev s"
  unfolding cluster_ok_def using assms by blast

lemma ok_claimed:
  assumes R: "redis_laws R" and ok: "cluster_ok R ttl ev s" and p: "p \<noteq> ''''" "p \<noteq> doneValue"
    and r: "redis_setnx R (cs_now s) (claimKey ev) p defaultLeaseTTL (cs_redis s) = (r, won)"
    and q: "cs_pod s p = Idle \<or> cs_pod s p = Claiming d"
  shows "cluster_ok R ttl ev (set_pod p (if won then Owning (cs_now s) else Watching d') (s\<lparr>cs_redis := r\<rparr>))"
proof (cases won)
  case True
  note v = setnx_view [OF R r NewClaimer_simps(5)] and D = cluster_okD [OF ok]
  have n: "claim_view R ev s = None" using v(1) True by simp
  have no: "cs_pod s q \<noteq> Owning b" for q b using D(1) [of q b] n by auto
  have old: "f + done_ttl ttl \<le> cs_now s" if "cs_pod s q = Handed f a" for q f a
    using D(4) [OF that] n by (cases "cs_now s < f + done_ttl ttl") auto
  let ?s = "set_pod p (Owning (cs_now s)) (s\<lparr>cs_redis := r\<rparr>)"
  have h: "q \<noteq> p \<and> cs_pod s q = Handed f a" if "cs_pod ?s q = Handed f a" for q f a
    using that by (auto split: if_splits)
  have "cluster_ok R ttl ev ?s"
  proof (rule cluster_okI)
    show "f \<le> cs_now ?s" if "cs_pod ?s q = Handed f a" for q f a using D(3) [of q f a] h [OF that] by simp
    show "claim_view R ev ?s = Some (doneValue, Some (f + done_ttl ttl))"
      if "cs_pod ?s q = Handed f a" "cs_now ?s < f + done_ttl ttl" for q f a
      using old [of q f a] h [OF that(1)] that(2) by simp
    show "f + done_ttl ttl \<le> g \<or> g + done_ttl ttl \<le> f"
      if "cs_pod ?s q = Handed f a" "cs_pod ?s q' = Handed g a'" "q \<noteq> q'" for q q' f g a a'
      using D(5) h [OF that(1)] h [OF that(2)] that(3) by blast
    show "q \<noteq> '''' \<and> q \<noteq> doneValue" if "cs_pod ?s q = Watching e \<or> cs_pod ?s q = Claiming e" for q e
      using that D(2) [of q e] by (auto split: if_splits)
  qed (use v(3) True p no in \<open>auto split: if_splits\<close>)
  then show ?thesis using True by simp
next
  case False
  then show ?thesis using ok setnx_view(2) [OF R r] p q unfolding cluster_ok_def by (auto split: if_splits)
qed

lemma ok_phase:
  assumes "cluster_ok R ttl ev s"
    and "ph = Stopped \<or> ph = Crashed \<or> (\<exists>d. ph = Watching d \<and> p \<noteq> '''' \<and> p \<noteq> doneValue) \<or>
      (\<exists>d. ph = Claiming d \<and> p \<noteq> '''' \<and> p \<noteq> doneValue) \<or> (\<exists>f a a'. ph = Handed f a \<and> cs_pod s p = Handed f a')"
  shows "cluster_ok R ttl ev (set_pod p ph s)"
proof -
  note D = cluster_okD [OF assms(1)]
  let ?s = "set_pod p ph s"
  have h: "\<exists>a'. cs_pod s q = Handed f a'" if "cs_pod ?s q = Handed f a" for q f a
    using that assms(2) by (auto split: if_splits)
  show ?thesis
  proof (rule cluster_okI)
    show "f \<le> cs_now ?s" if "cs_pod ?s q = Handed f a" for q f a using D(3) h [OF that] by auto
    show "claim_view R ev ?s = Some (doneValue, Some (f + done_ttl ttl))"
      if "cs_pod ?s q = Handed f a" "cs_now ?s < f + done_ttl ttl" for q f a
      using D(4) h [OF that(1)] that(2) by auto
    show "f + done_ttl ttl \<le> g \<or> g + done_ttl ttl \<le> f"
      if "cs_pod ?s q = Handed f a" "cs_pod ?s q' = Handed g a'" "q \<noteq> q'" for q q' f g a a'
      using h [OF that(1)] h [OF that(2)] that(3) D(5) by blast
    show "q \<noteq> '''' \<and> q \<noteq> doneValue" if "cs_pod ?s q = Watching e \<or> cs_pod ?s q = Claiming e" for q e
      using that D(2) [of q e] assms(2) by (auto split: if_splits)
    show "q \<noteq> '''' \<and> q \<noteq> doneValue \<and> b \<le> cs_now ?s \<and> cs_now ?s < b + defaultLeaseTTL \<and>
        claim_view R ev ?s = Some (q, Some (b + defaultLeaseTTL))" if "cs_pod ?s q = Owning b" for q b
      using that D(1) [of q b] assms(2) by (auto split: if_splits)
  qed
qed

lemma ok_tick:
  assumes R: "redis_laws R" and ok: "cluster_ok R ttl ev s" and d: "0 \<le> d"
    and t: "\<forall>p b. cs_pod s p = Owning b \<longrightarrow> cs_now s + d < b + defaultLeaseTTL"
  shows "cluster_ok R ttl ev (s\<lparr>cs_now := cs_now s + d\<rparr>)"
proof -
  note D = cluster_okD [OF ok]
  have "rd_view R (cs_redis s) (cs_now s + d) (claimKey ev) = Some (p, Some (b + defaultLeaseTTL))"
    if "cs_pod s p = Owning b" for p b
    using view_later [OF R d] D(1) [OF that] t that by blast
  moreover have "rd_view R (cs_redis s) (cs_now s + d) (claimKey ev) = Some (doneValue, Some (f + done_ttl ttl))"
    if "cs_pod s p = Handed f a" "cs_now s + d < f + done_ttl ttl" for p f a
    using view_later [OF R d D(4) [OF that(1)]] that d by simp
  ultimately show ?thesis
    using ok d t unfolding cluster_ok_def by fastforce
qed

lemma ok_owner:
  assumes R: "redis_laws R" and ok: "cluster_ok R ttl ev s" and p: "cs_pod s p = Owning b"
  shows "cluster_ok R ttl ev (set_pod p (Owning (cs_now s))
      (s\<lparr>cs_redis := heartbeat R True (NewClaimer p ttl) (cs_now s) ev (cs_redis s)\<rparr>))"
    "cluster_ok R ttl ev (set_pod p (Handed (cs_now s) False)
      (s\<lparr>cs_redis := markDone R True (NewClaimer p ttl) (cs_now s) ev (cs_redis s)\<rparr>))"
proof -
  note D = cluster_okD [OF ok]
  have v: "claim_view R ev s = Some (p, Some (b + defaultLeaseTTL))" and n: "p \<noteq> ''''" "p \<noteq> doneValue"
    using D(1) [OF p] by auto
  have sole: "q = p" if "cs_pod s q = Owning b'" for q b' using D(1) [OF that] v by simp
  have old: "f + done_ttl ttl \<le> cs_now s" if "cs_pod s q = Handed f a" for q f a
    using D(4) [OF that] v n by (cases "cs_now s < f + done_ttl ttl") auto
  let ?s = "set_pod p (Owning (cs_now s))
      (s\<lparr>cs_redis := heartbeat R True (NewClaimer p ttl) (cs_now s) ev (cs_redis s)\<rparr>)"
  show "cluster_ok R ttl ev ?s"
  proof (rule cluster_okI)
    have h: "q \<noteq> p \<and> cs_pod s q = Handed f a" if "cs_pod ?s q = Handed f a" for q f a
      using that by (auto split: if_splits)
    show "f \<le> cs_now ?s" if "cs_pod ?s q = Handed f a" for q f a using D(3) [of q f a] h [OF that] by simp
    show "claim_view R ev ?s = Some (doneValue, Some (f + done_ttl ttl))"
      if "cs_pod ?s q = Handed f a" "cs_now ?s < f + done_ttl ttl" for q f a
      using old [of q f a] h [OF that(1)] that(2) by simp
    show "f + done_ttl ttl \<le> g \<or> g + done_ttl ttl \<le> f"
      if "cs_pod ?s q = Handed f a" "cs_pod ?s q' = Handed g a'" "q \<noteq> q'" for q q' f g a a'
      using D(5) h [OF that(1)] h [OF that(2)] that(3) by blast
    show "q \<noteq> '''' \<and> q \<noteq> doneValue" if "cs_pod ?s q = Watching e \<or> cs_pod ?s q = Claiming e" for q e
      using that D(2) [of q e] by (auto split: if_splits)
  qed (use owner_view(1) [OF R v n(1)] n sole in \<open>auto split: if_splits\<close>)
  let ?t = "set_pod p (Handed (cs_now s) False)
      (s\<lparr>cs_redis := markDone R True (NewClaimer p ttl) (cs_now s) ev (cs_redis s)\<rparr>)"
  have h: "q = p \<and> f = cs_now s \<or> q \<noteq> p \<and> cs_pod s q = Handed f a" if "cs_pod ?t q = Handed f a" for q f a
    using that by (auto split: if_splits)
  show "cluster_ok R ttl ev ?t"
  proof (rule cluster_okI)
    show "f \<le> cs_now ?t" if "cs_pod ?t q = Handed f a" for q f a using D(3) [of q f a] h [OF that] by auto
    show "claim_view R ev ?t = Some (doneValue, Some (f + done_ttl ttl))"
      if "cs_pod ?t q = Handed f a" "cs_now ?t < f + done_ttl ttl" for q f a
      using old [of q f a] h [OF that(1)] that(2) owner_view(2) [OF R v n(1), of ttl] by auto
    show "f + done_ttl ttl \<le> g \<or> g + done_ttl ttl \<le> f"
      if "cs_pod ?t q = Handed f a" "cs_pod ?t q' = Handed g a'" "q \<noteq> q'" for q q' f g a a'
      using h [OF that(1)] h [OF that(2)] that(3) old D(5) by metis
    show "q \<noteq> '''' \<and> q \<noteq> doneValue" if "cs_pod ?t q = Watching e \<or> cs_pod ?t q = Claiming e" for q e
      using that D(2) [of q e] by (auto split: if_splits)
    show "q \<noteq> '''' \<and> q \<noteq> doneValue \<and> b' \<le> cs_now ?t \<and> cs_now ?t < b' + defaultLeaseTTL \<and>
        claim_view R ev ?t = Some (q, Some (b' + defaultLeaseTTL))" if "cs_pod ?t q = Owning b'" for q b'
      using that sole [of q b'] by (auto split: if_splits)
  qed
qed

lemma ok_step: "cluster_step R ttl ev s s' \<Longrightarrow> redis_laws R \<Longrightarrow> cluster_ok R ttl ev s \<Longrightarrow> cluster_ok R ttl ev s'"
proof (induction rule: cluster_step.induct)
  case (tick d s)
  then show ?case by (intro ok_tick)
next
  case (deliver s p r co)
  obtain r' won where x: "redis_setnx R (cs_now s) (claimKey ev) p defaultLeaseTTL (cs_redis s) = (r', won)" by force
  then have "r = r'" "co = (if won then RunOwned else WatchUntil (cs_now s + ci_watch_budget (NewClaimer p ttl)))"
    using deliver by (auto simp: Coordinate_def tryClaim_def)
  then show ?case
    using ok_claimed [OF deliver(5,6,2,3) x, of _ "cs_now s + ci_watch_budget (NewClaimer p ttl)"] deliver(1) by (cases won) auto
next
  case (beat s p b)
  then show ?case by (intro ok_owner(1))
next
  case (hand s p b)
  then show ?case by (intro ok_owner(2))
next
  case (answer s p f)
  have "cluster_ok R ttl ev (s\<lparr>cs_answers := cs_answers s + 1\<rparr>)"
    using answer(3) by (simp add: cluster_ok_def)
  then show ?case using answer(1) by (intro ok_phase) auto
next
  case (poll s p d)
  have "p \<noteq> '''' \<and> p \<noteq> doneValue" using cluster_okD(2) [OF poll(4)] poll(1) by blast
  then show ?case using poll(4) by (intro ok_phase) (auto split: watch_reply.split)
next
  case (reclaim s p d r won)
  have p: "p \<noteq> ''''" "p \<noteq> doneValue" using cluster_okD(2) [OF reclaim(4)] reclaim(1) by blast+
  obtain w where w: "redis_setnx R (cs_now s) (claimKey ev) p defaultLeaseTTL (cs_redis s) = (r, w)" "won = Some w"
    using reclaim(2) p by (auto simp: tryClaim_def split: prod.splits)
  then show ?case using ok_claimed [OF reclaim(3,4) p w(1), of d d] reclaim(1) by (cases w) auto
next
  case (give_up s p d)
  then show ?case by (intro ok_phase) auto
next
  case (crash s p)
  then show ?case by (intro ok_phase) auto
qed

lemma ok_fresh: "fresh_cluster R ev s \<Longrightarrow> cluster_ok R ttl ev s"
  by (simp add: fresh_cluster_def cluster_ok_def)

lemma ok_reachable:
  assumes "redis_laws R" "fresh_cluster R ev s0" "(cluster_step R ttl ev)\<^sup>*\<^sup>* s0 s"
  shows "cluster_ok R ttl ev s"
  using assms(3)
  by (induction rule: rtranclp_induct) (auto intro: ok_step [OF _ assms(1)] ok_fresh [OF assms(2)])


text \<open>The run of the witnesses: \<open>a\<close> owns a request, \<open>b\<close> watches it.\<close>

definition toy_cluster :: "(string \<rightharpoonup> string \<times> time option) cluster" where
  "toy_cluster = \<lparr>cs_redis = Map.empty, cs_now = 0, cs_pod = (\<lambda>_. Idle), cs_answers = 0\<rparr>"

definition toy_owned :: "(string \<rightharpoonup> string \<times> time option) cluster" where
  "toy_owned = \<lparr>cs_redis = [claimKey ''e'' \<mapsto> (''a'', Some defaultLeaseTTL)], cs_now = 0,
     cs_pod = (\<lambda>_. Idle)(''a'' := Owning 0, ''b'' := Watching defaultWatchBudget), cs_answers = 0\<rparr>"

lemma toy_owned_reachable:
  "fresh_cluster kv_redis ''e'' toy_cluster" "(cluster_step kv_redis ttl ''e'')\<^sup>*\<^sup>* toy_cluster toy_owned"
proof -
  show "fresh_cluster kv_redis ''e'' toy_cluster" by (simp add: fresh_cluster_def toy_cluster_def)
  let ?s1 = "set_pod ''a'' (Owning 0) (toy_cluster\<lparr>cs_redis := [claimKey ''e'' \<mapsto> (''a'', Some defaultLeaseTTL)]\<rparr>)"
  have a: "Coordinate kv_redis True (Some (NewClaimer ''a'' ttl)) (cs_now toy_cluster) ''e'' (cs_redis toy_cluster) =
      ([claimKey ''e'' \<mapsto> (''a'', Some defaultLeaseTTL)], RunOwned)"
    by (simp add: Coordinate_def tryClaim_def redis_setnx_def redis_set_def toy_cluster_def)
  have "cluster_step kv_redis ttl ''e'' toy_cluster ?s1"
    using deliver [where R = kv_redis and ttl = ttl and ev = "''e''" and s = toy_cluster and p = "''a''", OF _ _ _ a]
    by (simp add: toy_cluster_def doneValue_def)
  moreover have b: "Coordinate kv_redis True (Some (NewClaimer ''b'' ttl)) (cs_now ?s1) ''e'' (cs_redis ?s1) =
      (cs_redis ?s1, WatchUntil defaultWatchBudget)"
    by (simp add: Coordinate_def tryClaim_def redis_setnx_def toy_cluster_def)
       (simp add: NewClaimer_def)
  have "cluster_step kv_redis ttl ''e'' ?s1 toy_owned"
    using deliver [where R = kv_redis and ttl = ttl and ev = "''e''" and s = "?s1" and p = "''b''", OF _ _ _ b]
    by (simp add: toy_cluster_def toy_owned_def doneValue_def set_pod_def)
  ultimately show "(cluster_step kv_redis ttl ''e'')\<^sup>*\<^sup>* toy_cluster toy_owned" by simp
qed


subsection \<open>Takeover\<close>

definition lease_short :: "('r, string) redis \<Rightarrow> string \<Rightarrow> 'r cluster \<Rightarrow> bool" where
  "lease_short R ev s \<longleftrightarrow> (\<forall>v e. claim_view R ev s = Some (v, e) \<and> v \<noteq> doneValue \<longrightarrow>
     (\<exists>e'. e = Some e' \<and> e' \<le> cs_now s + defaultLeaseTTL))"

lemma lease_short_setnx:
  assumes "redis_laws R" "lease_short R ev s"
    and "redis_setnx R (cs_now s) (claimKey ev) p defaultLeaseTTL (cs_redis s) = (r, won)"
  shows "lease_short R ev (set_pod q ph (s\<lparr>cs_redis := r\<rparr>))"
  using setnx_view [OF assms(1,3) NewClaimer_simps(5)] assms(2) by (cases won) (auto simp: lease_short_def)

lemma lease_short_step:
  "cluster_step R ttl ev s s' \<Longrightarrow> redis_laws R \<Longrightarrow> cluster_ok R ttl ev s \<Longrightarrow> lease_short R ev s \<Longrightarrow> lease_short R ev s'"
proof (induction rule: cluster_step.induct)
  case (tick d s)
  have "claim_view R ev s = Some (v, e)" if "rd_view R (cs_redis s) (cs_now s + d) (claimKey ev) = Some (v, e)" for v e
    using that redis_later [OF tick(3), of "cs_now s" "cs_now s + d"] tick(1) unexpired_Some by fastforce
  with tick(1,5) show ?case by (fastforce simp: lease_short_def)
next
  case (deliver s p r co)
  have "fst (redis_setnx R (cs_now s) (claimKey ev) p defaultLeaseTTL (cs_redis s)) = r"
    using deliver(2,4) by (auto simp: Coordinate_def tryClaim_def split: prod.splits)
  then show ?case using lease_short_setnx [OF deliver(5,7)] by (metis prod.collapse)
next
  case (beat s p b)
  have "claim_view R ev s = Some (p, Some (b + defaultLeaseTTL))" "p \<noteq> ''''" using cluster_okD(1) [OF beat(3,1)] by auto
  then show ?case using owner_view(1) [OF beat(2)] by (simp add: lease_short_def)
next
  case (hand s p b)
  have "claim_view R ev s = Some (p, Some (b + defaultLeaseTTL))" "p \<noteq> ''''" using cluster_okD(1) [OF hand(3,1)] by auto
  then show ?case using owner_view(2) [OF hand(2), of "cs_redis s" "cs_now s" ev p _ ttl] by (simp add: lease_short_def)
next
  case (reclaim s p d r won)
  have "p \<noteq> ''''" using cluster_okD(2) [OF reclaim(4)] reclaim(1) by blast
  then have "fst (redis_setnx R (cs_now s) (claimKey ev) p defaultLeaseTTL (cs_redis s)) = r"
    using reclaim(2) by (auto simp: tryClaim_def split: prod.splits)
  then show ?case using lease_short_setnx [OF reclaim(3,5)] by (metis prod.collapse)
qed (simp_all add: lease_short_def)

lemma lease_bounded:
  assumes "redis_laws R" "fresh_cluster R ev s0" "(cluster_step R ttl ev)\<^sup>*\<^sup>* s0 s"
  shows "lease_short R ev s"
  using assms(3)
proof (induction rule: rtranclp_induct)
  case base
  then show ?case using assms(2) by (simp add: lease_short_def fresh_cluster_def)
next
  case (step s s')
  then show ?case using lease_short_step ok_reachable [OF assms(1,2) step(1)] assms(1) by blast
qed

text \<open>
  C29. A request whose owner crashed while it ran is taken over: once no replica runs it and it was not
  marked done, any replica that still watches it and waits out one lease finds the key gone and wins
  the claim.
\<close>

theorem crashed_owner_replaced:
  assumes "redis_laws R" "fresh_cluster R ev s0" "(cluster_step R ttl ev)\<^sup>*\<^sup>* s0 s"
    and idle: "\<forall>q b. cs_pod s q \<noteq> Owning b" "redis_get R (cs_now s) (claimKey ev) (cs_redis s) \<noteq> Some doneValue"
    and p: "cs_pod s p = Watching d" "cs_now s + defaultLeaseTTL < d"
  shows "\<exists>s'. (cluster_step R ttl ev)\<^sup>*\<^sup>* s s' \<and> cs_now s' = cs_now s + defaultLeaseTTL \<and>
    cs_pod s' = (cs_pod s)(p := Owning (cs_now s'))"
proof -
  define t where "t = cs_now s + defaultLeaseTTL"
  let ?s1 = "s\<lparr>cs_now := t\<rparr>"
  have p': "p \<noteq> ''''" using cluster_okD(2) [OF ok_reachable [OF assms(1-3)]] p(1) by blast
  have le: "cs_now s \<le> t" by (simp add: t_def defaultLeaseTTL_def)
  have gone: "rd_view R (cs_redis s) t (claimKey ev) = None"
  proof (cases "claim_view R ev s")
    case (Some x)
    then obtain v e where x: "claim_view R ev s = Some (v, e)" by (cases x) auto
    with idle(2) obtain e' where "e = Some e'" "e' \<le> t"
      using lease_bounded [OF assms(1-3)] by (auto simp: lease_short_def redis_get_def t_def)
    then show ?thesis using redis_later [OF assms(1) le, of "cs_redis s" "claimKey ev"] x by simp
  qed (use redis_later [OF assms(1) le, of "cs_redis s" "claimKey ev"] in simp)
  have 1: "cluster_step R ttl ev s ?s1"
    using tick [where d = defaultLeaseTTL and s = s] idle(1) le by (simp add: t_def)
  have 2: "cluster_step R ttl ev ?s1 (set_pod p (Claiming d) ?s1)"
    using poll [where s = ?s1 and p = p and d = d and R = R and ttl = ttl and ev = ev] p gone
    by (simp add: watchGet_def redis_get_def t_def)
  obtain r where r: "tryClaim R True (NewClaimer p ttl) t ev (cs_redis s) = (r, Some True)"
    using gone by (simp add: tryClaim_def redis_setnx_def)
  let ?s2 = "set_pod p (Claiming d) ?s1"
  have 3: "cluster_step R ttl ev ?s2 (set_pod p (Owning t) (?s2\<lparr>cs_redis := r\<rparr>))"
    using reclaim [where s = ?s2 and p = p and d = d and R = R and ttl = ttl and ev = ev and r = r and won = "Some True"] r by simp
  have "(cluster_step R ttl ev)\<^sup>*\<^sup>* s (set_pod p (Owning t) (?s2\<lparr>cs_redis := r\<rparr>))"
    using 1 2 3 by (meson rtranclp.rtrancl_into_rtrancl rtranclp.rtrancl_refl)
  then show ?thesis
    by (intro exI [of _ "set_pod p (Owning t) (?s2\<lparr>cs_redis := r\<rparr>)"]) (simp add: t_def)
qed

theorem crashed_owner_replaced_witness:
  "\<exists>s'. (cluster_step kv_redis 60 ''e'')\<^sup>*\<^sup>* (set_pod ''a'' Crashed toy_owned) s' \<and>
     cs_pod s' ''b'' = Owning defaultLeaseTTL"
proof -
  have "(cluster_step kv_redis 60 ''e'')\<^sup>*\<^sup>* toy_cluster (set_pod ''a'' Crashed toy_owned)"
    using toy_owned_reachable(2) crash [of kv_redis 60 "''e''" toy_owned "''a''"] by (rule rtranclp.rtrancl_into_rtrancl)
  note * = crashed_owner_replaced [OF kv_redis_laws toy_owned_reachable(1) this, of "''b''" defaultWatchBudget]
  have "\<forall>q b. cs_pod (set_pod ''a'' Crashed toy_owned) q \<noteq> Owning b"
    "redis_get kv_redis (cs_now (set_pod ''a'' Crashed toy_owned)) (claimKey ''e'') (cs_redis (set_pod ''a'' Crashed toy_owned)) \<noteq> Some doneValue"
    "cs_pod (set_pod ''a'' Crashed toy_owned) ''b'' = Watching defaultWatchBudget"
    "cs_now (set_pod ''a'' Crashed toy_owned) + defaultLeaseTTL < defaultWatchBudget"
    by (auto simp: toy_owned_def redis_get_def doneValue_def defaultLeaseTTL_def defaultWatchBudget_def)
  from * [OF this] obtain s' where "(cluster_step kv_redis 60 ''e'')\<^sup>*\<^sup>* (set_pod ''a'' Crashed toy_owned) s'"
    "cs_now s' = defaultLeaseTTL" "cs_pod s' = (cs_pod (set_pod ''a'' Crashed toy_owned))(''b'' := Owning (cs_now s'))"
    by (auto simp: toy_owned_def)
  then show ?thesis by auto
qed

subsection \<open>After the hand-over\<close>

text \<open>Marked done at \<open>f\<close>, with nobody running the request and nobody still to answer it.\<close>

definition marked_done :: "('r, string) redis \<Rightarrow> int \<Rightarrow> string \<Rightarrow> time \<Rightarrow> nat \<Rightarrow> 'r cluster \<Rightarrow> bool" where
  "marked_done R ttl ev f n s \<longleftrightarrow>
     claim_view R ev s = Some (doneValue, Some (f + done_ttl ttl)) \<and> cs_answers s = n \<and>
     (\<forall>q. (\<forall>b. cs_pod s q \<noteq> Owning b) \<and> (\<forall>g. cs_pod s q \<noteq> Handed g False))"

lemma marked_setnx:
  assumes "marked_done R ttl ev f n s" "redis_setnx R (cs_now s) (claimKey ev) p lease (cs_redis s) = (r, won)"
  shows "\<not> won \<and> r = cs_redis s"
  using assms by (simp add: marked_done_def redis_setnx_def)

lemma marked_done_step:
  "cluster_step R ttl ev s s' \<Longrightarrow> redis_laws R \<Longrightarrow> cs_now s' < f + done_ttl ttl \<Longrightarrow> marked_done R ttl ev f n s \<Longrightarrow>
   marked_done R ttl ev f n s'"
proof (induction rule: cluster_step.induct)
  case (tick d s)
  then show ?case using view_later [OF tick(3,1), where ev = ev and s = s and v = doneValue and e = "f + done_ttl ttl"] by (simp add: marked_done_def)
next
  case (deliver s p r co)
  obtain r' won where x: "redis_setnx R (cs_now s) (claimKey ev) p defaultLeaseTTL (cs_redis s) = (r', won)" by force
  have "\<not> won" "r' = cs_redis s" using marked_setnx [OF deliver(7) x] by auto
  then have "r = cs_redis s" "\<exists>d. co = WatchUntil d" using deliver(2,4) x by (auto simp: Coordinate_def tryClaim_def)
  then show ?case using deliver(7) by (auto simp: marked_done_def)
next
  case (reclaim s p d r won)
  obtain r' w where x: "redis_setnx R (cs_now s) (claimKey ev) (ci_pod (NewClaimer p ttl)) defaultLeaseTTL (cs_redis s) = (r', w)" by force
  have "\<not> w" "r' = cs_redis s" using marked_setnx [OF reclaim(5) x] by auto
  then have "r = cs_redis s" "won = Some False" using reclaim(2) x by (auto simp: tryClaim_def)
  then show ?case using reclaim(5) by (auto simp: marked_done_def)
qed (auto simp: marked_done_def split: watch_reply.split)

lemma cluster_time: "cluster_step R ttl ev s s' \<Longrightarrow> cs_now s \<le> cs_now s'"
  by (induction rule: cluster_step.induct) auto

text \<open>
  C30. The failover ends where the request's handler starts: a replica that crashes after
  \<open>decryptAndDispatch\<close> has started the goroutine that waits for an approval, for co-signers or for the
  upstream signer has already marked the request done, and as long as the mark lasts no replica runs
  the request again and nobody answers it.
\<close>

theorem no_failover_after_dispatch:
  assumes "redis_laws R" "fresh_cluster R ev s0" "(cluster_step R ttl ev)\<^sup>*\<^sup>* s0 s"
    and p: "cs_pod s p = Handed f False" "\<forall>q g. cs_pod s q = Handed g False \<longrightarrow> q = p"
    and run: "(cluster_step R ttl ev)\<^sup>*\<^sup>* (set_pod p Crashed s) s'" "cs_now s' < f + done_ttl ttl"
  shows "cs_answers s' = cs_answers s \<and> (\<forall>q b. cs_pod s' q \<noteq> Owning b) \<and> (\<forall>q g. cs_pod s' q \<noteq> Handed g False)"
proof -
  note D = cluster_okD [OF ok_reachable [OF assms(1-3)]]
  have "cs_now s' < f + done_ttl ttl \<longrightarrow> marked_done R ttl ev f (cs_answers s) s'"
    using run(1)
  proof (induction rule: rtranclp_induct)
    case base
    have "cs_pod s q \<noteq> Owning b" if "cs_now s < f + done_ttl ttl" for q b
      using D(4) [OF p(1) that] D(1) [of q b] by auto
    then show ?case using D(4) [OF p(1)] p(2) by (auto simp: marked_done_def)
  next
    case (step t t')
    then show ?case using marked_done_step [OF step(2) assms(1)] cluster_time [OF step(2)] by auto
  qed
  then show ?thesis using run(2) by (simp add: marked_done_def)
qed

definition toy_handed :: "(string \<rightharpoonup> string \<times> time option) cluster" where
  "toy_handed = set_pod ''a'' (Handed 0 False) (toy_owned\<lparr>cs_redis :=
     [claimKey ''e'' \<mapsto> (doneValue, Some (milliseconds (seconds 60)))]\<rparr>)"

theorem no_failover_after_dispatch_witness:
  "cs_pod toy_handed ''a'' = Handed 0 False \<and> cs_pod toy_handed ''b'' = Watching defaultWatchBudget \<and>
   (cluster_step kv_redis (seconds 60) ''e'')\<^sup>*\<^sup>* toy_cluster toy_handed \<and>
   (\<exists>s'. (cluster_step kv_redis (seconds 60) ''e'')\<^sup>*\<^sup>* (set_pod ''a'' Crashed toy_handed) s' \<and>
      cs_pod s' ''b'' = Stopped \<and> cs_answers s' = 0 \<and> (\<forall>q b. cs_pod s' q \<noteq> Owning b))"
proof -
  have "cluster_step kv_redis (seconds 60) ''e'' toy_owned (set_pod ''a'' (Handed 0 False)
      (toy_owned\<lparr>cs_redis := markDone kv_redis True (NewClaimer ''a'' (seconds 60)) 0 ''e'' (cs_redis toy_owned)\<rparr>))"
    using hand [where s = toy_owned and p = "''a''" and b = 0 and R = kv_redis and ttl = "seconds 60" and ev = "''e''"]
    by (simp add: toy_owned_def)
  moreover have "markDone kv_redis True (NewClaimer ''a'' (seconds 60)) 0 ''e'' (cs_redis toy_owned) =
      [claimKey ''e'' \<mapsto> (doneValue, Some (milliseconds (seconds 60)))]"
    by (simp add: markDone_def doneScript_def redis_get_def redis_set_def toy_owned_def done_ttl_def)
  ultimately have r: "(cluster_step kv_redis (seconds 60) ''e'')\<^sup>*\<^sup>* toy_cluster toy_handed"
    using toy_owned_reachable(2) [of "seconds 60"] by (simp add: toy_handed_def)
  have p: "cs_pod toy_handed ''a'' = Handed 0 False" "\<forall>q g. cs_pod toy_handed q = Handed g False \<longrightarrow> q = ''a''"
    "cs_pod toy_handed ''b'' = Watching defaultWatchBudget" "cs_answers toy_handed = 0"
    by (auto simp: toy_handed_def toy_owned_def)
  note * = no_failover_after_dispatch [OF kv_redis_laws toy_owned_reachable(1) r p(1,2)]
  have "0 + done_ttl (seconds 60) = seconds 60" by (simp add: done_ttl_def milliseconds_def)
  moreover have c: "cluster_step kv_redis (seconds 60) ''e'' (set_pod ''a'' Crashed toy_handed)
      (set_pod ''b'' Stopped (set_pod ''a'' Crashed toy_handed))"
    using poll [where R = kv_redis and ttl = "seconds 60" and ev = "''e''" and s = "set_pod ''a'' Crashed toy_handed"
        and p = "''b''" and d = defaultWatchBudget]
    by (simp add: toy_handed_def toy_owned_def watchGet_def redis_get_def defaultWatchBudget_def milliseconds_def)
  moreover have "cs_now (set_pod ''b'' Stopped (set_pod ''a'' Crashed toy_handed)) < seconds 60"
    by (simp add: toy_handed_def toy_owned_def)
  ultimately have "cs_answers (set_pod ''b'' Stopped (set_pod ''a'' Crashed toy_handed)) = cs_answers toy_handed \<and>
      (\<forall>q b. cs_pod (set_pod ''b'' Stopped (set_pod ''a'' Crashed toy_handed)) q \<noteq> Owning b)"
    using * [OF r_into_rtranclp] by metis
  with p r c show ?thesis
    by (intro conjI exI [of _ "set_pod ''b'' Stopped (set_pod ''a'' Crashed toy_handed)"]) auto
qed

end
