(* ===== verification/Sql.thy ===== *)
theory Sql
  imports Prelude
begin

text \<open>
  The statements of the SQL back ends (\<open>internal/storage/postgres.go\<close>) over tables as lists of rows:
  insertion under unique constraints, update and deletion with the number of rows they report, the first
  row of a query, descending order. A statement is atomic; a constraint that fails leaves the table as it
  was. The locale \<open>keyed_table\<close> is what a primary key gives.
\<close>

definition row_of :: "('r \<Rightarrow> 'k) \<Rightarrow> 'k \<Rightarrow> 'r list \<Rightarrow> 'r option" where
  "row_of key k t = find (\<lambda>r. key r = k) t"

text \<open>\<open>clash\<close>: two rows that a unique constraint of the table does not allow together.\<close>

definition sql_insert :: "('r \<Rightarrow> 'r \<Rightarrow> bool) \<Rightarrow> 'r \<Rightarrow> 'r list \<Rightarrow> 'r list option" where
  "sql_insert clash r t = (if list_ex (clash r) t then None else Some (t @ [r]))"

definition sql_update :: "('r \<Rightarrow> bool) \<Rightarrow> ('r \<Rightarrow> 'r) \<Rightarrow> 'r list \<Rightarrow> 'r list \<times> nat" where
  "sql_update P f t = (map (\<lambda>r. if P r then f r else r) t, length (filter P t))"

definition sql_delete :: "('r \<Rightarrow> bool) \<Rightarrow> 'r list \<Rightarrow> 'r list \<times> nat" where
  "sql_delete P t = (filter (\<lambda>r. \<not> P r) t, length (filter P t))"

text \<open>The order of rows that tie is left open by SQL; the model keeps the order of insertion.\<close>

definition sql_desc :: "('r \<Rightarrow> int) \<Rightarrow> 'r list \<Rightarrow> 'r list" where
  "sql_desc f t = sort_key (\<lambda>r. - f r) t"

definition nullable_eq :: "string \<Rightarrow> string \<Rightarrow> bool" where
  \<comment> \<open>\<open>column = $n\<close> where the column holds NULL for the empty string\<close>
  "nullable_eq col v \<longleftrightarrow> col \<noteq> '''' \<and> col = v"

lemma set_sql_desc [simp]: "set (sql_desc f t) = set t"
  by (simp add: sql_desc_def)

lemma sql_counts:
  "snd (sql_update P f t) = 0 \<longleftrightarrow> (\<forall>r \<in> set t. \<not> P r)" "snd (sql_delete P t) = 0 \<longleftrightarrow> (\<forall>r \<in> set t. \<not> P r)"
  by (auto simp: sql_update_def sql_delete_def filter_empty_conv)

lemma sql_update_none: "\<forall>r \<in> set t. \<not> P r \<Longrightarrow> fst (sql_update P f t) = t"
  by (simp add: sql_update_def map_idI)

lemma set_sql_update: "set (fst (sql_update P f t)) = (\<lambda>r. if P r then f r else r) ` set t"
  by (simp add: sql_update_def)

lemma ball_sql_update: "(\<forall>r \<in> set (fst (sql_update P f t)). Q r) \<longleftrightarrow> (\<forall>r \<in> set t. if P r then Q (f r) else Q r)"
  unfolding sql_update_def by auto

lemma find_mem: "find P t = Some r \<Longrightarrow> r \<in> set t \<and> P r"
  unfolding find_Some_iff by auto

lemma map_sql_update: "(\<And>r. key (f r) = key r) \<Longrightarrow> map key (fst (sql_update P f t)) = map key t"
  by (simp add: sql_update_def comp_def if_distrib [of key] cong: if_cong)

lemma distinct_map_sql_delete: "distinct (map key t) \<Longrightarrow> distinct (map key (fst (sql_delete P t)))"
  by (simp add: sql_delete_def distinct_map_filter)

lemma distinct_map_eq: "distinct (map key t) \<Longrightarrow> x \<in> set t \<Longrightarrow> y \<in> set t \<Longrightarrow> key x = key y \<Longrightarrow> x = y"
  by (simp add: distinct_map inj_on_def)

lemma set_sql_delete [simp]: "set (fst (sql_delete P t)) = {r \<in> set t. \<not> P r}"
  by (simp add: sql_delete_def)

lemma row_of_Some: "row_of key k t = Some r \<Longrightarrow> r \<in> set t \<and> key r = k"
  by (auto simp: row_of_def find_Some_iff)

lemma row_of_None: "row_of key k t = None \<longleftrightarrow> (\<forall>r \<in> set t. key r \<noteq> k)"
  by (auto simp: row_of_def find_None_iff)

lemma row_of_Nil [simp]: "row_of key k [] = None"
  by (simp add: row_of_def)

lemma row_of_Cons [simp]: "row_of key k (r # t) = (if key r = k then Some r else row_of key k t)"
  by (simp add: row_of_def)

lemma row_of_append [simp]: "row_of key k (t @ u) = (case row_of key k t of None \<Rightarrow> row_of key k u | Some r \<Rightarrow> Some r)"
  by (induction t) auto

lemma row_of_map:
  assumes "\<And>r. key (f r) = key r"
  shows "row_of key k (map f t) = map_option f (row_of key k t)"
  using assms by (induction t) auto

locale keyed_table =
  fixes key :: "'r \<Rightarrow> 'k" and clash :: "'r \<Rightarrow> 'r \<Rightarrow> bool"
  assumes key_clash: "key r = key r' \<Longrightarrow> clash r r'"
begin

definition keyed :: "'r list \<Rightarrow> bool" where
  "keyed t \<longleftrightarrow> distinct (map key t)"

lemma row_of_mem: "keyed t \<Longrightarrow> r \<in> set t \<Longrightarrow> row_of key (key r) t = Some r"
  by (induction t) (auto simp: keyed_def)

lemma row_of_iff: "keyed t \<Longrightarrow> row_of key k t = Some r \<longleftrightarrow> r \<in> set t \<and> key r = k"
  using row_of_mem row_of_Some by metis

lemma insert_keyed: "keyed t \<Longrightarrow> sql_insert clash r t = Some t' \<Longrightarrow> keyed t'"
  using key_clash [of r] by (auto simp: sql_insert_def keyed_def list_ex_iff simp del: not_ex split: if_splits) (metis key_clash)

lemma insert_lookup:
  assumes "sql_insert clash r t = Some t'"
  shows "row_of key k t' = (if k = key r then Some r else row_of key k t)"
proof -
  have "t' = t @ [r]" and free: "\<forall>r' \<in> set t. key r' \<noteq> key r"
    using assms key_clash [of r] by (auto simp: sql_insert_def list_ex_iff split: if_splits)
  then show ?thesis using row_of_None [of key "key r" t] by (auto split: option.split)
qed

lemma update_keyed: "keyed t \<Longrightarrow> (\<And>r. key (f r) = key r) \<Longrightarrow> keyed (fst (sql_update P f t))"
  by (simp add: keyed_def sql_update_def comp_def if_distrib [of key] cong: if_cong)

lemma update_lookup:
  "(\<And>r. key (f r) = key r) \<Longrightarrow> row_of key k (fst (sql_update P f t)) = map_option (\<lambda>r. if P r then f r else r) (row_of key k t)"
  by (simp add: sql_update_def row_of_map)

lemma delete_keyed: "keyed t \<Longrightarrow> keyed (fst (sql_delete P t))"
  by (induction t) (auto simp: keyed_def sql_delete_def)

lemma delete_lookup:
  "keyed t \<Longrightarrow> row_of key k (fst (sql_delete P t)) = (case row_of key k t of None \<Rightarrow> None | Some r \<Rightarrow> if P r then None else Some r)"
proof (induction t)
  case (Cons r t)
  then have "keyed t" "row_of key (key r) t = None" by (auto simp: keyed_def row_of_None) (metis image_eqI)
  moreover have "row_of key (key r) (filter (\<lambda>r. \<not> P r) t) = None" using Cons.prems by (auto simp: keyed_def row_of_None) (metis image_eqI)
  ultimately show ?case using Cons.IH by (auto simp: sql_delete_def split: option.splits)
qed (simp add: sql_delete_def)

end

end
