(* ===== verification/Postgres.thy ===== *)
theory Postgres
  imports Sql Users Stores FrostStore
begin

text \<open>
  The Postgres store (\<open>internal/storage/postgres.go\<close>, the back end of production): keys, grants, accounts
  and their sessions. A table is the list of its rows and a row is the record the code scans it into, with
  the empty string for NULL; the columns an INSERT leaves out have their defaults. Foreign keys and
  unique constraints are those of \<open>migrate\<close>. \<open>NOW()\<close> is the clock of the database, \<open>dbnow\<close>,
  \<open>time.Now()\<close> that of the process; times are whole microseconds, the precision of TIMESTAMPTZ.
  Encodings (arrays, JSON) and a database that does not answer are left out.
\<close>

section \<open>The tables\<close>

record app_consent =
  cn_user_id :: string
  cn_app_id :: string
  cn_app_name :: string
  cn_approved_at :: time

record passkey =
  pk_id :: string
  pk_user_id :: string
  pk_credential_id :: bytes
  pk_public_key :: bytes
  pk_aaguid :: bytes
  pk_sign_count :: "32 word"
  pk_transport :: "string list"
  pk_name :: string
  pk_created_at :: time
  pk_last_used_at :: "time option"

record lightning_key =
  lk_id :: string
  lk_user_id :: string
  lk_linking_key :: string
  lk_name :: string
  lk_created_at :: time
  lk_last_used_at :: "time option"
  lk_confirmed_at :: "time option"

record webauthn_session =
  wa_id :: string
  wa_user_id :: string
  wa_data :: bytes
  wa_expires_at :: time
  wa_created_at :: time

record retained_deletion =
  rt_user_id :: string
  rt_object :: string
  rt_reason :: string
  rt_first_failed_at :: time
  rt_last_attempt_at :: time

record platform_user =
  pu_pubkey :: string
  pu_enabled :: bool
  pu_created_at :: time
  pu_updated_at :: time

record platform_service =
  sv_id :: string
  sv_slug :: string
  sv_name :: string
  sv_description :: string
  sv_is_free :: bool

record service_access =
  sa_pubkey :: string
  sa_service_id :: string
  sa_enabled :: bool
  sa_created_at :: time

record platform =
  pf_users :: "platform_user list"
  pf_services :: "platform_service list"
  pf_access :: "service_access list"

text \<open>
  A grant carries the copy of the key's flag that the unique index needs; the platform's tables may not
  exist.
\<close>

record pg =
  pg_accounts :: "user list"
  pg_keys :: "key list"
  pg_grants :: "(permission \<times> bool) list"
  pg_sessions :: "client_session list"
  pg_policies :: "policy list"
  pg_rules :: "policy_rule list"
  pg_tokens :: "token list"
  pg_requests :: "pending_request list"
  pg_web_sessions :: "user_session list"
  pg_secrets :: "bunker_secret list"
  pg_settings :: "(string \<times> string) list"
  pg_frost_keys :: "frost_key list"
  pg_frost_shares :: "frost_share list"
  pg_user_shares :: "frost_user_share list"
  pg_consents :: "app_consent list"
  pg_passkeys :: "passkey list"
  pg_webauthn :: "webauthn_session list"
  pg_recovery :: "recovery_challenge list"
  pg_lightning_keys :: "lightning_key list"
  pg_lightning :: "lightning_challenge list"
  pg_seals :: "session_seal list"
  pg_retained :: "retained_deletion list"
  pg_platform :: "platform option"

text \<open>The errors the code names, and those of the database that it hands on.\<close>

datatype db_error =
    Known storage_error | KnownFrost frost_store_error | KnownLightning lightning_error
  | KnownChallenge challenge_error | ErrConsentNotFound | ErrLightningKeyExists | ErrLightningKeyNotFound
  | UniqueViolation | ForeignKeyViolation

definition rows_error :: "storage_error \<Rightarrow> nat \<Rightarrow> db_error + unit" where
  \<comment> \<open>the \<open>RowsAffected\<close> test\<close>
  "rows_error e n = (if n = 0 then Inl (Known e) else Inr ())"

definition no_rows :: "db_error \<Rightarrow> nat \<Rightarrow> db_error + unit" where
  "no_rows e n = (if n = 0 then Inl e else Inr ())"

text \<open>A foreign key: the empty string is NULL and refers to nothing.\<close>

definition account_exists :: "string \<Rightarrow> pg \<Rightarrow> bool" where
  "account_exists i d \<longleftrightarrow> list_ex (\<lambda>u. u_id u = i) (pg_accounts d)"

definition key_exists :: "string \<Rightarrow> pg \<Rightarrow> bool" where
  "key_exists i d \<longleftrightarrow> list_ex (\<lambda>k. k_id k = i) (pg_keys d)"

text \<open>The rows that go with a key and with an account (\<open>ON DELETE CASCADE\<close>).\<close>

definition drop_keys :: "(key \<Rightarrow> bool) \<Rightarrow> pg \<Rightarrow> pg" where
  "drop_keys P d =
     (let gone = map k_id (filter P (pg_keys d)) in
      d\<lparr>pg_keys := fst (sql_delete P (pg_keys d)),
        pg_user_shares := fst (sql_delete (\<lambda>s. fu_key_id s \<in> set gone) (pg_user_shares d)),
        pg_seals := fst (sql_delete (\<lambda>sl. sl_key_id sl \<in> set gone) (pg_seals d))\<rparr>)"

definition drop_account :: "string \<Rightarrow> pg \<Rightarrow> pg" where
  "drop_account i d =
     (let d = drop_keys (\<lambda>k. nullable_eq (k_owner_id k) i) d in
      d\<lparr>pg_accounts := fst (sql_delete (\<lambda>u. u_id u = i) (pg_accounts d)),
        pg_web_sessions := fst (sql_delete (\<lambda>s. us_user_id s = i) (pg_web_sessions d)),
        pg_consents := fst (sql_delete (\<lambda>c. cn_user_id c = i) (pg_consents d)),
        pg_passkeys := fst (sql_delete (\<lambda>p. pk_user_id p = i) (pg_passkeys d)),
        pg_recovery := fst (sql_delete (\<lambda>c. rc_user_id c = i) (pg_recovery d)),
        pg_lightning_keys := fst (sql_delete (\<lambda>l. lk_user_id l = i) (pg_lightning_keys d)),
        pg_seals := fst (sql_delete (\<lambda>sl. sl_user_id sl = i) (pg_seals d))\<rparr>)"

section \<open>Platform users\<close>

definition on_platform :: "(platform \<Rightarrow> platform) \<Rightarrow> pg \<Rightarrow> pg" where
  "on_platform f d = d\<lparr>pg_platform := map_option f (pg_platform d)\<rparr>"

definition pgEnsurePlatformUser :: "time \<Rightarrow> string \<Rightarrow> pg \<Rightarrow> pg" where
  "pgEnsurePlatformUser dbnow pubkey =
     on_platform (\<lambda>p. case sql_insert (\<lambda>a b. pu_pubkey a = pu_pubkey b)
         \<lparr>pu_pubkey = pubkey, pu_enabled = True, pu_created_at = dbnow, pu_updated_at = dbnow\<rparr> (pf_users p) of
         None \<Rightarrow> p | Some t \<Rightarrow> p\<lparr>pf_users := t\<rparr>)"

definition pgRemovePlatformUser :: "string \<Rightarrow> pg \<Rightarrow> pg" where
  "pgRemovePlatformUser pubkey =
     on_platform (\<lambda>p. p\<lparr>pf_users := fst (sql_delete
         (\<lambda>u. pu_pubkey u = pubkey \<and> \<not> list_ex (\<lambda>a. sa_pubkey a = pubkey) (pf_access p)) (pf_users p))\<rparr>)"

definition pgGrantServiceAccess :: "time \<Rightarrow> string \<Rightarrow> string \<Rightarrow> pg \<Rightarrow> pg" where
  "pgGrantServiceAccess dbnow pubkey slug =
     on_platform (\<lambda>p. foldl (\<lambda>p s.
         (let same = (\<lambda>a. sa_pubkey a = pubkey \<and> sa_service_id a = sv_id s) in
          p\<lparr>pf_access := (if list_ex same (pf_access p) then fst (sql_update same (\<lambda>a. a\<lparr>sa_enabled := True\<rparr>) (pf_access p))
             else pf_access p @ [\<lparr>sa_pubkey = pubkey, sa_service_id = sv_id s, sa_enabled = True, sa_created_at = dbnow\<rparr>])\<rparr>))
       p (filter (\<lambda>s. sv_slug s = slug) (pf_services p)))"

definition pgRevokeServiceAccess :: "string \<Rightarrow> string \<Rightarrow> pg \<Rightarrow> pg" where
  "pgRevokeServiceAccess pubkey slug =
     on_platform (\<lambda>p. p\<lparr>pf_access := fst (sql_update
         (\<lambda>a. sa_pubkey a = pubkey \<and> list_ex (\<lambda>s. sv_id s = sa_service_id a \<and> sv_slug s = slug) (pf_services p))
         (\<lambda>a. a\<lparr>sa_enabled := False\<rparr>) (pf_access p))\<rparr>)"

section \<open>Keys\<close>

definition key_clash :: "key \<Rightarrow> key \<Rightarrow> bool" where
  "key_clash a b \<longleftrightarrow> k_id a = k_id b \<or> k_pubkey a = k_pubkey b"

definition key_row :: "key \<Rightarrow> key" where
  "key_row key = key\<lparr>
     k_key_type := (if k_key_type key = '''' then KeyTypeLocal else k_key_type key),
     k_encryption_method := (if k_encryption_method key = '''' then ''local'' else k_encryption_method key),
     k_require_approval := False, k_disposable_mode := False, k_cover_traffic := False, k_tor_egress := False,
     k_relay_mode := '''', k_is_primary := False\<rparr>"

definition pgCreateKey :: "time \<Rightarrow> key \<Rightarrow> pg \<Rightarrow> pg \<times> (db_error + unit)" where
  "pgCreateKey dbnow key d =
     (let d = pgEnsurePlatformUser dbnow (k_pubkey key) d; row = key_row key in
      case sql_insert key_clash row (pg_keys d) of
        None \<Rightarrow> (d, Inl (Known ErrKeyExists))
      | Some t \<Rightarrow>
          if k_owner_id row \<noteq> '''' \<and> \<not> account_exists (k_owner_id row) d then (d, Inl ForeignKeyViolation)
          else (d\<lparr>pg_keys := t\<rparr>, Inr ()))"

definition pgGetKey :: "string \<Rightarrow> pg \<Rightarrow> storage_error + key" where
  "pgGetKey i d = or_err ErrKeyNotFound (find (\<lambda>k. k_id k = i) (pg_keys d))"

definition pgGetKeyByPubkey :: "string \<Rightarrow> pg \<Rightarrow> storage_error + key" where
  "pgGetKeyByPubkey pubkey d = or_err ErrKeyNotFound (find (\<lambda>k. k_pubkey k = pubkey) (pg_keys d))"

definition pgGetKeyByName :: "string \<Rightarrow> pg \<Rightarrow> storage_error + key" where
  "pgGetKeyByName n d = or_err ErrKeyNotFound (find (\<lambda>k. k_name k = n) (pg_keys d))"

definition pgListKeys :: "string \<Rightarrow> pg \<Rightarrow> key list" where
  "pgListKeys ownerID d = sql_desc k_created_at (filter (\<lambda>k. nullable_eq (k_owner_id k) ownerID) (pg_keys d))"

definition pgListAllKeys :: "pg \<Rightarrow> key list" where
  "pgListAllKeys d = sql_desc k_created_at (pg_keys d)"

definition pgUpdateKey :: "key \<Rightarrow> pg \<Rightarrow> pg \<times> (db_error + unit)" where
  "pgUpdateKey key d =
     (case sql_update (\<lambda>k. k_id k = k_id key) (\<lambda>k. k\<lparr>k_name := k_name key, k_require_approval := k_require_approval key,
          k_disposable_mode := k_disposable_mode key, k_cover_traffic := k_cover_traffic key, k_tor_egress := k_tor_egress key,
          k_relays := k_relays key, k_key_type := k_key_type key, k_bunker_uri := k_bunker_uri key,
          k_upstream_pubkey := k_upstream_pubkey key\<rparr>) (pg_keys d) of
        (t, n) \<Rightarrow> (d\<lparr>pg_keys := t\<rparr>, rows_error ErrKeyNotFound n))"

definition pgUpdateKeyEncryption :: "string \<Rightarrow> string \<Rightarrow> string \<Rightarrow> pg \<Rightarrow> pg \<times> (db_error + unit)" where
  "pgUpdateKeyEncryption keyID encryptedNsec encryptionMethod d =
     (case sql_update (\<lambda>k. k_id k = keyID)
          (\<lambda>k. k\<lparr>k_encrypted_nsec := encryptedNsec, k_encryption_method := encryptionMethod\<rparr>) (pg_keys d) of
        (t, n) \<Rightarrow> (d\<lparr>pg_keys := t\<rparr>, rows_error ErrKeyNotFound n))"

definition pgDeleteKey :: "string \<Rightarrow> pg \<Rightarrow> pg \<times> (db_error + unit)" where
  "pgDeleteKey i d =
     (if snd (sql_delete (\<lambda>k. k_id k = i) (pg_keys d)) = 0 then (d, Inl (Known ErrKeyNotFound))
      else (let d = drop_keys (\<lambda>k. k_id k = i) d in
            (d\<lparr>pg_grants := fst (sql_delete (\<lambda>(p, _). pm_key_id p = i) (pg_grants d))\<rparr>, Inr ())))"

definition pgSetPrimaryKey :: "string \<Rightarrow> string \<Rightarrow> pg \<Rightarrow> pg \<times> (db_error + unit)" where
  "pgSetPrimaryKey ownerID keyID d =
     (let t = fst (sql_update (\<lambda>k. nullable_eq (k_owner_id k) ownerID \<and> k_is_primary k) (\<lambda>k. k\<lparr>k_is_primary := False\<rparr>) (pg_keys d)) in
      case sql_update (\<lambda>k. k_id k = keyID \<and> nullable_eq (k_owner_id k) ownerID) (\<lambda>k. k\<lparr>k_is_primary := True\<rparr>) t of
        (t, n) \<Rightarrow> if n = 0 then (d, Inl (Known ErrKeyNotFound)) else (d\<lparr>pg_keys := t\<rparr>, Inr ()))"

section \<open>Grants\<close>

definition grant_key :: "permission \<times> bool \<Rightarrow> string \<times> string" where
  "grant_key g = (pm_key_id (fst g), pm_user_pubkey (fst g))"

text \<open>\<open>idx_one_active_single_grant_per_key_slot\<close>.\<close>

definition slot_clash :: "permission \<times> bool \<Rightarrow> permission \<times> bool \<Rightarrow> bool" where
  "slot_clash a b \<longleftrightarrow> snd a \<and> snd b \<and> pm_revoked_at (fst a) = None \<and> pm_revoked_at (fst b) = None \<and>
     pm_key_id (fst a) = pm_key_id (fst b) \<and> pm_slot (fst a) = pm_slot (fst b)"

definition coalesce :: "string \<Rightarrow> string \<Rightarrow> string" where
  "coalesce a b = (if a = '''' then b else a)"

definition pg_displace :: "time \<Rightarrow> permission \<Rightarrow> bool \<Rightarrow> (permission \<times> bool) list \<Rightarrow> (permission \<times> bool) list" where
  "pg_displace dbnow perm displaceLive t =
     fst (sql_update (\<lambda>(p, _). pm_key_id p = pm_key_id perm \<and> pm_user_pubkey p \<noteq> pm_user_pubkey perm \<and>
          pm_slot p = pm_slot perm \<and> pm_revoked_at p = None \<and>
          (displaceLive \<or> (case pm_expires_at p of None \<Rightarrow> False | Some e \<Rightarrow> e \<le> dbnow)))
        (\<lambda>(p, s). (p\<lparr>pm_revoked_at := Some dbnow, pm_revoked_by := pm_user_pubkey perm\<rparr>, s)) t)"

definition regranted :: "permission \<Rightarrow> permission \<Rightarrow> permission" where
  \<comment> \<open>\<open>ON CONFLICT DO UPDATE\<close>: the columns it does not set stay\<close>
  "regranted perm old = old\<lparr>pm_slot := pm_slot perm, pm_sliding_expiry := pm_sliding_expiry perm, pm_methods := pm_methods perm,
     pm_allowed_kinds := pm_allowed_kinds perm, pm_expires_at := pm_expires_at perm, pm_policy_id := pm_policy_id perm,
     pm_require_approval := pm_require_approval perm, pm_app_name := coalesce (pm_app_name perm) (pm_app_name old),
     pm_app_url := coalesce (pm_app_url perm) (pm_app_url old), pm_app_image := coalesce (pm_app_image perm) (pm_app_image old),
     pm_custom_name := coalesce (pm_custom_name perm) (pm_custom_name old), pm_revoked_at := None, pm_revoked_by := ''''\<rparr>"

definition pg_upsert :: "permission \<Rightarrow> bool \<Rightarrow> (permission \<times> bool) list \<Rightarrow> (permission \<times> bool) list option" where
  "pg_upsert perm single t =
     (let same = (\<lambda>g. grant_key g = (pm_key_id perm, pm_user_pubkey perm));
          fresh = (perm\<lparr>pm_delegate_pubkey := '''', pm_revoked_at := None, pm_revoked_by := ''''\<rparr>, single)
      in if list_ex (\<lambda>g. \<not> same g \<and> slot_clash fresh g) t then None
         else Some (if list_ex same t then fst (sql_update same (\<lambda>g. (regranted perm (fst g), single)) t) else t @ [fresh]))"

definition pg_single :: "string \<Rightarrow> pg \<Rightarrow> bool" where
  "pg_single keyID d = (case find (\<lambda>k. k_pubkey k = keyID) (pg_keys d) of None \<Rightarrow> True | Some k \<Rightarrow> k_single_grant k)"

definition pgsetPermission :: "time \<Rightarrow> time \<Rightarrow> permission \<Rightarrow> bool \<Rightarrow> pg \<Rightarrow> pg \<times> (db_error + unit)" where
  "pgsetPermission now dbnow perm displaceLive d =
     (let perm = (if pm_slot perm = '''' then perm\<lparr>pm_slot := SlotDefault\<rparr> else perm) in
      case ValidateSlot (pm_slot perm) of
        Inl e \<Rightarrow> (d, Inl (Known e))
      | Inr _ \<Rightarrow>
     (let perm = (if pm_created_at perm = None then perm\<lparr>pm_created_at := Some now\<rparr> else perm);
          single = pg_single (pm_key_id perm) d;
          perm = (if \<not> single then defaultSlidingExpiry perm now else perm);
          t = (if single then pg_displace dbnow perm displaceLive (pg_grants d) else pg_grants d)
      in case pg_upsert perm single t of
           None \<Rightarrow> (d, Inl (if \<not> displaceLive then Known ErrSlotOccupied else UniqueViolation))
         | Some t \<Rightarrow> (d\<lparr>pg_grants := t\<rparr>, Inr ())))"

definition pgSetPermission :: "time \<Rightarrow> time \<Rightarrow> permission \<Rightarrow> pg \<Rightarrow> pg \<times> (db_error + unit)" where
  "pgSetPermission now dbnow perm = pgsetPermission now dbnow perm True"

definition pgSetPermissionIfSlotFree :: "time \<Rightarrow> time \<Rightarrow> permission \<Rightarrow> pg \<Rightarrow> pg \<times> (db_error + unit)" where
  "pgSetPermissionIfSlotFree now dbnow perm = pgsetPermission now dbnow perm False"

definition live_row :: "string \<Rightarrow> string \<Rightarrow> pg \<Rightarrow> permission option" where
  "live_row keyID userPubkey d =
     map_option fst (find (\<lambda>g. grant_key g = (keyID, userPubkey) \<and> pm_revoked_at (fst g) = None) (pg_grants d))"

definition pgGetPermission :: "time \<Rightarrow> string \<Rightarrow> string \<Rightarrow> pg \<Rightarrow> storage_error + permission" where
  "pgGetPermission now keyID userPubkey d =
     (case live_row keyID userPubkey d of
        None \<Rightarrow> Inl ErrNotAuthorized
      | Some perm \<Rightarrow>
          if (case pm_expires_at perm of None \<Rightarrow> False | Some t \<Rightarrow> now > t) then Inl ErrPermissionExpired else Inr perm)"

definition pgListPermissions :: "string \<Rightarrow> pg \<Rightarrow> permission list" where
  "pgListPermissions keyID d = filter (\<lambda>p. pm_key_id p = keyID \<and> pm_revoked_at p = None) (map fst (pg_grants d))"

definition pgDeletePermission :: "string \<Rightarrow> string \<Rightarrow> pg \<Rightarrow> pg" where
  "pgDeletePermission keyID userPubkey d =
     d\<lparr>pg_grants := fst (sql_delete (\<lambda>g. grant_key g = (keyID, userPubkey)) (pg_grants d))\<rparr>"

definition pgUpdatePermissionLastUsed :: "time \<Rightarrow> string \<Rightarrow> string \<Rightarrow> pg \<Rightarrow> pg" where
  "pgUpdatePermissionLastUsed now keyID userPubkey d =
     d\<lparr>pg_grants := fst (sql_update (\<lambda>g. grant_key g = (keyID, userPubkey))
       (\<lambda>(p, s). (p\<lparr>pm_last_used_at := Some now,
          pm_expires_at := (case pm_expires_at p of
              None \<Rightarrow> None
            | Some e \<Rightarrow> if pm_sliding_expiry p \<and> pm_revoked_at p = None \<and> e > now \<and>
                  e < now + (SlidingGrantTTL - SlidingGrantRefreshEvery)
                then Some (now + SlidingGrantTTL) else Some e)\<rparr>, s)) (pg_grants d))\<rparr>"

definition pgRenewPermission :: "time \<Rightarrow> string \<Rightarrow> string \<Rightarrow> time \<Rightarrow> pg \<Rightarrow> pg \<times> (db_error + unit)" where
  "pgRenewPermission dbnow keyID userPubkey expiresAt d =
     (case sql_update (\<lambda>g. grant_key g = (keyID, userPubkey) \<and> pm_revoked_at (fst g) = None \<and>
            (case pm_expires_at (fst g) of None \<Rightarrow> False | Some e \<Rightarrow> e > dbnow))
          (\<lambda>(p, s). (p\<lparr>pm_expires_at := Some expiresAt\<rparr>, s)) (pg_grants d) of
        (t, n) \<Rightarrow> (d\<lparr>pg_grants := t\<rparr>, rows_error ErrPermissionExpired n))"

definition pgUpdatePermissionName :: "string \<Rightarrow> string \<Rightarrow> string \<Rightarrow> pg \<Rightarrow> pg \<times> (db_error + unit)" where
  "pgUpdatePermissionName keyID userPubkey customName d =
     (case sql_update (\<lambda>g. grant_key g = (keyID, userPubkey)) (\<lambda>(p, s). (p\<lparr>pm_custom_name := customName\<rparr>, s)) (pg_grants d) of
        (t, n) \<Rightarrow> (d\<lparr>pg_grants := t\<rparr>, rows_error ErrKeyNotFound n))"

end
