(* ===== verification/PgClients.thy ===== *)
theory PgClients
  imports Postgres
begin

text \<open>
  The Postgres store, the tables of the request path: client sessions, policies with their rules, access
  tokens, pending requests, bunker secrets and the FROST keys and shares. A token is redeemed, and a
  bunker secret validated, with a read and then a write; the model has the two statements apart, because
  those of other callers can come between them.
\<close>

section \<open>Client sessions\<close>

definition client_slot :: "client_session \<Rightarrow> string \<times> string" where
  "client_slot s = (se_key_id s, se_client_pubkey s)"

definition pgCreateSession :: "client_session \<Rightarrow> pg \<Rightarrow> pg \<times> (db_error + unit)" where
  "pgCreateSession session d =
     (let same = (\<lambda>s. client_slot s = client_slot session) in
      if list_ex (\<lambda>s. se_id s = se_id session \<and> \<not> same s) (pg_sessions d) then (d, Inl UniqueViolation)
      else (d\<lparr>pg_sessions := (if list_ex same (pg_sessions d) then fst (sql_update same (\<lambda>_. session) (pg_sessions d))
              else pg_sessions d @ [session])\<rparr>, Inr ()))"

definition pgGetSession :: "time \<Rightarrow> string \<Rightarrow> pg \<Rightarrow> storage_error + client_session" where
  "pgGetSession dbnow i d = or_err ErrSessionNotFound (find (\<lambda>s. se_id s = i \<and> se_expires_at s > dbnow) (pg_sessions d))"

definition pgGetSessionByClient :: "time \<Rightarrow> string \<Rightarrow> string \<Rightarrow> pg \<Rightarrow> storage_error + client_session" where
  "pgGetSessionByClient dbnow keyID clientPubkey d =
     or_err ErrSessionNotFound (find (\<lambda>s. client_slot s = (keyID, clientPubkey) \<and> se_expires_at s > dbnow) (pg_sessions d))"

definition pgDeleteSession :: "string \<Rightarrow> pg \<Rightarrow> pg" where
  "pgDeleteSession i d = d\<lparr>pg_sessions := fst (sql_delete (\<lambda>s. se_id s = i) (pg_sessions d))\<rparr>"

definition pgCleanExpiredSessions :: "time \<Rightarrow> pg \<Rightarrow> pg" where
  "pgCleanExpiredSessions dbnow d = d\<lparr>pg_sessions := fst (sql_delete (\<lambda>s. se_expires_at s < dbnow) (pg_sessions d))\<rparr>"

section \<open>Policies\<close>

text \<open>A row of the policy table has no rules of its own; they are the rows that name it.\<close>

fun insert_rules :: "string \<Rightarrow> policy_rule list \<Rightarrow> policy_rule list \<Rightarrow> policy_rule list option" where
  "insert_rules policyID [] t = Some t"
| "insert_rules policyID (rule # rules) t =
     (case sql_insert (\<lambda>a b. pr_id a = pr_id b) (rule\<lparr>pr_policy_id := policyID\<rparr>) t of
        None \<Rightarrow> None | Some t \<Rightarrow> insert_rules policyID rules t)"

definition pgCreatePolicy :: "policy \<Rightarrow> policy_rule list \<Rightarrow> pg \<Rightarrow> pg \<times> (db_error + unit)" where
  "pgCreatePolicy policy rules d =
     (case sql_insert (\<lambda>a b. pl_id a = pl_id b) (policy\<lparr>pl_rules := []\<rparr>) (pg_policies d) of
        None \<Rightarrow> (d, Inl UniqueViolation)
      | Some t \<Rightarrow>
          (case insert_rules (pl_id policy) rules (pg_rules d) of
             None \<Rightarrow> (d, Inl UniqueViolation)
           | Some rt \<Rightarrow> (d\<lparr>pg_policies := t, pg_rules := rt\<rparr>, Inr ())))"

definition rules_of :: "string \<Rightarrow> pg \<Rightarrow> policy_rule list" where
  "rules_of policyID d = filter (\<lambda>r. pr_policy_id r = policyID) (pg_rules d)"

definition pgGetPolicy :: "time \<Rightarrow> string \<Rightarrow> pg \<Rightarrow> storage_error + policy \<times> policy_rule list" where
  "pgGetPolicy now i d =
     (case find (\<lambda>p. pl_id p = i) (pg_policies d) of
        None \<Rightarrow> Inl ErrPolicyNotFound
      | Some p \<Rightarrow>
          if (case pl_expires_at p of None \<Rightarrow> False | Some t \<Rightarrow> now > t) then Inl ErrPolicyNotFound
          else Inr (p, rules_of i d))"

definition pgListPolicies :: "time \<Rightarrow> pg \<Rightarrow> (policy \<times> policy_rule list) list" where
  "pgListPolicies dbnow d =
     map (\<lambda>p. (p, rules_of (pl_id p) d))
       (sql_desc pl_created_at (filter (\<lambda>p. case pl_expires_at p of None \<Rightarrow> True | Some t \<Rightarrow> t > dbnow) (pg_policies d)))"

definition pgDeletePolicy :: "string \<Rightarrow> pg \<Rightarrow> pg \<times> (db_error + unit)" where
  "pgDeletePolicy i d =
     (case sql_delete (\<lambda>p. pl_id p = i) (pg_policies d) of
        (t, n) \<Rightarrow> if n = 0 then (d, Inl (Known ErrPolicyNotFound))
          else (d\<lparr>pg_policies := t, pg_rules := fst (sql_delete (\<lambda>r. pr_policy_id r = i) (pg_rules d))\<rparr>, Inr ()))"

definition pgIncrementRuleUsage :: "string \<Rightarrow> pg \<Rightarrow> pg \<times> (db_error + unit)" where
  "pgIncrementRuleUsage ruleID d =
     (case sql_update (\<lambda>r. pr_id r = ruleID) (\<lambda>r. r\<lparr>pr_current_usage := pr_current_usage r + 1\<rparr>) (pg_rules d) of
        (t, n) \<Rightarrow> (d\<lparr>pg_rules := t\<rparr>, rows_error ErrPolicyNotFound n))"

section \<open>Access tokens\<close>

definition pgCreateToken :: "token \<Rightarrow> pg \<Rightarrow> pg \<times> (db_error + unit)" where
  "pgCreateToken token d =
     (case sql_insert (\<lambda>a b. tk_id a = tk_id b) token (pg_tokens d) of
        None \<Rightarrow> (d, Inl UniqueViolation) | Some t \<Rightarrow> (d\<lparr>pg_tokens := t\<rparr>, Inr ()))"

definition pgGetToken :: "string \<Rightarrow> pg \<Rightarrow> storage_error + token" where
  "pgGetToken i d = or_err ErrTokenNotFound (find (\<lambda>t. tk_id t = i) (pg_tokens d))"

definition pgListTokens :: "string \<Rightarrow> pg \<Rightarrow> token list" where
  "pgListTokens keyID d = sql_desc tk_created_at (filter (\<lambda>t. tk_key_id t = keyID) (pg_tokens d))"

definition redeem_read :: "time \<Rightarrow> string \<Rightarrow> pg \<Rightarrow> storage_error + token" where
  "redeem_read now tokenID d =
     (case pgGetToken tokenID d of
        Inl e \<Rightarrow> Inl e
      | Inr token \<Rightarrow>
          if tk_redeemed_at token \<noteq> None then Inl ErrTokenRedeemed
          else if (case tk_expires_at token of None \<Rightarrow> False | Some t \<Rightarrow> now > t) then Inl ErrTokenExpired
          else Inr token)"

definition redeem_write :: "time \<Rightarrow> string \<Rightarrow> token \<Rightarrow> pg \<Rightarrow> pg \<times> token" where
  "redeem_write now redeemerPubkey token d =
     (let f = (\<lambda>t. t\<lparr>tk_redeemed_at := Some now, tk_redeemed_by := redeemerPubkey\<rparr>) in
      (d\<lparr>pg_tokens := fst (sql_update (\<lambda>t. tk_id t = tk_id token) f (pg_tokens d))\<rparr>, f token))"

definition pgRedeemToken :: "time \<times> string \<Rightarrow> string \<Rightarrow> pg \<Rightarrow> pg \<times> (storage_error + token)" where
  "pgRedeemToken ctx tokenID d =
     (case ctx of (now, redeemerPubkey) \<Rightarrow>
      case redeem_read now tokenID d of
        Inl e \<Rightarrow> (d, Inl e)
      | Inr token \<Rightarrow> (case redeem_write now redeemerPubkey token d of (d, token) \<Rightarrow> (d, Inr token)))"

definition pgDeleteToken :: "string \<Rightarrow> pg \<Rightarrow> pg \<times> (db_error + unit)" where
  "pgDeleteToken i d =
     (case sql_delete (\<lambda>t. tk_id t = i) (pg_tokens d) of (t, n) \<Rightarrow> (d\<lparr>pg_tokens := t\<rparr>, rows_error ErrTokenNotFound n))"

section \<open>Pending requests\<close>

definition pgCreatePendingRequest :: "pending_request \<Rightarrow> pg \<Rightarrow> pg \<times> (db_error + unit)" where
  "pgCreatePendingRequest req d =
     (case sql_insert (\<lambda>a b. pq_id a = pq_id b) req (pg_requests d) of
        None \<Rightarrow> (d, Inl UniqueViolation) | Some t \<Rightarrow> (d\<lparr>pg_requests := t\<rparr>, Inr ()))"

definition pgGetPendingRequest :: "time \<Rightarrow> string \<Rightarrow> pg \<Rightarrow> storage_error + pending_request" where
  "pgGetPendingRequest dbnow i d = or_err ErrRequestNotFound (find (\<lambda>q. pq_id q = i \<and> pq_expires_at q > dbnow) (pg_requests d))"

definition pgListPendingRequests :: "time \<Rightarrow> string \<Rightarrow> pg \<Rightarrow> pending_request list" where
  "pgListPendingRequests dbnow keyPubkey d =
     sql_desc pq_created_at (filter (\<lambda>q. pq_key_pubkey q = keyPubkey \<and> pq_expires_at q > dbnow) (pg_requests d))"

definition pgDeletePendingRequest :: "string \<Rightarrow> pg \<Rightarrow> pg" where
  "pgDeletePendingRequest i d = d\<lparr>pg_requests := fst (sql_delete (\<lambda>q. pq_id q = i) (pg_requests d))\<rparr>"

definition pgCleanExpiredRequests :: "time \<Rightarrow> pg \<Rightarrow> pg" where
  "pgCleanExpiredRequests dbnow d = d\<lparr>pg_requests := fst (sql_delete (\<lambda>q. pq_expires_at q < dbnow) (pg_requests d))\<rparr>"

section \<open>Bunker secrets\<close>

definition pgCreateBunkerSecret :: "bunker_secret \<Rightarrow> pg \<Rightarrow> pg \<times> (db_error + unit)" where
  "pgCreateBunkerSecret secret d =
     (case sql_insert (\<lambda>a b. bs_id a = bs_id b \<or> bs_secret a = bs_secret b) secret (pg_secrets d) of
        None \<Rightarrow> (d, Inl UniqueViolation) | Some t \<Rightarrow> (d\<lparr>pg_secrets := t\<rparr>, Inr ()))"

definition secret_read :: "time \<Rightarrow> string \<Rightarrow> string \<Rightarrow> pg \<Rightarrow> pg \<times> (storage_error + bunker_secret)" where
  "secret_read now keyPubkey secret d =
     (case find (\<lambda>b. bs_secret b = secret \<and> bs_key_pubkey b = keyPubkey) (pg_secrets d) of
        None \<Rightarrow> (d, Inl ErrBunkerSecretInvalid)
      | Some bs \<Rightarrow>
          if now > bs_expires_at bs
          then (d\<lparr>pg_secrets := fst (sql_delete (\<lambda>b. bs_id b = bs_id bs) (pg_secrets d))\<rparr>, Inl ErrBunkerSecretInvalid)
          else if bs_used_at bs \<noteq> None then (d, Inl ErrBunkerSecretInvalid)
          else (d, Inr bs))"

definition secret_write :: "time \<Rightarrow> bunker_secret \<Rightarrow> pg \<Rightarrow> pg \<times> bunker_secret" where
  "secret_write now bs d =
     (let f = (\<lambda>b. b\<lparr>bs_used_at := Some now\<rparr>) in
      (d\<lparr>pg_secrets := fst (sql_update (\<lambda>b. bs_id b = bs_id bs) f (pg_secrets d))\<rparr>, f bs))"

definition pgValidateBunkerSecret :: "time \<times> string \<Rightarrow> string \<Rightarrow> pg \<Rightarrow> pg \<times> (storage_error + bunker_secret)" where
  "pgValidateBunkerSecret ctx secret d =
     (case ctx of (now, keyPubkey) \<Rightarrow>
      case secret_read now keyPubkey secret d of
        (d, Inl e) \<Rightarrow> (d, Inl e)
      | (d, Inr bs) \<Rightarrow> (case secret_write now bs d of (d, bs) \<Rightarrow> (d, Inr bs)))"

definition pgDeleteBunkerSecret :: "string \<Rightarrow> pg \<Rightarrow> pg" where
  "pgDeleteBunkerSecret i d = d\<lparr>pg_secrets := fst (sql_delete (\<lambda>b. bs_id b = i) (pg_secrets d))\<rparr>"

definition pgCleanExpiredBunkerSecrets :: "time \<Rightarrow> pg \<Rightarrow> pg" where
  "pgCleanExpiredBunkerSecrets dbnow d = d\<lparr>pg_secrets := fst (sql_delete (\<lambda>b. bs_expires_at b < dbnow) (pg_secrets d))\<rparr>"

section \<open>FROST keys and shares\<close>

definition pgCreateFrostKey :: "frost_key \<Rightarrow> pg \<Rightarrow> pg \<times> (db_error + unit)" where
  "pgCreateFrostKey key d =
     (case sql_insert (\<lambda>a b. fk_id a = fk_id b \<or> fk_pubkey a = fk_pubkey b) key (pg_frost_keys d) of
        None \<Rightarrow> (d, Inl (Known ErrKeyExists))
      | Some t \<Rightarrow>
          if fk_owner_id key \<noteq> '''' \<and> \<not> account_exists (fk_owner_id key) d then (d, Inl ForeignKeyViolation)
          else (d\<lparr>pg_frost_keys := t\<rparr>, Inr ()))"

definition pgGetFrostKey :: "string \<Rightarrow> pg \<Rightarrow> frost_store_error + frost_key" where
  "pgGetFrostKey i d = or_err ErrFrostKeyNotFound (find (\<lambda>k. fk_id k = i) (pg_frost_keys d))"

definition pgGetFrostKeyByPubkey :: "string \<Rightarrow> pg \<Rightarrow> frost_store_error + frost_key" where
  "pgGetFrostKeyByPubkey pubkey d = or_err ErrFrostKeyNotFound (find (\<lambda>k. fk_pubkey k = pubkey) (pg_frost_keys d))"

definition pgListFrostKeys :: "pg \<Rightarrow> frost_key list" where
  "pgListFrostKeys d = sql_desc fk_created_at (pg_frost_keys d)"

definition pgListFrostKeysByOwner :: "string \<Rightarrow> pg \<Rightarrow> frost_key list" where
  "pgListFrostKeysByOwner ownerID d = sql_desc fk_created_at (filter (\<lambda>k. nullable_eq (fk_owner_id k) ownerID) (pg_frost_keys d))"

definition pgDeleteFrostKey :: "string \<Rightarrow> pg \<Rightarrow> pg \<times> (db_error + unit)" where
  "pgDeleteFrostKey i d =
     (case sql_delete (\<lambda>k. fk_id k = i) (pg_frost_keys d) of
        (t, n) \<Rightarrow> if n = 0 then (d, Inl (KnownFrost ErrFrostKeyNotFound))
          else (d\<lparr>pg_frost_keys := t, pg_frost_shares := fst (sql_delete (\<lambda>s. sh_frost_key_id s = i) (pg_frost_shares d))\<rparr>, Inr ()))"

definition pgCreateFrostShare :: "frost_share \<Rightarrow> pg \<Rightarrow> pg \<times> (db_error + unit)" where
  "pgCreateFrostShare share d =
     (case sql_insert (\<lambda>a b. sh_id a = sh_id b \<or> (sh_frost_key_id a = sh_frost_key_id b \<and> sh_index a = sh_index b)) share
             (pg_frost_shares d) of
        None \<Rightarrow> (d, Inl (KnownFrost ErrFrostShareNotFound))
      | Some t \<Rightarrow>
          if \<not> list_ex (\<lambda>k. fk_id k = sh_frost_key_id share) (pg_frost_keys d) then (d, Inl ForeignKeyViolation)
          else (d\<lparr>pg_frost_shares := t\<rparr>, Inr ()))"

definition pgGetFrostShare :: "string \<Rightarrow> pg \<Rightarrow> frost_store_error + frost_share" where
  "pgGetFrostShare i d = or_err ErrFrostShareNotFound (find (\<lambda>s. sh_id s = i) (pg_frost_shares d))"

definition pgGetFrostShareByKeyAndIndex :: "string \<Rightarrow> int \<Rightarrow> pg \<Rightarrow> frost_store_error + frost_share" where
  "pgGetFrostShareByKeyAndIndex keyID index d =
     or_err ErrFrostShareNotFound (find (\<lambda>s. sh_frost_key_id s = keyID \<and> sh_index s = index) (pg_frost_shares d))"

definition pgListFrostShares :: "string \<Rightarrow> pg \<Rightarrow> frost_share list" where
  "pgListFrostShares keyID d = sort_key sh_index (filter (\<lambda>s. sh_frost_key_id s = keyID) (pg_frost_shares d))"

definition pgListLocalFrostShares :: "string \<Rightarrow> pg \<Rightarrow> frost_share list" where
  "pgListLocalFrostShares keyID d =
     sort_key sh_index (filter (\<lambda>s. sh_frost_key_id s = keyID \<and> sh_is_local s) (pg_frost_shares d))"

definition pgDeleteFrostShare :: "string \<Rightarrow> pg \<Rightarrow> pg \<times> (db_error + unit)" where
  "pgDeleteFrostShare i d =
     (case sql_delete (\<lambda>s. sh_id s = i) (pg_frost_shares d) of
        (t, n) \<Rightarrow> (d\<lparr>pg_frost_shares := t\<rparr>, no_rows (KnownFrost ErrFrostShareNotFound) n))"

text \<open>The signer shares of user-cosigned keys.\<close>

definition pgCreateFrostUserShare :: "time \<Rightarrow> frost_user_share \<Rightarrow> pg \<Rightarrow> pg \<times> (db_error + unit)" where
  "pgCreateFrostUserShare now share d =
     (let share = (if fu_created_at share = None then share\<lparr>fu_created_at := Some now\<rparr> else share);
          share = share\<lparr>fu_updated_at := Some now\<rparr>
      in case sql_insert (\<lambda>a b. fu_id a = fu_id b \<or> fu_key_id a = fu_key_id b) share (pg_user_shares d) of
           None \<Rightarrow> (d, Inl (KnownFrost ErrFrostUserShareExists))
         | Some t \<Rightarrow>
             if \<not> key_exists (fu_key_id share) d then (d, Inl ForeignKeyViolation) else (d\<lparr>pg_user_shares := t\<rparr>, Inr ()))"

definition pgGetFrostUserShare :: "string \<Rightarrow> pg \<Rightarrow> frost_store_error + frost_user_share" where
  "pgGetFrostUserShare i d = or_err ErrFrostUserShareNotFound (find (\<lambda>s. fu_id s = i) (pg_user_shares d))"

definition pgGetFrostUserShareByKeyID :: "string \<Rightarrow> pg \<Rightarrow> frost_store_error + frost_user_share" where
  "pgGetFrostUserShareByKeyID keyID d = or_err ErrFrostUserShareNotFound (find (\<lambda>s. fu_key_id s = keyID) (pg_user_shares d))"

definition pgListFrostUserSharesByOwner :: "string \<Rightarrow> pg \<Rightarrow> frost_user_share list" where
  "pgListFrostUserSharesByOwner ownerID d =
     sql_desc (\<lambda>s. the (fu_created_at s)) (filter (\<lambda>s. fu_owner_id s = ownerID) (pg_user_shares d))"

definition pgUpdateFrostUserShare :: "time \<Rightarrow> frost_user_share \<Rightarrow> pg \<Rightarrow> pg \<times> (db_error + unit)" where
  "pgUpdateFrostUserShare now share d =
     (case sql_update (\<lambda>s. fu_id s = fu_id share) (\<lambda>s. share\<lparr>fu_key_id := fu_key_id s, fu_owner_id := fu_owner_id s,
          fu_created_at := fu_created_at s, fu_updated_at := Some now\<rparr>) (pg_user_shares d) of
        (t, n) \<Rightarrow> (d\<lparr>pg_user_shares := t\<rparr>, no_rows (KnownFrost ErrFrostUserShareNotFound) n))"

definition pgDeleteFrostUserShare :: "string \<Rightarrow> pg \<Rightarrow> pg \<times> (db_error + unit)" where
  "pgDeleteFrostUserShare i d =
     (case sql_delete (\<lambda>s. fu_id s = i) (pg_user_shares d) of
        (t, n) \<Rightarrow> (d\<lparr>pg_user_shares := t\<rparr>, no_rows (KnownFrost ErrFrostUserShareNotFound) n))"

end
