(* ===== verification/PgAccounts.thy ===== *)
theory PgAccounts
  imports Postgres KeyCrypto
begin

text \<open>
  The Postgres store, the tables of accounts: users with their lockout and backup codes, web sessions,
  session seals (\<open>session_seal.go\<close>), settings and the platform identity, consents, passkeys, recovery
  challenges, Lightning keys and challenges, and what the start of a process does to keys and grants.
\<close>

section \<open>Accounts\<close>

definition user_clash :: "user \<Rightarrow> user \<Rightarrow> bool" where
  "user_clash a b \<longleftrightarrow> u_id a = u_id b \<or> u_username a = u_username b \<or> nullable_eq (u_email a) (u_email b)"

definition pgCreateUser :: "user \<Rightarrow> pg \<Rightarrow> pg \<times> (db_error + unit)" where
  "pgCreateUser user d =
     (let user = (if u_role user = '''' then user\<lparr>u_role := ''user''\<rparr> else user) in
      case sql_insert user_clash user (pg_accounts d) of
        None \<Rightarrow> (d, Inl (Known ErrUserExists)) | Some t \<Rightarrow> (d\<lparr>pg_accounts := t\<rparr>, Inr ()))"

definition pgGetUser :: "string \<Rightarrow> pg \<Rightarrow> storage_error + user" where
  "pgGetUser i d = or_err ErrUserNotFound (find (\<lambda>u. u_id u = i) (pg_accounts d))"

definition pgGetUserByUsername :: "string \<Rightarrow> pg \<Rightarrow> storage_error + user" where
  "pgGetUserByUsername n d = or_err ErrUserNotFound (find (\<lambda>u. u_username u = n) (pg_accounts d))"

definition pgGetUserByPubkey :: "string \<Rightarrow> pg \<Rightarrow> storage_error + user" where
  "pgGetUserByPubkey pubkey d = or_err ErrUserNotFound (find (\<lambda>u. nullable_eq (u_pubkey u) pubkey) (pg_accounts d))"

definition pgGetUserByEmail :: "string \<Rightarrow> pg \<Rightarrow> storage_error + user" where
  "pgGetUserByEmail e d = or_err ErrUserNotFound (find (\<lambda>u. nullable_eq (u_email u) e) (pg_accounts d))"

definition pgListUsers :: "pg \<Rightarrow> user list" where
  "pgListUsers d = sql_desc u_created_at (pg_accounts d)"

definition pgUpdateUser :: "time \<Rightarrow> user \<Rightarrow> pg \<Rightarrow> pg \<times> (db_error + unit)" where
  "pgUpdateUser now user d =
     (let mine = (\<lambda>u. u_id u = u_id user) in
      case sql_update mine (\<lambda>u. user\<lparr>u_created_at := u_created_at u, u_updated_at := now\<rparr>) (pg_accounts d) of
        (t, n) \<Rightarrow>
          if n > 0 \<and> list_ex (\<lambda>u. \<not> mine u \<and> user_clash user u) (pg_accounts d) then (d, Inl UniqueViolation)
          else (d\<lparr>pg_accounts := t\<rparr>, rows_error ErrUserNotFound n))"

definition pgDeleteUser :: "string \<Rightarrow> pg \<Rightarrow> pg \<times> (db_error + unit)" where
  "pgDeleteUser i d =
     (if \<not> account_exists i d then (d, Inl (Known ErrUserNotFound))
      else if list_ex (\<lambda>k. nullable_eq (fk_owner_id k) i) (pg_frost_keys d) then (d, Inl ForeignKeyViolation)
      else (drop_account i d, Inr ()))"

definition pg_on_user :: "string \<Rightarrow> (user \<Rightarrow> user) \<Rightarrow> pg \<Rightarrow> pg \<times> (db_error + unit)" where
  "pg_on_user i f d =
     (case sql_update (\<lambda>u. u_id u = i) f (pg_accounts d) of (t, n) \<Rightarrow> (d\<lparr>pg_accounts := t\<rparr>, rows_error ErrUserNotFound n))"

definition pgConsumeBackupCode :: "time \<Rightarrow> string \<times> string \<Rightarrow> pg \<Rightarrow> pg \<times> (storage_error + unit)" where
  \<comment> \<open>Go answers \<open>(false, nil)\<close> when no row matches, here \<open>ErrInvalidMFACode\<close>\<close>
  "pgConsumeBackupCode dbnow k d =
     (case k of (userID, hashedCode) \<Rightarrow>
      case sql_update (\<lambda>u. u_id u = userID \<and> hashedCode \<in> set (u_backup_codes u))
          (\<lambda>u. u\<lparr>u_backup_codes := removeAll hashedCode (u_backup_codes u),
             u_backup_codes_used := u_backup_codes_used u + 1, u_updated_at := dbnow\<rparr>) (pg_accounts d) of
        (t, n) \<Rightarrow> (d\<lparr>pg_accounts := t\<rparr>, if n = 1 then Inr () else Inl ErrInvalidMFACode))"

definition pgIncrementFailedLogins :: "time \<Rightarrow> string \<Rightarrow> pg \<Rightarrow> pg \<times> (db_error + unit)" where
  "pgIncrementFailedLogins dbnow i =
     pg_on_user i (\<lambda>u. u\<lparr>u_failed_login_attempts := u_failed_login_attempts u + 1, u_updated_at := dbnow\<rparr>)"

definition pgResetFailedLogins :: "time \<Rightarrow> string \<Rightarrow> pg \<Rightarrow> pg \<times> (db_error + unit)" where
  "pgResetFailedLogins dbnow i = pg_on_user i (\<lambda>u. u\<lparr>u_failed_login_attempts := 0, u_updated_at := dbnow\<rparr>)"

definition pgLockUser :: "time \<Rightarrow> string \<Rightarrow> time \<Rightarrow> pg \<Rightarrow> pg \<times> (db_error + unit)" where
  "pgLockUser dbnow i until = pg_on_user i (\<lambda>u. u\<lparr>u_locked_until := Some until, u_updated_at := dbnow\<rparr>)"

definition pgUnlockUser :: "time \<Rightarrow> string \<Rightarrow> pg \<Rightarrow> pg \<times> (db_error + unit)" where
  "pgUnlockUser dbnow i =
     pg_on_user i (\<lambda>u. u\<lparr>u_locked_until := None, u_failed_login_attempts := 0, u_updated_at := dbnow\<rparr>)"

section \<open>Web sessions\<close>

definition pgCreateUserSession :: "user_session \<Rightarrow> pg \<Rightarrow> pg \<times> (db_error + unit)" where
  "pgCreateUserSession session d =
     (case sql_insert (\<lambda>a b. us_id a = us_id b) (session\<lparr>us_cosign_listener := ''''\<rparr>) (pg_web_sessions d) of
        None \<Rightarrow> (d, Inl UniqueViolation)
      | Some t \<Rightarrow>
          if \<not> account_exists (us_user_id session) d then (d, Inl ForeignKeyViolation) else (d\<lparr>pg_web_sessions := t\<rparr>, Inr ()))"

definition pgGetUserSession :: "time \<Rightarrow> string \<Rightarrow> pg \<Rightarrow> storage_error + user_session" where
  "pgGetUserSession dbnow i d = or_err ErrSessionNotFound (find (\<lambda>s. us_id s = i \<and> us_expires_at s > dbnow) (pg_web_sessions d))"

definition pgListUserSessions :: "time \<Rightarrow> string \<Rightarrow> pg \<Rightarrow> user_session list" where
  "pgListUserSessions dbnow userID d =
     sql_desc us_created_at (filter (\<lambda>s. us_user_id s = userID \<and> us_expires_at s > dbnow) (pg_web_sessions d))"

definition pg_on_session :: "time \<Rightarrow> string \<Rightarrow> (user_session \<Rightarrow> user_session) \<Rightarrow> pg \<Rightarrow> pg \<times> (db_error + unit)" where
  "pg_on_session dbnow i f d =
     (case sql_update (\<lambda>s. us_id s = i \<and> us_expires_at s > dbnow) f (pg_web_sessions d) of
        (t, n) \<Rightarrow> (d\<lparr>pg_web_sessions := t\<rparr>, rows_error ErrSessionNotFound n))"

definition pgUpdateUserSessionActivity :: "time \<Rightarrow> string \<Rightarrow> pg \<Rightarrow> pg \<times> (db_error + unit)" where
  "pgUpdateUserSessionActivity dbnow i = pg_on_session dbnow i (\<lambda>s. s\<lparr>us_last_activity := Some dbnow\<rparr>)"

definition pgUpdateUserSessionVaultToken :: "time \<Rightarrow> string \<Rightarrow> string \<Rightarrow> pg \<Rightarrow> pg \<times> (db_error + unit)" where
  "pgUpdateUserSessionVaultToken dbnow i vaultToken = pg_on_session dbnow i (\<lambda>s. s\<lparr>us_vault_token := vaultToken\<rparr>)"

definition pgExtendUserSession :: "time \<Rightarrow> string \<Rightarrow> time \<Rightarrow> pg \<Rightarrow> pg \<times> (db_error + unit)" where
  "pgExtendUserSession dbnow i expiresAt = pg_on_session dbnow i (\<lambda>s. s\<lparr>us_expires_at := expiresAt\<rparr>)"

definition pgDeleteUserSession :: "string \<Rightarrow> pg \<Rightarrow> pg" where
  "pgDeleteUserSession i d = d\<lparr>pg_web_sessions := fst (sql_delete (\<lambda>s. us_id s = i) (pg_web_sessions d))\<rparr>"

definition pgDeleteUserSessions :: "string \<Rightarrow> pg \<Rightarrow> pg" where
  "pgDeleteUserSessions userID d = d\<lparr>pg_web_sessions := fst (sql_delete (\<lambda>s. us_user_id s = userID) (pg_web_sessions d))\<rparr>"

definition pgCleanExpiredUserSessions :: "time \<Rightarrow> pg \<Rightarrow> pg" where
  "pgCleanExpiredUserSessions dbnow d = d\<lparr>pg_web_sessions := fst (sql_delete (\<lambda>s. us_expires_at s < dbnow) (pg_web_sessions d))\<rparr>"

section \<open>Session seals\<close>

definition seal_slot :: "session_seal \<Rightarrow> string \<times> string" where
  "seal_slot sl = (sl_session_id sl, sl_key_id sl)"

definition pgUpsertSessionSeal :: "session_seal \<Rightarrow> pg \<Rightarrow> pg \<times> (db_error + unit)" where
  "pgUpsertSessionSeal seal d =
     (let same = (\<lambda>sl. seal_slot sl = seal_slot seal) in
      if list_ex (\<lambda>sl. sl_id sl = sl_id seal \<and> \<not> same sl) (pg_seals d) then (d, Inl UniqueViolation)
      else if \<not> account_exists (sl_user_id seal) d \<or> \<not> key_exists (sl_key_id seal) d then (d, Inl ForeignKeyViolation)
      else (d\<lparr>pg_seals := (if list_ex same (pg_seals d) then fst (sql_update same (\<lambda>_. seal) (pg_seals d))
              else pg_seals d @ [seal])\<rparr>, Inr ()))"

definition pg_list_seals :: "time \<Rightarrow> (session_seal \<Rightarrow> bool) \<Rightarrow> pg \<Rightarrow> session_seal list" where
  "pg_list_seals now match d = filter (\<lambda>sl. sl_expires_at sl > now \<and> match sl) (pg_seals d)"

definition pgListLiveSessionSeals :: "time \<Rightarrow> pg \<Rightarrow> session_seal list" where
  "pgListLiveSessionSeals now = pg_list_seals now (\<lambda>_. True)"

definition pgListSessionSealsBySession :: "time \<Rightarrow> string \<Rightarrow> pg \<Rightarrow> session_seal list" where
  "pgListSessionSealsBySession now sessionID = pg_list_seals now (\<lambda>sl. sl_session_id sl = sessionID)"

definition pgListSessionSealsByUser :: "time \<Rightarrow> string \<Rightarrow> pg \<Rightarrow> session_seal list" where
  "pgListSessionSealsByUser now userID = pg_list_seals now (\<lambda>sl. sl_user_id sl = userID)"

definition pgUpdateSessionSealBlob :: "string \<Rightarrow> bytes \<Rightarrow> pg \<Rightarrow> pg \<times> bool" where
  "pgUpdateSessionSealBlob i sealed d =
     (case sql_update (\<lambda>sl. sl_id sl = i) (\<lambda>sl. sl\<lparr>sl_sealed := sealed\<rparr>) (pg_seals d) of
        (t, n) \<Rightarrow> (d\<lparr>pg_seals := t\<rparr>, n \<noteq> 0))"

definition pg_delete_seals :: "(session_seal \<Rightarrow> bool) \<Rightarrow> pg \<Rightarrow> pg \<times> nat" where
  "pg_delete_seals P d = (case sql_delete P (pg_seals d) of (t, n) \<Rightarrow> (d\<lparr>pg_seals := t\<rparr>, n))"

definition pgDeleteSessionSealsBySession :: "string \<Rightarrow> pg \<Rightarrow> pg \<times> nat" where
  "pgDeleteSessionSealsBySession sessionID = pg_delete_seals (\<lambda>sl. sl_session_id sl = sessionID)"

definition pgDeleteSessionSealsByUser :: "string \<Rightarrow> pg \<Rightarrow> pg \<times> nat" where
  "pgDeleteSessionSealsByUser userID = pg_delete_seals (\<lambda>sl. sl_user_id sl = userID)"

definition pgDeleteExpiredSessionSeals :: "time \<Rightarrow> pg \<Rightarrow> pg \<times> nat" where
  "pgDeleteExpiredSessionSeals now = pg_delete_seals (\<lambda>sl. sl_expires_at sl \<le> now)"

definition pgExtendSessionSeals :: "string \<Rightarrow> time \<Rightarrow> pg \<Rightarrow> pg \<times> nat" where
  "pgExtendSessionSeals sessionID expiresAt d =
     (case sql_update (\<lambda>sl. sl_session_id sl = sessionID) (\<lambda>sl. sl\<lparr>sl_expires_at := expiresAt\<rparr>) (pg_seals d) of
        (t, n) \<Rightarrow> (d\<lparr>pg_seals := t\<rparr>, n))"

section \<open>Settings and the platform identity\<close>

definition pgGetSetting :: "string \<Rightarrow> pg \<Rightarrow> storage_error + string" where
  "pgGetSetting k d = or_err ErrSettingNotFound (map_option snd (find (\<lambda>e. fst e = k) (pg_settings d)))"

definition pgSetSetting :: "string \<Rightarrow> string \<Rightarrow> pg \<Rightarrow> pg" where
  "pgSetSetting k v d =
     (let same = (\<lambda>e. fst e = k) in
      d\<lparr>pg_settings := (if list_ex same (pg_settings d) then fst (sql_update same (\<lambda>_. (k, v)) (pg_settings d))
          else pg_settings d @ [(k, v)])\<rparr>)"

abbreviation seedKey :: string where
  "seedKey \<equiv> ''platform_identity_seed''"

text \<open>
  The seed is read, and if there is none a fresh one is inserted; an insert that meets the seed of another
  replica returns that one.
\<close>

definition seed_insert :: "string \<Rightarrow> pg \<Rightarrow> pg \<times> string" where
  "seed_insert fresh d =
     (case pgGetSetting seedKey d of
        Inr seed \<Rightarrow> (d, seed) | Inl _ \<Rightarrow> (d\<lparr>pg_settings := pg_settings d @ [(seedKey, fresh)]\<rparr>, fresh))"

definition pgPlatformIdentitySeed :: "string \<Rightarrow> pg \<Rightarrow> pg \<times> string" where
  "pgPlatformIdentitySeed fresh d =
     (case pgGetSetting seedKey d of Inr seed \<Rightarrow> (d, seed) | Inl _ \<Rightarrow> seed_insert fresh d)"

definition pgDeriveUserPubkey ::
    "key_crypto \<Rightarrow> (string \<Rightarrow> string option) \<Rightarrow> string \<Rightarrow> string \<Rightarrow> pg \<Rightarrow> pg \<times> string option" where
  "pgDeriveUserPubkey K get_public_key fresh userID d =
     (case pgPlatformIdentitySeed fresh d of (d, seed) \<Rightarrow>
        (d, case DeriveNostrKey K seed userID ''cloistr-platform-identity'' of
              Inl _ \<Rightarrow> None | Inr privateKey \<Rightarrow> get_public_key privateKey))"

text \<open>The start of a process gives every account a public key and every public key a platform user.\<close>

definition derive_missing ::
    "key_crypto \<Rightarrow> (string \<Rightarrow> string option) \<Rightarrow> string \<Rightarrow> time \<Rightarrow> string \<Rightarrow> pg \<Rightarrow> pg" where
  "derive_missing K get_public_key fresh dbnow userID d =
     (case pgDeriveUserPubkey K get_public_key fresh userID d of
        (d, None) \<Rightarrow> d
      | (d, Some pubkey) \<Rightarrow>
          d\<lparr>pg_accounts := fst (sql_update (\<lambda>u. u_id u = userID) (\<lambda>u. u\<lparr>u_pubkey := pubkey, u_updated_at := dbnow\<rparr>) (pg_accounts d))\<rparr>)"

definition pgBackfillPlatformUsers ::
    "key_crypto \<Rightarrow> (string \<Rightarrow> string option) \<Rightarrow> string \<Rightarrow> time \<Rightarrow> pg \<Rightarrow> pg" where
  "pgBackfillPlatformUsers K get_public_key fresh dbnow d =
     (let d = foldl (\<lambda>d userID. derive_missing K get_public_key fresh dbnow userID d) d
                (map u_id (filter (\<lambda>u. u_pubkey u = '''') (pg_accounts d)))
      in foldl (\<lambda>d pubkey. pgEnsurePlatformUser dbnow pubkey d) d (filter (\<lambda>p. p \<noteq> '''') (map u_pubkey (pg_accounts d))))"

section \<open>Consents\<close>

definition consent_key :: "app_consent \<Rightarrow> string \<times> string" where
  "consent_key c = (cn_user_id c, cn_app_id c)"

definition pgRecordAppConsent :: "time \<Rightarrow> string \<Rightarrow> string \<Rightarrow> string \<Rightarrow> pg \<Rightarrow> pg \<times> (db_error + unit)" where
  "pgRecordAppConsent dbnow userID appID appName d =
     (let same = (\<lambda>c. consent_key c = (userID, appID)) in
      if \<not> account_exists userID d then (d, Inl ForeignKeyViolation)
      else (d\<lparr>pg_consents := (if list_ex same (pg_consents d)
              then fst (sql_update same (\<lambda>c. c\<lparr>cn_app_name := appName, cn_approved_at := dbnow\<rparr>) (pg_consents d))
              else pg_consents d @ [\<lparr>cn_user_id = userID, cn_app_id = appID, cn_app_name = appName, cn_approved_at = dbnow\<rparr>])\<rparr>, Inr ()))"

definition pgHasAppConsent :: "string \<Rightarrow> string \<Rightarrow> pg \<Rightarrow> bool" where
  "pgHasAppConsent userID appID d \<longleftrightarrow> length (filter (\<lambda>c. consent_key c = (userID, appID)) (pg_consents d)) > 0"

definition pgListAppConsents :: "string \<Rightarrow> pg \<Rightarrow> app_consent list" where
  "pgListAppConsents userID d = sql_desc cn_approved_at (filter (\<lambda>c. cn_user_id c = userID) (pg_consents d))"

definition pgRevokeAppConsent :: "string \<Rightarrow> string \<Rightarrow> pg \<Rightarrow> pg \<times> (db_error + unit)" where
  "pgRevokeAppConsent userID appID d =
     (case sql_delete (\<lambda>c. consent_key c = (userID, appID)) (pg_consents d) of
        (t, n) \<Rightarrow> (d\<lparr>pg_consents := t\<rparr>, no_rows ErrConsentNotFound n))"

definition pgRevokeAllAppConsents :: "string \<Rightarrow> pg \<Rightarrow> pg" where
  "pgRevokeAllAppConsents userID d = d\<lparr>pg_consents := fst (sql_delete (\<lambda>c. cn_user_id c = userID) (pg_consents d))\<rparr>"

end
