(* ===== verification/PgGrants.thy ===== *)
theory PgGrants
  imports Postgres
begin

text \<open>
  The two back ends agree on grants: over any run of the grant operations on keys both hold, a client has
  a live grant in the Postgres store exactly when it has one in the in-memory store, with the same
  methods, kinds, expiry, approval and policy. They differ in what they keep for display and in the
  deletion of keys.
\<close>

section \<open>Grants as rows\<close>

interpretation grants: keyed_table grant_key "\<lambda>a b. grant_key a = grant_key b"
  by unfold_locales

interpretation key_ids: keyed_table k_id key_clash
  by unfold_locales (simp add: key_clash_def)

interpretation key_pubkeys: keyed_table k_pubkey key_clash
  by unfold_locales (simp add: key_clash_def)

definition pg_row :: "string \<Rightarrow> string \<Rightarrow> pg \<Rightarrow> (permission \<times> bool) option" where
  "pg_row k u d = row_of grant_key (k, u) (pg_grants d)"

lemma pg_row_key: "pg_row k u d = Some g \<Longrightarrow> grant_key g = (k, u) \<and> g \<in> set (pg_grants d)"
  using row_of_Some unfolding pg_row_def by metis

lemma live_row_eq:
  assumes "grants.keyed (pg_grants d)"
  shows "live_row k u d = (case pg_row k u d of None \<Rightarrow> None | Some g \<Rightarrow> if pm_revoked_at (fst g) = None then Some (fst g) else None)"
proof (cases "pg_row k u d")
  case None
  then have "find (\<lambda>g. grant_key g = (k, u) \<and> pm_revoked_at (fst g) = None) (pg_grants d) = None"
    unfolding pg_row_def row_of_None find_None_iff by blast
  with None show ?thesis by (simp add: live_row_def)
next
  case (Some g)
  have only: "g' = g" if "g' \<in> set (pg_grants d)" "grant_key g' = (k, u)" for g'
    using grants.row_of_mem [OF assms that(1)] that(2) Some by (simp add: pg_row_def)
  show ?thesis
  proof (cases "find (\<lambda>g. grant_key g = (k, u) \<and> pm_revoked_at (fst g) = None) (pg_grants d)")
    case None
    then have "pm_revoked_at (fst g) \<noteq> None" using pg_row_key [OF Some] by (cases g) (auto simp: find_None_iff)
    with None Some show ?thesis by (simp add: live_row_def)
  next
    case (Some h)
    then have "h \<in> set (pg_grants d)" "grant_key h = (k, u)" "pm_revoked_at (fst h) = None" unfolding find_Some_iff by auto
    with only Some \<open>pg_row k u d = Some g\<close> show ?thesis by (auto simp: live_row_def)
  qed
qed

lemma pgGetPermission_Inr:
  assumes "grants.keyed (pg_grants d)"
  shows "pgGetPermission now k u d = Inr p \<longleftrightarrow>
    (\<exists>s. pg_row k u d = Some (p, s)) \<and> pm_revoked_at p = None \<and> (\<forall>t. pm_expires_at p = Some t \<longrightarrow> now \<le> t)"
  unfolding pgGetPermission_def live_row_eq [OF assms]
  by (auto split: option.splits if_splits)

text \<open>The rows after each operation.\<close>

definition pg_rival :: "time \<Rightarrow> permission \<Rightarrow> bool \<Rightarrow> permission \<Rightarrow> bool" where
  "pg_rival dbnow perm dl p \<longleftrightarrow> pm_key_id p = pm_key_id perm \<and> pm_user_pubkey p \<noteq> pm_user_pubkey perm \<and>
     pm_slot p = pm_slot perm \<and> pm_revoked_at p = None \<and> (dl \<or> lapsed dbnow p)"

lemma pg_displace_map:
  "pg_displace dbnow perm dl t =
     map (\<lambda>(p, s). (if pg_rival dbnow perm dl p then p\<lparr>pm_revoked_at := Some dbnow, pm_revoked_by := pm_user_pubkey perm\<rparr> else p, s)) t"
proof -
  have "(dl \<or> (case pm_expires_at p of None \<Rightarrow> False | Some e \<Rightarrow> e \<le> dbnow)) \<longleftrightarrow> (dl \<or> lapsed dbnow p)" for p
    by (auto simp: lapsed_def split: option.split)
  then show ?thesis unfolding pg_displace_def sql_update_def pg_rival_def fst_conv by (intro map_cong) (auto split: prod.splits)
qed

lemma row_of_displace:
  "row_of grant_key ku (pg_displace dbnow perm dl t) = map_option
     (\<lambda>(p, s). (if pg_rival dbnow perm dl p then p\<lparr>pm_revoked_at := Some dbnow, pm_revoked_by := pm_user_pubkey perm\<rparr> else p, s))
     (row_of grant_key ku t)"
  unfolding pg_displace_map by (rule row_of_map) (auto simp: grant_key_def)

lemma displace_keyed: "grants.keyed t \<Longrightarrow> grants.keyed (pg_displace dbnow perm dl t)"
  unfolding pg_displace_def by (rule grants.update_keyed) (auto simp: grant_key_def)

lemma upsert_Some:
  assumes "pg_upsert perm single t = Some t'" "grants.keyed t"
  shows "grants.keyed t'"
    "row_of grant_key (k, u) t' = (if (k, u) = (pm_key_id perm, pm_user_pubkey perm)
       then Some (case row_of grant_key (k, u) t of
           None \<Rightarrow> perm\<lparr>pm_delegate_pubkey := '''', pm_revoked_at := None, pm_revoked_by := ''''\<rparr>
         | Some g \<Rightarrow> regranted perm (fst g), single)
       else row_of grant_key (k, u) t)"
proof -
  let ?ku = "(pm_key_id perm, pm_user_pubkey perm)"
  let ?same = "\<lambda>g. grant_key g = ?ku"
  let ?fresh = "(perm\<lparr>pm_delegate_pubkey := '''', pm_revoked_at := None, pm_revoked_by := ''''\<rparr>, single)"
  have fresh: "grant_key ?fresh = ?ku" by (simp add: grant_key_def)
  have same: "grant_key (regranted perm (fst g), single) = grant_key g" for g by (simp add: grant_key_def regranted_def)
  have t': "t' = (if list_ex ?same t then fst (sql_update ?same (\<lambda>g. (regranted perm (fst g), single)) t) else t @ [?fresh])"
    using assms(1) by (auto simp: pg_upsert_def Let_def split: if_splits)
  have "grants.keyed t' \<and> row_of grant_key (k, u) t' = (if (k, u) = ?ku
       then Some (case row_of grant_key (k, u) t of None \<Rightarrow> fst ?fresh | Some g \<Rightarrow> regranted perm (fst g), single)
       else row_of grant_key (k, u) t)"
  proof (cases "list_ex ?same t")
    case True
    then have "row_of grant_key ?ku t \<noteq> None" unfolding row_of_None list_ex_iff by blast
    moreover have "grants.keyed t'"
      using True t' grants.update_keyed [OF assms(2), of "\<lambda>g. (regranted perm (fst g), single)", OF same] by simp
    moreover have "row_of grant_key (k, u) t' =
        map_option (\<lambda>g. if ?same g then (regranted perm (fst g), single) else g) (row_of grant_key (k, u) t)"
      using True t' grants.update_lookup [of "\<lambda>g. (regranted perm (fst g), single)", OF same] by simp
    ultimately show ?thesis
      using row_of_Some [of grant_key "(k, u)" t] by (cases "row_of grant_key (k, u) t") auto
  next
    case False
    then have "row_of grant_key ?ku t = None" unfolding row_of_None list_ex_iff by blast
    moreover have "grants.keyed (t @ [?fresh])"
      using False assms(2) fresh by (auto simp: grants.keyed_def list_ex_iff)
    ultimately show ?thesis using False t' fresh by (auto split: option.split)
  qed
  then show "grants.keyed t'" "row_of grant_key (k, u) t' = (if (k, u) = ?ku
       then Some (case row_of grant_key (k, u) t of None \<Rightarrow> perm\<lparr>pm_delegate_pubkey := '''', pm_revoked_at := None, pm_revoked_by := ''''\<rparr>
         | Some g \<Rightarrow> regranted perm (fst g), single)
       else row_of grant_key (k, u) t)" by (auto split: option.split)
qed

section \<open>What a grant allows\<close>

definition authority :: "permission \<Rightarrow> permission" where
  "authority p = p\<lparr>pm_delegate_pubkey := '''', pm_app_name := '''', pm_app_url := '''', pm_app_image := '''', pm_custom_name := '''',
     pm_created_at := None, pm_last_used_at := None, pm_revoked_by := '''',
     pm_revoked_at := (if pm_revoked_at p = None then None else Some 0)\<rparr>"

lemma authority_eqD:
  assumes "authority p = authority q"
  shows "pm_key_id p = pm_key_id q \<and> pm_user_pubkey p = pm_user_pubkey q \<and> pm_slot p = pm_slot q \<and>
    pm_expires_at p = pm_expires_at q \<and> pm_sliding_expiry p = pm_sliding_expiry q \<and> (pm_revoked_at p = None \<longleftrightarrow> pm_revoked_at q = None)"
  using assms by (cases p; cases q) (auto simp: authority_def split: if_splits)

lemma authority_changes:
  "authority (p\<lparr>pm_revoked_at := Some t, pm_revoked_by := b\<rparr>) = (authority p)\<lparr>pm_revoked_at := Some 0\<rparr>"
  "authority (p\<lparr>pm_expires_at := e\<rparr>) = (authority p)\<lparr>pm_expires_at := e\<rparr>"
  "authority (p\<lparr>pm_last_used_at := l\<rparr>) = authority p"
  "authority (p\<lparr>pm_custom_name := n\<rparr>) = authority p"
  by (simp_all add: authority_def)

lemma authority_regranted:
  "pm_key_id old = pm_key_id p \<Longrightarrow> pm_user_pubkey old = pm_user_pubkey p \<Longrightarrow> pm_revoked_at p = None \<Longrightarrow> authority (regranted p old) = authority p"
  "pm_revoked_at p = None \<Longrightarrow> authority (p\<lparr>pm_delegate_pubkey := '''', pm_revoked_at := None, pm_revoked_by := ''''\<rparr>) = authority p"
  by (cases p; cases old; simp add: authority_def regranted_def) (simp add: authority_def)

datatype grant_op =
    GoSet permission bool | GoUse string string | GoRenew string string time | GoName string string string | GoRevoke string string

fun mem_grant_op :: "time \<Rightarrow> grant_op \<Rightarrow> grant_store \<Rightarrow> grant_store" where
  "mem_grant_op now (GoSet perm dl) st = fst (setPermission now perm dl st)"
| "mem_grant_op now (GoUse k u) st = UpdatePermissionLastUsed now k u st"
| "mem_grant_op now (GoRenew k u t) st = fst (RenewPermission now k u t st)"
| "mem_grant_op now (GoName k u n) st = fst (UpdatePermissionName k u n st)"
| "mem_grant_op now (GoRevoke k u) st = DeletePermission k u st"

fun pg_grant_op :: "time \<Rightarrow> grant_op \<Rightarrow> pg \<Rightarrow> pg" where
  "pg_grant_op now (GoSet perm dl) d = fst (pgsetPermission now now perm dl d)"
| "pg_grant_op now (GoUse k u) d = pgUpdatePermissionLastUsed now k u d"
| "pg_grant_op now (GoRenew k u t) d = fst (pgRenewPermission now k u t d)"
| "pg_grant_op now (GoName k u n) d = fst (pgUpdatePermissionName k u n d)"
| "pg_grant_op now (GoRevoke k u) d = pgDeletePermission k u d"

text \<open>The grants of keys that the store holds; a new grant is not revoked.\<close>

fun grant_fits :: "(string \<rightharpoonup> 'a) \<Rightarrow> grant_op \<Rightarrow> bool" where
  "grant_fits ks (GoSet perm dl) \<longleftrightarrow> ks (pm_key_id perm) \<noteq> None \<and> pm_revoked_at perm = None"
| "grant_fits ks _ \<longleftrightarrow> True"

definition agree :: "grant_store \<Rightarrow> pg \<Rightarrow> bool" where
  "agree st d \<longleftrightarrow> grants.keyed (pg_grants d) \<and> (\<forall>k. distinct (map fst (grants_of k st))) \<and>
     (\<forall>pk. map_option (\<lambda>r. k_single_grant (deref st r)) (gs_by_pubkey st pk) =
           map_option k_single_grant (find (\<lambda>k. k_pubkey k = pk) (pg_keys d))) \<and>
     (\<forall>g \<in> set (pg_grants d). snd g = pg_single (pm_key_id (fst g)) d) \<and>
     (\<forall>k u. map_option authority (find_grant k u st) = map_option (authority \<circ> fst) (pg_row k u d))"

lemma agree_rows:
  assumes "agree st d"
  obtains (none) "find_grant k u st = None" "pg_row k u d = None"
  | (both) p g where "find_grant k u st = Some p" "pg_row k u d = Some g" "authority p = authority (fst g)" "pm_key_id p = k"
      "pm_user_pubkey p = u" "grant_key g = (k, u)" "g \<in> set (pg_grants d)"
proof -
  have m: "map_option authority (find_grant k u st) = map_option (authority \<circ> fst) (pg_row k u d)" using assms by (simp add: agree_def)
  show ?thesis
  proof (cases "pg_row k u d")
    case None
    with m none show ?thesis by simp
  next
    case (Some g)
    with m obtain p where p: "find_grant k u st = Some p" "authority p = authority (fst g)" by auto
    show ?thesis using pg_row_key [OF Some] authority_eqD [OF p(2)] by (intro both [OF p(1) Some p(2)]) (auto simp: grant_key_def)
  qed
qed

lemma agree_row:
  assumes ag: "agree st d" and p: "find_grant k u st = Some p"
  shows "\<exists>g \<in> set (pg_grants d). pg_row k u d = Some g \<and> authority p = authority (fst g) \<and> grant_key g = (k, u)"
  by (rule agree_rows [OF ag, of k u]) (use p in auto)

lemma pgset_eq:
  assumes "p = stored_perm now s perm" "s = pg_single (pm_key_id perm) d"
  shows "pgsetPermission now dbnow perm dl d = (if ValidateSlot (pm_slot p) \<noteq> Inr () then (d, Inl (Known ErrInvalidSlot))
    else case pg_upsert p s (if s then pg_displace dbnow p dl (pg_grants d) else pg_grants d) of
       None \<Rightarrow> (d, Inl (if \<not> dl then Known ErrSlotOccupied else UniqueViolation))
     | Some t \<Rightarrow> (d\<lparr>pg_grants := t\<rparr>, Inr ()))"
proof -
  have v: "ValidateSlot x = Inr () \<or> ValidateSlot x = Inl ErrInvalidSlot" for x by (simp add: ValidateSlot_def)
  define q where "q = (if pm_slot perm = '''' then perm\<lparr>pm_slot := SlotDefault\<rparr> else perm)"
  have q: "pm_key_id q = pm_key_id perm" by (simp add: q_def)
  have p: "p = (let c = (if pm_created_at q = None then q\<lparr>pm_created_at := Some now\<rparr> else q) in if s then c else defaultSlidingExpiry c now)"
    by (simp add: assms(1) stored_perm_def q_def [symmetric])
  have "pm_slot p = pm_slot q" by (simp add: p Let_def defaultSlidingExpiry_def)
  then show ?thesis
    using v [of "pm_slot q"] unfolding pgsetPermission_def q_def [symmetric] assms(2)
    by (auto simp: Let_def p q assms(2) split: if_splits)
qed

lemma upsert_None:
  "pg_upsert p s t = None \<longleftrightarrow> s \<and>
     (\<exists>g \<in> set t. grant_key g \<noteq> (pm_key_id p, pm_user_pubkey p) \<and> snd g \<and> pm_revoked_at (fst g) = None \<and>
        pm_key_id (fst g) = pm_key_id p \<and> pm_slot (fst g) = pm_slot p)"
  by (auto simp: pg_upsert_def Let_def list_ex_iff slot_clash_def)

text \<open>\<open>agree\<close>, when only the grants change.\<close>

lemma agreeI:
  assumes "agree st d" "gs_by_pubkey st' = gs_by_pubkey st" "gs_heap st' = gs_heap st" "pg_keys d' = pg_keys d"
    "grants.keyed (pg_grants d')" "\<And>k. distinct (map fst (grants_of k st'))" "\<forall>g \<in> set (pg_grants d'). snd g = pg_single (pm_key_id (fst g)) d"
    "\<And>k u. map_option authority (find_grant k u st') = map_option (authority \<circ> fst) (pg_row k u d')"
  shows "agree st' d'"
  using assms by (simp add: agree_def deref_def pg_single_def)

lemma agree_set:
  assumes ag: "agree st d" and key: "gs_by_pubkey st (pm_key_id perm) = Some r" and new: "pm_revoked_at perm = None"
  shows "agree (fst (setPermission now perm dl st)) (fst (pgsetPermission now now perm dl d))"
proof -
  define s where "s = k_single_grant (deref st r)"
  have s: "s = pg_single (pm_key_id perm) d"
  proof -
    have "map_option (\<lambda>r. k_single_grant (deref st r)) (gs_by_pubkey st (pm_key_id perm)) =
        map_option k_single_grant (find (\<lambda>k. k_pubkey k = pm_key_id perm) (pg_keys d))" using ag by (simp add: agree_def)
    then show ?thesis using key
      by (cases "find (\<lambda>k. k_pubkey k = pm_key_id perm) (pg_keys d)") (auto simp: pg_single_def s_def)
  qed
  define p where "p = stored_perm now s perm"
  let ?k = "pm_key_id perm" and ?u = "pm_user_pubkey perm" and ?t = "if s then pg_displace now p dl (pg_grants d) else pg_grants d"
  have p: "pm_key_id p = ?k" "pm_user_pubkey p = ?u" "pm_revoked_at p = None" using new by (simp_all add: p_def)
  have keyed: "grants.keyed (pg_grants d)" and flags: "\<And>g. g \<in> set (pg_grants d) \<Longrightarrow> snd g = pg_single (pm_key_id (fst g)) d"
    using ag by (simp_all add: agree_def)
  have t: "grants.keyed ?t" "\<And>g. g \<in> set ?t \<Longrightarrow> snd g = pg_single (pm_key_id (fst g)) d"
  proof -
    show "grants.keyed ?t" using keyed displace_keyed by auto
    show "snd g = pg_single (pm_key_id (fst g)) d" if "g \<in> set ?t" for g
      using that flags by (cases s) (force simp: pg_displace_map split: if_splits prod.splits)+
  qed
  note mem = setPermission_eq [OF key s_def p_def refl refl, of dl]
  note pgs = pgset_eq [OF p_def s, of now dl]
  show ?thesis
  proof (cases "ValidateSlot (pm_slot p) \<noteq> Inr ()")
    case True
    with mem pgs ag show ?thesis by simp
  next
    case valid: False
    have dist: "distinct (map fst (grants_of k st))" for k using ag by (simp add: agree_def)
    have found: "find_grant ?k v st = Some q \<longleftrightarrow> (v, q) \<in> set (grants_of ?k st)" for v q
      using dist by (simp add: find_grant_def)
    show ?thesis
    proof (cases "s \<and> \<not> dl \<and> slot_taken now p (grants_of ?k st)")
      case True
      then obtain v q where q: "find_grant ?k v st = Some q" "v \<noteq> ?u" "pm_revoked_at q = None" "pm_slot q = pm_slot p" "\<not> lapsed now q"
        unfolding found by (auto simp: slot_taken_def list_ex_iff rival_def p)
      obtain g where g': "g \<in> set (pg_grants d)" "grant_key g = (?k, v)" "authority q = authority (fst g)"
        using agree_row [OF ag q(1)] by blast
      have g: "g \<in> set (pg_grants d)" "grant_key g = (?k, v)" "pm_key_id (fst g) = ?k" "pm_slot (fst g) = pm_slot p"
          "pm_revoked_at (fst g) = None" "\<not> lapsed now (fst g)"
        using g' q authority_eqD [OF g'(3)] by (simp_all add: lapsed_def grant_key_def)
      have "\<not> pg_rival now p dl (fst g)" using True g(6) by (simp add: pg_rival_def)
      let ?f = "\<lambda>(q, s). (if pg_rival now p dl q then q\<lparr>pm_revoked_at := Some now, pm_revoked_by := pm_user_pubkey p\<rparr> else q, s)"
      have "?f g = g" using \<open>\<not> pg_rival now p dl (fst g)\<close> by (simp add: case_prod_beta)
      then have "g \<in> ?f ` set (pg_grants d)" using imageI [OF g(1), of ?f] by metis
      then have "g \<in> set ?t" using True by (simp add: pg_displace_map)
      moreover have "snd g" using flags [OF g(1)] g(3) True s by simp
      ultimately have "pg_upsert p s ?t = None" unfolding upsert_None using g q(2) True by (auto simp: p intro!: bexI [of _ g])
      then have "fst (pgsetPermission now now perm dl d) = d" using pgs valid by simp
      moreover have "agree (store_grants ?k (grants_of ?k st) st) d"
        using agreeI [OF ag, of "store_grants ?k (grants_of ?k st) st" d] ag by (auto simp: agree_def find_grant_def)
      ultimately show ?thesis using mem valid True by simp
    next
      case False
      have "pg_upsert p s ?t \<noteq> None"
      proof
        assume "pg_upsert p s ?t = None"
        then obtain g where g: "s" "g \<in> set ?t" "grant_key g \<noteq> (?k, ?u)" "pm_revoked_at (fst g) = None" "pm_key_id (fst g) = ?k"
          "pm_slot (fst g) = pm_slot p" unfolding upsert_None p by blast
        then have g0: "g \<in> set (pg_grants d)" "\<not> pg_rival now p dl (fst g)"
          by (auto simp: pg_displace_map split: if_splits)
        obtain v where v: "grant_key g = (?k, v)" "v \<noteq> ?u" "pm_user_pubkey (fst g) = v" using g(3,5) by (auto simp: grant_key_def)
        have "\<not> dl" "\<not> lapsed now (fst g)" using g0(2) g v(2,3) by (auto simp: pg_rival_def p)
        moreover have "pg_row ?k v d = Some g" using grants.row_of_mem [OF keyed g0(1)] v(1) by (simp add: pg_row_def)
        then obtain q where "find_grant ?k v st = Some q" "authority q = authority (fst g)"
          using agree_rows [OF ag, of ?k v] by (metis option.discI option.inject)
        ultimately have "\<not> dl \<and> slot_taken now p (grants_of ?k st)"
          using v(2) g authority_eqD [of q "fst g"] unfolding found by (auto simp: slot_taken_def list_ex_iff rival_def lapsed_def p intro!: bexI [of _ "(v, q)"])
        with False g(1) show False by simp
      qed
      then obtain t' where t': "pg_upsert p s ?t = Some t'" by auto
      note up = upsert_Some [OF t' t(1)]
      define ps where "ps = AList.update ?u p (if s then map (displace now p) (grants_of ?k st) else grants_of ?k st)"
      have pgd: "fst (pgsetPermission now now perm dl d) = d\<lparr>pg_grants := t'\<rparr>" using pgs valid t' by simp
      have mm: "fst (setPermission now perm dl st) = store_grants ?k ps st" using mem valid False by (auto simp: ps_def)
      have "distinct (map fst ps)"
        using dist [of ?k] by (auto simp: ps_def distinct_update comp_def displace_def if_distrib case_prod_beta cong: if_cong)
      moreover have "snd g = pg_single (pm_key_id (fst g)) d" if "g \<in> set t'" for g
      proof -
        obtain k u where ku: "grant_key g = (k, u)" by (cases "grant_key g")
        then have "row_of grant_key (k, u) t' = Some g" using grants.row_of_mem [OF up(1) that] by simp
        then show ?thesis
          using up(2) [of k u] ku s t(2) row_of_Some [of grant_key "(k, u)" ?t g] by (auto simp: p grant_key_def split: if_splits)
      qed
      moreover have "map_option authority (find_grant k u (store_grants ?k ps st)) = map_option (authority \<circ> fst) (pg_row k u (d\<lparr>pg_grants := t'\<rparr>))" for k u
      proof (cases "k = ?k \<and> u = ?u")
        case True
        then show ?thesis
          using up(2) [of k u] row_of_Some [of grant_key "(k, u)" ?t] authority_regranted p
          by (auto simp: ps_def pg_row_def update_conv' grant_key_def split: option.split)
      next
        case False
        have same: "row_of grant_key (k, u) t' = row_of grant_key (k, u) ?t" using up(2) [of k u] False by (auto simp: p)
        show ?thesis
        proof (rule agree_rows [OF ag, of k u])
          assume "find_grant k u st = None" "pg_row k u d = None"
          then show ?thesis
            using False same by (auto simp: ps_def pg_row_def row_of_displace find_grant_def update_conv' map_of_displace)
        next
          fix q g
          assume A: "find_grant k u st = Some q" "pg_row k u d = Some g" "authority q = authority (fst g)" "pm_key_id q = k"
            "pm_user_pubkey q = u" "grant_key g = (k, u)"
          have lapse: "dl \<or> lapsed now q" if "s" "k = ?k" "rival p (u, q)"
            using that \<open>\<not> (s \<and> \<not> dl \<and> slot_taken now p (grants_of ?k st))\<close> A(1) found [of u q]
            by (auto simp: slot_taken_def list_ex_iff)
          have riv: "pg_rival now p dl (fst g) \<longleftrightarrow> k = ?k \<and> rival p (u, q)" if s
            using A lapse [OF that] False authority_eqD [OF A(3)] by (auto simp: pg_rival_def rival_def grant_key_def lapsed_def p)
          show ?thesis
            using False same A riv
            by (cases g) (auto simp: ps_def pg_row_def row_of_displace find_grant_def update_conv' map_of_displace displace_def authority_changes)
        qed
      qed
      ultimately show ?thesis unfolding mm pgd using up(1) dist by (intro agreeI [OF ag]) simp_all
    qed
  qed
qed

lemma agree_put:
  assumes ag: "agree st d" and row: "find_grant k u st = Some p"
    and f: "\<And>g. grant_key (f g) = grant_key g" "\<And>g. snd (f g) = snd g"
    and P: "\<And>g. P g \<Longrightarrow> grant_key g = (k, u)"
    and eff: "\<And>g. pg_row k u d = Some g \<Longrightarrow> authority p = authority (fst g) \<Longrightarrow> authority p' = authority (fst (if P g then f g else g))"
  shows "agree (put_grant k u p' st) (d\<lparr>pg_grants := fst (sql_update P f (pg_grants d))\<rparr>)"
proof (rule agreeI [OF ag])
  have keyed: "grants.keyed (pg_grants d)" and dist: "\<And>k. distinct (map fst (grants_of k st))"
    and flags: "\<forall>g \<in> set (pg_grants d). snd g = pg_single (pm_key_id (fst g)) d" using ag by (simp_all add: agree_def)
  show "grants.keyed (pg_grants (d\<lparr>pg_grants := fst (sql_update P f (pg_grants d))\<rparr>))"
    using grants.update_keyed [OF keyed f(1)] by simp
  show "distinct (map fst (grants_of j (put_grant k u p' st)))" for j
    using dist [of k] dist [of j] by (simp add: put_grant_def distinct_update)
  have "pm_key_id (fst (f g)) = pm_key_id (fst g)" for g using f(1) [of g] by (simp add: grant_key_def)
  then show "\<forall>g \<in> set (pg_grants (d\<lparr>pg_grants := fst (sql_update P f (pg_grants d))\<rparr>)). snd g = pg_single (pm_key_id (fst g)) d"
    using flags by (auto simp: set_sql_update f(2))
  show "map_option authority (find_grant k' u' (put_grant k u p' st)) =
      map_option (authority \<circ> fst) (pg_row k' u' (d\<lparr>pg_grants := fst (sql_update P f (pg_grants d))\<rparr>))" for k' u'
  proof (cases "k' = k \<and> u' = u")
    case True
    obtain g where "pg_row k u d = Some g" "authority p = authority (fst g)" using agree_row [OF ag row] by blast
    then show ?thesis using True eff grants.update_lookup [OF f(1), of "(k, u)" P "pg_grants d"] by (simp add: pg_row_def)
  next
    case False
    have "\<not> P g" if "pg_row k' u' d = Some g" for g using pg_row_key [OF that] P [of g] False by auto
    then have "pg_row k' u' (d\<lparr>pg_grants := fst (sql_update P f (pg_grants d))\<rparr>) = pg_row k' u' d"
      using grants.update_lookup [OF f(1), of "(k', u')" P "pg_grants d"] by (cases "pg_row k' u' d") (simp_all add: pg_row_def)
    then show ?thesis using False ag by (auto simp: agree_def)
  qed
qed (simp_all add: put_grant_def)

lemma agree_none:
  assumes ag: "agree st d" and row: "find_grant k u st = None" and P: "\<And>g. P g \<Longrightarrow> grant_key g = (k, u)"
  shows "agree st (d\<lparr>pg_grants := fst (sql_update P f (pg_grants d))\<rparr>)"
proof -
  have "pg_row k u d = None" using agree_rows [OF ag, of k u] row by (metis option.distinct(1))
  then have "\<forall>g \<in> set (pg_grants d). \<not> P g" using P unfolding pg_row_def row_of_None by blast
  then show ?thesis using ag by (simp add: sql_update_none)
qed

lemma find_grant_cases:
  "UpdatePermissionLastUsed now k u st = (case find_grant k u st of None \<Rightarrow> st | Some perm \<Rightarrow>
     put_grant k u (let perm = perm\<lparr>pm_last_used_at := Some now\<rparr> in
       if pm_revoked_at perm = None \<and> slideDue (pm_sliding_expiry perm) (pm_expires_at perm) now
       then perm\<lparr>pm_expires_at := Some (now + SlidingGrantTTL)\<rparr> else perm) st)"
  "UpdatePermissionName k u n st = (case find_grant k u st of None \<Rightarrow> (st, Inl ErrKeyNotFound)
     | Some perm \<Rightarrow> (put_grant k u (perm\<lparr>pm_custom_name := n\<rparr>) st, Inr ()))"
  by (auto simp: UpdatePermissionLastUsed_def UpdatePermissionName_def find_grant_def grants_of_def Let_def split: option.split)

lemma agree_use:
  assumes ag: "agree st d"
  shows "agree (UpdatePermissionLastUsed now k u st) (pgUpdatePermissionLastUsed now k u d)"
proof (cases "find_grant k u st")
  case None
  then show ?thesis unfolding find_grant_cases pgUpdatePermissionLastUsed_def using agree_none [OF ag] by simp
next
  case (Some p)
  show ?thesis unfolding find_grant_cases pgUpdatePermissionLastUsed_def Some option.case
  proof (rule agree_put [OF ag Some])
    fix g assume "pg_row k u d = Some g" "authority p = authority (fst g)"
    then show "authority (let perm = p\<lparr>pm_last_used_at := Some now\<rparr> in
       if pm_revoked_at perm = None \<and> slideDue (pm_sliding_expiry perm) (pm_expires_at perm) now
       then perm\<lparr>pm_expires_at := Some (now + SlidingGrantTTL)\<rparr> else perm) =
      authority (fst (if grant_key g = (k, u) then (case g of (p, s) \<Rightarrow> (p\<lparr>pm_last_used_at := Some now,
          pm_expires_at := (case pm_expires_at p of
              None \<Rightarrow> None
            | Some e \<Rightarrow> if pm_sliding_expiry p \<and> pm_revoked_at p = None \<and> e > now \<and>
                  e < now + (SlidingGrantTTL - SlidingGrantRefreshEvery)
                then Some (now + SlidingGrantTTL) else Some e)\<rparr>, s)) else g))"
      using authority_eqD [of p "fst g"] pg_row_key [of k u d g]
      by (cases g) (auto simp: Let_def slideDue_def authority_changes split: option.split; simp add: authority_def)
  qed (auto simp: grant_key_def split: prod.splits)
qed

lemma agree_renew:
  assumes ag: "agree st d"
  shows "agree (fst (RenewPermission now k u t st)) (fst (pgRenewPermission now k u t d)) \<and>
    (snd (RenewPermission now k u t st) = Inr () \<longleftrightarrow> snd (pgRenewPermission now k u t d) = Inr ())"
proof -
  let ?P = "\<lambda>g. grant_key g = (k, u) \<and> pm_revoked_at (fst g) = None \<and>
      (case pm_expires_at (fst g) of None \<Rightarrow> False | Some e \<Rightarrow> e > now)"
  let ?f = "\<lambda>(p, s). (p\<lparr>pm_expires_at := Some t\<rparr>, s)"
  have keyed: "grants.keyed (pg_grants d)" using ag by (simp add: agree_def)
  have renew: "fst (pgRenewPermission now k u t d) = d\<lparr>pg_grants := fst (sql_update ?P ?f (pg_grants d))\<rparr>"
    "snd (pgRenewPermission now k u t d) = Inr () \<longleftrightarrow> (\<exists>g \<in> set (pg_grants d). ?P g)"
    using sql_counts(1) [of ?P ?f "pg_grants d"] by (auto simp: pgRenewPermission_def rows_error_def case_prod_beta)
  show ?thesis
  proof (cases "find_grant k u st")
    case None
    then have "pg_row k u d = None" using agree_rows [OF ag, of k u] by (metis option.distinct(1))
    then have "\<not> (\<exists>g \<in> set (pg_grants d). ?P g)" unfolding pg_row_def row_of_None by blast
    then show ?thesis
      using None renew agree_none [OF ag None, of ?P ?f] by (simp add: RenewPermission_def)
  next
    case (Some p)
    obtain g where g: "g \<in> set (pg_grants d)" "pg_row k u d = Some g" "authority p = authority (fst g)" "grant_key g = (k, u)"
      using agree_row [OF ag Some] by blast
    have only: "g' = g" if "g' \<in> set (pg_grants d)" "grant_key g' = (k, u)" for g'
      using grants.row_of_mem [OF keyed that(1)] that(2) g(2) by (simp add: pg_row_def)
    define live where "live \<longleftrightarrow> pm_revoked_at p = None \<and> (case pm_expires_at p of None \<Rightarrow> False | Some e \<Rightarrow> e > now)"
    have Pg: "?P g \<longleftrightarrow> live" using g(4) authority_eqD [OF g(3)] by (simp add: live_def)
    have "(\<exists>g \<in> set (pg_grants d). ?P g) \<longleftrightarrow> ?P g" using g(1) only by blast
    then have P: "(\<exists>g \<in> set (pg_grants d). ?P g) \<longleftrightarrow> live" "?P g \<longleftrightarrow> live" using Pg by blast+
    have mem: "RenewPermission now k u t st = (if live then (put_grant k u (p\<lparr>pm_expires_at := Some t\<rparr>) st, Inr ())
        else (st, Inl ErrPermissionExpired))"
      by (auto simp: RenewPermission_def Some live_def split: option.splits)
    show ?thesis
    proof (cases live)
      case True
      have "agree (put_grant k u (p\<lparr>pm_expires_at := Some t\<rparr>) st) (d\<lparr>pg_grants := fst (sql_update ?P ?f (pg_grants d))\<rparr>)"
      proof (rule agree_put [OF ag Some])
        fix h assume "pg_row k u d = Some h" "authority p = authority (fst h)"
        then show "authority (p\<lparr>pm_expires_at := Some t\<rparr>) = authority (fst (if ?P h then ?f h else h))"
          using True P(2) g(2) by (cases h) (simp add: authority_changes)
      qed (auto simp: grant_key_def split: prod.splits)
      then show ?thesis using True renew P(1) mem by simp
    next
      case False
      then have "\<forall>g \<in> set (pg_grants d). \<not> ?P g" using P(1) by blast
      then have "fst (sql_update ?P ?f (pg_grants d)) = pg_grants d" by (rule sql_update_none)
      then show ?thesis using False renew P(1) mem ag by simp
    qed
  qed
qed

lemma agree_name:
  assumes ag: "agree st d"
  shows "agree (fst (UpdatePermissionName k u n st)) (fst (pgUpdatePermissionName k u n d))"
proof (cases "find_grant k u st")
  case None
  then show ?thesis unfolding find_grant_cases pgUpdatePermissionName_def using agree_none [OF ag, of k u "\<lambda>g. grant_key g = (k, u)"]
    by (simp add: case_prod_beta)
next
  case (Some p)
  have "agree (put_grant k u (p\<lparr>pm_custom_name := n\<rparr>) st)
      (d\<lparr>pg_grants := fst (sql_update (\<lambda>g. grant_key g = (k, u)) (\<lambda>(p, s). (p\<lparr>pm_custom_name := n\<rparr>, s)) (pg_grants d))\<rparr>)"
    by (rule agree_put [OF ag Some]) (auto simp: grant_key_def authority_changes split: prod.splits)
  then show ?thesis unfolding find_grant_cases pgUpdatePermissionName_def Some by (simp add: case_prod_beta)
qed

lemma agree_revoke:
  assumes ag: "agree st d"
  shows "agree (DeletePermission k u st) (pgDeletePermission k u d)"
proof (rule agreeI [OF ag])
  have keyed: "grants.keyed (pg_grants d)" and dist: "\<And>k. distinct (map fst (grants_of k st))"
    and flags: "\<forall>g \<in> set (pg_grants d). snd g = pg_single (pm_key_id (fst g)) d"
    and rows: "\<And>k u. map_option authority (find_grant k u st) = map_option (authority \<circ> fst) (pg_row k u d)"
    using ag by (simp_all add: agree_def)
  have g: "grants_of k' (DeletePermission k u st) = (if k' = k then AList.delete u (grants_of k st) else grants_of k' st)" for k'
    by (auto simp: DeletePermission_def grants_of_def split: option.split)
  show "grants.keyed (pg_grants (pgDeletePermission k u d))" using grants.delete_keyed [OF keyed] by (simp add: pgDeletePermission_def)
  show "distinct (map fst (grants_of k' (DeletePermission k u st)))" for k' using dist g by (simp add: distinct_delete)
  show "\<forall>g \<in> set (pg_grants (pgDeletePermission k u d)). snd g = pg_single (pm_key_id (fst g)) d"
    using flags by (simp add: pgDeletePermission_def)
  show "map_option authority (find_grant k' u' (DeletePermission k u st)) = map_option (authority \<circ> fst) (pg_row k' u' (pgDeletePermission k u d))"
    for k' u'
    using rows [of k' u'] pg_row_key [of k' u' d] grants.delete_lookup [OF keyed, of "(k', u')" "\<lambda>g. grant_key g = (k, u)"]
    by (auto simp: pgDeletePermission_def pg_row_def find_grant_def g AList.delete_conv' split: option.splits)
qed (simp_all add: DeletePermission_def pgDeletePermission_def split: option.split)


text \<open>One step, and a run.\<close>

lemma agree_step:
  assumes ag: "agree st d" and "grant_fits (gs_by_pubkey st) op"
  shows "agree (mem_grant_op now op st) (pg_grant_op now op d)"
proof (cases op)
  case (GoSet perm dl)
  then show ?thesis using assms by (auto intro: agree_set [OF ag])
qed (simp_all add: agree_use agree_renew agree_name agree_revoke ag)

lemma mem_grant_keys: "gs_by_pubkey (mem_grant_op now op st) = gs_by_pubkey st"
proof (cases op)
  case (GoSet perm dl)
  have "gs_by_pubkey (fst (setPermission now perm dl st)) = gs_by_pubkey st"
  proof (cases "gs_by_pubkey st (pm_key_id perm)")
    case None
    then show ?thesis by (simp add: setPermission_no_key)
  next
    case (Some r)
    then show ?thesis by (simp add: setPermission_eq [OF Some refl refl refl refl])
  qed
  with GoSet show ?thesis by simp
qed (simp_all add: find_grant_cases RenewPermission_def DeletePermission_def put_grant_def split: option.split)

lemma agree_run:
  "agree st d \<Longrightarrow> \<forall>(now, op) \<in> set ops. grant_fits (gs_by_pubkey st) op \<Longrightarrow>
   agree (foldl (\<lambda>st (now, op). mem_grant_op now op st) st ops) (foldl (\<lambda>d (now, op). pg_grant_op now op d) d ops)"
proof (induction ops arbitrary: st d)
  case (Cons e ops)
  obtain now op where e: "e = (now, op)" by (cases e)
  have "agree (mem_grant_op now op st) (pg_grant_op now op d)" using Cons.prems by (intro agree_step) (auto simp: e)
  then show ?case using Cons.IH Cons.prems(2) by (simp add: e mem_grant_keys)
qed simp

lemma agree_start:
  assumes "gs_permissions st = Map.empty" "pg_grants d = []"
    "\<And>pk. map_option (\<lambda>r. k_single_grant (deref st r)) (gs_by_pubkey st pk) =
       map_option k_single_grant (find (\<lambda>k. k_pubkey k = pk) (pg_keys d))"
  shows "agree st d"
  using assms by (simp add: agree_def grants.keyed_def grants_of_def find_grant_def pg_row_def)

lemma agree_answers:
  assumes ag: "agree st d"
  shows "(\<exists>p. GetPermission now k u st = Inr p \<and> authority p = a) \<longleftrightarrow> (\<exists>q. pgGetPermission now k u d = Inr q \<and> authority q = a)"
proof -
  have keyed: "grants.keyed (pg_grants d)" using ag by (simp add: agree_def)
  show ?thesis
  proof (rule agree_rows [OF ag, of k u])
    assume "find_grant k u st = None" "pg_row k u d = None"
    then show ?thesis by (simp add: GetPermission_Inr pgGetPermission_Inr [OF keyed])
  next
    fix p g assume r: "find_grant k u st = Some p" "pg_row k u d = Some g" "authority p = authority (fst g)"
    have "pm_expires_at p = pm_expires_at (fst g)" "pm_revoked_at p = None \<longleftrightarrow> pm_revoked_at (fst g) = None"
      using authority_eqD [OF r(3)] by simp_all
    then show ?thesis using r by (cases g) (auto simp: GetPermission_Inr pgGetPermission_Inr [OF keyed])
  qed
qed

section \<open>Properties\<close>

text \<open>
  C36. The Postgres store implements the in-memory store on grants. From states that agree (for instance
  the same keys and no grants), after any run of grants set, displaced, used, renewed, renamed and revoked
  on existing keys, at the same times, \<open>GetPermission\<close> finds a live grant in the one exactly when it
  does in the other, with the same slot, methods, kinds, expiry, approval and policy (\<open>authority\<close> drops
  only what is kept for display).
\<close>

theorem pg_grants_refine:
  assumes "agree st d" and "\<forall>(t, op) \<in> set ops. grant_fits (gs_by_pubkey st) op"
  shows "(\<exists>p. GetPermission now k u (foldl (\<lambda>st (t, op). mem_grant_op t op st) st ops) = Inr p \<and> authority p = a) \<longleftrightarrow>
    (\<exists>q. pgGetPermission now k u (foldl (\<lambda>d (t, op). pg_grant_op t op d) d ops) = Inr q \<and> authority q = a)"
  using agree_answers [OF agree_run [OF assms]] .

definition toy_mem0 :: grant_store where
  "toy_mem0 = \<lparr>gs_heap = [1 \<mapsto> toy_key ''role'' True, 2 \<mapsto> toy_key ''user'' False], gs_keys = [(''ro'', 1), (''us'', 2)],
     gs_by_pubkey = [''role'' \<mapsto> 1, ''user'' \<mapsto> 2], gs_by_name = Map.empty, gs_permissions = Map.empty\<rparr>"

definition toy_pg :: pg where
  "toy_pg = \<lparr>pg_accounts = [], pg_keys = [toy_key ''role'' True, toy_key ''user'' False], pg_grants = [], pg_sessions = [],
     pg_policies = [], pg_rules = [], pg_tokens = [], pg_requests = [], pg_web_sessions = [], pg_secrets = [], pg_settings = [],
     pg_frost_keys = [], pg_frost_shares = [], pg_user_shares = [], pg_consents = [], pg_passkeys = [], pg_webauthn = [], pg_recovery = [],
     pg_lightning_keys = [], pg_lightning = [], pg_seals = [], pg_retained = [], pg_platform = None\<rparr>"

lemma toy_key_sel [simp]:
  "k_pubkey (toy_key p s) = p" "k_single_grant (toy_key p s) = s" "k_id (toy_key p s) = take 2 p"
  by (simp_all add: toy_key_def)

lemma toy_agree: "agree toy_mem0 toy_pg"
  by (rule agree_start) (auto simp: toy_mem0_def toy_pg_def deref_def)

definition toy_grants :: "(time \<times> grant_op) list" where
  "toy_grants = [(10, GoSet (toy_perm ''role'' ''alice'') True), (20, GoSet (toy_perm ''role'' ''bob'') True), (21, GoUse ''role'' ''bob''),
     (22, GoSet (toy_perm ''user'' ''bob'') True), (23, GoRevoke ''user'' ''bob'')]"

theorem pg_grants_refine_witness:
  "(\<exists>q. pgGetPermission 30 ''role'' ''bob'' (foldl (\<lambda>d (t, op). pg_grant_op t op d) toy_pg toy_grants) = Inr q \<and>
     authority q = authority ((toy_perm ''role'' ''bob'')\<lparr>pm_slot := SlotDefault\<rparr>)) \<and>
   \<not> (\<exists>q. pgGetPermission 30 ''role'' ''alice'' (foldl (\<lambda>d (t, op). pg_grant_op t op d) toy_pg toy_grants) = Inr q \<and>
     authority q = authority ((toy_perm ''role'' ''alice'')\<lparr>pm_slot := SlotDefault\<rparr>))"
proof -
  let ?st = "foldl (\<lambda>st (t, op). mem_grant_op t op st) toy_mem0 toy_grants"
  have fits: "\<forall>(t, op) \<in> set toy_grants. grant_fits (gs_by_pubkey toy_mem0) op" by (simp add: toy_grants_def toy_mem0_def)
  have "case GetPermission 30 ''role'' ''bob'' ?st of Inl _ \<Rightarrow> False
      | Inr p \<Rightarrow> authority p = authority ((toy_perm ''role'' ''bob'')\<lparr>pm_slot := SlotDefault\<rparr>)" by code_simp
  then have bob: "\<exists>p. GetPermission 30 ''role'' ''bob'' ?st = Inr p \<and> authority p = authority ((toy_perm ''role'' ''bob'')\<lparr>pm_slot := SlotDefault\<rparr>)"
    by (auto split: sum.splits)
  have "isl (GetPermission 30 ''role'' ''alice'' ?st)" by code_simp
  then have alice: "\<not> (\<exists>p. GetPermission 30 ''role'' ''alice'' ?st = Inr p \<and> authority p = authority ((toy_perm ''role'' ''alice'')\<lparr>pm_slot := SlotDefault\<rparr>))"
    by auto
  show ?thesis using bob alice unfolding pg_grants_refine [OF toy_agree fits] by blast
qed

end
