(* ===== verification/PgLogins.thy ===== *)
theory PgLogins
  imports PgAccounts PgGrants
begin

text \<open>
  The Postgres store, the tables of the other ways to sign in: passkeys and their ceremonies, recovery
  challenges, Lightning keys and challenges; the objects that account deletion left behind; and the two
  repairs of \<open>migrate\<close> that run at every start.
\<close>

section \<open>Passkeys\<close>

definition pgCreatePasskeyCredential :: "passkey \<Rightarrow> pg \<Rightarrow> pg \<times> (db_error + unit)" where
  "pgCreatePasskeyCredential cred d =
     (case sql_insert (\<lambda>a b. pk_id a = pk_id b \<or> pk_credential_id a = pk_credential_id b) (cred\<lparr>pk_last_used_at := None\<rparr>) (pg_passkeys d) of
        None \<Rightarrow> (d, Inl UniqueViolation)
      | Some t \<Rightarrow> if \<not> account_exists (pk_user_id cred) d then (d, Inl ForeignKeyViolation) else (d\<lparr>pg_passkeys := t\<rparr>, Inr ()))"

definition pgGetPasskeyCredentialByCredentialID :: "bytes \<Rightarrow> pg \<Rightarrow> storage_error + passkey" where
  "pgGetPasskeyCredentialByCredentialID credentialID d =
     or_err ErrUserNotFound (find (\<lambda>p. pk_credential_id p = credentialID) (pg_passkeys d))"

definition pgListPasskeyCredentials :: "string \<Rightarrow> pg \<Rightarrow> passkey list" where
  "pgListPasskeyCredentials userID d = sql_desc pk_created_at (filter (\<lambda>p. pk_user_id p = userID) (pg_passkeys d))"

definition pgUpdatePasskeyCredentialUsage :: "time \<Rightarrow> bytes \<Rightarrow> 32 word \<Rightarrow> pg \<Rightarrow> pg" where
  "pgUpdatePasskeyCredentialUsage dbnow credentialID signCount d =
     d\<lparr>pg_passkeys := fst (sql_update (\<lambda>p. pk_credential_id p = credentialID)
       (\<lambda>p. p\<lparr>pk_sign_count := signCount, pk_last_used_at := Some dbnow\<rparr>) (pg_passkeys d))\<rparr>"

definition pgDeletePasskeyCredential :: "string \<Rightarrow> pg \<Rightarrow> pg" where
  "pgDeletePasskeyCredential i d = d\<lparr>pg_passkeys := fst (sql_delete (\<lambda>p. pk_id p = i) (pg_passkeys d))\<rparr>"

definition pgCreateWebAuthnSession :: "webauthn_session \<Rightarrow> pg \<Rightarrow> pg \<times> (db_error + unit)" where
  "pgCreateWebAuthnSession session d =
     (case sql_insert (\<lambda>a b. wa_id a = wa_id b) session (pg_webauthn d) of
        None \<Rightarrow> (d, Inl UniqueViolation) | Some t \<Rightarrow> (d\<lparr>pg_webauthn := t\<rparr>, Inr ()))"

definition pgGetWebAuthnSession :: "string \<Rightarrow> pg \<Rightarrow> storage_error + webauthn_session" where
  "pgGetWebAuthnSession i d = or_err ErrSessionNotFound (find (\<lambda>s. wa_id s = i) (pg_webauthn d))"

definition pgDeleteWebAuthnSession :: "string \<Rightarrow> pg \<Rightarrow> pg" where
  "pgDeleteWebAuthnSession i d = d\<lparr>pg_webauthn := fst (sql_delete (\<lambda>s. wa_id s = i) (pg_webauthn d))\<rparr>"

section \<open>Recovery challenges\<close>

definition pgCreateRecoveryChallenge :: "recovery_challenge \<Rightarrow> pg \<Rightarrow> pg \<times> (db_error + unit)" where
  "pgCreateRecoveryChallenge c d =
     (case sql_insert (\<lambda>a b. rc_id a = rc_id b) (c\<lparr>rc_used_at := None\<rparr>) (pg_recovery d) of
        None \<Rightarrow> (d, Inl UniqueViolation)
      | Some t \<Rightarrow> if \<not> account_exists (rc_user_id c) d then (d, Inl ForeignKeyViolation) else (d\<lparr>pg_recovery := t\<rparr>, Inr ()))"

text \<open>\<open>UPDATE .. RETURNING\<close>: the row as the update leaves it.\<close>

definition pgConsumeRecoveryChallenge :: "time \<Rightarrow> string \<Rightarrow> pg \<Rightarrow> pg \<times> (challenge_error + recovery_challenge)" where
  "pgConsumeRecoveryChallenge dbnow i d =
     (let P = (\<lambda>c. rc_id c = i \<and> rc_used_at c = None \<and> rc_expires_at c > dbnow);
          f = (\<lambda>c. c\<lparr>rc_used_at := Some dbnow\<rparr>)
      in (d\<lparr>pg_recovery := fst (sql_update P f (pg_recovery d))\<rparr>,
          or_err ErrChallengeNotFound (map_option f (find P (pg_recovery d)))))"

definition pgDeleteExpiredRecoveryChallenges :: "time \<Rightarrow> pg \<Rightarrow> pg \<times> nat" where
  "pgDeleteExpiredRecoveryChallenges dbnow d =
     (case sql_delete (\<lambda>c. rc_expires_at c < dbnow - hours 24) (pg_recovery d) of (t, n) \<Rightarrow> (d\<lparr>pg_recovery := t\<rparr>, n))"

section \<open>Lightning\<close>

definition pgCreateLightningKey :: "lightning_key \<Rightarrow> pg \<Rightarrow> pg \<times> (db_error + unit)" where
  "pgCreateLightningKey key d =
     (case sql_insert (\<lambda>a b. lk_id a = lk_id b \<or> lk_linking_key a = lk_linking_key b)
             (key\<lparr>lk_last_used_at := None, lk_confirmed_at := None\<rparr>) (pg_lightning_keys d) of
        None \<Rightarrow> (d, Inl ErrLightningKeyExists)
      | Some t \<Rightarrow> if \<not> account_exists (lk_user_id key) d then (d, Inl ForeignKeyViolation) else (d\<lparr>pg_lightning_keys := t\<rparr>, Inr ()))"

definition pgGetLightningKeyByLinkingKey :: "string \<Rightarrow> pg \<Rightarrow> db_error + lightning_key" where
  "pgGetLightningKeyByLinkingKey linkingKey d =
     or_err ErrLightningKeyNotFound (find (\<lambda>l. lk_linking_key l = linkingKey) (pg_lightning_keys d))"

definition pgListLightningKeys :: "string \<Rightarrow> pg \<Rightarrow> lightning_key list" where
  "pgListLightningKeys userID d =
     map (\<lambda>l. l\<lparr>lk_confirmed_at := None\<rparr>) (sql_desc lk_created_at (filter (\<lambda>l. lk_user_id l = userID) (pg_lightning_keys d)))"

definition pgUpdateLightningKeyLastUsed :: "time \<Rightarrow> string \<Rightarrow> pg \<Rightarrow> pg" where
  "pgUpdateLightningKeyLastUsed dbnow i d =
     d\<lparr>pg_lightning_keys := fst (sql_update (\<lambda>l. lk_id l = i) (\<lambda>l. l\<lparr>lk_last_used_at := Some dbnow\<rparr>) (pg_lightning_keys d))\<rparr>"

definition pgConfirmLightningKey :: "time \<Rightarrow> string \<Rightarrow> pg \<Rightarrow> pg \<times> (db_error + unit)" where
  "pgConfirmLightningKey dbnow i d =
     (case sql_update (\<lambda>l. lk_id l = i)
          (\<lambda>l. l\<lparr>lk_confirmed_at := Some (case lk_confirmed_at l of None \<Rightarrow> dbnow | Some t \<Rightarrow> t)\<rparr>) (pg_lightning_keys d) of
        (t, n) \<Rightarrow> (d\<lparr>pg_lightning_keys := t\<rparr>, no_rows ErrLightningKeyNotFound n))"

definition pgDeleteLightningKey :: "string \<Rightarrow> pg \<Rightarrow> pg" where
  "pgDeleteLightningKey i d = d\<lparr>pg_lightning_keys := fst (sql_delete (\<lambda>l. lk_id l = i) (pg_lightning_keys d))\<rparr>"

definition pgCreateLightningChallenge :: "lightning_challenge \<Rightarrow> pg \<Rightarrow> pg \<times> (db_error + unit)" where
  "pgCreateLightningChallenge c d =
     (let row = c\<lparr>lc_status := (if lc_status c = '''' then ''pending'' else lc_status c), lc_linking_key := ''''\<rparr> in
      case sql_insert (\<lambda>a b. lc_k1 a = lc_k1 b \<or> lc_session_id a = lc_session_id b) row (pg_lightning d) of
        None \<Rightarrow> (d, Inl UniqueViolation) | Some t \<Rightarrow> (d\<lparr>pg_lightning := t\<rparr>, Inr ()))"

definition pg_live_challenge :: "time \<Rightarrow> (lightning_challenge \<Rightarrow> bool) \<Rightarrow> pg \<Rightarrow> lightning_error + lightning_challenge" where
  "pg_live_challenge dbnow P d = or_err ErrLightningChallengeNotFound (find (\<lambda>c. P c \<and> lc_expires_at c > dbnow) (pg_lightning d))"

definition pgGetLightningChallenge :: "time \<Rightarrow> string \<Rightarrow> pg \<Rightarrow> lightning_error + lightning_challenge" where
  "pgGetLightningChallenge dbnow k1 = pg_live_challenge dbnow (\<lambda>c. lc_k1 c = k1)"

definition pgGetLightningChallengeBySession :: "time \<Rightarrow> string \<Rightarrow> pg \<Rightarrow> lightning_error + lightning_challenge" where
  "pgGetLightningChallengeBySession dbnow sessionID = pg_live_challenge dbnow (\<lambda>c. lc_session_id c = sessionID)"

definition pgAuthenticateLightningChallenge ::
    "time \<times> string \<times> string \<Rightarrow> string \<Rightarrow> pg \<Rightarrow> pg \<times> (lightning_error + unit)" where
  "pgAuthenticateLightningChallenge ctx k1 d =
     (case ctx of (dbnow, userID, linkingKey) \<Rightarrow>
      case sql_update (\<lambda>c. lc_k1 c = k1 \<and> lc_status c = ''pending'' \<and> lc_expires_at c > dbnow)
          (\<lambda>c. c\<lparr>lc_status := ''authenticated'', lc_user_id := userID, lc_linking_key := linkingKey\<rparr>) (pg_lightning d) of
        (t, n) \<Rightarrow> (d\<lparr>pg_lightning := t\<rparr>, if n \<noteq> 1 then Inl ErrLightningChallengeNotFound else Inr ()))"

definition pgConsumeLightningChallenge :: "time \<Rightarrow> string \<Rightarrow> pg \<Rightarrow> pg \<times> (lightning_error + string)" where
  "pgConsumeLightningChallenge dbnow sessionID d =
     (let P = (\<lambda>c. lc_session_id c = sessionID \<and> lc_status c = ''authenticated'' \<and> lc_expires_at c > dbnow)
      in (d\<lparr>pg_lightning := fst (sql_delete P (pg_lightning d))\<rparr>,
          or_err ErrLightningChallengeNotFound (map_option lc_user_id (find P (pg_lightning d)))))"

definition pgCleanExpiredLightningChallenges :: "time \<Rightarrow> pg \<Rightarrow> pg" where
  "pgCleanExpiredLightningChallenges dbnow d = d\<lparr>pg_lightning := fst (sql_delete (\<lambda>c. lc_expires_at c \<le> dbnow) (pg_lightning d))\<rparr>"

section \<open>What account deletion left behind\<close>

definition retained_key :: "retained_deletion \<Rightarrow> string \<times> string" where
  "retained_key r = (rt_user_id r, rt_object r)"

definition pgRecordRetainedDeletion :: "time \<Rightarrow> string \<Rightarrow> string \<Rightarrow> string \<Rightarrow> pg \<Rightarrow> pg" where
  "pgRecordRetainedDeletion dbnow userID object reason d =
     (let same = (\<lambda>r. retained_key r = (userID, object)) in
      d\<lparr>pg_retained := (if list_ex same (pg_retained d)
          then fst (sql_update same (\<lambda>r. r\<lparr>rt_reason := reason, rt_last_attempt_at := dbnow\<rparr>) (pg_retained d))
          else pg_retained d @ [\<lparr>rt_user_id = userID, rt_object = object, rt_reason = reason,
                                 rt_first_failed_at = dbnow, rt_last_attempt_at = dbnow\<rparr>])\<rparr>)"

definition pgListRetainedDeletions :: "pg \<Rightarrow> retained_deletion list" where
  "pgListRetainedDeletions d = sort_key rt_first_failed_at (pg_retained d)"

definition pgClearRetainedDeletion :: "string \<Rightarrow> string \<Rightarrow> pg \<Rightarrow> pg" where
  "pgClearRetainedDeletion userID object d =
     d\<lparr>pg_retained := fst (sql_delete (\<lambda>r. retained_key r = (userID, object)) (pg_retained d))\<rparr>"

section \<open>The start of a process\<close>

text \<open>
  Owners without a primary key get the key named Primary, or else their oldest key: \<open>named_first\<close> is the
  order of the ranking.
\<close>

definition named_first :: "key \<Rightarrow> key \<Rightarrow> bool" where
  "named_first a b \<longleftrightarrow> (k_name a = ''Primary'' \<and> k_name b \<noteq> ''Primary'') \<or>
     ((k_name a = ''Primary'') = (k_name b = ''Primary'') \<and> k_created_at a \<le> k_created_at b)"

fun first_ranked :: "('r \<Rightarrow> 'r \<Rightarrow> bool) \<Rightarrow> 'r \<Rightarrow> 'r list \<Rightarrow> 'r" where
  "first_ranked le r [] = r"
| "first_ranked le r (x # xs) = first_ranked le (if le r x then r else x) xs"

definition ranks_first :: "('r \<Rightarrow> 'k) \<Rightarrow> ('r \<Rightarrow> 'r \<Rightarrow> bool) \<Rightarrow> 'r \<Rightarrow> 'r list \<Rightarrow> bool" where
  \<comment> \<open>\<open>ROW_NUMBER() = 1\<close> in its partition; ties go to the first row\<close>
  "ranks_first part le r t \<longleftrightarrow>
     (case filter (\<lambda>x. part x = part r) t of [] \<Rightarrow> False | x # xs \<Rightarrow> first_ranked le x xs = r)"

definition pgBackfillPrimary :: "pg \<Rightarrow> pg" where
  "pgBackfillPrimary d =
     (let owned = filter (\<lambda>k. k_owner_id k \<noteq> '''' \<and>
            \<not> list_ex (\<lambda>k'. k_is_primary k' \<and> k_owner_id k' = k_owner_id k) (pg_keys d)) (pg_keys d);
          chosen = map k_id (filter (\<lambda>k. ranks_first k_owner_id named_first k owned) owned)
      in d\<lparr>pg_keys := fst (sql_update (\<lambda>k. k_id k \<in> set chosen) (\<lambda>k. k\<lparr>k_is_primary := True\<rparr>) (pg_keys d))\<rparr>)"

text \<open>All but the most recently used live grant of a slot of a single-grant key are revoked.\<close>

definition grant_age :: "permission \<Rightarrow> time option" where
  "grant_age p = (case pm_last_used_at p of None \<Rightarrow> pm_created_at p | Some t \<Rightarrow> Some t)"

definition newer_first :: "permission \<times> bool \<Rightarrow> permission \<times> bool \<Rightarrow> bool" where
  \<comment> \<open>\<open>DESC\<close> puts NULL first\<close>
  "newer_first a b \<longleftrightarrow> (case (grant_age (fst a), grant_age (fst b)) of
      (None, _) \<Rightarrow> True | (Some _, None) \<Rightarrow> False | (Some s, Some t) \<Rightarrow> s \<ge> t)"

definition grant_slot :: "permission \<times> bool \<Rightarrow> string \<times> string" where
  "grant_slot g = (pm_key_id (fst g), pm_slot (fst g))"

definition pgRevokeSuperseded :: "time \<Rightarrow> pg \<Rightarrow> pg" where
  "pgRevokeSuperseded dbnow d =
     (let live = filter (\<lambda>g. pm_revoked_at (fst g) = None \<and> snd g) (pg_grants d);
          superseded = map grant_key (filter (\<lambda>g. \<not> ranks_first grant_slot newer_first g live) live)
      in d\<lparr>pg_grants := fst (sql_update (\<lambda>g. grant_key g \<in> set superseded)
           (\<lambda>(p, s). (p\<lparr>pm_revoked_at := Some dbnow, pm_revoked_by := ''schema-migration''\<rparr>, s)) (pg_grants d))\<rparr>)"

definition pgStart :: "key_crypto \<Rightarrow> (string \<Rightarrow> string option) \<Rightarrow> string \<Rightarrow> time \<Rightarrow> pg \<Rightarrow> pg" where
  "pgStart K get_public_key fresh dbnow d =
     pgBackfillPlatformUsers K get_public_key fresh dbnow (pgRevokeSuperseded dbnow (pgBackfillPrimary d))"

end
