(* ===== verification/PgGuarantees.thy ===== *)
theory PgGuarantees
  imports PgClients PgLogins
begin

text \<open>
  What the Postgres store guarantees beyond the grants: credentials that work once because one statement
  consumes them, and those that two callers can use because a read and a write are apart; the deletion of
  an account; the primary key of an account; the start of a process.
\<close>

section \<open>Credentials of one statement\<close>

definition pg_challenge_spent :: "string \<Rightarrow> pg \<Rightarrow> bool" where
  "pg_challenge_spent i d \<longleftrightarrow> (\<forall>c \<in> set (pg_recovery d). rc_id c = i \<longrightarrow> rc_used_at c \<noteq> None)"

definition pg_code_spent :: "string \<times> string \<Rightarrow> pg \<Rightarrow> bool" where
  "pg_code_spent k d \<longleftrightarrow> (\<forall>u \<in> set (pg_accounts d). u_id u = fst k \<longrightarrow> snd k \<notin> set (u_backup_codes u))"

definition pg_signed :: "string \<Rightarrow> pg \<Rightarrow> bool" where
  "pg_signed k1 d \<longleftrightarrow> (\<forall>c \<in> set (pg_lightning d). lc_k1 c = k1 \<longrightarrow> lc_status c \<noteq> ''pending'')"

definition pg_login_taken :: "string \<Rightarrow> pg \<Rightarrow> bool" where
  "pg_login_taken s d \<longleftrightarrow> (\<forall>c \<in> set (pg_lightning d). lc_session_id c = s \<longrightarrow> lc_status c \<noteq> ''authenticated'')"

text \<open>The primary keys and unique columns of the two tables.\<close>

definition unique_challenges :: "pg \<Rightarrow> bool" where
  "unique_challenges d \<longleftrightarrow> distinct (map rc_id (pg_recovery d))"

definition unique_lightning :: "pg \<Rightarrow> bool" where
  "unique_lightning d \<longleftrightarrow> distinct (map lc_k1 (pg_lightning d)) \<and> distinct (map lc_session_id (pg_lightning d))"

interpretation pg_challenge: single_use pgConsumeRecoveryChallenge pg_challenge_spent unique_challenges
proof
  fix t :: pg and r k t' v k'
  assume u: "unique_challenges t"
  show "unique_challenges (fst (pgConsumeRecoveryChallenge r k t))"
    using u by (simp add: unique_challenges_def pgConsumeRecoveryChallenge_def Let_def map_sql_update)
  show "pg_challenge_spent k t'" if c: "pgConsumeRecoveryChallenge r k t = (t', Inr v)"
  proof -
    obtain c where c': "find (\<lambda>c. rc_id c = k \<and> rc_used_at c = None \<and> rc_expires_at c > r) (pg_recovery t) = Some c"
      using c by (auto simp: pgConsumeRecoveryChallenge_def Let_def)
    have only: "c2 = c" if "c2 \<in> set (pg_recovery t)" "rc_id c2 = k" for c2
      using find_mem [OF c'] that u distinct_map_eq [of rc_id "pg_recovery t" c2 c] by (simp add: unique_challenges_def)
    have "t' = t\<lparr>pg_recovery := fst (sql_update (\<lambda>c. rc_id c = k \<and> rc_used_at c = None \<and> rc_expires_at c > r)
        (\<lambda>c. c\<lparr>rc_used_at := Some r\<rparr>) (pg_recovery t))\<rparr>"
      using c by (simp add: pgConsumeRecoveryChallenge_def Let_def)
    moreover have "rc_expires_at c2 > r" if "c2 \<in> set (pg_recovery t)" "rc_id c2 = k" for c2
      using only [OF that] find_mem [OF c'] by simp
    ultimately show ?thesis by (simp add: pg_challenge_spent_def ball_sql_update)
  qed
  assume sp: "pg_challenge_spent k t"
  show "\<not> ok (snd (pgConsumeRecoveryChallenge r k t))"
  proof -
    have "find (\<lambda>c. rc_id c = k \<and> rc_used_at c = None \<and> rc_expires_at c > r) (pg_recovery t) = None"
      using sp unfolding find_None_iff pg_challenge_spent_def by blast
    then show ?thesis by (simp add: pgConsumeRecoveryChallenge_def Let_def)
  qed
  show "pg_challenge_spent k (fst (pgConsumeRecoveryChallenge r k' t))"
    using sp by (simp add: pgConsumeRecoveryChallenge_def Let_def pg_challenge_spent_def ball_sql_update)
qed

interpretation pg_code: single_use pgConsumeBackupCode pg_code_spent "\<lambda>_. True"
proof
  fix t :: pg and r k t' and v :: unit and k'
  show "pg_code_spent k t'" if c: "pgConsumeBackupCode r k t = (t', Inr v)"
  proof -
    have "t' = fst (pgConsumeBackupCode r k t)" using c by simp
    then show ?thesis by (cases k) (simp add: pgConsumeBackupCode_def pg_code_spent_def ball_sql_update case_prod_beta)
  qed
  assume sp: "pg_code_spent k t"
  show "\<not> ok (snd (pgConsumeBackupCode r k t))"
  proof -
    have "snd (sql_update (\<lambda>u. u_id u = fst k \<and> snd k \<in> set (u_backup_codes u)) f (pg_accounts t)) = 0" for f
      using sp unfolding sql_counts pg_code_spent_def by blast
    then show ?thesis by (cases k) (simp add: pgConsumeBackupCode_def case_prod_beta)
  qed
  show "pg_code_spent k (fst (pgConsumeBackupCode r k' t))"
    using sp by (cases k') (simp add: pgConsumeBackupCode_def pg_code_spent_def ball_sql_update case_prod_beta)
qed simp

lemma authenticate_write:
  "fst (pgAuthenticateLightningChallenge (now, uid, lk) k t) = t\<lparr>pg_lightning := fst (sql_update
     (\<lambda>c. lc_k1 c = k \<and> lc_status c = ''pending'' \<and> lc_expires_at c > now)
     (\<lambda>c. c\<lparr>lc_status := ''authenticated'', lc_user_id := uid, lc_linking_key := lk\<rparr>) (pg_lightning t))\<rparr>"
  by (simp add: pgAuthenticateLightningChallenge_def case_prod_beta)

lemma authenticate_ok:
  "ok (snd (pgAuthenticateLightningChallenge (now, uid, lk) k t)) \<longleftrightarrow>
     length (filter (\<lambda>c. lc_k1 c = k \<and> lc_status c = ''pending'' \<and> lc_expires_at c > now) (pg_lightning t)) = 1"
  by (simp add: pgAuthenticateLightningChallenge_def sql_update_def)

interpretation pg_sign: single_use pgAuthenticateLightningChallenge pg_signed unique_lightning
proof
  fix t :: pg and r :: "time \<times> string \<times> string" and k t' and v :: unit and k'
  obtain now uid lk where r: "r = (now, uid, lk)" by (cases r)
  assume u: "unique_lightning t"
  show "unique_lightning (fst (pgAuthenticateLightningChallenge r k t))"
    using u by (simp add: r authenticate_write unique_lightning_def map_sql_update)
  show "pg_signed k t'" if c: "pgAuthenticateLightningChallenge r k t = (t', Inr v)"
  proof -
    have "ok (snd (pgAuthenticateLightningChallenge r k t))" using c by simp
    then obtain c where "c \<in> set (filter (\<lambda>c. lc_k1 c = k \<and> lc_status c = ''pending'' \<and> lc_expires_at c > now) (pg_lightning t))"
      unfolding r authenticate_ok by (cases "filter (\<lambda>c. lc_k1 c = k \<and> lc_status c = ''pending'' \<and> lc_expires_at c > now) (pg_lightning t)") auto
    then have c': "c \<in> set (pg_lightning t)" "lc_k1 c = k" "lc_status c = ''pending''" "lc_expires_at c > now" by simp_all
    have only: "c2 = c" if "c2 \<in> set (pg_lightning t)" "lc_k1 c2 = k" for c2
      using c' that u distinct_map_eq [of lc_k1 "pg_lightning t" c2 c] by (simp add: unique_lightning_def)
    have "t' = fst (pgAuthenticateLightningChallenge r k t)" using c by simp
    moreover have "lc_expires_at c2 > now" if "c2 \<in> set (pg_lightning t)" "lc_k1 c2 = k" for c2
      using only [OF that] c' by simp
    ultimately show ?thesis by (auto simp: r authenticate_write pg_signed_def ball_sql_update)
  qed
  assume sp: "pg_signed k t"
  show "\<not> ok (snd (pgAuthenticateLightningChallenge r k t))"
  proof -
    have "filter (\<lambda>c. lc_k1 c = k \<and> lc_status c = ''pending'' \<and> lc_expires_at c > now) (pg_lightning t) = []"
      using sp unfolding filter_empty_conv pg_signed_def by blast
    then show ?thesis by (simp add: r authenticate_ok)
  qed
  show "pg_signed k (fst (pgAuthenticateLightningChallenge r k' t))"
    using sp by (simp add: r authenticate_write pg_signed_def ball_sql_update)
qed

interpretation pg_login: single_use pgConsumeLightningChallenge pg_login_taken unique_lightning
proof
  fix t :: pg and r :: time and k t' and v :: string and k'
  assume u: "unique_lightning t"
  show "unique_lightning (fst (pgConsumeLightningChallenge r k t))"
    using u by (simp add: pgConsumeLightningChallenge_def Let_def unique_lightning_def distinct_map_sql_delete)
  show "pg_login_taken k t'" if c: "pgConsumeLightningChallenge r k t = (t', Inr v)"
  proof -
    obtain c where c': "find (\<lambda>c. lc_session_id c = k \<and> lc_status c = ''authenticated'' \<and> lc_expires_at c > r) (pg_lightning t) = Some c"
      using c by (auto simp: pgConsumeLightningChallenge_def Let_def)
    have only: "c2 = c" if "c2 \<in> set (pg_lightning t)" "lc_session_id c2 = k" for c2
      using find_mem [OF c'] that u distinct_map_eq [of lc_session_id "pg_lightning t" c2 c] by (simp add: unique_lightning_def)
    have "t' = t\<lparr>pg_lightning := fst (sql_delete (\<lambda>c. lc_session_id c = k \<and> lc_status c = ''authenticated'' \<and> lc_expires_at c > r) (pg_lightning t))\<rparr>"
      using c by (simp add: pgConsumeLightningChallenge_def Let_def)
    moreover have "lc_expires_at c2 > r" if "c2 \<in> set (pg_lightning t)" "lc_session_id c2 = k" for c2
      using only [OF that] find_mem [OF c'] by simp
    ultimately show ?thesis by (auto simp: pg_login_taken_def)
  qed
  assume sp: "pg_login_taken k t"
  show "\<not> ok (snd (pgConsumeLightningChallenge r k t))"
  proof -
    have "find (\<lambda>c. lc_session_id c = k \<and> lc_status c = ''authenticated'' \<and> lc_expires_at c > r) (pg_lightning t) = None"
      using sp unfolding find_None_iff pg_login_taken_def by blast
    then show ?thesis by (simp add: pgConsumeLightningChallenge_def Let_def)
  qed
  show "pg_login_taken k (fst (pgConsumeLightningChallenge r k' t))"
    using sp by (simp add: pgConsumeLightningChallenge_def Let_def pg_login_taken_def)
qed


definition toy_claims :: pg where
  "toy_claims = toy_pg\<lparr>pg_recovery := [\<lparr>rc_id = ''c'', rc_user_id = ''u'', rc_expires_at = 100, rc_created_at = 0, rc_used_at = None\<rparr>],
     pg_lightning := [\<lparr>lc_k1 = ''k'', lc_session_id = ''s'', lc_status = ''pending'', lc_user_id = '''', lc_bound_user_id = '''',
       lc_is_link = False, lc_linking_key = '''', lc_expires_at = 100, lc_created_at = 0\<rparr>]\<rparr>"


section \<open>Credentials of two statements\<close>

lemma redeem_read_Inr:
  "redeem_read now i d = Inr tok \<longleftrightarrow> find (\<lambda>t. tk_id t = i) (pg_tokens d) = Some tok \<and> tk_redeemed_at tok = None \<and>
     (\<forall>t. tk_expires_at tok = Some t \<longrightarrow> now \<le> t)"
  by (auto simp: redeem_read_def pgGetToken_def or_err_def split: option.splits if_splits)

lemma secret_read_Inr:
  "secret_read now pk s d = (d', Inr bs) \<longleftrightarrow> d' = d \<and> find (\<lambda>b. bs_secret b = s \<and> bs_key_pubkey b = pk) (pg_secrets d) = Some bs \<and>
     bs_used_at bs = None \<and> now \<le> bs_expires_at bs"
  by (auto simp: secret_read_def split: option.splits if_splits)

lemma find_sql_update:
  assumes "\<And>r. Q (f r) = Q r"
  shows "find Q (fst (sql_update P f t)) = map_option (\<lambda>r. if P r then f r else r) (find Q t)"
  using assms by (induction t) (auto simp: sql_update_def)

text \<open>
  C38. An access token and a bunker secret can be used twice in the Postgres store: of two replicas that both
  read the credential before either has written, both succeed, with different clients, and what is stored
  names the last one alone. One after the other, the second attempt is refused.
\<close>

theorem pg_credentials_raced:
  assumes token: "redeem_read t1 i d = Inr tok1" "redeem_read t2 i d = Inr tok2"
    and secret: "secret_read s1 pk s d = (e1, Inr bs1)" "secret_read s2 pk s d = (e2, Inr bs2)"
  shows "(case redeem_write t1 alice tok1 d of (d1, r1) \<Rightarrow> case redeem_write t2 bob tok2 d1 of (d2, r2) \<Rightarrow>
       tk_redeemed_by r1 = alice \<and> tk_redeemed_by r2 = bob \<and> pgGetToken i d2 = Inr r2) \<and>
    (case secret_write s1 bs1 d of (d1, r1) \<Rightarrow> case secret_write s2 bs2 d1 of (d2, r2) \<Rightarrow>
       bs_id r1 = bs_id r2 \<and> bs_used_at r1 = Some s1 \<and> bs_used_at r2 = Some s2) \<and>
    pgRedeemToken (t3, bob) i (fst (pgRedeemToken (t1, alice) i d)) = (fst (pgRedeemToken (t1, alice) i d), Inl ErrTokenRedeemed) \<and>
    pgValidateBunkerSecret (s3, pk) s (fst (pgValidateBunkerSecret (s1, pk) s d)) \<noteq> (e3, Inr bs3)"
proof -
  have tok: "find (\<lambda>t. tk_id t = i) (pg_tokens d) = Some tok1" "tok2 = tok1" "tk_id tok1 = i" "tk_redeemed_at tok1 = None"
    using token find_mem [of "\<lambda>t. tk_id t = i" "pg_tokens d" tok1] by (auto simp: redeem_read_Inr)
  have sec: "find (\<lambda>b. bs_secret b = s \<and> bs_key_pubkey b = pk) (pg_secrets d) = Some bs1" "bs2 = bs1" "bs_used_at bs1 = None"
    using secret by (auto simp: secret_read_Inr)
  have 1: "(case redeem_write t1 alice tok1 d of (d1, r1) \<Rightarrow> case redeem_write t2 bob tok2 d1 of (d2, r2) \<Rightarrow>
       tk_redeemed_by r1 = alice \<and> tk_redeemed_by r2 = bob \<and> pgGetToken i d2 = Inr r2)"
    using tok by (simp add: redeem_write_def Let_def pgGetToken_def find_sql_update)
  have 2: "(case secret_write s1 bs1 d of (d1, r1) \<Rightarrow> case secret_write s2 bs2 d1 of (d2, r2) \<Rightarrow>
       bs_id r1 = bs_id r2 \<and> bs_used_at r1 = Some s1 \<and> bs_used_at r2 = Some s2)"
    using sec by (simp add: secret_write_def Let_def)
  have 3: "pgRedeemToken (t3, bob) i (fst (pgRedeemToken (t1, alice) i d)) = (fst (pgRedeemToken (t1, alice) i d), Inl ErrTokenRedeemed)"
    using token(1) tok by (simp add: pgRedeemToken_def redeem_write_def Let_def redeem_read_def [of t3] pgGetToken_def find_sql_update)
  have used: "fst (pgValidateBunkerSecret (s1, pk) s d) =
      d\<lparr>pg_secrets := fst (sql_update (\<lambda>b. bs_id b = bs_id bs1) (\<lambda>b. b\<lparr>bs_used_at := Some s1\<rparr>) (pg_secrets d))\<rparr>"
    using secret(1) secret(1) [unfolded secret_read_Inr] by (simp add: pgValidateBunkerSecret_def secret_write_def Let_def)
  have 4: "pgValidateBunkerSecret (s3, pk) s (fst (pgValidateBunkerSecret (s1, pk) s d)) \<noteq> (e3, Inr bs3)"
    unfolding used using sec(1) by (simp add: pgValidateBunkerSecret_def secret_read_def [of s3] find_sql_update)
  show ?thesis by (intro conjI 1 2 3 4)
qed
definition toy_secrets :: pg where
  "toy_secrets = toy_pg\<lparr>pg_tokens := [\<lparr>tk_id = ''t'', tk_policy_id = ''p'', tk_key_id = ''user'', tk_client_name = '''', tk_created_by = '''',
       tk_expires_at = Some 100, tk_redeemed_at = None, tk_redeemed_by = '''', tk_created_at = 0\<rparr>],
     pg_secrets := [\<lparr>bs_id = ''b'', bs_key_pubkey = ''user'', bs_secret = ''s'', bs_expires_at = 100, bs_created_at = 0, bs_used_at = None\<rparr>]\<rparr>"

theorem pg_credentials_raced_witness:
  "\<exists>tok. redeem_read 1 ''t'' toy_secrets = Inr tok \<and> redeem_read 2 ''t'' toy_secrets = Inr tok \<and>
     tk_redeemed_by (snd (redeem_write 1 ''alice'' tok toy_secrets)) = ''alice'' \<and>
     tk_redeemed_by (snd (redeem_write 2 ''bob'' tok (fst (redeem_write 1 ''alice'' tok toy_secrets)))) = ''bob''"
proof -
  obtain tok where tok: "redeem_read 1 ''t'' toy_secrets = Inr tok" "redeem_read 2 ''t'' toy_secrets = Inr tok"
    by (simp add: redeem_read_def pgGetToken_def toy_secrets_def)
  obtain bs where bs: "secret_read 1 ''user'' ''s'' toy_secrets = (toy_secrets, Inr bs)" "secret_read 2 ''user'' ''s'' toy_secrets = (toy_secrets, Inr bs)"
    by (simp add: secret_read_def toy_secrets_def)
  from pg_credentials_raced [OF tok bs, of "''alice''" "''bob''"] tok show ?thesis by (simp add: case_prod_beta)
qed

section \<open>The deletion of an account\<close>

text \<open>
  \<open>deleteAccount\<close> (\<open>internal/api/account_delete.go\<close>) over this store. Loaded keys, replicas and the
  Vault are left out; the Vault login is deleted between the consents and the keys.
\<close>

definition pg_revoke_grants :: "key \<Rightarrow> pg \<Rightarrow> pg" where
  "pg_revoke_grants k d =
     foldl (\<lambda>d p. pgDeletePermission (k_pubkey k) (pm_user_pubkey p) d) d (pgListPermissions (k_pubkey k) d)"

definition pg_delete_contents :: "string \<Rightarrow> pg \<Rightarrow> pg" where
  "pg_delete_contents userID d =
     (let d = pgDeleteUserSessions userID d;
          d = fst (pgDeleteSessionSealsByUser userID d);
          keys = pgListKeys userID d;
          d = foldl (\<lambda>d k. pg_revoke_grants k d) d keys;
          d = foldl (\<lambda>d c. fst (pgRevokeAppConsent userID (cn_app_id c) d)) d (pgListAppConsents userID d)
      in foldl (\<lambda>d k. fst (pgDeleteKey (k_id k) d)) d keys)"

definition pg_deleteAccount :: "string \<Rightarrow> pg \<Rightarrow> pg \<times> (db_error + unit)" where
  "pg_deleteAccount userID d =
     (case pgDeleteUser userID (pg_delete_contents userID d) of
        (d, res) \<Rightarrow> (d, if res = Inl (Known ErrUserNotFound) then Inr () else res))"

lemma revoke_grants_eq:
  "foldl (\<lambda>d p. pgDeletePermission K (pm_user_pubkey p) d) d ps =
     d\<lparr>pg_grants := filter (\<lambda>g. \<forall>p \<in> set ps. grant_key g \<noteq> (K, pm_user_pubkey p)) (pg_grants d)\<rparr>"
  by (induction ps arbitrary: d) (auto simp: pgDeletePermission_def sql_delete_def intro!: arg_cong2 [of _ _ _ _ "\<lambda>f d. pg_grants_update f d"] filter_cong)

lemma revoke_grants_frame: "\<exists>G. pg_revoke_grants k d = d\<lparr>pg_grants := G\<rparr> \<and> set G \<subseteq> set (pg_grants d) \<and>
    (\<forall>g \<in> set G. pm_key_id (fst g) = k_pubkey k \<longrightarrow> pm_revoked_at (fst g) \<noteq> None) \<and>
    (\<forall>g \<in> set (pg_grants d). pm_key_id (fst g) \<noteq> k_pubkey k \<longrightarrow> g \<in> set G)"
  unfolding pg_revoke_grants_def revoke_grants_eq
  by (intro exI conjI refl) (auto simp: pgListPermissions_def grant_key_def, metis fst_conv image_eqI option.exhaust)

lemma revoke_all_frame: "\<exists>G. foldl (\<lambda>d k. pg_revoke_grants k d) d ks = d\<lparr>pg_grants := G\<rparr> \<and> set G \<subseteq> set (pg_grants d) \<and>
    (\<forall>g \<in> set G. pm_key_id (fst g) \<in> k_pubkey ` set ks \<longrightarrow> pm_revoked_at (fst g) \<noteq> None) \<and>
    (\<forall>g \<in> set (pg_grants d). pm_key_id (fst g) \<notin> k_pubkey ` set ks \<longrightarrow> g \<in> set G)"
proof (induction ks arbitrary: d)
  case Nil
  have "d = d\<lparr>pg_grants := pg_grants d\<rparr>" by simp
  then show ?case by (intro exI [of _ "pg_grants d"]) simp
next
  case (Cons k ks)
  obtain G where G: "pg_revoke_grants k d = d\<lparr>pg_grants := G\<rparr>" "set G \<subseteq> set (pg_grants d)"
    "\<And>g. g \<in> set G \<Longrightarrow> pm_key_id (fst g) = k_pubkey k \<Longrightarrow> pm_revoked_at (fst g) \<noteq> None"
    "\<And>g. g \<in> set (pg_grants d) \<Longrightarrow> pm_key_id (fst g) \<noteq> k_pubkey k \<Longrightarrow> g \<in> set G"
    using revoke_grants_frame [of k d] by blast
  have "\<exists>G'. foldl (\<lambda>d k. pg_revoke_grants k d) (d\<lparr>pg_grants := G\<rparr>) ks = d\<lparr>pg_grants := G'\<rparr> \<and> set G' \<subseteq> set G \<and>
    (\<forall>g \<in> set G'. pm_key_id (fst g) \<in> k_pubkey ` set ks \<longrightarrow> pm_revoked_at (fst g) \<noteq> None) \<and>
    (\<forall>g \<in> set G. pm_key_id (fst g) \<notin> k_pubkey ` set ks \<longrightarrow> g \<in> set G')"
    using Cons [of "d\<lparr>pg_grants := G\<rparr>"] by simp
  then obtain G' where G': "foldl (\<lambda>d k. pg_revoke_grants k d) (d\<lparr>pg_grants := G\<rparr>) ks = d\<lparr>pg_grants := G'\<rparr>" "set G' \<subseteq> set G"
    "\<And>g. g \<in> set G' \<Longrightarrow> pm_key_id (fst g) \<in> k_pubkey ` set ks \<Longrightarrow> pm_revoked_at (fst g) \<noteq> None"
    "\<And>g. g \<in> set G \<Longrightarrow> pm_key_id (fst g) \<notin> k_pubkey ` set ks \<Longrightarrow> g \<in> set G'" by blast
  show ?case
  proof (intro exI conjI ballI impI)
    show "foldl (\<lambda>d k. pg_revoke_grants k d) d (k # ks) = d\<lparr>pg_grants := G'\<rparr>" using G(1) G'(1) by simp
    show "set G' \<subseteq> set (pg_grants d)" using G(2) G'(2) by blast
    show "pm_revoked_at (fst g) \<noteq> None" if "g \<in> set G'" "pm_key_id (fst g) \<in> k_pubkey ` set (k # ks)" for g
      using that G(3) [of g] G'(2) G'(3) [of g] by (cases g) auto
    show "g \<in> set G'" if "g \<in> set (pg_grants d)" "pm_key_id (fst g) \<notin> k_pubkey ` set (k # ks)" for g
      using that G(4) G'(4) by simp
  qed
qed

lemma revoke_consents_eq:
  "foldl (\<lambda>d c. fst (pgRevokeAppConsent u (cn_app_id c) d)) d cs =
     d\<lparr>pg_consents := filter (\<lambda>x. \<forall>c \<in> set cs. consent_key x \<noteq> (u, cn_app_id c)) (pg_consents d)\<rparr>"
  by (induction cs arbitrary: d) (auto simp: pgRevokeAppConsent_def sql_delete_def intro!: arg_cong2 [of _ _ _ _ "\<lambda>f d. pg_consents_update f d"] filter_cong)

lemma delete_key_frame:
  "pg_keys (fst (pgDeleteKey i d)) = filter (\<lambda>k. k_id k \<noteq> i) (pg_keys d)"
  "pg_accounts (fst (pgDeleteKey i d)) = pg_accounts d" "pg_web_sessions (fst (pgDeleteKey i d)) = pg_web_sessions d"
  "pg_consents (fst (pgDeleteKey i d)) = pg_consents d" "pg_frost_keys (fst (pgDeleteKey i d)) = pg_frost_keys d"
  "set (pg_seals (fst (pgDeleteKey i d))) \<subseteq> set (pg_seals d)" "set (pg_grants (fst (pgDeleteKey i d))) \<subseteq> set (pg_grants d)"
proof -
  show "pg_keys (fst (pgDeleteKey i d)) = filter (\<lambda>k. k_id k \<noteq> i) (pg_keys d)"
    using sql_counts(2) [of "\<lambda>k. k_id k = i" "pg_keys d"]
    by (auto simp: pgDeleteKey_def drop_keys_def Let_def sql_delete_def filter_id_conv)
qed (auto simp: pgDeleteKey_def drop_keys_def Let_def sql_delete_def)

lemma delete_keys_frame:
  fixes ks d defines "d' \<equiv> foldl (\<lambda>d k. fst (pgDeleteKey (k_id k) d)) d ks"
  shows "pg_keys d' = filter (\<lambda>k. k_id k \<notin> k_id ` set ks) (pg_keys d)"
    "pg_accounts d' = pg_accounts d" "pg_web_sessions d' = pg_web_sessions d" "pg_consents d' = pg_consents d"
    "pg_frost_keys d' = pg_frost_keys d" "set (pg_seals d') \<subseteq> set (pg_seals d)" "set (pg_grants d') \<subseteq> set (pg_grants d)"
  unfolding d'_def using delete_key_frame(6,7)
  by (induction ks arbitrary: d) (auto simp: delete_key_frame(1-5) intro!: filter_cong, blast+)

lemma delete_contents:
  fixes i d defines "d' \<equiv> pg_delete_contents i d"
  assumes i: "i \<noteq> ''''" and ids: "distinct (map k_id (pg_keys d))"
  shows "pg_keys d' = filter (\<lambda>k. k_owner_id k \<noteq> i) (pg_keys d)" "pg_accounts d' = pg_accounts d" "pg_frost_keys d' = pg_frost_keys d"
    "pg_web_sessions d' = filter (\<lambda>s. us_user_id s \<noteq> i) (pg_web_sessions d)" "pg_consents d' = filter (\<lambda>c. cn_user_id c \<noteq> i) (pg_consents d)"
    "set (pg_seals d') \<subseteq> {sl \<in> set (pg_seals d). sl_user_id sl \<noteq> i}"
    "\<And>k g. k \<in> set (pg_keys d) \<Longrightarrow> k_owner_id k = i \<Longrightarrow> g \<in> set (pg_grants d') \<Longrightarrow> pm_key_id (fst g) = k_pubkey k \<Longrightarrow>
       pm_revoked_at (fst g) \<noteq> None"
proof -
  let ?d1 = "fst (pgDeleteSessionSealsByUser i (pgDeleteUserSessions i d))"
  let ?keys = "pgListKeys i ?d1"
  have d1: "pg_keys ?d1 = pg_keys d" "pg_accounts ?d1 = pg_accounts d" "pg_frost_keys ?d1 = pg_frost_keys d" "pg_consents ?d1 = pg_consents d"
    "pg_web_sessions ?d1 = filter (\<lambda>s. us_user_id s \<noteq> i) (pg_web_sessions d)" "pg_seals ?d1 = filter (\<lambda>sl. sl_user_id sl \<noteq> i) (pg_seals d)"
    by (simp_all add: pgDeleteSessionSealsByUser_def pg_delete_seals_def pgDeleteUserSessions_def sql_delete_def)
  have keys: "set ?keys = {k \<in> set (pg_keys d). k_owner_id k = i}" using i by (auto simp: pgListKeys_def d1 nullable_eq_def)
  obtain G where G: "foldl (\<lambda>d k. pg_revoke_grants k d) ?d1 ?keys = ?d1\<lparr>pg_grants := G\<rparr>"
    "\<And>g. g \<in> set G \<Longrightarrow> pm_key_id (fst g) \<in> k_pubkey ` set ?keys \<Longrightarrow> pm_revoked_at (fst g) \<noteq> None"
    using revoke_all_frame [of ?d1 ?keys] by blast
  let ?C = "filter (\<lambda>x. \<forall>c \<in> set (pgListAppConsents i (?d1\<lparr>pg_grants := G\<rparr>)). consent_key x \<noteq> (i, cn_app_id c)) (pg_consents ?d1)"
  let ?d2 = "?d1\<lparr>pg_grants := G, pg_consents := ?C\<rparr>"
  have d': "d' = foldl (\<lambda>d k. fst (pgDeleteKey (k_id k) d)) ?d2 ?keys"
    unfolding d'_def pg_delete_contents_def Let_def G(1) revoke_consents_eq by simp
  have C: "?C = filter (\<lambda>c. cn_user_id c \<noteq> i) (pg_consents d)"
    by (rule filter_cong) (auto simp: d1 pgListAppConsents_def consent_key_def)
  note fr = delete_keys_frame [where ks = ?keys and d = ?d2, folded d']
  have "k_id k \<notin> k_id ` set ?keys \<longleftrightarrow> k_owner_id k \<noteq> i" if "k \<in> set (pg_keys d)" for k
    using that keys distinct_map_eq [OF ids] by auto
  then show "pg_keys d' = filter (\<lambda>k. k_owner_id k \<noteq> i) (pg_keys d)" unfolding fr(1) by (auto simp: d1 intro!: filter_cong)
  show "pg_accounts d' = pg_accounts d" "pg_frost_keys d' = pg_frost_keys d" using fr(2,5) d1 by simp_all
  show "pg_web_sessions d' = filter (\<lambda>s. us_user_id s \<noteq> i) (pg_web_sessions d)" using fr(3) d1 by simp
  show "pg_consents d' = filter (\<lambda>c. cn_user_id c \<noteq> i) (pg_consents d)" using fr(4) C by simp
  show "set (pg_seals d') \<subseteq> {sl \<in> set (pg_seals d). sl_user_id sl \<noteq> i}" using fr(6) d1 by auto
  show "pm_revoked_at (fst g) \<noteq> None" if "k \<in> set (pg_keys d)" "k_owner_id k = i" "g \<in> set (pg_grants d')" "pm_key_id (fst g) = k_pubkey k" for k g
  proof (rule G(2))
    show "g \<in> set G" using that(3) fr(7) by auto
    show "pm_key_id (fst g) \<in> k_pubkey ` set ?keys" using that keys by auto
  qed
qed

lemma delete_contents_again:
  assumes "\<forall>k \<in> set (pg_keys d). k_owner_id k \<noteq> i" "\<forall>s \<in> set (pg_web_sessions d). us_user_id s \<noteq> i"
    "\<forall>c \<in> set (pg_consents d). cn_user_id c \<noteq> i" "\<forall>sl \<in> set (pg_seals d). sl_user_id sl \<noteq> i"
  shows "pg_delete_contents i d = d"
proof -
  have "fst (pgDeleteSessionSealsByUser i (pgDeleteUserSessions i d)) = d"
    using assms by (simp add: pgDeleteSessionSealsByUser_def pg_delete_seals_def pgDeleteUserSessions_def sql_delete_def filter_id_conv)
  moreover have "pgListKeys i d = []" "pgListAppConsents i d = []"
    using assms by (auto simp: pgListKeys_def pgListAppConsents_def sql_desc_def nullable_eq_def filter_empty_conv)
  ultimately show ?thesis by (simp add: pg_delete_contents_def)
qed

definition owns_frost_key :: "string \<Rightarrow> pg \<Rightarrow> bool" where
  "owns_frost_key i d \<longleftrightarrow> list_ex (\<lambda>k. nullable_eq (fk_owner_id k) i) (pg_frost_keys d)"


definition toy_account :: pg where
  "toy_account = toy_pg\<lparr>pg_accounts := [toy_user], pg_keys := [(toy_key ''user'' False)\<lparr>k_owner_id := ''u''\<rparr>],
     pg_grants := [(toy_perm ''user'' ''alice'', False)],
     pg_frost_keys := [\<lparr>fk_id = ''f'', fk_name = '''', fk_pubkey = ''fp'', fk_threshold = 2, fk_total_shares = 3, fk_group_public_key = [],
       fk_verification_shares = [], fk_created_at = 0, fk_created_by = '''', fk_owner_id = ''u''\<rparr>]\<rparr>"


section \<open>The primary key of an account\<close>

text \<open>\<open>idx_signer_keys_one_primary\<close>.\<close>

definition one_primary :: "pg \<Rightarrow> bool" where
  "one_primary d \<longleftrightarrow> (\<forall>k \<in> set (pg_keys d). \<forall>k' \<in> set (pg_keys d). k_is_primary k \<and> k_is_primary k' \<and>
     k_owner_id k \<noteq> '''' \<and> k_owner_id k = k_owner_id k' \<longrightarrow> k_id k = k_id k')"

datatype key_op =
    KoCreate key | KoUpdate key | KoEncrypt string string string | KoDelete string | KoPrimary string string | KoDropAccount string | KoStart

fun pg_key_op :: "time \<Rightarrow> key_op \<Rightarrow> pg \<Rightarrow> pg" where
  "pg_key_op now (KoCreate k) d = fst (pgCreateKey now k d)"
| "pg_key_op now (KoUpdate k) d = fst (pgUpdateKey k d)"
| "pg_key_op now (KoEncrypt i c m) d = fst (pgUpdateKeyEncryption i c m d)"
| "pg_key_op now (KoDelete i) d = fst (pgDeleteKey i d)"
| "pg_key_op now (KoPrimary u i) d = fst (pgSetPrimaryKey u i d)"
| "pg_key_op now (KoDropAccount u) d = fst (pgDeleteUser u d)"
| "pg_key_op now KoStart d = pgBackfillPrimary d"

lemma first_ranked_in: "first_ranked le x xs \<in> set (x # xs)"
  by (induction xs arbitrary: x) (auto split: if_splits)

lemma ranks_first_mem: "ranks_first part le r t \<Longrightarrow> r \<in> set t"
proof -
  assume "ranks_first part le r t"
  then obtain x xs where "filter (\<lambda>x. part x = part r) t = x # xs" "first_ranked le x xs = r"
    by (auto simp: ranks_first_def split: list.splits)
  then have "r \<in> set (filter (\<lambda>x. part x = part r) t)" using first_ranked_in [of le x xs] by simp
  then show ?thesis by simp
qed

lemma ranks_first_unique: "ranks_first part le r t \<Longrightarrow> ranks_first part le s t \<Longrightarrow> part r = part s \<Longrightarrow> r = s"
  by (auto simp: ranks_first_def split: list.splits)

lemma ranks_first_ex: "x \<in> set t \<Longrightarrow> \<exists>r \<in> set t. part r = part x \<and> ranks_first part le r t"
proof -
  assume "x \<in> set t"
  then obtain y ys where f: "filter (\<lambda>z. part z = part x) t = y # ys"
    by (cases "filter (\<lambda>z. part z = part x) t") (auto simp: filter_empty_conv)
  have "first_ranked le y ys \<in> set (filter (\<lambda>z. part z = part x) t)" unfolding f by (rule first_ranked_in)
  then have r: "first_ranked le y ys \<in> set t" "part (first_ranked le y ys) = part x" by simp_all
  then have "ranks_first part le (first_ranked le y ys) t" by (simp add: ranks_first_def f)
  with r show ?thesis by blast
qed

lemma one_primaryD:
  "one_primary d \<Longrightarrow> k \<in> set (pg_keys d) \<Longrightarrow> k' \<in> set (pg_keys d) \<Longrightarrow> k_is_primary k \<Longrightarrow> k_is_primary k' \<Longrightarrow>
     k_owner_id k \<noteq> [] \<Longrightarrow> k_owner_id k = k_owner_id k' \<Longrightarrow> k_id k = k_id k'"
  unfolding one_primary_def by blast

lemma one_primaryI:
  "(\<And>k k'. k \<in> set (pg_keys d) \<Longrightarrow> k' \<in> set (pg_keys d) \<Longrightarrow> k_is_primary k \<Longrightarrow> k_is_primary k' \<Longrightarrow>
     k_owner_id k \<noteq> [] \<Longrightarrow> k_owner_id k = k_owner_id k' \<Longrightarrow> k_id k = k_id k') \<Longrightarrow> one_primary d"
  unfolding one_primary_def by blast

lemma one_primary_via:
  assumes "one_primary d"
    and via: "\<And>k'. k' \<in> set (pg_keys d') \<Longrightarrow> k_is_primary k' \<Longrightarrow> k_owner_id k' \<noteq> [] \<Longrightarrow>
       \<exists>k \<in> set (pg_keys d). k_id k = k_id k' \<and> k_owner_id k = k_owner_id k' \<and> k_is_primary k"
  shows "one_primary d'"
proof (rule one_primaryI)
  fix a b assume ab: "a \<in> set (pg_keys d')" "b \<in> set (pg_keys d')" "k_is_primary a" "k_is_primary b" "k_owner_id a \<noteq> []"
    "k_owner_id a = k_owner_id b"
  obtain a' where a': "a' \<in> set (pg_keys d)" "k_id a' = k_id a" "k_owner_id a' = k_owner_id a" "k_is_primary a'"
    using via [OF ab(1,3,5)] by blast
  obtain b' where b': "b' \<in> set (pg_keys d)" "k_id b' = k_id b" "k_owner_id b' = k_owner_id b" "k_is_primary b'"
    using via [OF ab(2,4)] ab(5,6) by auto
  have "k_id a' = k_id b'" by (rule one_primaryD [OF assms(1) a'(1) b'(1) a'(4) b'(4)]) (use ab a' b' in auto)
  then show "k_id a = k_id b" using a'(2) b'(2) by simp
qed

text \<open>Both updates of \<open>SetPrimaryKey\<close> in one.\<close>

definition mark_primary :: "string \<Rightarrow> string \<Rightarrow> key \<Rightarrow> key" where
  "mark_primary u i k = (if nullable_eq (k_owner_id k) u then k\<lparr>k_is_primary := (k_id k = i)\<rparr> else k)"

lemma set_primary_eq:
  "pgSetPrimaryKey u i d = (if \<exists>k \<in> set (pg_keys d). k_id k = i \<and> nullable_eq (k_owner_id k) u
     then (d\<lparr>pg_keys := map (mark_primary u i) (pg_keys d)\<rparr>, Inr ()) else (d, Inl (Known ErrKeyNotFound)))"
proof -
  define clear where "clear k = (if nullable_eq (k_owner_id k) u \<and> k_is_primary k then k\<lparr>k_is_primary := False\<rparr> else k)" for k :: key
  let ?Q = "\<lambda>k. k_id k = i \<and> nullable_eq (k_owner_id k) u"
  let ?f = "\<lambda>k. k\<lparr>k_is_primary := True\<rparr>"
  have Q: "?Q (clear k) = ?Q k" for k by (simp add: clear_def)
  have mark: "(if ?Q (clear k) then ?f (clear k) else clear k) = mark_primary u i k" for k
    by (cases k) (simp add: clear_def mark_primary_def)
  have upd: "sql_update ?Q ?f (map clear (pg_keys d)) = (map (mark_primary u i) (pg_keys d), length (filter ?Q (map clear (pg_keys d))))"
    unfolding sql_update_def map_map comp_def mark by (rule refl)
  have n: "length (filter ?Q (map clear (pg_keys d))) = 0 \<longleftrightarrow> \<not> (\<exists>k \<in> set (pg_keys d). ?Q k)"
    unfolding length_0_conv filter_empty_conv set_map ball_simps Q by blast
  have c: "fst (sql_update (\<lambda>k. nullable_eq (k_owner_id k) u \<and> k_is_primary k) (\<lambda>k. k\<lparr>k_is_primary := False\<rparr>) (pg_keys d)) = map clear (pg_keys d)"
    unfolding sql_update_def clear_def by simp
  show ?thesis unfolding pgSetPrimaryKey_def Let_def c upd using n by simp
qed

lemma one_primary_mark:
  assumes "one_primary d"
  shows "one_primary (d\<lparr>pg_keys := map (mark_primary u i) (pg_keys d)\<rparr>)"
proof (rule one_primaryI)
  fix a b assume "a \<in> set (pg_keys (d\<lparr>pg_keys := map (mark_primary u i) (pg_keys d)\<rparr>))"
    "b \<in> set (pg_keys (d\<lparr>pg_keys := map (mark_primary u i) (pg_keys d)\<rparr>))"
    and p: "k_is_primary a" "k_is_primary b" "k_owner_id a \<noteq> []" "k_owner_id a = k_owner_id b"
  then obtain a' b' where a': "a' \<in> set (pg_keys d)" "a = mark_primary u i a'" and b': "b' \<in> set (pg_keys d)" "b = mark_primary u i b'" by auto
  have o: "k_owner_id a = k_owner_id a'" "k_owner_id b = k_owner_id b'" "k_id a = k_id a'" "k_id b = k_id b'"
    using a'(2) b'(2) by (simp_all add: mark_primary_def)
  show "k_id a = k_id b"
  proof (cases "nullable_eq (k_owner_id a') u")
    case True
    then have "nullable_eq (k_owner_id b') u" using p(4) o by simp
    then show ?thesis using True p(1,2) a'(2) b'(2) by (simp add: mark_primary_def)
  next
    case False
    then have "\<not> nullable_eq (k_owner_id b') u" using p(4) o by simp
    then have "k_is_primary a'" "k_is_primary b'" using False p(1,2) a'(2) b'(2) by (simp_all add: mark_primary_def)
    then show ?thesis using one_primaryD [OF assms(1) a'(1) b'(1)] p(3,4) o by simp
  qed
qed

text \<open>Owners without a primary key, and the keys the start chooses for them.\<close>

definition ownerless_primary :: "pg \<Rightarrow> key list" where
  "ownerless_primary d = filter (\<lambda>k. k_owner_id k \<noteq> '''' \<and>
     \<not> list_ex (\<lambda>k'. k_is_primary k' \<and> k_owner_id k' = k_owner_id k) (pg_keys d)) (pg_keys d)"

definition chosen_primary :: "pg \<Rightarrow> key \<Rightarrow> bool" where
  "chosen_primary d k \<longleftrightarrow> ranks_first k_owner_id named_first k (ownerless_primary d)"

lemma chosen_mem: "chosen_primary d k \<Longrightarrow> k \<in> set (pg_keys d) \<and> k_owner_id k \<noteq> [] \<and>
    (\<forall>k' \<in> set (pg_keys d). k_owner_id k' = k_owner_id k \<longrightarrow> \<not> k_is_primary k')"
  unfolding chosen_primary_def using ranks_first_mem [of k_owner_id named_first k "ownerless_primary d"]
  by (auto simp: ownerless_primary_def list_ex_iff)

lemma backfill_primary_eq:
  assumes "distinct (map k_id (pg_keys d))"
  shows "pg_keys (pgBackfillPrimary d) = map (\<lambda>k. if chosen_primary d k then k\<lparr>k_is_primary := True\<rparr> else k) (pg_keys d)"
proof -
  have "k_id k \<in> set (map k_id (filter (\<lambda>k. ranks_first k_owner_id named_first k (ownerless_primary d)) (ownerless_primary d))) \<longleftrightarrow>
      chosen_primary d k" if "k \<in> set (pg_keys d)" for k
  proof
    assume "k_id k \<in> set (map k_id (filter (\<lambda>k. ranks_first k_owner_id named_first k (ownerless_primary d)) (ownerless_primary d)))"
    then obtain c where c: "chosen_primary d c" "k_id c = k_id k" by (auto simp: chosen_primary_def)
    then have "c = k" using chosen_mem [OF c(1)] distinct_map_eq [OF assms _ that c(2)] by blast
    with c show "chosen_primary d k" by simp
  next
    assume c: "chosen_primary d k"
    then have "k \<in> set (ownerless_primary d)" unfolding chosen_primary_def by (rule ranks_first_mem)
    with c show "k_id k \<in> set (map k_id (filter (\<lambda>k. ranks_first k_owner_id named_first k (ownerless_primary d)) (ownerless_primary d)))"
      by (auto simp: chosen_primary_def)
  qed
  then show ?thesis unfolding pgBackfillPrimary_def Let_def ownerless_primary_def [symmetric]
    by (auto simp: sql_update_def intro!: map_cong)
qed

lemma one_primary_backfill:
  assumes "one_primary d" "distinct (map k_id (pg_keys d))"
  shows "one_primary (pgBackfillPrimary d)"
proof (rule one_primaryI)
  let ?f = "\<lambda>k. if chosen_primary d k then k\<lparr>k_is_primary := True\<rparr> else k"
  fix a b assume "a \<in> set (pg_keys (pgBackfillPrimary d))" "b \<in> set (pg_keys (pgBackfillPrimary d))"
    and p: "k_is_primary a" "k_is_primary b" "k_owner_id a \<noteq> []" "k_owner_id a = k_owner_id b"
  then obtain a' b' where a': "a' \<in> set (pg_keys d)" "a = ?f a'" and b': "b' \<in> set (pg_keys d)" "b = ?f b'"
    unfolding backfill_primary_eq [OF assms(2)] by auto
  have o: "k_owner_id a = k_owner_id a'" "k_owner_id b = k_owner_id b'" "k_id a = k_id a'" "k_id b = k_id b'"
    using a'(2) b'(2) by simp_all
  have own: "k_owner_id a' = k_owner_id b'" "k_owner_id a' \<noteq> []" using p(3,4) o by simp_all
  show "k_id a = k_id b"
  proof (cases "chosen_primary d a'")
    case True
    then have "\<not> k_is_primary b'" using chosen_mem [OF True] b'(1) own(1) by simp
    then have "chosen_primary d b'" using p(2) b'(2) by (cases "chosen_primary d b'") simp_all
    then have "a' = b'" using True own(1) unfolding chosen_primary_def by (blast dest: ranks_first_unique)
    then show ?thesis using o by simp
  next
    case False
    then have a1: "k_is_primary a'" using p(1) a'(2) by simp
    have "\<not> chosen_primary d b'"
    proof
      assume "chosen_primary d b'"
      from chosen_mem [OF this] a'(1) own(1) a1 show False by simp
    qed
    then have "k_is_primary b'" using p(2) b'(2) by simp
    then show ?thesis using one_primaryD [OF assms(1) a'(1) b'(1) a1] own o by simp
  qed
qed

definition keys_ok :: "pg \<Rightarrow> bool" where
  "keys_ok d \<longleftrightarrow> distinct (map k_id (pg_keys d)) \<and> one_primary d"

lemma keys_ok_via:
  assumes "keys_ok d" "distinct (map k_id (pg_keys d'))"
    and "\<And>k'. k' \<in> set (pg_keys d') \<Longrightarrow> k_is_primary k' \<Longrightarrow> k_owner_id k' \<noteq> [] \<Longrightarrow>
       \<exists>k \<in> set (pg_keys d). k_id k = k_id k' \<and> k_owner_id k = k_owner_id k' \<and> k_is_primary k"
  shows "keys_ok d'"
  using assms one_primary_via [of d d'] by (simp add: keys_ok_def)

lemma keys_ok_filter: "keys_ok d \<Longrightarrow> pg_keys d' = filter P (pg_keys d) \<Longrightarrow> keys_ok d'"
  by (rule keys_ok_via) (auto simp: keys_ok_def distinct_map_filter)

lemma keys_ok_map:
  assumes "keys_ok d" "pg_keys d' = map f (pg_keys d)"
    and "\<And>k. k_id (f k) = k_id k \<and> k_owner_id (f k) = k_owner_id k \<and> k_is_primary (f k) = k_is_primary k"
  shows "keys_ok d'"
  by (rule keys_ok_via [OF assms(1)]) (use assms in \<open>auto simp: keys_ok_def comp_def\<close>)

lemma filter_map_fixed: "(\<And>x. P (f x) = P x) \<Longrightarrow> (\<And>x. P x \<Longrightarrow> f x = x) \<Longrightarrow> filter P (map f xs) = filter P xs"
  by (induction xs) auto

lemma keys_ok_update:
  assumes "keys_ok d" "pg_keys d' = fst (sql_update P f (pg_keys d))"
    and "\<And>k. k_id (f k) = k_id k \<and> k_owner_id (f k) = k_owner_id k \<and> k_is_primary (f k) = k_is_primary k"
  shows "keys_ok d'"
  by (rule keys_ok_map [OF assms(1), of d' "\<lambda>r. if P r then f r else r"]) (use assms(2,3) in \<open>simp_all add: sql_update_def\<close>)

lemma keys_ok_step: "keys_ok d \<Longrightarrow> keys_ok (pg_key_op now op d)"
proof (cases op)
  assume ok: "keys_ok d"
  case (KoCreate k)
  have pf: "pg_keys (pgEnsurePlatformUser now pk d) = pg_keys d" for pk by (simp add: pgEnsurePlatformUser_def on_platform_def)
  have row: "\<not> k_is_primary (key_row k)" "k_id (key_row k) = k_id k" by (simp_all add: key_row_def)
  have "pg_keys (fst (pgCreateKey now k d)) = pg_keys d \<or>
      (pg_keys (fst (pgCreateKey now k d)) = pg_keys d @ [key_row k] \<and> k_id k \<notin> k_id ` set (pg_keys d))"
    using row(2) by (auto simp: pgCreateKey_def Let_def sql_insert_def pf list_ex_iff key_clash_def)
  then have "keys_ok (fst (pgCreateKey now k d))"
  proof (elim disjE conjE)
    assume "pg_keys (fst (pgCreateKey now k d)) = pg_keys d"
    then show ?thesis using ok unfolding keys_ok_def one_primary_def by metis
  next
    assume k: "pg_keys (fst (pgCreateKey now k d)) = pg_keys d @ [key_row k]" "k_id k \<notin> k_id ` set (pg_keys d)"
    show ?thesis by (rule keys_ok_via [OF ok]) (use ok k row in \<open>auto simp: keys_ok_def\<close>)
  qed
  then show ?thesis using KoCreate by simp
next
  assume ok: "keys_ok d"
  case (KoUpdate k)
  have "keys_ok (fst (pgUpdateKey k d))"
    by (rule keys_ok_update [OF ok]) (simp add: pgUpdateKey_def case_prod_beta, simp)
  with KoUpdate show ?thesis by simp
next
  assume ok: "keys_ok d"
  case (KoEncrypt i c m)
  have "keys_ok (fst (pgUpdateKeyEncryption i c m d))"
    by (rule keys_ok_update [OF ok]) (simp add: pgUpdateKeyEncryption_def case_prod_beta, simp)
  with KoEncrypt show ?thesis by simp
next
  assume ok: "keys_ok d"
  case (KoDelete i)
  then show ?thesis using keys_ok_filter [OF ok] by (simp add: delete_key_frame(1))
next
  assume ok: "keys_ok d"
  case (KoPrimary u i)
  have "k_id \<circ> mark_primary u i = k_id" by (auto simp: fun_eq_iff mark_primary_def)
  then show ?thesis using ok one_primary_mark [of d u i] KoPrimary by (simp add: set_primary_eq keys_ok_def)
next
  assume ok: "keys_ok d"
  case (KoDropAccount u)
  then show ?thesis using ok keys_ok_filter [OF ok]
    by (auto simp: pgDeleteUser_def drop_account_def drop_keys_def Let_def sql_delete_def)
next
  assume ok: "keys_ok d"
  case KoStart
  have "distinct (map k_id (pg_keys d))" using ok by (simp add: keys_ok_def)
  moreover have "map k_id (pg_keys (pgBackfillPrimary d)) = map k_id (pg_keys d)"
    unfolding backfill_primary_eq [OF calculation] by simp
  ultimately show ?thesis using ok one_primary_backfill [of d] KoStart by (simp add: keys_ok_def)
qed

text \<open>
  C40. Over any run of key operations, account deletions and starts of replicas an account has at most one
  primary key. \<open>SetPrimaryKey\<close> makes exactly the named key of that owner primary, and changes nothing when
  the owner has no such key; a start gives a primary key to exactly the owners that have none.
\<close>

theorem pg_one_primary:
  assumes "keys_ok d"
  shows "keys_ok (foldl (\<lambda>d (now, op). pg_key_op now op d) d ops) \<and>
    (case pgSetPrimaryKey u i d of
       (d', Inr _) \<Rightarrow> (\<forall>k \<in> set (pg_keys d'). nullable_eq (k_owner_id k) u \<longrightarrow> (k_is_primary k \<longleftrightarrow> k_id k = i)) \<and>
         filter (\<lambda>k. \<not> nullable_eq (k_owner_id k) u) (pg_keys d') = filter (\<lambda>k. \<not> nullable_eq (k_owner_id k) u) (pg_keys d)
     | (d', Inl _) \<Rightarrow> d' = d) \<and>
    (\<forall>k \<in> set (pg_keys (pgBackfillPrimary d)). k_owner_id k \<noteq> '''' \<longrightarrow>
       (\<exists>k' \<in> set (pg_keys (pgBackfillPrimary d)). k_owner_id k' = k_owner_id k \<and> k_is_primary k')) \<and>
    (\<forall>k \<in> set (pg_keys d). k_is_primary k \<longrightarrow>
       filter (\<lambda>k'. k_owner_id k' = k_owner_id k) (pg_keys (pgBackfillPrimary d)) = filter (\<lambda>k'. k_owner_id k' = k_owner_id k) (pg_keys d))"
proof -
  have ids: "distinct (map k_id (pg_keys d))" using assms by (simp add: keys_ok_def)
  have run: "keys_ok (foldl (\<lambda>d (now, op). pg_key_op now op d) d ops)"
    using assms by (induction ops arbitrary: d) (auto simp: keys_ok_step)
  have set: "case pgSetPrimaryKey u i d of
       (d', Inr _) \<Rightarrow> (\<forall>k \<in> set (pg_keys d'). nullable_eq (k_owner_id k) u \<longrightarrow> (k_is_primary k \<longleftrightarrow> k_id k = i)) \<and>
         filter (\<lambda>k. \<not> nullable_eq (k_owner_id k) u) (pg_keys d') = filter (\<lambda>k. \<not> nullable_eq (k_owner_id k) u) (pg_keys d)
     | (d', Inl _) \<Rightarrow> d' = d"
  proof -
    have "filter (\<lambda>k. \<not> nullable_eq (k_owner_id k) u) (map (mark_primary u i) ks) = filter (\<lambda>k. \<not> nullable_eq (k_owner_id k) u) ks" for ks
      by (induction ks) (simp_all add: mark_primary_def)
    moreover have "k_is_primary k \<longleftrightarrow> k_id k = i" if "k \<in> mark_primary u i ` set (pg_keys d)" "nullable_eq (k_owner_id k) u" for k
      using that by (auto simp: mark_primary_def split: if_splits)
    ultimately show ?thesis unfolding set_primary_eq by auto
  qed
  let ?f = "\<lambda>k. if chosen_primary d k then k\<lparr>k_is_primary := True\<rparr> else k"
  note bp = backfill_primary_eq [OF ids]
  have given: "\<exists>k' \<in> set (pg_keys (pgBackfillPrimary d)). k_owner_id k' = k_owner_id k \<and> k_is_primary k'"
    if k: "k \<in> set (pg_keys (pgBackfillPrimary d))" "k_owner_id k \<noteq> []" for k
  proof -
    obtain k0 where k0: "k0 \<in> set (pg_keys d)" "k_owner_id k0 = k_owner_id k" using k(1) unfolding bp by auto
    show ?thesis
    proof (cases "\<exists>p \<in> set (pg_keys d). k_is_primary p \<and> k_owner_id p = k_owner_id k")
      case True
      then obtain p where "p \<in> set (pg_keys d)" "k_is_primary p" "k_owner_id p = k_owner_id k" by blast
      then show ?thesis unfolding bp by (intro bexI [of _ "?f p"]) auto
    next
      case False
      then have "k0 \<in> set (ownerless_primary d)" using k0 k(2) by (auto simp: ownerless_primary_def list_ex_iff)
      from ranks_first_ex [OF this, of k_owner_id named_first]
      obtain c where c: "c \<in> set (pg_keys d)" "k_owner_id c = k_owner_id k" "chosen_primary d c"
        using k0(2) by (auto simp: chosen_primary_def ownerless_primary_def)
      then show ?thesis unfolding bp by (intro bexI [of _ "?f c"]) auto
    qed
  qed
  have kept: "filter (\<lambda>k'. k_owner_id k' = k_owner_id k) (pg_keys (pgBackfillPrimary d)) = filter (\<lambda>k'. k_owner_id k' = k_owner_id k) (pg_keys d)"
    if k: "k \<in> set (pg_keys d)" "k_is_primary k" for k
  proof -
    have "\<not> chosen_primary d k'" if "k_owner_id k' = k_owner_id k" for k'
      using chosen_mem [of d k'] k that by auto
    then show ?thesis unfolding bp by (intro filter_map_fixed) auto
  qed
  show ?thesis by (intro conjI ballI impI run set given kept)
qed

definition toy_owner :: pg where
  "toy_owner = toy_pg\<lparr>pg_keys := [(toy_key ''aa1'' False)\<lparr>k_owner_id := ''u'', k_created_at := 5\<rparr>, (toy_key ''bb1'' False)\<lparr>k_owner_id := ''u'', k_created_at := 2\<rparr>]\<rparr>"

theorem pg_one_primary_witness:
  "keys_ok (foldl (\<lambda>d (now, op). pg_key_op now op d) toy_owner [(1, KoStart), (2, KoPrimary ''u'' ''aa''), (3, KoStart)]) \<and>
   map k_is_primary (pg_keys (foldl (\<lambda>d (now, op). pg_key_op now op d) toy_owner [(1, KoStart), (2, KoPrimary ''u'' ''aa''), (3, KoStart)])) = [True, False]"
proof -
  have "keys_ok toy_owner" by (simp add: keys_ok_def toy_owner_def one_primary_def) (simp add: toy_key_def)
  from pg_one_primary [OF this] show ?thesis by (intro conjI) (blast, code_simp)
qed

end
